(* ===== verification/Ngx_Prelude.thy ===== *)
theory Ngx_Prelude
  imports Main "HOL-Library.Word"
begin

unbundle bit_operations_syntax

section \<open>Shared types, byte constants and lemmas\<close>

text \<open>
  The vocabulary of the development.  A \<open>u_char\<close> is an 8-bit word, \<open>uint32_t\<close> a 32-bit word, and
  \<open>ngx_int_t\<close>, \<open>ngx_uint_t\<close>, \<open>size_t\<close>, \<open>off_t\<close> and \<open>time_t\<close> are 64-bit words, as on the LP64
  platforms nginx is built for: addition and multiplication wrap around, \<open>sint\<close> reads the signed
  value.  A region of memory is a list of bytes and a pointer into it an index; \<open>NULL\<close> is \<open>None\<close>.
  The theory also holds the byte constants (named as in the C sources where they have a name
  there), the result codes of \<open>ngx_core.h\<close> and \<open>ngx_http_request.h\<close>, the case-folding macros of
  \<open>ngx_string.h\<close>, and the generic lemmas the components share.
\<close>

subsection \<open>Types\<close>

type_synonym byte = "8 word"
type_synonym u16 = "16 word"
type_synonym u32 = "32 word"
type_synonym u64 = "64 word"
type_synonym bytes = "byte list"
type_synonym ptr = "nat option"

text \<open>Result codes of \<open>ngx_core.h\<close> (30--36) and \<open>ngx_http_request.h\<close> (51--58).\<close>

datatype ngx_rc =
    NGX_OK
  | NGX_ERROR
  | NGX_AGAIN
  | NGX_DECLINED
  | NGX_HTTP_PARSE_HEADER_DONE
  | NGX_HTTP_PARSE_INVALID_METHOD
  | NGX_HTTP_PARSE_INVALID_REQUEST
  | NGX_HTTP_PARSE_INVALID_09_METHOD
  | NGX_HTTP_PARSE_INVALID_HEADER

subsection \<open>Byte constants\<close>

abbreviation (input) NUL :: byte where "NUL \<equiv> 0"
abbreviation (input) TAB :: byte where "TAB \<equiv> 9"
abbreviation (input) LF :: byte where "LF \<equiv> 10"
abbreviation (input) CR :: byte where "CR \<equiv> 13"
abbreviation (input) ch_space :: byte where "ch_space \<equiv> 0x20"
abbreviation (input) ch_quot :: byte where "ch_quot \<equiv> 0x22"
abbreviation (input) ch_hash :: byte where "ch_hash \<equiv> 0x23"
abbreviation (input) ch_percent :: byte where "ch_percent \<equiv> 0x25"
abbreviation (input) ch_amp :: byte where "ch_amp \<equiv> 0x26"
abbreviation (input) ch_plus :: byte where "ch_plus \<equiv> 0x2B"
abbreviation (input) ch_comma :: byte where "ch_comma \<equiv> 0x2C"
abbreviation (input) ch_dash :: byte where "ch_dash \<equiv> 0x2D"
abbreviation (input) ch_dot :: byte where "ch_dot \<equiv> 0x2E"
abbreviation (input) ch_slash :: byte where "ch_slash \<equiv> 0x2F"
abbreviation (input) ch_0 :: byte where "ch_0 \<equiv> 0x30"
abbreviation (input) ch_1 :: byte where "ch_1 \<equiv> 0x31"
abbreviation (input) ch_9 :: byte where "ch_9 \<equiv> 0x39"
abbreviation (input) ch_colon :: byte where "ch_colon \<equiv> 0x3A"
abbreviation (input) ch_semi :: byte where "ch_semi \<equiv> 0x3B"
abbreviation (input) ch_lt :: byte where "ch_lt \<equiv> 0x3C"
abbreviation (input) ch_eq :: byte where "ch_eq \<equiv> 0x3D"
abbreviation (input) ch_gt :: byte where "ch_gt \<equiv> 0x3E"
abbreviation (input) ch_quest :: byte where "ch_quest \<equiv> 0x3F"
abbreviation (input) ch_A :: byte where "ch_A \<equiv> 0x41"
abbreviation (input) ch_B :: byte where "ch_B \<equiv> 0x42"
abbreviation (input) ch_C :: byte where "ch_C \<equiv> 0x43"
abbreviation (input) ch_D :: byte where "ch_D \<equiv> 0x44"
abbreviation (input) ch_E :: byte where "ch_E \<equiv> 0x45"
abbreviation (input) ch_F :: byte where "ch_F \<equiv> 0x46"
abbreviation (input) ch_G :: byte where "ch_G \<equiv> 0x47"
abbreviation (input) ch_H :: byte where "ch_H \<equiv> 0x48"
abbreviation (input) ch_I :: byte where "ch_I \<equiv> 0x49"
abbreviation (input) ch_K :: byte where "ch_K \<equiv> 0x4B"
abbreviation (input) ch_L :: byte where "ch_L \<equiv> 0x4C"
abbreviation (input) ch_M :: byte where "ch_M \<equiv> 0x4D"
abbreviation (input) ch_N :: byte where "ch_N \<equiv> 0x4E"
abbreviation (input) ch_O :: byte where "ch_O \<equiv> 0x4F"
abbreviation (input) ch_P :: byte where "ch_P \<equiv> 0x50"
abbreviation (input) ch_R :: byte where "ch_R \<equiv> 0x52"
abbreviation (input) ch_S :: byte where "ch_S \<equiv> 0x53"
abbreviation (input) ch_T :: byte where "ch_T \<equiv> 0x54"
abbreviation (input) ch_U :: byte where "ch_U \<equiv> 0x55"
abbreviation (input) ch_V :: byte where "ch_V \<equiv> 0x56"
abbreviation (input) ch_Y :: byte where "ch_Y \<equiv> 0x59"
abbreviation (input) ch_Z :: byte where "ch_Z \<equiv> 0x5A"
abbreviation (input) ch_uscore :: byte where "ch_uscore \<equiv> 0x5F"
abbreviation (input) ch_a :: byte where "ch_a \<equiv> 0x61"
abbreviation (input) ch_f :: byte where "ch_f \<equiv> 0x66"
abbreviation (input) ch_z :: byte where "ch_z \<equiv> 0x7A"

text \<open>A C string literal as a list of bytes (without the terminator).\<close>

definition str :: "string \<Rightarrow> bytes" where
  "str s = map of_char s"

subsection \<open>Character macros of \<open>ngx_string.h\<close>\<close>

definition ngx_tolower :: "byte \<Rightarrow> byte" where
  "ngx_tolower c = (if ch_A \<le> c \<and> c \<le> ch_Z then c OR 0x20 else c)"

definition ngx_toupper :: "byte \<Rightarrow> byte" where
  "ngx_toupper c = (if ch_a \<le> c \<and> c \<le> ch_z then c AND NOT 0x20 else c)"

definition is_digit :: "byte \<Rightarrow> bool" where
  "is_digit c = (ch_0 \<le> c \<and> c \<le> ch_9)"

text \<open>
  \<open>map[ch >> 5] & (1 << (ch & 0x1f))\<close>: the 256-bit membership tables that the request parsers and
  the escaping routines keep as eight 32-bit words.
\<close>

definition bitmap_test :: "u32 list \<Rightarrow> byte \<Rightarrow> bool" where
  "bitmap_test tbl ch = ((tbl ! unat (drop_bit 5 ch)) AND push_bit (unat (ch AND 0x1f)) 1 \<noteq> 0)"

subsection \<open>Exhaustive arguments over bytes\<close>

definition byte_codes :: "nat list" where
  "byte_codes =
    [0, 1, 2, 3, 4, 5, 6, 7, 8, 9, 10, 11, 12, 13, 14, 15, 16, 17, 18, 19, 20, 21, 22,
    23, 24, 25, 26, 27, 28, 29, 30, 31, 32, 33, 34, 35, 36, 37, 38, 39, 40, 41, 42, 43,
    44, 45, 46, 47, 48, 49, 50, 51, 52, 53, 54, 55, 56, 57, 58, 59, 60, 61, 62, 63, 64,
    65, 66, 67, 68, 69, 70, 71, 72, 73, 74, 75, 76, 77, 78, 79, 80, 81, 82, 83, 84, 85,
    86, 87, 88, 89, 90, 91, 92, 93, 94, 95, 96, 97, 98, 99, 100, 101, 102, 103, 104,
    105, 106, 107, 108, 109, 110, 111, 112, 113, 114, 115, 116, 117, 118, 119, 120, 121,
    122, 123, 124, 125, 126, 127, 128, 129, 130, 131, 132, 133, 134, 135, 136, 137, 138,
    139, 140, 141, 142, 143, 144, 145, 146, 147, 148, 149, 150, 151, 152, 153, 154, 155,
    156, 157, 158, 159, 160, 161, 162, 163, 164, 165, 166, 167, 168, 169, 170, 171, 172,
    173, 174, 175, 176, 177, 178, 179, 180, 181, 182, 183, 184, 185, 186, 187, 188, 189,
    190, 191, 192, 193, 194, 195, 196, 197, 198, 199, 200, 201, 202, 203, 204, 205, 206,
    207, 208, 209, 210, 211, 212, 213, 214, 215, 216, 217, 218, 219, 220, 221, 222, 223,
    224, 225, 226, 227, 228, 229, 230, 231, 232, 233, 234, 235, 236, 237, 238, 239, 240,
    241, 242, 243, 244, 245, 246, 247, 248, 249, 250, 251, 252, 253, 254, 255]"

lemma byte_codes_upt: "byte_codes = [0..<256]"
  unfolding byte_codes_def by code_simp

lemma byte_allI:
  assumes "list_all (\<lambda>n. P (word_of_nat n)) byte_codes"
  shows "P (b :: byte)"
proof -
  have "unat b < 256" using unsigned_less [of b] by simp
  with assms have "P (word_of_nat (unat b))"
    unfolding byte_codes_upt list_all_iff by (metis atLeastLessThan_iff le0 set_upt)
  then show ?thesis by simp
qed

lemma list_all_upt: "list_all P [m..<n] \<Longrightarrow> m \<le> a \<Longrightarrow> a < n \<Longrightarrow> P a"
  by (simp add: list_all_iff)

lemma unat_byte_less: "unat (b :: byte) < 256"
  using unsigned_less [of b] by simp

lemma and_exp_neq_0: "(w :: 'a::len word) AND 2 ^ n \<noteq> 0 \<longleftrightarrow> bit w n"
  by (simp add: and_exp_eq_0_iff_not_bit)

lemma unat_byte_shift5: "unat (drop_bit 5 (ch :: byte)) = unat ch div 32"
  by (simp add: drop_bit_eq_div unat_div)

lemma unat_byte_and31: "unat (ch AND 0x1f :: byte) = unat ch mod 32"
proof -
  have "ch AND mask 5 = ch mod 2 ^ 5"
    by (simp only: take_bit_eq_mask [symmetric] take_bit_eq_mod)
  then show ?thesis by (simp add: mask_eq_exp_minus_1 unat_mod)
qed

lemma bitmap_test_bit: "bitmap_test tbl ch = bit (tbl ! (unat ch div 32)) (unat ch mod 32)"
  unfolding bitmap_test_def unat_byte_shift5 unat_byte_and31
  by (simp add: and_exp_neq_0)

text \<open>
  A membership table is characterised by checking each of the 256 codes once; \<open>codes\<close> lists the
  bytes that are not in the table.
\<close>

lemma unat_in_codes_iff:
  assumes "list_all (\<lambda>n. n < 256) codes"
  shows "unat (ch :: byte) \<in> set codes \<longleftrightarrow> ch \<in> set (map word_of_nat codes)"
proof
  assume "ch \<in> set (map word_of_nat codes)"
  then obtain n where n: "n \<in> set codes" "ch = word_of_nat n" by auto
  with assms have "n < 256" by (simp add: list_all_iff)
  with n(2) have "unat ch = n" by (simp add: unsigned_of_nat take_bit_nat_eq_self)
  with n(1) show "unat ch \<in> set codes" by simp
qed (force intro: image_eqI [where x = "unat ch"])

lemma bitmap_test_iff:
  assumes "list_all (\<lambda>n. n < 256) codes"
    and "list_all (\<lambda>n. bit (tbl ! (n div 32)) (n mod 32) \<longleftrightarrow> n \<notin> set codes) byte_codes"
  shows "bitmap_test tbl ch \<longleftrightarrow> ch \<notin> set (map word_of_nat codes)"
proof -
  have "bitmap_test tbl ch \<longleftrightarrow> unat ch \<notin> set codes"
    using assms(2) unat_byte_less [of ch]
    unfolding byte_codes_upt bitmap_test_bit list_all_iff by simp
  then show ?thesis by (simp only: unat_in_codes_iff [OF assms(1)])
qed

lemma replicate_numeral: "replicate (numeral k) x = x # replicate (pred_numeral k) x"
  by (simp add: numeral_eq_Suc)

lemma ngx_tolower_upper: "ch_A \<le> c \<Longrightarrow> c \<le> ch_Z \<Longrightarrow> ngx_tolower c = c + 32"
  using byte_allI [where P = "\<lambda>c. ch_A \<le> c \<and> c \<le> ch_Z \<longrightarrow> ngx_tolower c = c + 32" and b = c]
  by (simp add: byte_codes_def ngx_tolower_def)

lemma ngx_tolower_cases: "ngx_tolower c = (if ch_A \<le> c \<and> c \<le> ch_Z then c + 32 else c)"
  using ngx_tolower_upper [of c] by (simp add: ngx_tolower_def)

lemma and_31: "(n :: nat) AND 31 = n mod 32"
proof -
  have "n AND mask 5 = n mod 2 ^ 5" by (metis take_bit_eq_mask take_bit_eq_mod)
  then show ?thesis by (simp add: mask_eq_exp_minus_1)
qed

subsection \<open>Parts of a buffer\<close>

text \<open>A read of one byte; \<open>None\<close> stands for a read outside the memory.\<close>

definition peek :: "bytes \<Rightarrow> nat \<Rightarrow> byte option" where
  "peek d i = (if i < length d then Some (d ! i) else None)"

definition bslice :: "nat \<Rightarrow> nat \<Rightarrow> 'a list \<Rightarrow> 'a list" where
  "bslice s e b = take (e - s) (drop s b)"

lemma bslice_Suc: "s \<le> e \<Longrightarrow> e < length b \<Longrightarrow> bslice s (Suc e) b = bslice s e b @ [b ! e]"
  by (simp add: bslice_def Suc_diff_le take_Suc_conv_app_nth)

lemma bslice_empty [simp]: "bslice s s b = []"
  by (simp add: bslice_def)

lemma bslice_one: "s < length b \<Longrightarrow> bslice s (Suc s) b = [b ! s]"
  by (simp add: bslice_Suc)

lemma length_bslice: "e \<le> length b \<Longrightarrow> length (bslice s e b) = e - s"
  by (simp add: bslice_def)

lemma bslice_nth: "s + k < e \<Longrightarrow> e \<le> length b \<Longrightarrow> bslice s e b ! k = b ! (s + k)"
  by (simp add: bslice_def)

lemma bslice_Cons: "s < e \<Longrightarrow> e \<le> length b \<Longrightarrow> bslice s e b = b ! s # bslice (Suc s) e b"
  by (simp add: bslice_def Cons_nth_drop_Suc [symmetric] Suc_diff_Suc [symmetric])

subsection \<open>Decimal digits\<close>

text \<open>The number that a string of decimal digits denotes.\<close>

definition dec_value :: "bytes \<Rightarrow> nat" where
  "dec_value ds = foldl (\<lambda>v c. v * 10 + (unat c - 48)) 0 ds"

lemma dec_value_snoc: "dec_value (ds @ [c]) = dec_value ds * 10 + (unat c - 48)"
  by (simp add: dec_value_def)

lemma dec_value_Nil [simp]: "dec_value [] = 0"
  by (simp add: dec_value_def)

lemma unat_digit: "is_digit c \<Longrightarrow> unat (c - ch_0) = unat c - 48"
  by (simp add: is_digit_def word_le_nat_alt unat_sub)

lemma ucast_digit: "is_digit c \<Longrightarrow> (ucast (c - ch_0) :: 'a::len word) = word_of_nat (unat c - 48)"
  by (metis of_nat_unat unat_digit)

lemma is_digit_not: "is_digit c \<Longrightarrow> c \<noteq> CR \<and> c \<noteq> LF \<and> c \<noteq> ch_space \<and> c \<noteq> ch_dot \<and> \<not> c < ch_0 \<and> \<not> c > ch_9"
  by (auto simp: is_digit_def)

lemma word_dec_snoc:
  "is_digit c \<Longrightarrow> (word_of_nat (dec_value ds) * 10 + ucast (c - ch_0) :: 'a::len word) = word_of_nat (dec_value (ds @ [c]))"
  by (simp add: ucast_digit dec_value_snoc)

lemma word_dec_single: "is_digit c \<Longrightarrow> (ucast (c - ch_0) :: 'a::len word) = word_of_nat (dec_value [c])"
  by (simp add: ucast_digit dec_value_def)

lemma dec_value_foldl: "foldl (\<lambda>v c. v * 10 + (unat c - 48)) n ds \<ge> n"
proof (induction ds arbitrary: n)
  case (Cons c ds)
  show ?case using Cons [of "n * 10 + (unat c - 48)"] by simp
qed simp

lemma dec_value_pos:
  assumes "is_digit d" "d \<noteq> ch_0"
  shows "0 < dec_value (d # ds)"
proof -
  have "unat d > 48" using assms unfolding is_digit_def by unat_arith
  then show ?thesis using dec_value_foldl [of "unat d - 48" ds] by (simp add: dec_value_def)
qed

subsection \<open>Division of words\<close>

lemma unat_div_less:
  fixes w k :: "'a::len word"
  assumes "w div k \<noteq> 0" "1 < unat k"
  shows "unat (w div k) < unat w"
proof -
  have "w \<noteq> 0" using assms(1) by (auto simp: word_arith_nat_div)
  then have "0 < unat w" by (simp add: unat_gt_0)
  then show ?thesis using assms(2) by (simp add: unat_div div_less_dividend)
qed

end
