(* ===== verification/Ngx_Scan.thy ===== *)
theory Ngx_Scan
  imports Ngx_Prelude
begin

section \<open>The character loop of the streaming parsers\<close>

text \<open>
  The request-line, header-line and status-line parsers of \<open>ngx_http_parse.c\<close> share one control
  structure: \<open>for (p = b->pos; p < b->last; p++) { ch = *p; switch (state) ... }\<close>, where a case of the
  switch either falls through to the next character, jumps to a label behind the loop, or returns.
  \<open>scan\<close> is that loop over a step function; the bytes from the start of the buffer to
  \<open>b->last\<close> are a list, so \<open>b->last\<close> is its length and data that arrives later is appended to it.
  The locale \<open>resumable\<close> is the interface a parser offers its caller, which calls it again with the
  same request whenever more data has been received: the result must not depend on how the data
  was cut into pieces.
\<close>

datatype ('s, 'r, 'l, 'c) step =
    Next 's 'r
  | Goto 'l 'r
  | Return 'c 'r

datatype ('s, 'r, 'l, 'c) outcome =
    Exhausted nat 's 'r
  | Jumped 'l nat 'r
  | Returned 'c 'r

type_synonym ('s, 'r, 'l, 'c) stepper = "bytes \<Rightarrow> nat \<Rightarrow> byte \<Rightarrow> 's \<Rightarrow> 'r \<Rightarrow> ('s, 'r, 'l, 'c) step"

function scan :: "('s, 'r, 'l, 'c) stepper \<Rightarrow> bytes \<Rightarrow> nat \<Rightarrow> 's \<Rightarrow> 'r \<Rightarrow> ('s, 'r, 'l, 'c) outcome" where
  "scan f buf p st r =
    (if p < length buf
     then (case f buf p (buf ! p) st r of
             Next st' r' \<Rightarrow> scan f buf (Suc p) st' r'
           | Goto l r' \<Rightarrow> Jumped l p r'
           | Return c r' \<Rightarrow> Returned c r')
     else Exhausted p st r)"
  by pat_completeness auto
termination
  by (relation "measure (\<lambda>(f, buf, p, st, r). length buf - p)") auto

declare scan.simps [simp del]

lemma scan_end: "length buf \<le> p \<Longrightarrow> scan f buf p st r = Exhausted p st r"
  by (simp add: scan.simps)

lemma scan_Next: "p < length buf \<Longrightarrow> f buf p (buf ! p) st r = Next st' r' \<Longrightarrow>
    scan f buf p st r = scan f buf (Suc p) st' r'"
  by (simp add: scan.simps [of f buf p st r])

lemma scan_Goto: "p < length buf \<Longrightarrow> f buf p (buf ! p) st r = Goto l r' \<Longrightarrow>
    scan f buf p st r = Jumped l p r'"
  by (simp add: scan.simps [of f buf p st r])

lemma scan_Return: "p < length buf \<Longrightarrow> f buf p (buf ! p) st r = Return c r' \<Longrightarrow>
    scan f buf p st r = Returned c r'"
  by (simp add: scan.simps [of f buf p st r])

text \<open>
  The invariant rule of the loop: \<open>I\<close> is kept by every iteration, so it holds when the data is
  exhausted and before the iteration that jumps or returns.
\<close>

lemma scan_invariant:
  assumes "I p st r"
    and step: "\<And>p st r st' r'. p < length buf \<Longrightarrow> I p st r \<Longrightarrow>
      f buf p (buf ! p) st r = Next st' r' \<Longrightarrow> I (Suc p) st' r'"
  shows "case scan f buf p st r of
      Exhausted q st' r' \<Rightarrow> I q st' r' \<and> length buf \<le> q
    | Jumped l q r' \<Rightarrow> \<exists>st0 r0. I q st0 r0 \<and> q < length buf \<and> f buf q (buf ! q) st0 r0 = Goto l r'
    | Returned c r' \<Rightarrow> \<exists>q st0 r0. I q st0 r0 \<and> q < length buf \<and>
        f buf q (buf ! q) st0 r0 = Return c r'"
  using assms(1)
proof (induction "length buf - p" arbitrary: p st r)
  case 0
  then show ?case by (simp add: scan_end)
next
  case (Suc n)
  then have p: "p < length buf" by simp
  show ?case
  proof (cases "f buf p (buf ! p) st r")
    case (Next st' r')
    then have "I (Suc p) st' r'" using p Suc.prems step by blast
    then show ?thesis
      using Suc.hyps(1) [of "Suc p" st' r'] Suc.hyps(2) Next p by (simp add: scan_Next [where p = p])
  next
    case (Goto l r')
    then show ?thesis using p Suc.prems by (simp add: scan_Goto [where f = f and p = p and buf = buf]) blast
  next
    case (Return c r')
    then show ?thesis using p Suc.prems by (simp add: scan_Return [where f = f and p = p and buf = buf]) blast
  qed
qed

definition scan_keeps :: "('s, 'r, 'l, 'c) stepper \<Rightarrow> bytes \<Rightarrow> (nat \<Rightarrow> 's \<Rightarrow> 'r \<Rightarrow> bool) \<Rightarrow> bool" where
  "scan_keeps f buf I \<longleftrightarrow> (\<forall>p st r st' r'. p < length buf \<longrightarrow> I p st r \<longrightarrow>
     f buf p (buf ! p) st r = Next st' r' \<longrightarrow> I (Suc p) st' r')"

lemma scan_keepsI:
  "(\<And>p st r st' r'. p < length buf \<Longrightarrow> I p st r \<Longrightarrow> f buf p (buf ! p) st r = Next st' r' \<Longrightarrow>
    I (Suc p) st' r') \<Longrightarrow> scan_keeps f buf I"
  by (simp add: scan_keeps_def)

lemma scan_outcome:
  assumes "scan_keeps f buf I" and "I p st r"
  shows "scan f buf p st r = Exhausted q st' r' \<Longrightarrow> I q st' r' \<and> length buf \<le> q"
    and "scan f buf p st r = Jumped l q r' \<Longrightarrow>
      \<exists>st0 r0. I q st0 r0 \<and> q < length buf \<and> f buf q (buf ! q) st0 r0 = Goto l r'"
    and "scan f buf p st r = Returned c r' \<Longrightarrow>
      \<exists>q st0 r0. I q st0 r0 \<and> q < length buf \<and> f buf q (buf ! q) st0 r0 = Return c r'"
  using scan_invariant [of I p st r buf f] assms by (simp_all add: scan_keeps_def)

text \<open>A run of characters that the loop passes without a change.\<close>

lemma scan_run:
  assumes "p \<le> q" and "q \<le> length buf"
    and "\<And>k. p \<le> k \<Longrightarrow> k < q \<Longrightarrow> f buf k (buf ! k) st r = Next st r"
  shows "scan f buf p st r = scan f buf q st r"
  using assms
proof (induction q rule: dec_induct)
  case (step n)
  then have "scan f buf p st r = scan f buf n st r" by simp
  also have "\<dots> = scan f buf (Suc n) st r" using step by (intro scan_Next) auto
  finally show ?case .
qed simp

lemma scan_Exhausted_pos:
  assumes "scan f buf p st r = Exhausted q st' r'" and "p \<le> length buf"
  shows "q = length buf"
  using scan_outcome(1) [where I = "\<lambda>p st r. p \<le> length buf", OF _ assms(2,1)]
  by (simp add: scan_keeps_def)

subsection \<open>Resumable parsers\<close>

text \<open>
  \<open>load\<close> reads the loop's local variables from the request at entry, \<open>save\<close> stores them when the
  parser runs out of data.  The laws: a step looks at no byte behind the current one, and neither
  reads nor writes the saved variables.
\<close>

locale resumable =
  fixes f :: "('s, 'r, 'l, 'c) stepper"
    and load :: "'r \<Rightarrow> 's"
    and save :: "'s \<Rightarrow> 'r \<Rightarrow> 'r"
  assumes step_local: "p < length buf \<Longrightarrow> f (buf @ more) p ch st r = f buf p ch st r"
    and load_save: "load (save s r) = s"
    and step_save: "f buf p ch st (save s r) = map_step id (save s) id id (f buf p ch st r)"
begin

lemma scan_append:
  assumes "p \<le> length buf"
  shows "scan f (buf @ more) p st r =
    (case scan f buf p st r of
       Exhausted q st' r' \<Rightarrow> scan f (buf @ more) q st' r'
     | Jumped l q r' \<Rightarrow> Jumped l q r'
     | Returned c r' \<Rightarrow> Returned c r')"
  using assms
proof (induction "length buf - p" arbitrary: p st r)
  case 0
  then show ?case by (simp add: scan_end)
next
  case (Suc n)
  then have p: "p < length buf" by simp
  then have eq: "f (buf @ more) p ((buf @ more) ! p) st r = f buf p (buf ! p) st r"
    by (simp add: step_local nth_append)
  show ?case
  proof (cases "f buf p (buf ! p) st r")
    case (Next st' r')
    then show ?thesis
      using Suc p eq by (simp add: scan_Next [where p = p])
  next
    case (Goto l r')
    then show ?thesis using p eq by (simp add: scan_Goto [where p = p])
  next
    case (Return c r')
    then show ?thesis using p eq by (simp add: scan_Return [where p = p])
  qed
qed

lemma scan_save: "scan f buf p st (save s r) = map_outcome id (save s) id id (scan f buf p st r)"
proof (induction "length buf - p" arbitrary: p st r)
  case 0
  then show ?case by (simp add: scan_end)
next
  case (Suc n)
  then have p: "p < length buf" by simp
  show ?case
  proof (cases "f buf p (buf ! p) st r")
    case (Next st' r')
    then show ?thesis
      using Suc.hyps(1) [of "Suc p" st' r'] Suc.hyps(2) p
      by (simp add: scan_Next [where p = p] step_save)
  next
    case (Goto l r')
    then show ?thesis using p by (simp add: scan_Goto [where p = p] step_save)
  next
    case (Return c r')
    then show ?thesis using p by (simp add: scan_Return [where p = p] step_save)
  qed
qed

text \<open>
  A run that stopped for lack of data and is continued from the saved request ends as the run over
  the whole data does, but for the saved variables.
\<close>

theorem scan_resume:
  assumes "p \<le> length buf"
    and "scan f buf p (load r) r = Exhausted q st r'"
  shows "scan f (buf @ more) q (load (save st r')) (save st r') =
    map_outcome id (save st) id id (scan f (buf @ more) p (load r) r)"
  by (simp add: scan_append [OF assms(1)] assms(2) load_save scan_save)

end

text \<open>The loop on the bytes that are left: the form in which parses are evaluated.\<close>

primrec scan_on :: "('s, 'r, 'l, 'c) stepper \<Rightarrow> bytes \<Rightarrow> bytes \<Rightarrow> nat \<Rightarrow> 's \<Rightarrow> 'r \<Rightarrow> ('s, 'r, 'l, 'c) outcome" where
  "scan_on f buf [] p st r = Exhausted p st r"
| "scan_on f buf (c # cs) p st r =
    (case f buf p c st r of
       Next st' r' \<Rightarrow> scan_on f buf cs (Suc p) st' r'
     | Goto l r' \<Rightarrow> Jumped l p r'
     | Return rc r' \<Rightarrow> Returned rc r')"

lemma scan_drop: "p \<le> length buf \<Longrightarrow> scan f buf p st r = scan_on f buf (drop p buf) p st r"
proof (induction "length buf - p" arbitrary: p st r)
  case 0
  then show ?case by (simp add: scan_end)
next
  case (Suc n)
  then have p: "p < length buf" by simp
  then have "drop p buf = buf ! p # drop (Suc p) buf" by (simp add: Cons_nth_drop_Suc)
  then show ?case using Suc.hyps p by (simp add: scan.simps [of f buf p] split: step.split)
qed

lemma scan_whole: "scan f buf 0 st r = scan_on f buf buf 0 st r"
  by (simp add: scan_drop)

lemma scan_on_run:
  assumes "\<And>c k. c \<in> set cs \<Longrightarrow> f buf k c st r = Next st r"
  shows "scan_on f buf (cs @ ds) p st r = scan_on f buf ds (p + length cs) st r"
  using assms by (induction cs arbitrary: p) simp_all

end
