(* ===== verification/Ngx_Request.thy ===== *)
theory Ngx_Request
  imports Ngx_Scan
begin

section \<open>The request structure and the request-line parser\<close>

text \<open>
  The fields of \<open>ngx_http_request_t\<close> (\<open>src/http/ngx_http_request.h\<close>) that the request-line parser
  and the URI normaliser read and write, and \<open>ngx_http_parse_request_line\<close> of
  \<open>src/http/ngx_http_parse.c\<close>, one definition per case of its switch.  Pointers are indices into the
  header buffer; \<open>http_major\<close> and \<open>http_minor\<close> are 16-bit fields, as declared.  The switch is
  modelled for the non-Windows build.
\<close>

subsection \<open>State\<close>

datatype rl_state =
    RL_start
  | RL_method
  | RL_spaces_before_uri
  | RL_schema
  | RL_schema_slash
  | RL_schema_slash_slash
  | RL_host
  | RL_port
  | RL_host_http_09
  | RL_after_slash_in_uri
  | RL_check_uri
  | RL_check_uri_http_09
  | RL_uri
  | RL_http_09
  | RL_http_H
  | RL_http_HT
  | RL_http_HTT
  | RL_http_HTTP
  | RL_first_major_digit
  | RL_major_digit
  | RL_first_minor_digit
  | RL_minor_digit
  | RL_spaces_after_digit
  | RL_almost_done

record ngx_http_request =
  r_state :: rl_state
  r_method :: nat
  http_version :: u64
  http_major :: u16
  http_minor :: u16
  http_protocol_data :: ptr
  request_start :: ptr
  request_end :: ptr
  method_end :: ptr
  schema_start :: ptr
  schema_end :: ptr
  host_start :: ptr
  host_end :: ptr
  port_end :: ptr
  uri_start :: ptr
  uri_end :: ptr
  uri_ext :: ptr
  args_start :: ptr
  complex_uri :: bool
  quoted_uri :: bool
  plus_in_uri :: bool
  space_in_uri :: bool

abbreviation (input) "NGX_HTTP_UNKNOWN \<equiv> 0x0001 :: nat"
abbreviation (input) "NGX_HTTP_GET \<equiv> 0x0002 :: nat"
abbreviation (input) "NGX_HTTP_HEAD \<equiv> 0x0004 :: nat"
abbreviation (input) "NGX_HTTP_POST \<equiv> 0x0008 :: nat"
abbreviation (input) "NGX_HTTP_PUT \<equiv> 0x0010 :: nat"
abbreviation (input) "NGX_HTTP_DELETE \<equiv> 0x0020 :: nat"
abbreviation (input) "NGX_HTTP_MKCOL \<equiv> 0x0040 :: nat"
abbreviation (input) "NGX_HTTP_COPY \<equiv> 0x0080 :: nat"
abbreviation (input) "NGX_HTTP_MOVE \<equiv> 0x0100 :: nat"
abbreviation (input) "NGX_HTTP_OPTIONS \<equiv> 0x0200 :: nat"
abbreviation (input) "NGX_HTTP_PROPFIND \<equiv> 0x0400 :: nat"
abbreviation (input) "NGX_HTTP_PROPPATCH \<equiv> 0x0800 :: nat"
abbreviation (input) "NGX_HTTP_LOCK \<equiv> 0x1000 :: nat"
abbreviation (input) "NGX_HTTP_UNLOCK \<equiv> 0x2000 :: nat"
abbreviation (input) "NGX_HTTP_PATCH \<equiv> 0x4000 :: nat"
abbreviation (input) "NGX_HTTP_TRACE \<equiv> 0x8000 :: nat"

text \<open>
  The request as \<open>ngx_http_init_request\<close> hands it to the parser: zeroed by \<open>ngx_pcalloc\<close>, with the
  method unknown (\<open>src/http/ngx_http_request.c\<close>).
\<close>

definition ngx_http_request_init :: ngx_http_request where
  "ngx_http_request_init =
    \<lparr> r_state = RL_start, r_method = NGX_HTTP_UNKNOWN, http_version = 0,
      http_major = 0, http_minor = 0, http_protocol_data = None,
      request_start = None, request_end = None, method_end = None,
      schema_start = None, schema_end = None, host_start = None, host_end = None,
      port_end = None, uri_start = None, uri_end = None, uri_ext = None, args_start = None,
      complex_uri = False, quoted_uri = False, plus_in_uri = False, space_in_uri = False \<rparr>"

subsection \<open>Character classes and string comparison\<close>

definition usual :: "u32 list" where
  "usual =
    [0xffffdbfe,
     0x7fff37d6,
     0xffffffff,
     0xffffffff,
     0xffffffff,
     0xffffffff,
     0xffffffff,
     0xffffffff]"

definition ngx_str3_cmp :: "bytes \<Rightarrow> nat \<Rightarrow> byte \<Rightarrow> byte \<Rightarrow> byte \<Rightarrow> bool" where
  "ngx_str3_cmp b m c0 c1 c2 \<longleftrightarrow> b ! m = c0 \<and> b ! (m + 1) = c1 \<and> b ! (m + 2) = c2"

definition ngx_str3Ocmp :: "bytes \<Rightarrow> nat \<Rightarrow> byte \<Rightarrow> byte \<Rightarrow> byte \<Rightarrow> bool" where
  "ngx_str3Ocmp b m c0 c2 c3 \<longleftrightarrow> b ! m = c0 \<and> b ! (m + 2) = c2 \<and> b ! (m + 3) = c3"

definition ngx_str4cmp :: "bytes \<Rightarrow> nat \<Rightarrow> byte \<Rightarrow> byte \<Rightarrow> byte \<Rightarrow> byte \<Rightarrow> bool" where
  "ngx_str4cmp b m c0 c1 c2 c3 \<longleftrightarrow>
    b ! m = c0 \<and> b ! (m + 1) = c1 \<and> b ! (m + 2) = c2 \<and> b ! (m + 3) = c3"

definition ngx_str5cmp :: "bytes \<Rightarrow> nat \<Rightarrow> byte \<Rightarrow> byte \<Rightarrow> byte \<Rightarrow> byte \<Rightarrow> byte \<Rightarrow> bool" where
  "ngx_str5cmp b m c0 c1 c2 c3 c4 \<longleftrightarrow> ngx_str4cmp b m c0 c1 c2 c3 \<and> b ! (m + 4) = c4"

definition ngx_str6cmp :: "bytes \<Rightarrow> nat \<Rightarrow> byte \<Rightarrow> byte \<Rightarrow> byte \<Rightarrow> byte \<Rightarrow> byte \<Rightarrow> byte \<Rightarrow> bool" where
  "ngx_str6cmp b m c0 c1 c2 c3 c4 c5 \<longleftrightarrow>
    ngx_str4cmp b m c0 c1 c2 c3 \<and> b ! (m + 4) = c4 \<and> b ! (m + 5) = c5"

definition ngx_str7_cmp ::
  "bytes \<Rightarrow> nat \<Rightarrow> byte \<Rightarrow> byte \<Rightarrow> byte \<Rightarrow> byte \<Rightarrow> byte \<Rightarrow> byte \<Rightarrow> byte \<Rightarrow> bool" where
  "ngx_str7_cmp b m c0 c1 c2 c3 c4 c5 c6 \<longleftrightarrow>
    ngx_str4cmp b m c0 c1 c2 c3 \<and> b ! (m + 4) = c4 \<and> b ! (m + 5) = c5 \<and> b ! (m + 6) = c6"

definition ngx_str8cmp ::
  "bytes \<Rightarrow> nat \<Rightarrow> byte \<Rightarrow> byte \<Rightarrow> byte \<Rightarrow> byte \<Rightarrow> byte \<Rightarrow> byte \<Rightarrow> byte \<Rightarrow> byte \<Rightarrow> bool" where
  "ngx_str8cmp b m c0 c1 c2 c3 c4 c5 c6 c7 \<longleftrightarrow>
    ngx_str7_cmp b m c0 c1 c2 c3 c4 c5 c6 \<and> b ! (m + 7) = c7"

definition ngx_str9cmp ::
  "bytes \<Rightarrow> nat \<Rightarrow> byte \<Rightarrow> byte \<Rightarrow> byte \<Rightarrow> byte \<Rightarrow> byte \<Rightarrow> byte \<Rightarrow> byte \<Rightarrow> byte \<Rightarrow> byte \<Rightarrow> bool" where
  "ngx_str9cmp b m c0 c1 c2 c3 c4 c5 c6 c7 c8 \<longleftrightarrow>
    ngx_str8cmp b m c0 c1 c2 c3 c4 c5 c6 c7 \<and> b ! (m + 8) = c8"

text \<open>
  \<open>switch (p - m)\<close> of the method state: \<open>n\<close> bytes of a method name start at \<open>m\<close>; the result is the
  new value of \<open>r->method\<close>, \<open>old\<close> where no name matches.
\<close>

definition rl_method_lookup :: "bytes \<Rightarrow> nat \<Rightarrow> nat \<Rightarrow> nat \<Rightarrow> nat" where
  "rl_method_lookup b m n old =
    (if n = 3 then
       (if ngx_str3_cmp b m ch_G ch_E ch_T then NGX_HTTP_GET
        else if ngx_str3_cmp b m ch_P ch_U ch_T then NGX_HTTP_PUT
        else old)
     else if n = 4 then
       (if b ! (m + 1) = ch_O then
          (if ngx_str3Ocmp b m ch_P ch_S ch_T then NGX_HTTP_POST
           else if ngx_str3Ocmp b m ch_C ch_P ch_Y then NGX_HTTP_COPY
           else if ngx_str3Ocmp b m ch_M ch_V ch_E then NGX_HTTP_MOVE
           else if ngx_str3Ocmp b m ch_L ch_C ch_K then NGX_HTTP_LOCK
           else old)
        else
          (if ngx_str4cmp b m ch_H ch_E ch_A ch_D then NGX_HTTP_HEAD else old))
     else if n = 5 then
       (let meth = (if ngx_str5cmp b m ch_M ch_K ch_C ch_O ch_L then NGX_HTTP_MKCOL else old);
            meth = (if ngx_str5cmp b m ch_P ch_A ch_T ch_C ch_H then NGX_HTTP_PATCH else meth)
        in if ngx_str5cmp b m ch_T ch_R ch_A ch_C ch_E then NGX_HTTP_TRACE else meth)
     else if n = 6 then
       (if ngx_str6cmp b m ch_D ch_E ch_L ch_E ch_T ch_E then NGX_HTTP_DELETE
        else if ngx_str6cmp b m ch_U ch_N ch_L ch_O ch_C ch_K then NGX_HTTP_UNLOCK
        else old)
     else if n = 7 then
       (if ngx_str7_cmp b m ch_O ch_P ch_T ch_I ch_O ch_N ch_S then NGX_HTTP_OPTIONS else old)
     else if n = 8 then
       (if ngx_str8cmp b m ch_P ch_R ch_O ch_P ch_F ch_I ch_N ch_D then NGX_HTTP_PROPFIND else old)
     else if n = 9 then
       (if ngx_str9cmp b m ch_P ch_R ch_O ch_P ch_P ch_A ch_T ch_C ch_H then NGX_HTTP_PROPPATCH
        else old)
     else old)"

lemma usual_iff:
  "bitmap_test usual ch \<longleftrightarrow>
    ch \<notin> {NUL, LF, CR, ch_space, ch_hash, ch_percent, ch_plus, ch_dot, ch_slash, ch_quest}"
  using bitmap_test_iff [of "[0, 10, 13, 0x20, 0x23, 0x25, 0x2b, 0x2e, 0x2f, 0x3f]" usual ch]
  by (simp add: usual_def byte_codes_def)

end
