(* ===== verification/Ngx_Request_Line.thy ===== *)
theory Ngx_Request_Line
  imports Ngx_Request
begin

section \<open>\<open>ngx_http_parse_request_line\<close>\<close>

text \<open>
  One definition per case of the switch of \<open>ngx_http_parse_request_line\<close>
  (\<open>src/http/ngx_http_parse.c\<close>, 103--751), the switch, and the function itself: the loop, the storing
  of \<open>b->pos\<close> and \<open>r->state\<close> at \<open>NGX_AGAIN\<close>, and the code behind the label \<open>done\<close>.
\<close>

subsection \<open>The cases of the switch\<close>

datatype rl_label = RL_done

type_synonym rl_result = "(rl_state, ngx_http_request, rl_label, ngx_rc) step"

definition rl_start :: "nat \<Rightarrow> byte \<Rightarrow> ngx_http_request \<Rightarrow> rl_result" where
  "rl_start p ch r =
    (let r = r\<lparr>request_start := Some p\<rparr> in
     if ch = CR \<or> ch = LF then Next RL_start r
     else if (ch < ch_A \<or> ch > ch_Z) \<and> ch \<noteq> ch_uscore then
       Return NGX_HTTP_PARSE_INVALID_METHOD r
     else Next RL_method r)"

definition rl_method :: "bytes \<Rightarrow> nat \<Rightarrow> byte \<Rightarrow> ngx_http_request \<Rightarrow> rl_result" where
  "rl_method b p ch r =
    (if ch = ch_space then
       (let r = r\<lparr>method_end := Some (p - 1)\<rparr> in
        case request_start r of
          Some m \<Rightarrow> Next RL_spaces_before_uri
                      (r\<lparr>r_method := rl_method_lookup b m (p - m) (r_method r)\<rparr>)
        | None \<Rightarrow> Next RL_spaces_before_uri r)
     else if (ch < ch_A \<or> ch > ch_Z) \<and> ch \<noteq> ch_uscore then
       Return NGX_HTTP_PARSE_INVALID_METHOD r
     else Next RL_method r)"

definition rl_spaces_before_uri :: "nat \<Rightarrow> byte \<Rightarrow> ngx_http_request \<Rightarrow> rl_result" where
  "rl_spaces_before_uri p ch r =
    (if ch = ch_slash then Next RL_after_slash_in_uri (r\<lparr>uri_start := Some p\<rparr>)
     else
       (let c = ch OR 0x20 in
        if ch_a \<le> c \<and> c \<le> ch_z then Next RL_schema (r\<lparr>schema_start := Some p\<rparr>)
        else if ch = ch_space then Next RL_spaces_before_uri r
        else Return NGX_HTTP_PARSE_INVALID_REQUEST r))"

definition rl_schema :: "nat \<Rightarrow> byte \<Rightarrow> ngx_http_request \<Rightarrow> rl_result" where
  "rl_schema p ch r =
    (let c = ch OR 0x20 in
     if ch_a \<le> c \<and> c \<le> ch_z then Next RL_schema r
     else if ch = ch_colon then Next RL_schema_slash (r\<lparr>schema_end := Some p\<rparr>)
     else Return NGX_HTTP_PARSE_INVALID_REQUEST r)"

definition rl_schema_slash :: "nat \<Rightarrow> byte \<Rightarrow> ngx_http_request \<Rightarrow> rl_result" where
  "rl_schema_slash p ch r =
    (if ch = ch_slash then Next RL_schema_slash_slash r
     else Return NGX_HTTP_PARSE_INVALID_REQUEST r)"

definition rl_schema_slash_slash :: "nat \<Rightarrow> byte \<Rightarrow> ngx_http_request \<Rightarrow> rl_result" where
  "rl_schema_slash_slash p ch r =
    (if ch = ch_slash then Next RL_host (r\<lparr>host_start := Some (p + 1)\<rparr>)
     else Return NGX_HTTP_PARSE_INVALID_REQUEST r)"

definition rl_host :: "nat \<Rightarrow> byte \<Rightarrow> ngx_http_request \<Rightarrow> rl_result" where
  "rl_host p ch r =
    (let c = ch OR 0x20 in
     if ch_a \<le> c \<and> c \<le> ch_z then Next RL_host r
     else if (ch_0 \<le> ch \<and> ch \<le> ch_9) \<or> ch = ch_dot \<or> ch = ch_dash then Next RL_host r
     else
       (let r = r\<lparr>host_end := Some p\<rparr> in
        if ch = ch_colon then Next RL_port r
        else if ch = ch_slash then Next RL_after_slash_in_uri (r\<lparr>uri_start := Some p\<rparr>)
        else if ch = ch_space then
          Next RL_host_http_09
            (r\<lparr>uri_start := map_option (\<lambda>e. e + 1) (schema_end r),
               uri_end := map_option (\<lambda>e. e + 2) (schema_end r)\<rparr>)
        else Return NGX_HTTP_PARSE_INVALID_REQUEST r))"

definition rl_port :: "nat \<Rightarrow> byte \<Rightarrow> ngx_http_request \<Rightarrow> rl_result" where
  "rl_port p ch r =
    (if ch_0 \<le> ch \<and> ch \<le> ch_9 then Next RL_port r
     else if ch = ch_slash then
       Next RL_after_slash_in_uri (r\<lparr>port_end := Some p, uri_start := Some p\<rparr>)
     else if ch = ch_space then
       Next RL_host_http_09
         (r\<lparr>port_end := Some p,
            uri_start := map_option (\<lambda>e. e + 1) (schema_end r),
            uri_end := map_option (\<lambda>e. e + 2) (schema_end r)\<rparr>)
     else Return NGX_HTTP_PARSE_INVALID_REQUEST r)"

definition rl_host_http_09 :: "nat \<Rightarrow> byte \<Rightarrow> ngx_http_request \<Rightarrow> rl_result" where
  "rl_host_http_09 p ch r =
    (if ch = ch_space then Next RL_host_http_09 r
     else if ch = CR then Next RL_almost_done (r\<lparr>http_minor := 9\<rparr>)
     else if ch = LF then Goto RL_done (r\<lparr>http_minor := 9\<rparr>)
     else if ch = ch_H then Next RL_http_H (r\<lparr>http_protocol_data := Some p\<rparr>)
     else Return NGX_HTTP_PARSE_INVALID_REQUEST r)"

definition rl_after_slash_in_uri :: "nat \<Rightarrow> byte \<Rightarrow> ngx_http_request \<Rightarrow> rl_result" where
  "rl_after_slash_in_uri p ch r =
    (if bitmap_test usual ch then Next RL_check_uri r
     else if ch = ch_space then Next RL_check_uri_http_09 (r\<lparr>uri_end := Some p\<rparr>)
     else if ch = CR then Next RL_almost_done (r\<lparr>uri_end := Some p, http_minor := 9\<rparr>)
     else if ch = LF then Goto RL_done (r\<lparr>uri_end := Some p, http_minor := 9\<rparr>)
     else if ch = ch_dot then Next RL_uri (r\<lparr>complex_uri := True\<rparr>)
     else if ch = ch_percent then Next RL_uri (r\<lparr>quoted_uri := True\<rparr>)
     else if ch = ch_slash then Next RL_uri (r\<lparr>complex_uri := True\<rparr>)
     else if ch = ch_quest then Next RL_uri (r\<lparr>args_start := Some (p + 1)\<rparr>)
     else if ch = ch_hash then Next RL_uri (r\<lparr>complex_uri := True\<rparr>)
     else if ch = ch_plus then Next RL_after_slash_in_uri (r\<lparr>plus_in_uri := True\<rparr>)
     else if ch = NUL then Return NGX_HTTP_PARSE_INVALID_REQUEST r
     else Next RL_check_uri r)"

definition rl_check_uri :: "nat \<Rightarrow> byte \<Rightarrow> ngx_http_request \<Rightarrow> rl_result" where
  "rl_check_uri p ch r =
    (if bitmap_test usual ch then Next RL_check_uri r
     else if ch = ch_slash then Next RL_after_slash_in_uri (r\<lparr>uri_ext := None\<rparr>)
     else if ch = ch_dot then Next RL_check_uri (r\<lparr>uri_ext := Some (p + 1)\<rparr>)
     else if ch = ch_space then Next RL_check_uri_http_09 (r\<lparr>uri_end := Some p\<rparr>)
     else if ch = CR then Next RL_almost_done (r\<lparr>uri_end := Some p, http_minor := 9\<rparr>)
     else if ch = LF then Goto RL_done (r\<lparr>uri_end := Some p, http_minor := 9\<rparr>)
     else if ch = ch_percent then Next RL_uri (r\<lparr>quoted_uri := True\<rparr>)
     else if ch = ch_quest then Next RL_uri (r\<lparr>args_start := Some (p + 1)\<rparr>)
     else if ch = ch_hash then Next RL_uri (r\<lparr>complex_uri := True\<rparr>)
     else if ch = ch_plus then Next RL_check_uri (r\<lparr>plus_in_uri := True\<rparr>)
     else if ch = NUL then Return NGX_HTTP_PARSE_INVALID_REQUEST r
     else Next RL_check_uri r)"

definition rl_check_uri_http_09 :: "nat \<Rightarrow> byte \<Rightarrow> ngx_http_request \<Rightarrow> rl_result" where
  "rl_check_uri_http_09 p ch r =
    (if ch = ch_space then Next RL_check_uri_http_09 r
     else if ch = CR then Next RL_almost_done (r\<lparr>http_minor := 9\<rparr>)
     else if ch = LF then Goto RL_done (r\<lparr>http_minor := 9\<rparr>)
     else if ch = ch_H then Next RL_http_H (r\<lparr>http_protocol_data := Some p\<rparr>)
     else Next RL_check_uri (r\<lparr>space_in_uri := True\<rparr>))"

definition rl_uri :: "nat \<Rightarrow> byte \<Rightarrow> ngx_http_request \<Rightarrow> rl_result" where
  "rl_uri p ch r =
    (if bitmap_test usual ch then Next RL_uri r
     else if ch = ch_space then Next RL_http_09 (r\<lparr>uri_end := Some p\<rparr>)
     else if ch = CR then Next RL_almost_done (r\<lparr>uri_end := Some p, http_minor := 9\<rparr>)
     else if ch = LF then Goto RL_done (r\<lparr>uri_end := Some p, http_minor := 9\<rparr>)
     else if ch = ch_hash then Next RL_uri (r\<lparr>complex_uri := True\<rparr>)
     else if ch = NUL then Return NGX_HTTP_PARSE_INVALID_REQUEST r
     else Next RL_uri r)"

definition rl_http_09 :: "nat \<Rightarrow> byte \<Rightarrow> ngx_http_request \<Rightarrow> rl_result" where
  "rl_http_09 p ch r =
    (if ch = ch_space then Next RL_http_09 r
     else if ch = CR then Next RL_almost_done (r\<lparr>http_minor := 9\<rparr>)
     else if ch = LF then Goto RL_done (r\<lparr>http_minor := 9\<rparr>)
     else if ch = ch_H then Next RL_http_H (r\<lparr>http_protocol_data := Some p\<rparr>)
     else Next RL_uri (r\<lparr>space_in_uri := True\<rparr>))"

text \<open>The four cases \<open>sw_http_H\<close> to \<open>sw_http_HTTP\<close> expect one character each.\<close>

definition rl_expect :: "byte \<Rightarrow> rl_state \<Rightarrow> byte \<Rightarrow> ngx_http_request \<Rightarrow> rl_result" where
  "rl_expect c st ch r =
    (if ch = c then Next st r else Return NGX_HTTP_PARSE_INVALID_REQUEST r)"

definition rl_first_major_digit :: "byte \<Rightarrow> ngx_http_request \<Rightarrow> rl_result" where
  "rl_first_major_digit ch r =
    (if ch < ch_1 \<or> ch > ch_9 then Return NGX_HTTP_PARSE_INVALID_REQUEST r
     else Next RL_major_digit (r\<lparr>http_major := ucast (ch - ch_0)\<rparr>))"

definition rl_major_digit :: "byte \<Rightarrow> ngx_http_request \<Rightarrow> rl_result" where
  "rl_major_digit ch r =
    (if ch = ch_dot then Next RL_first_minor_digit r
     else if ch < ch_0 \<or> ch > ch_9 then Return NGX_HTTP_PARSE_INVALID_REQUEST r
     else Next RL_major_digit (r\<lparr>http_major := http_major r * 10 + ucast (ch - ch_0)\<rparr>))"

definition rl_first_minor_digit :: "byte \<Rightarrow> ngx_http_request \<Rightarrow> rl_result" where
  "rl_first_minor_digit ch r =
    (if ch < ch_0 \<or> ch > ch_9 then Return NGX_HTTP_PARSE_INVALID_REQUEST r
     else Next RL_minor_digit (r\<lparr>http_minor := ucast (ch - ch_0)\<rparr>))"

definition rl_minor_digit :: "byte \<Rightarrow> ngx_http_request \<Rightarrow> rl_result" where
  "rl_minor_digit ch r =
    (if ch = CR then Next RL_almost_done r
     else if ch = LF then Goto RL_done r
     else if ch = ch_space then Next RL_spaces_after_digit r
     else if ch < ch_0 \<or> ch > ch_9 then Return NGX_HTTP_PARSE_INVALID_REQUEST r
     else Next RL_minor_digit (r\<lparr>http_minor := http_minor r * 10 + ucast (ch - ch_0)\<rparr>))"

definition rl_spaces_after_digit :: "byte \<Rightarrow> ngx_http_request \<Rightarrow> rl_result" where
  "rl_spaces_after_digit ch r =
    (if ch = ch_space then Next RL_spaces_after_digit r
     else if ch = CR then Next RL_almost_done r
     else if ch = LF then Goto RL_done r
     else Return NGX_HTTP_PARSE_INVALID_REQUEST r)"

definition rl_almost_done :: "nat \<Rightarrow> byte \<Rightarrow> ngx_http_request \<Rightarrow> rl_result" where
  "rl_almost_done p ch r =
    (let r = r\<lparr>request_end := Some (p - 1)\<rparr> in
     if ch = LF then Goto RL_done r
     else Return NGX_HTTP_PARSE_INVALID_REQUEST r)"

subsection \<open>The switch and the function\<close>

fun rl_step :: "bytes \<Rightarrow> nat \<Rightarrow> byte \<Rightarrow> rl_state \<Rightarrow> ngx_http_request \<Rightarrow> rl_result" where
  "rl_step b p ch RL_start r = rl_start p ch r"
| "rl_step b p ch RL_method r = rl_method b p ch r"
| "rl_step b p ch RL_spaces_before_uri r = rl_spaces_before_uri p ch r"
| "rl_step b p ch RL_schema r = rl_schema p ch r"
| "rl_step b p ch RL_schema_slash r = rl_schema_slash p ch r"
| "rl_step b p ch RL_schema_slash_slash r = rl_schema_slash_slash p ch r"
| "rl_step b p ch RL_host r = rl_host p ch r"
| "rl_step b p ch RL_port r = rl_port p ch r"
| "rl_step b p ch RL_host_http_09 r = rl_host_http_09 p ch r"
| "rl_step b p ch RL_after_slash_in_uri r = rl_after_slash_in_uri p ch r"
| "rl_step b p ch RL_check_uri r = rl_check_uri p ch r"
| "rl_step b p ch RL_check_uri_http_09 r = rl_check_uri_http_09 p ch r"
| "rl_step b p ch RL_uri r = rl_uri p ch r"
| "rl_step b p ch RL_http_09 r = rl_http_09 p ch r"
| "rl_step b p ch RL_http_H r = rl_expect ch_T RL_http_HT ch r"
| "rl_step b p ch RL_http_HT r = rl_expect ch_T RL_http_HTT ch r"
| "rl_step b p ch RL_http_HTT r = rl_expect ch_P RL_http_HTTP ch r"
| "rl_step b p ch RL_http_HTTP r = rl_expect ch_slash RL_first_major_digit ch r"
| "rl_step b p ch RL_first_major_digit r = rl_first_major_digit ch r"
| "rl_step b p ch RL_major_digit r = rl_major_digit ch r"
| "rl_step b p ch RL_first_minor_digit r = rl_first_minor_digit ch r"
| "rl_step b p ch RL_minor_digit r = rl_minor_digit ch r"
| "rl_step b p ch RL_spaces_after_digit r = rl_spaces_after_digit ch r"
| "rl_step b p ch RL_almost_done r = rl_almost_done p ch r"

text \<open>The code behind the label \<open>done\<close>; \<open>p\<close> is the position of the terminating line feed.\<close>

definition rl_finish :: "nat \<Rightarrow> ngx_http_request \<Rightarrow> ngx_rc \<times> nat \<times> ngx_http_request" where
  "rl_finish p r =
    (let r = (case request_end r of None \<Rightarrow> r\<lparr>request_end := Some p\<rparr> | Some _ \<Rightarrow> r);
         r = r\<lparr>http_version := ucast (http_major r) * 1000 + ucast (http_minor r),
               r_state := RL_start\<rparr>
     in if http_version r = 9 \<and> r_method r \<noteq> NGX_HTTP_GET
        then (NGX_HTTP_PARSE_INVALID_09_METHOD, p + 1, r)
        else (NGX_OK, p + 1, r))"

text \<open>The result is the return code, the new \<open>b->pos\<close> and the request.\<close>

definition ngx_http_parse_request_line ::
  "ngx_http_request \<Rightarrow> bytes \<Rightarrow> nat \<Rightarrow> ngx_rc \<times> nat \<times> ngx_http_request" where
  "ngx_http_parse_request_line r b pos =
    (case scan rl_step b pos (r_state r) r of
       Exhausted p st r' \<Rightarrow> (NGX_AGAIN, p, r'\<lparr>r_state := st\<rparr>)
     | Jumped RL_done p r' \<Rightarrow> rl_finish p r'
     | Returned rc r' \<Rightarrow> (rc, pos, r'))"

subsection \<open>Resumption\<close>

named_theorems rl_cases \<open>the definitions of the cases of the request-line switch\<close>

declare rl_start_def [rl_cases] rl_method_def [rl_cases] rl_spaces_before_uri_def [rl_cases]
  rl_schema_def [rl_cases] rl_schema_slash_def [rl_cases] rl_schema_slash_slash_def [rl_cases]
  rl_host_def [rl_cases] rl_port_def [rl_cases] rl_host_http_09_def [rl_cases]
  rl_after_slash_in_uri_def [rl_cases] rl_check_uri_def [rl_cases]
  rl_check_uri_http_09_def [rl_cases] rl_uri_def [rl_cases] rl_http_09_def [rl_cases]
  rl_expect_def [rl_cases] rl_first_major_digit_def [rl_cases] rl_major_digit_def [rl_cases]
  rl_first_minor_digit_def [rl_cases] rl_minor_digit_def [rl_cases]
  rl_spaces_after_digit_def [rl_cases] rl_almost_done_def [rl_cases]

lemmas ngx_strcmp_defs =
  ngx_str3_cmp_def ngx_str3Ocmp_def ngx_str4cmp_def ngx_str5cmp_def ngx_str6cmp_def
  ngx_str7_cmp_def ngx_str8cmp_def ngx_str9cmp_def

text \<open>
  The reference for the method switch: the table of the method names (\<open>ngx_http_request.h\<close>, 27--42).
\<close>

definition http_methods :: "(bytes \<times> nat) list" where
  "http_methods =
    [(str ''GET'', NGX_HTTP_GET), (str ''HEAD'', NGX_HTTP_HEAD), (str ''POST'', NGX_HTTP_POST),
     (str ''PUT'', NGX_HTTP_PUT), (str ''DELETE'', NGX_HTTP_DELETE), (str ''MKCOL'', NGX_HTTP_MKCOL),
     (str ''COPY'', NGX_HTTP_COPY), (str ''MOVE'', NGX_HTTP_MOVE),
     (str ''OPTIONS'', NGX_HTTP_OPTIONS), (str ''PROPFIND'', NGX_HTTP_PROPFIND),
     (str ''PROPPATCH'', NGX_HTTP_PROPPATCH), (str ''LOCK'', NGX_HTTP_LOCK),
     (str ''UNLOCK'', NGX_HTTP_UNLOCK), (str ''PATCH'', NGX_HTTP_PATCH), (str ''TRACE'', NGX_HTTP_TRACE)]"

definition http_method_of :: "nat \<Rightarrow> bytes \<Rightarrow> nat" where
  "http_method_of old name = (case map_of http_methods name of Some meth \<Rightarrow> meth | None \<Rightarrow> old)"

lemma http_method_of_length:
  assumes "length t \<notin> {3, 4, 5, 6, 7, 8, 9}"
  shows "http_method_of old t = old"
proof -
  have "map_of http_methods t = None"
    unfolding map_of_eq_None_iff http_methods_def str_def using assms by auto
  then show ?thesis by (simp add: http_method_of_def)
qed

lemma rl_method_lookup_token:
  assumes "\<And>i. i < length t \<Longrightarrow> b ! (m + i) = t ! i"
  shows "rl_method_lookup b m (length t) old = http_method_of old t"
proof (cases "length t \<in> {3, 4, 5, 6, 7, 8, 9}")
  case False
  then show ?thesis using http_method_of_length [OF False] by (simp add: rl_method_lookup_def)
next
  case True
  have nth0: "b ! m = t ! 0" using assms [of 0] True by (cases t) auto
  note [simp] = http_method_of_def http_methods_def str_def rl_method_lookup_def ngx_strcmp_defs
  from True consider "length t = 3" | "length t = 4" | "length t = 5" | "length t = 6"
    | "length t = 7" | "length t = 8" | "length t = 9" by auto
  then show ?thesis
  proof cases
    case 1
    then obtain x y z where "t = [x, y, z]" by (auto simp: numeral_eq_Suc length_Suc_conv)
    then show ?thesis using assms [of 1] assms [of 2] nth0 by simp
  next
    case 2
    then obtain x y z u where "t = [x, y, z, u]" by (auto simp: numeral_eq_Suc length_Suc_conv)
    then show ?thesis using assms [of 1] assms [of 2] assms [of 3] nth0 by simp
  next
    case 3
    then obtain x y z u v where "t = [x, y, z, u, v]" by (auto simp: numeral_eq_Suc length_Suc_conv)
    then show ?thesis using assms [of 1] assms [of 2] assms [of 3] assms [of 4] nth0 by simp
  next
    case 4
    then obtain x y z u v w where "t = [x, y, z, u, v, w]"
      by (auto simp: numeral_eq_Suc length_Suc_conv)
    then show ?thesis
      using assms [of 1] assms [of 2] assms [of 3] assms [of 4] assms [of 5] nth0 by simp
  next
    case 5
    then obtain x y z u v w x1 where "t = [x, y, z, u, v, w, x1]"
      by (auto simp: numeral_eq_Suc length_Suc_conv)
    then show ?thesis
      using assms [of 1] assms [of 2] assms [of 3] assms [of 4] assms [of 5] assms [of 6] nth0
      by simp
  next
    case 6
    then obtain x y z u v w x1 x2 where "t = [x, y, z, u, v, w, x1, x2]"
      by (auto simp: numeral_eq_Suc length_Suc_conv)
    then show ?thesis
      using assms [of 1] assms [of 2] assms [of 3] assms [of 4] assms [of 5] assms [of 6]
        assms [of 7] nth0
      by simp
  next
    case 7
    then obtain x y z u v w x1 x2 x3 where "t = [x, y, z, u, v, w, x1, x2, x3]"
      by (auto simp: numeral_eq_Suc length_Suc_conv)
    then show ?thesis
      using assms [of 1] assms [of 2] assms [of 3] assms [of 4] assms [of 5] assms [of 6]
        assms [of 7] assms [of 8] nth0
      by simp
  qed
qed

lemma rl_method_lookup_local:
  assumes "m + n \<le> length b \<or> n < 3"
  shows "rl_method_lookup (b @ rest) m n old = rl_method_lookup b m n old"
proof (cases "n < 3")
  case True
  then show ?thesis by (simp add: rl_method_lookup_def)
next
  case False
  with assms have n: "m + n \<le> length b" by simp
  define t where "t = take n (drop m b)"
  have len: "length t = n" using n by (simp add: t_def)
  have "rl_method_lookup (b @ rest) m (length t) old = http_method_of old t"
    using n by (intro rl_method_lookup_token) (simp add: t_def nth_append)
  moreover have "rl_method_lookup b m (length t) old = http_method_of old t"
    using n by (intro rl_method_lookup_token) (simp add: t_def)
  ultimately show ?thesis by (simp add: len)
qed

lemma rl_step_local:
  assumes "p < length b"
  shows "rl_step (b @ rest) p ch st r = rl_step b p ch st r"
proof (cases st)
  case RL_method
  have "rl_method_lookup (b @ rest) m (p - m) old = rl_method_lookup b m (p - m) old" for m old
    using assms by (intro rl_method_lookup_local) auto
  then show ?thesis using RL_method by (simp add: rl_method_def Let_def split: option.split)
qed simp_all

lemma r_state_commute:
  "r\<lparr>r_state := s, r_method := v0\<rparr> = r\<lparr>r_method := v0, r_state := s\<rparr>"
  "r\<lparr>r_state := s, http_version := v1\<rparr> = r\<lparr>http_version := v1, r_state := s\<rparr>"
  "r\<lparr>r_state := s, http_major := v2\<rparr> = r\<lparr>http_major := v2, r_state := s\<rparr>"
  "r\<lparr>r_state := s, http_minor := v3\<rparr> = r\<lparr>http_minor := v3, r_state := s\<rparr>"
  "r\<lparr>r_state := s, http_protocol_data := v4\<rparr> = r\<lparr>http_protocol_data := v4, r_state := s\<rparr>"
  "r\<lparr>r_state := s, request_start := v5\<rparr> = r\<lparr>request_start := v5, r_state := s\<rparr>"
  "r\<lparr>r_state := s, request_end := v6\<rparr> = r\<lparr>request_end := v6, r_state := s\<rparr>"
  "r\<lparr>r_state := s, method_end := v7\<rparr> = r\<lparr>method_end := v7, r_state := s\<rparr>"
  "r\<lparr>r_state := s, schema_start := v8\<rparr> = r\<lparr>schema_start := v8, r_state := s\<rparr>"
  "r\<lparr>r_state := s, schema_end := v9\<rparr> = r\<lparr>schema_end := v9, r_state := s\<rparr>"
  "r\<lparr>r_state := s, host_start := v10\<rparr> = r\<lparr>host_start := v10, r_state := s\<rparr>"
  "r\<lparr>r_state := s, host_end := v11\<rparr> = r\<lparr>host_end := v11, r_state := s\<rparr>"
  "r\<lparr>r_state := s, port_end := v12\<rparr> = r\<lparr>port_end := v12, r_state := s\<rparr>"
  "r\<lparr>r_state := s, uri_start := v13\<rparr> = r\<lparr>uri_start := v13, r_state := s\<rparr>"
  "r\<lparr>r_state := s, uri_end := v14\<rparr> = r\<lparr>uri_end := v14, r_state := s\<rparr>"
  "r\<lparr>r_state := s, uri_ext := v15\<rparr> = r\<lparr>uri_ext := v15, r_state := s\<rparr>"
  "r\<lparr>r_state := s, args_start := v16\<rparr> = r\<lparr>args_start := v16, r_state := s\<rparr>"
  "r\<lparr>r_state := s, complex_uri := v17\<rparr> = r\<lparr>complex_uri := v17, r_state := s\<rparr>"
  "r\<lparr>r_state := s, quoted_uri := v18\<rparr> = r\<lparr>quoted_uri := v18, r_state := s\<rparr>"
  "r\<lparr>r_state := s, plus_in_uri := v19\<rparr> = r\<lparr>plus_in_uri := v19, r_state := s\<rparr>"
  "r\<lparr>r_state := s, space_in_uri := v20\<rparr> = r\<lparr>space_in_uri := v20, r_state := s\<rparr>"
  by simp_all

lemma rl_step_save:
  "rl_step b p ch st (r\<lparr>r_state := s\<rparr>) = map_step id (\<lambda>r. r\<lparr>r_state := s\<rparr>) id id (rl_step b p ch st r)"
  by (cases st; cases "request_start r")
    (simp_all add: rl_cases Let_def if_distrib [of "map_step _ _ _ _"] r_state_commute
      cong: if_cong split del: if_split)

interpretation rl: resumable rl_step r_state "\<lambda>st r. r\<lparr>r_state := st\<rparr>"
  by unfold_locales (simp_all add: rl_step_local rl_step_save)

end
