(* ===== verification/Ngx_Request_Line_Correct.thy ===== *)
theory Ngx_Request_Line_Correct
  imports Ngx_Request_Line
begin

section \<open>Correctness of the request-line parser\<close>

text \<open>
  The invariant of the character loop of \<open>ngx_http_parse_request_line\<close>, the structure it gives to an
  accepted request line, and independence of the result from the cut of the input into buffers.
\<close>

subsection \<open>What the parser guarantees about the request line\<close>

definition method_char :: "byte \<Rightarrow> bool" where
  "method_char c \<longleftrightarrow> (ch_A \<le> c \<and> c \<le> ch_Z) \<or> c = ch_uscore"

definition method_chars :: "bytes \<Rightarrow> nat \<Rightarrow> nat \<Rightarrow> bool" where
  "method_chars b s e \<longleftrightarrow> s < e \<and> e \<le> length b \<and> (\<forall>k. s \<le> k \<longrightarrow> k < e \<longrightarrow> method_char (b ! k))"

text \<open>The method of \<open>r\<close> is \<open>b[s..me]\<close>, it is followed by a space, and \<open>r->method\<close> is its code.\<close>

definition rl_method_at :: "bytes \<Rightarrow> nat \<Rightarrow> ngx_http_request \<Rightarrow> bool" where
  "rl_method_at b e r \<longleftrightarrow>
    (\<exists>s me. request_start r = Some s \<and> method_end r = Some me \<and> me + 1 < e \<and> e \<le> length b \<and>
       method_chars b s (me + 1) \<and> b ! (me + 1) = ch_space \<and>
       r_method r = http_method_of NGX_HTTP_UNKNOWN (take (me + 1 - s) (drop s b)))"

text \<open>
  The bytes of a URI: a slash first, no line end, and no NUL byte unless an unescaped space was
  accepted.
\<close>

definition uri_bytes :: "bytes \<Rightarrow> bool \<Rightarrow> nat \<Rightarrow> nat \<Rightarrow> bool" where
  "uri_bytes b space us e \<longleftrightarrow>
    us < e \<and> e \<le> length b \<and> b ! us = ch_slash \<and>
    (\<forall>k. us \<le> k \<longrightarrow> k < e \<longrightarrow> b ! k \<noteq> CR \<and> b ! k \<noteq> LF \<and> (b ! k = NUL \<longrightarrow> space))"

definition ptr_in :: "nat \<Rightarrow> nat \<Rightarrow> ptr \<Rightarrow> bool" where
  "ptr_in lo hi q \<longleftrightarrow> (case q of None \<Rightarrow> True | Some x \<Rightarrow> lo < x \<and> x \<le> hi)"

definition uri_at :: "bytes \<Rightarrow> ngx_http_request \<Rightarrow> nat \<Rightarrow> nat \<Rightarrow> bool" where
  "uri_at b r us e \<longleftrightarrow>
    uri_start r = Some us \<and> uri_bytes b (space_in_uri r) us e \<and> rl_method_at b us r \<and>
    ptr_in us e (uri_ext r) \<and> ptr_in us e (args_start r)"

definition uri_open :: "bytes \<Rightarrow> nat \<Rightarrow> ngx_http_request \<Rightarrow> bool" where
  "uri_open b p r \<longleftrightarrow> (\<exists>us. uri_at b r us p)"

definition uri_closed :: "bytes \<Rightarrow> nat \<Rightarrow> ngx_http_request \<Rightarrow> bool" where
  "uri_closed b p r \<longleftrightarrow> (\<exists>us ue. uri_at b r us ue \<and> uri_end r = Some ue \<and> ue \<le> p)"

definition no_uri :: "ngx_http_request \<Rightarrow> bool" where
  "no_uri r \<longleftrightarrow> uri_ext r = None \<and> args_start r = None"

definition schema_ok :: "bytes \<Rightarrow> nat \<Rightarrow> ngx_http_request \<Rightarrow> bool" where
  "schema_ok b p r \<longleftrightarrow>
    (\<exists>e. schema_end r = Some e \<and> e + 1 < p \<and> p \<le> length b \<and> b ! (e + 1) = ch_slash \<and>
       rl_method_at b (e + 1) r)"

fun rl_inv :: "bytes \<Rightarrow> nat \<Rightarrow> rl_state \<Rightarrow> ngx_http_request \<Rightarrow> bool" where
  "rl_inv b p RL_start r \<longleftrightarrow> no_uri r \<and> r_method r = NGX_HTTP_UNKNOWN"
| "rl_inv b p RL_method r \<longleftrightarrow> no_uri r \<and> r_method r = NGX_HTTP_UNKNOWN \<and>
     (\<exists>s. request_start r = Some s \<and> method_chars b s p)"
| "rl_inv b p RL_spaces_before_uri r \<longleftrightarrow> no_uri r \<and> rl_method_at b p r"
| "rl_inv b p RL_schema r \<longleftrightarrow> no_uri r \<and> rl_method_at b p r"
| "rl_inv b p RL_schema_slash r \<longleftrightarrow> no_uri r \<and> (\<exists>e. schema_end r = Some e \<and> p = e + 1 \<and> rl_method_at b p r)"
| "rl_inv b p RL_schema_slash_slash r \<longleftrightarrow> no_uri r \<and> schema_ok b p r"
| "rl_inv b p RL_host r \<longleftrightarrow> no_uri r \<and> schema_ok b p r"
| "rl_inv b p RL_port r \<longleftrightarrow> no_uri r \<and> schema_ok b p r"
| "rl_inv b p RL_after_slash_in_uri r \<longleftrightarrow> uri_open b p r"
| "rl_inv b p RL_check_uri r \<longleftrightarrow> uri_open b p r"
| "rl_inv b p RL_uri r \<longleftrightarrow> uri_open b p r"
| "rl_inv b p RL_check_uri_http_09 r \<longleftrightarrow> uri_open b p r \<and> uri_closed b p r"
| "rl_inv b p RL_http_09 r \<longleftrightarrow> uri_open b p r \<and> uri_closed b p r"
| "rl_inv b p RL_almost_done r \<longleftrightarrow> p \<le> length b \<and> 0 < p \<and> b ! (p - 1) = CR \<and> uri_closed b (p - 1) r"
| "rl_inv b p _ r \<longleftrightarrow> uri_closed b p r"

lemmas rl_inv_defs = rl_method_at_def uri_at_def uri_open_def uri_closed_def no_uri_def
  schema_ok_def

lemma rl_method_at_mono: "rl_method_at b e r \<Longrightarrow> e \<le> e' \<Longrightarrow> e' \<le> length b \<Longrightarrow> rl_method_at b e' r"
  by (fastforce simp: rl_method_at_def)

lemma method_chars_Suc: "method_chars b s p \<Longrightarrow> p < length b \<Longrightarrow> method_char (b ! p) \<Longrightarrow>
    method_chars b s (Suc p)"
  by (auto simp: method_chars_def less_Suc_eq)

lemma rl_method_at_cong:
  "request_start r' = request_start r \<Longrightarrow> method_end r' = method_end r \<Longrightarrow> r_method r' = r_method r \<Longrightarrow>
    rl_method_at b e r' \<longleftrightarrow> rl_method_at b e r"
  by (simp add: rl_method_at_def)

lemma uri_open_Suc:
  assumes "uri_open b p r" and "p < length b" and "b ! p \<noteq> CR" and "b ! p \<noteq> LF"
    and "b ! p = NUL \<longrightarrow> space_in_uri r"
  shows "uri_open b (Suc p) r"
  using assms unfolding uri_open_def uri_at_def uri_bytes_def ptr_in_def
  by (fastforce simp: less_Suc_eq split: option.splits)

text \<open>Fields the predicates do not look at.\<close>

lemma uri_open_frame [simp]:
  "uri_open b p (r\<lparr>complex_uri := x0\<rparr>) \<longleftrightarrow> uri_open b p r"
  "uri_open b p (r\<lparr>quoted_uri := x1\<rparr>) \<longleftrightarrow> uri_open b p r"
  "uri_open b p (r\<lparr>plus_in_uri := x2\<rparr>) \<longleftrightarrow> uri_open b p r"
  "uri_open b p (r\<lparr>uri_end := x3\<rparr>) \<longleftrightarrow> uri_open b p r"
  "uri_open b p (r\<lparr>http_minor := x4\<rparr>) \<longleftrightarrow> uri_open b p r"
  by (simp_all add: uri_open_def uri_at_def rl_method_at_def)

lemma uri_closed_frame [simp]:
  "uri_closed b p (r\<lparr>http_protocol_data := x0\<rparr>) \<longleftrightarrow> uri_closed b p r"
  "uri_closed b p (r\<lparr>http_minor := x1\<rparr>) \<longleftrightarrow> uri_closed b p r"
  "uri_closed b p (r\<lparr>http_major := x2\<rparr>) \<longleftrightarrow> uri_closed b p r"
  "uri_closed b p (r\<lparr>request_end := x3\<rparr>) \<longleftrightarrow> uri_closed b p r"
  by (simp_all add: uri_closed_def uri_at_def rl_method_at_def)

lemma rl_method_at_frame [simp]:
  "rl_method_at b p (r\<lparr>schema_start := x0\<rparr>) \<longleftrightarrow> rl_method_at b p r"
  "rl_method_at b p (r\<lparr>schema_end := x1\<rparr>) \<longleftrightarrow> rl_method_at b p r"
  "rl_method_at b p (r\<lparr>host_start := x2\<rparr>) \<longleftrightarrow> rl_method_at b p r"
  "rl_method_at b p (r\<lparr>host_end := x3\<rparr>) \<longleftrightarrow> rl_method_at b p r"
  "rl_method_at b p (r\<lparr>port_end := x4\<rparr>) \<longleftrightarrow> rl_method_at b p r"
  "rl_method_at b p (r\<lparr>uri_start := x5\<rparr>) \<longleftrightarrow> rl_method_at b p r"
  "rl_method_at b p (r\<lparr>uri_end := x6\<rparr>) \<longleftrightarrow> rl_method_at b p r"
  by (simp_all add: rl_method_at_def)

lemma schema_ok_frame [simp]:
  "schema_ok b p (r\<lparr>host_start := x0\<rparr>) \<longleftrightarrow> schema_ok b p r"
  "schema_ok b p (r\<lparr>host_end := x1\<rparr>) \<longleftrightarrow> schema_ok b p r"
  "schema_ok b p (r\<lparr>port_end := x2\<rparr>) \<longleftrightarrow> schema_ok b p r"
  by (simp_all add: schema_ok_def)

lemma no_uri_frame [simp]:
  "no_uri (r\<lparr>request_start := x0\<rparr>) \<longleftrightarrow> no_uri r"
  "no_uri (r\<lparr>method_end := x1\<rparr>) \<longleftrightarrow> no_uri r"
  "no_uri (r\<lparr>r_method := x2\<rparr>) \<longleftrightarrow> no_uri r"
  "no_uri (r\<lparr>schema_start := x3\<rparr>) \<longleftrightarrow> no_uri r"
  "no_uri (r\<lparr>schema_end := x4\<rparr>) \<longleftrightarrow> no_uri r"
  "no_uri (r\<lparr>host_start := x5\<rparr>) \<longleftrightarrow> no_uri r"
  "no_uri (r\<lparr>host_end := x6\<rparr>) \<longleftrightarrow> no_uri r"
  "no_uri (r\<lparr>port_end := x7\<rparr>) \<longleftrightarrow> no_uri r"
  by (simp_all add: no_uri_def)

lemma uri_open_upd:
  "uri_open b p r \<Longrightarrow> uri_open b p (r\<lparr>space_in_uri := True\<rparr>)"
  "uri_open b p r \<Longrightarrow> uri_open b p (r\<lparr>uri_ext := None\<rparr>)"
  "uri_open b p r \<Longrightarrow> uri_open b p (r\<lparr>uri_ext := Some p\<rparr>)"
  "uri_open b p r \<Longrightarrow> uri_open b p (r\<lparr>args_start := Some p\<rparr>)"
  unfolding uri_open_def uri_at_def rl_method_at_def
  by (auto simp: uri_bytes_def ptr_in_def)

lemma uri_closed_end: "uri_open b p r \<Longrightarrow> uri_closed b p (r\<lparr>uri_end := Some p\<rparr>)"
  unfolding uri_open_def uri_closed_def uri_at_def rl_method_at_def by auto

lemma uri_closed_Suc: "uri_closed b p r \<Longrightarrow> uri_closed b (Suc p) r"
  by (force simp: uri_closed_def)

lemma uri_closed_pos: "uri_closed b p r \<Longrightarrow> 0 < p"
  by (auto simp: uri_closed_def uri_at_def uri_bytes_def)

lemma uri_open_slash:
  assumes "no_uri r" and "rl_method_at b p r" and "p < length b" and "b ! p = ch_slash"
  shows "uri_open b (Suc p) (r\<lparr>uri_start := Some p\<rparr>)"
  using assms unfolding uri_open_def uri_at_def no_uri_def
  by (auto simp: uri_bytes_def ptr_in_def less_Suc_eq)

lemma schema_ok_Suc: "schema_ok b p r \<Longrightarrow> p < length b \<Longrightarrow> schema_ok b (Suc p) r"
  by (auto simp: schema_ok_def)

lemma schema_ok_method: "schema_ok b p r \<Longrightarrow> rl_method_at b p r"
  by (auto simp: schema_ok_def intro: rl_method_at_mono)

lemma uri_closed_schema:
  assumes "no_uri r" and "schema_ok b p r"
  shows "uri_closed b p (r\<lparr>uri_start := map_option (\<lambda>e. e + 1) (schema_end r),
    uri_end := map_option (\<lambda>e. e + 2) (schema_end r)\<rparr>)"
  using assms unfolding uri_closed_def uri_at_def no_uri_def schema_ok_def
  by (auto simp: uri_bytes_def ptr_in_def less_Suc_eq)

lemma rl_method_at_Suc:
  assumes "no_uri r" "request_start r = Some s" "method_chars b s p" "p < length b" "b ! p = ch_space"
    "r_method r = NGX_HTTP_UNKNOWN"
  shows "rl_method_at b (Suc p) (r\<lparr>method_end := Some (p - 1),
    r_method := rl_method_lookup b s (p - s) (r_method r)\<rparr>)"
proof -
  define t where "t = take (p - s) (drop s b)"
  have s: "s < p" using assms(3) by (simp add: method_chars_def)
  then have len: "length t = p - s" using assms(4) by (simp add: t_def)
  have "rl_method_lookup b s (length t) (r_method r) = http_method_of (r_method r) t"
    using s assms(4) by (intro rl_method_lookup_token) (simp add: t_def)
  then show ?thesis
    using s assms by (simp add: rl_method_at_def len t_def)
qed

lemmas rl_inv_intros = uri_open_Suc uri_open_upd uri_closed_Suc uri_closed_end uri_open_slash
  schema_ok_Suc

lemma rl_inv_method:
  assumes "p < length b" "rl_inv b p RL_method r" "rl_method b p (b ! p) r = Next st' r'"
  shows "rl_inv b (Suc p) st' r'"
  using assms rl_method_at_Suc [of r _ b p]
  by (auto simp: rl_method_def Let_def method_char_def not_less intro: method_chars_Suc split: if_splits)

lemma rl_inv_head:
  assumes "p < length b" "rl_inv b p st r" "rl_step b p (b ! p) st r = Next st' r'"
    and "st \<in> {RL_start, RL_spaces_before_uri, RL_schema, RL_schema_slash, RL_schema_slash_slash}"
  shows "rl_inv b (Suc p) st' r'"
  using assms rl_method_at_mono [of b p r "Suc p"] uri_open_slash [of r b p]
  by (auto simp: rl_cases Let_def method_chars_def method_char_def not_less less_Suc_eq schema_ok_def
      split: if_splits)

lemma rl_inv_host:
  assumes "p < length b" "rl_inv b p st r" "rl_step b p (b ! p) st r = Next st' r'"
    and "st \<in> {RL_host, RL_port}"
  shows "rl_inv b (Suc p) st' r'"
proof -
  have n: "no_uri r" and s: "schema_ok b p r" using assms(2,4) by auto
  have m: "rl_method_at b p r" using s by (rule schema_ok_method)
  have closed: "no_uri r' \<Longrightarrow> schema_ok b p r' \<Longrightarrow>
      uri_closed b (Suc p) (r'\<lparr>uri_start := map_option (\<lambda>e. e + 1) (schema_end r'),
        uri_end := map_option (\<lambda>e. e + 2) (schema_end r')\<rparr>)" for r'
    by (intro uri_closed_Suc uri_closed_schema)
  show ?thesis
    using assms(1,3,4) n s m schema_ok_Suc [of b p r] uri_open_slash [of _ b p]
      closed [of "r\<lparr>host_end := Some p\<rparr>"] closed [of "r\<lparr>port_end := Some p\<rparr>"]
    by (auto simp: rl_cases Let_def split: if_splits)
qed

lemma rl_inv_uri:
  assumes "p < length b" "rl_inv b p st r" "rl_step b p (b ! p) st r = Next st' r'"
    and "st \<in> {RL_after_slash_in_uri, RL_check_uri, RL_uri}"
  shows "rl_inv b (Suc p) st' r'"
proof -
  have o: "uri_open b p r" using assms(2,4) by auto
  have S: "b ! p \<noteq> CR \<Longrightarrow> b ! p \<noteq> LF \<Longrightarrow> b ! p \<noteq> NUL \<Longrightarrow> uri_open b (Suc p) r"
    using uri_open_Suc [OF o assms(1)] by simp
  have C: "uri_closed b p (r\<lparr>uri_end := Some p\<rparr>)" using o by (rule uri_closed_end)
  show ?thesis
    using assms(1,3,4) S C uri_closed_Suc [OF C]
    by (auto simp: rl_cases usual_iff intro: uri_open_upd split: if_splits)
qed

lemma rl_inv_space:
  assumes "p < length b" "rl_inv b p st r" "rl_step b p (b ! p) st r = Next st' r'"
    and "st \<in> {RL_check_uri_http_09, RL_http_09}"
  shows "rl_inv b (Suc p) st' r'"
proof -
  have o: "uri_open b p r" and c: "uri_closed b p r" using assms(2,4) by auto
  have S: "b ! p \<noteq> CR \<Longrightarrow> b ! p \<noteq> LF \<Longrightarrow> uri_open b (Suc p) (r\<lparr>space_in_uri := True\<rparr>)"
    using uri_open_Suc [OF uri_open_upd(1) [OF o] assms(1)] by simp
  have S': "b ! p = ch_space \<Longrightarrow> uri_open b (Suc p) r"
    using uri_open_Suc [OF o assms(1)] by simp
  show ?thesis
    using assms(1,3,4) S S' c uri_closed_Suc [OF c]
    by (auto simp: rl_cases split: if_splits)
qed

lemma rl_inv_version:
  assumes "p < length b" "rl_inv b p st r" "rl_step b p (b ! p) st r = Next st' r'"
    and "st \<in> {RL_host_http_09, RL_http_H, RL_http_HT, RL_http_HTT, RL_http_HTTP, RL_first_major_digit,
      RL_major_digit, RL_first_minor_digit, RL_minor_digit, RL_spaces_after_digit}"
  shows "rl_inv b (Suc p) st' r'"
proof -
  have c: "uri_closed b p r" using assms(2,4) by auto
  show ?thesis
    using assms(1,3,4) c uri_closed_Suc [OF c]
    by (auto simp: rl_cases split: if_splits)
qed

theorem rl_inv_step:
  assumes "p < length b" "rl_inv b p st r" "rl_step b p (b ! p) st r = Next st' r'"
  shows "rl_inv b (Suc p) st' r'"
  using rl_inv_method [OF assms(1)] rl_inv_head [OF assms] rl_inv_host [OF assms]
    rl_inv_uri [OF assms] rl_inv_space [OF assms] rl_inv_version [OF assms] assms
  by (cases st) (auto simp: rl_almost_done_def Let_def split: if_splits)

text \<open>The iteration that reaches the label \<open>done\<close>.\<close>

lemma rl_inv_done:
  assumes "p < length b" "rl_inv b p st r" "rl_step b p (b ! p) st r = Goto RL_done r'"
    and "request_end r = None"
  shows "uri_closed b p r' \<and> b ! p = LF \<and>
    (request_end r' = None \<or>
     request_end r' = Some (p - 1) \<and> 0 < p \<and> b ! (p - 1) = CR \<and> uri_closed b (p - 1) r')"
  using assms uri_closed_end [of b p r] uri_closed_Suc [of b "p - 1" r]
  by (cases st) (auto simp: rl_cases Let_def split: if_splits option.splits)

lemma rl_step_request_end:
  "rl_step b p ch st r = Next st' r' \<Longrightarrow> request_end r = None \<Longrightarrow> request_end r' = None"
  by (cases st) (auto simp: rl_cases Let_def split: if_splits option.splits)

lemma rl_step_request_start:
  "rl_step b p ch st r = Next st' r' \<Longrightarrow> request_start r' = request_start r \<or> request_start r' = Some p"
  "rl_step b p ch st r = Goto l r' \<Longrightarrow> request_start r' = request_start r"
  by (cases st; auto simp: rl_cases Let_def split: if_splits option.splits)+

text \<open>\<open>args_start\<close> is set behind a question mark and nowhere else.\<close>

lemma rl_step_args_start:
  "rl_step b p ch st r = Next st' r' \<Longrightarrow> args_start r' = args_start r \<or> args_start r' = Some (Suc p) \<and> ch = ch_quest"
  "rl_step b p ch st r = Goto l r' \<Longrightarrow> args_start r' = args_start r"
  by (cases st; auto simp: rl_cases Let_def split: if_splits option.splits)+

definition rl_inv_from :: "bytes \<Rightarrow> nat \<Rightarrow> nat \<Rightarrow> rl_state \<Rightarrow> ngx_http_request \<Rightarrow> bool" where
  "rl_inv_from b pos p st r \<longleftrightarrow> rl_inv b p st r \<and> request_end r = None \<and> pos \<le> p \<and>
    (\<forall>s. request_start r = Some s \<longrightarrow> pos \<le> s) \<and> (\<forall>a. args_start r = Some a \<longrightarrow> b ! (a - 1) = ch_quest)"

lemma rl_inv_from_step: "scan_keeps rl_step b (rl_inv_from b pos)"
proof (rule scan_keepsI)
  fix p st r st' r'
  show "p < length b \<Longrightarrow> rl_inv_from b pos p st r \<Longrightarrow> rl_step b p (b ! p) st r = Next st' r' \<Longrightarrow>
    rl_inv_from b pos (Suc p) st' r'"
    unfolding rl_inv_from_def
    using rl_inv_step [of p b st r st' r'] rl_step_request_end [of b p "b ! p" st r st' r']
      rl_step_request_start(1) [of b p "b ! p" st r st' r'] rl_step_args_start(1) [of b p "b ! p" st r st' r']
    by auto
qed

lemma rl_inv_from_init: "rl_inv_from b pos pos RL_start ngx_http_request_init"
  by (simp add: rl_inv_from_def ngx_http_request_init_def no_uri_def)

lemma rl_step_Return:
  "rl_step b p ch st r = Return c r' \<Longrightarrow> c \<in> {NGX_HTTP_PARSE_INVALID_METHOD, NGX_HTTP_PARSE_INVALID_REQUEST}"
  by (cases st) (auto simp: rl_cases Let_def split: if_splits option.splits)

lemma rl_scan_Returned:
  assumes "scan rl_step b p st r = Returned c r'"
  shows "c \<in> {NGX_HTTP_PARSE_INVALID_METHOD, NGX_HTTP_PARSE_INVALID_REQUEST}"
  using scan_outcome(3) [where I = "\<lambda>_ _ _. True", OF _ _ assms]
  by (auto simp: scan_keeps_def dest: rl_step_Return)

lemma rl_finish_OK:
  assumes "rl_finish p r = (NGX_OK, pos', r')"
  shows "pos' = Suc p \<and> r' = r\<lparr>request_end := Some (case request_end r of None \<Rightarrow> p | Some e \<Rightarrow> e),
    http_version := ucast (http_major r) * 1000 + ucast (http_minor r), r_state := RL_start\<rparr>"
  using assms by (auto simp: rl_finish_def Let_def split: option.splits if_splits)

lemmas rl_eval = ngx_http_parse_request_line_def ngx_http_request_init_def scan_whole rl_cases
  usual_iff rl_method_lookup_def ngx_strcmp_defs rl_finish_def Let_def

text \<open>An accepted line, as the state in which the loop jumps to \<open>done\<close>; \<open>re\<close> is the end of the line.\<close>

lemma request_line_accepted:
  assumes "ngx_http_parse_request_line ngx_http_request_init b pos = (NGX_OK, pos', r)"
  obtains p re r1 where "p < length b" "pos' = Suc p" "b ! p = LF" "uri_closed b re r1" "re \<le> p"
    "r = r1\<lparr>request_end := Some re, http_version := ucast (http_major r1) * 1000 + ucast (http_minor r1), r_state := RL_start\<rparr>"
    "\<And>s. request_start r1 = Some s \<Longrightarrow> pos \<le> s" "\<And>a. args_start r1 = Some a \<Longrightarrow> b ! (a - 1) = ch_quest"
proof -
  let ?r0 = ngx_http_request_init
  have st0: "r_state ?r0 = RL_start" by (simp add: ngx_http_request_init_def)
  from assms obtain p r1 where run: "scan rl_step b pos RL_start ?r0 = Jumped RL_done p r1"
    and fin: "rl_finish p r1 = (NGX_OK, pos', r)"
    by (auto simp: ngx_http_parse_request_line_def st0 dest: rl_scan_Returned
        split: outcome.splits rl_label.splits)
  obtain st r0 where inv: "rl_inv_from b pos p st r0" and p: "p < length b"
    and step: "rl_step b p (b ! p) st r0 = Goto RL_done r1"
    using scan_outcome(2) [OF rl_inv_from_step rl_inv_from_init run] by blast
  have D: "uri_closed b p r1 \<and> b ! p = LF \<and>
    (request_end r1 = None \<or>
     request_end r1 = Some (p - 1) \<and> 0 < p \<and> b ! (p - 1) = CR \<and> uri_closed b (p - 1) r1)"
    using rl_inv_done [OF p _ step] inv by (simp add: rl_inv_from_def)
  define re where "re = (case request_end r1 of None \<Rightarrow> p | Some e \<Rightarrow> e)"
  have "uri_closed b re r1" "re \<le> p" using D by (auto simp: re_def)
  moreover have "r = r1\<lparr>request_end := Some re, http_version := ucast (http_major r1) * 1000 +
      ucast (http_minor r1), r_state := RL_start\<rparr>" "pos' = Suc p"
    using rl_finish_OK [OF fin] by (simp_all add: re_def)
  moreover have "request_start r1 = Some s \<Longrightarrow> pos \<le> s" "args_start r1 = Some a \<Longrightarrow> b ! (a - 1) = ch_quest" for s a
    using inv rl_step_request_start(2) [OF step] rl_step_args_start(2) [OF step] by (simp_all add: rl_inv_from_def)
  ultimately show ?thesis using that p D by blast
qed

text \<open>
  C8. When a request line is accepted, the pointers the parser leaves in the request are ordered and lie
  in the data: \<open>pos \<le> request_start \<le> method_end < uri_start < uri_end \<le> request_end < b->pos\<close>. The
  method consists of method characters, is followed by a space, and \<open>r->method\<close> is its code; the URI
  starts with a slash, contains no line end, and contains a NUL byte only where an unescaped space was
  accepted before it; \<open>args_start\<close> and \<open>uri_ext\<close>, where set, point into the URI; and the line ends with a
  line feed.
\<close>

theorem parse_request_line_structure:
  assumes "ngx_http_parse_request_line ngx_http_request_init b pos = (NGX_OK, pos', r)"
  shows "\<exists>s me us ue re.
    request_start r = Some s \<and> method_end r = Some me \<and> uri_start r = Some us \<and> uri_end r = Some ue \<and>
    request_end r = Some re \<and>
    pos \<le> s \<and> s \<le> me \<and> me + 1 < us \<and> us < ue \<and> ue \<le> re \<and> re < pos' \<and> pos' \<le> length b \<and>
    b ! (pos' - 1) = LF \<and>
    (\<forall>k. s \<le> k \<longrightarrow> k \<le> me \<longrightarrow> method_char (b ! k)) \<and> b ! (me + 1) = ch_space \<and>
    r_method r = http_method_of NGX_HTTP_UNKNOWN (take (me + 1 - s) (drop s b)) \<and>
    b ! us = ch_slash \<and>
    (\<forall>k. us \<le> k \<longrightarrow> k < ue \<longrightarrow> b ! k \<noteq> CR \<and> b ! k \<noteq> LF \<and> (b ! k = NUL \<longrightarrow> space_in_uri r)) \<and>
    (\<forall>a. args_start r = Some a \<longrightarrow> us < a \<and> a \<le> ue) \<and>
    (\<forall>e. uri_ext r = Some e \<longrightarrow> us < e \<and> e \<le> ue) \<and>
    r_state r = RL_start"
proof -
  obtain p re r1 where p: "p < length b" and pos': "pos' = Suc p" and lf: "b ! p = LF" and re: "uri_closed b re r1" "re \<le> p"
    and r: "r = r1\<lparr>request_end := Some re, http_version := ucast (http_major r1) * 1000 + ucast (http_minor r1), r_state := RL_start\<rparr>"
    and start: "\<And>s. request_start r1 = Some s \<Longrightarrow> pos \<le> s"
    using request_line_accepted [OF assms] by blast
  obtain us ue where uri: "uri_at b r1 us ue" "uri_end r1 = Some ue" "ue \<le> re"
    using re(1) by (auto simp: uri_closed_def)
  obtain s me where meth: "request_start r1 = Some s" "method_end r1 = Some me" "me + 1 < us"
    "method_chars b s (me + 1)" "b ! (me + 1) = ch_space"
    "r_method r1 = http_method_of NGX_HTTP_UNKNOWN (take (me + 1 - s) (drop s b))"
    using uri(1) by (auto simp: uri_at_def rl_method_at_def)
  have bytes: "us < ue" "b ! us = ch_slash"
    "\<forall>k. us \<le> k \<longrightarrow> k < ue \<longrightarrow> b ! k \<noteq> CR \<and> b ! k \<noteq> LF \<and> (b ! k = NUL \<longrightarrow> space_in_uri r)"
    "uri_start r = Some us" "uri_end r = Some ue"
    using uri by (auto simp: uri_at_def uri_bytes_def r)
  have chars: "s \<le> me" "\<forall>k. s \<le> k \<longrightarrow> k \<le> me \<longrightarrow> method_char (b ! k)"
    using meth(4) by (auto simp: method_chars_def)
  have ptrs: "\<forall>a. args_start r = Some a \<longrightarrow> us < a \<and> a \<le> ue"
    "\<forall>e. uri_ext r = Some e \<longrightarrow> us < e \<and> e \<le> ue"
    using uri(1) by (auto simp: uri_at_def ptr_in_def r)
  have rest: "request_start r = Some s" "method_end r = Some me" "request_end r = Some re"
    "r_state r = RL_start" "pos \<le> s"
    "r_method r = http_method_of NGX_HTTP_UNKNOWN (take (me + 1 - s) (drop s b))"
    "re < pos'" "pos' \<le> length b"
    "b ! (pos' - 1) = LF"
    using meth(1,2,6) re(2) p lf start by (simp_all add: r pos')
  show ?thesis
    by (intro exI [of _ s] exI [of _ me] exI [of _ us] exI [of _ ue] exI [of _ re] conjI; fact)
qed

theorem parse_request_line_structure_witness:
  "\<exists>r s me us ue re. ngx_http_parse_request_line ngx_http_request_init
      (str ''GET /a HTTP/1.1'' @ [CR, LF]) 0 = (NGX_OK, 17, r) \<and>
    request_start r = Some s \<and> method_end r = Some me \<and> uri_start r = Some us \<and>
    uri_end r = Some ue \<and> request_end r = Some re \<and>
    s \<le> me \<and> me + 1 < us \<and> us < ue \<and> ue \<le> re \<and> re < 17"
proof -
  obtain r where r: "ngx_http_parse_request_line ngx_http_request_init
      (str ''GET /a HTTP/1.1'' @ [CR, LF]) 0 = (NGX_OK, 17, r)"
    by (simp add: rl_eval str_def)
  show ?thesis using parse_request_line_structure [OF r] r by blast
qed

text \<open>
  C12. A request line may arrive in any number of pieces: when the data \<open>b\<close> ended before the line did
  (\<open>NGX_AGAIN\<close>), calling the parser again once \<open>rest\<close> has been received gives the return code, the position
  and the request that one call on the whole data gives. (Where the line is refused, the request differs
  in \<open>r->state\<close> only, which is then not used again.)
\<close>

theorem parse_request_line_resume:
  assumes "pos \<le> length b"
    and again: "ngx_http_parse_request_line r b pos = (NGX_AGAIN, pos1, r1)"
    and whole: "ngx_http_parse_request_line r (b @ rest) pos = (rc, pos2, r2)"
    and resumed: "ngx_http_parse_request_line r1 (b @ rest) pos1 = (rc', pos2', r2')"
  shows "pos1 = length b \<and> rc' = rc \<and>
    (rc \<in> {NGX_OK, NGX_AGAIN, NGX_HTTP_PARSE_INVALID_09_METHOD} \<longrightarrow> pos2' = pos2 \<and> r2' = r2) \<and>
    (rc \<in> {NGX_HTTP_PARSE_INVALID_METHOD, NGX_HTTP_PARSE_INVALID_REQUEST} \<longrightarrow>
       r2' = r2\<lparr>r_state := r_state r1\<rparr>)"
proof -
  have "rl_finish p r' \<noteq> (NGX_AGAIN, q, r'')" for p r' q r''
    by (auto simp: rl_finish_def Let_def)
  then obtain st r' where run: "scan rl_step b pos (r_state r) r = Exhausted pos1 st r'"
    and r1: "r1 = r'\<lparr>r_state := st\<rparr>"
    using again
    by (auto simp: ngx_http_parse_request_line_def dest: rl_scan_Returned
        split: outcome.splits rl_label.splits)
  have pos1: "pos1 = length b" using scan_Exhausted_pos [OF run assms(1)] .
  have resume: "scan rl_step (b @ rest) pos1 (r_state r1) r1 =
      map_outcome id (\<lambda>r. r\<lparr>r_state := st\<rparr>) id id (scan rl_step (b @ rest) pos (r_state r) r)"
    using rl.scan_resume [OF assms(1) run, of rest] by (simp add: r1)
  have fin: "rl_finish p (r'\<lparr>r_state := st\<rparr>) = rl_finish p r'" for p r'
    by (cases "request_end r'") (simp_all add: rl_finish_def Let_def)
  show ?thesis
  proof (cases "scan rl_step (b @ rest) pos (r_state r) r")
    case (Exhausted p st' r')
    then show ?thesis using whole resumed pos1 resume
      by (simp add: ngx_http_parse_request_line_def)
  next
    case (Jumped l p r')
    then show ?thesis using whole resumed pos1 resume fin
      by (cases l) (auto simp: ngx_http_parse_request_line_def rl_finish_def Let_def split: if_splits option.splits)
  next
    case (Returned c r')
    then show ?thesis using whole resumed pos1 resume rl_scan_Returned [OF Returned]
      by (auto simp: ngx_http_parse_request_line_def r1)
  qed
qed

theorem parse_request_line_resume_witness:
  "\<exists>r1 r2. ngx_http_parse_request_line ngx_http_request_init (str ''GE'') 0 = (NGX_AGAIN, 2, r1) \<and>
     ngx_http_parse_request_line r1 (str ''GE'' @ (str ''T /'' @ [LF])) 2 = (NGX_OK, 6, r2) \<and>
     ngx_http_parse_request_line ngx_http_request_init (str ''GE'' @ (str ''T /'' @ [LF])) 0 = (NGX_OK, 6, r2)"
proof -
  let ?b = "str ''GE''" and ?c = "str ''T /'' @ [LF]" and ?r = ngx_http_request_init
  obtain r1 where r1: "ngx_http_parse_request_line ?r ?b 0 = (NGX_AGAIN, 2, r1)"
    by (simp add: rl_eval str_def)
  obtain r2 where r2: "ngx_http_parse_request_line ?r (?b @ ?c) 0 = (NGX_OK, 6, r2)"
    by (simp add: rl_eval str_def)
  obtain rc p r3 where r3: "ngx_http_parse_request_line r1 (?b @ ?c) 2 = (rc, p, r3)"
    by (metis prod_cases3)
  show ?thesis using parse_request_line_resume [OF _ r1 r2 r3] r1 r2 r3 by simp
qed

text \<open>
  Two request lines that are accepted although they should not be: a NUL byte behind an unescaped space
  in the URI, and a version that does not fit into the 16 bits of \<open>r->http_major\<close>.
\<close>

lemma request_line_nul_after_space:
  "\<exists>r. ngx_http_parse_request_line ngx_http_request_init
      (str ''GET /a '' @ [NUL] @ str ''b HTTP/1.1'' @ [CR, LF]) 0 = (NGX_OK, 20, r) \<and>
    uri_start r = Some 4 \<and> uri_end r = Some 9"
  by (simp add: rl_eval str_def)

lemma request_line_version_wraps:
  "\<exists>r. ngx_http_parse_request_line ngx_http_request_init
      (str ''GET / HTTP/65537.1'' @ [CR, LF]) 0 = (NGX_OK, 20, r) \<and> http_version r = 1001"
  by (simp add: rl_eval str_def)

end
