(* ===== verification/Ngx_Request_Line_Accepts.thy ===== *)
theory Ngx_Request_Line_Accepts
  imports Ngx_Request_Line_Correct
begin

section \<open>The request lines that are accepted\<close>

text \<open>
  Request lines are described by their parts, and the fields of the request by what the parts are; the parser is followed
  through the line part by part.
\<close>

subsection \<open>The method and the version\<close>

lemma http_version_same [simp]:
  "http_major r = v \<Longrightarrow> r\<lparr>http_major := v\<rparr> = r"
  "http_minor r = v \<Longrightarrow> r\<lparr>http_minor := v\<rparr> = r"
  by (cases r; simp)+








subsection \<open>The scheme and the host\<close>










subsection \<open>The path and the arguments\<close>













subsection \<open>Request lines\<close>














end
