(* ===== verification/Ngx_Hash_Key.thy ===== *)
theory Ngx_Hash_Key
  imports Ngx_Prelude
begin

section \<open>Hash keys\<close>

text \<open>
  The key functions of \<open>src/core/ngx_hash.c\<close> and the macro \<open>ngx_hash\<close> of \<open>ngx_hash.h\<close>: the hash of a
  header name is computed incrementally by the header parsers and from the whole name where the hash
  tables are built, and the two must agree.
\<close>

definition ngx_hash :: "u64 \<Rightarrow> byte \<Rightarrow> u64" where
  "ngx_hash key c = key * 31 + ucast c"

fun ngx_hash_key_loop :: "u64 \<Rightarrow> bytes \<Rightarrow> u64" where
  "ngx_hash_key_loop key [] = key"
| "ngx_hash_key_loop key (c # data) = ngx_hash_key_loop (ngx_hash key c) data"

definition ngx_hash_key :: "bytes \<Rightarrow> u64" where
  "ngx_hash_key data = ngx_hash_key_loop 0 data"

fun ngx_hash_key_lc_loop :: "u64 \<Rightarrow> bytes \<Rightarrow> u64" where
  "ngx_hash_key_lc_loop key [] = key"
| "ngx_hash_key_lc_loop key (c # data) = ngx_hash_key_lc_loop (ngx_hash key (ngx_tolower c)) data"

definition ngx_hash_key_lc :: "bytes \<Rightarrow> u64" where
  "ngx_hash_key_lc data = ngx_hash_key_lc_loop 0 data"

text \<open>\<open>ngx_hash_strlow\<close>: the lower-cased copy and its hash.\<close>

fun ngx_hash_strlow_loop :: "u64 \<Rightarrow> bytes \<Rightarrow> bytes \<Rightarrow> u64 \<times> bytes" where
  "ngx_hash_strlow_loop key dst [] = (key, dst)"
| "ngx_hash_strlow_loop key dst (c # src) =
    ngx_hash_strlow_loop (ngx_hash key (ngx_tolower c)) (dst @ [ngx_tolower c]) src"

definition ngx_hash_strlow :: "bytes \<Rightarrow> u64 \<times> bytes" where
  "ngx_hash_strlow src = ngx_hash_strlow_loop 0 [] src"

lemma ngx_hash_key_loop_snoc: "ngx_hash_key_loop key (data @ [c]) = ngx_hash (ngx_hash_key_loop key data) c"
  by (induction data arbitrary: key) simp_all

lemma ngx_hash_key_lc_loop_map: "ngx_hash_key_lc_loop key data = ngx_hash_key_loop key (map ngx_tolower data)"
  by (induction data arbitrary: key) simp_all

lemma ngx_hash_key_Nil [simp]: "ngx_hash_key [] = 0"
  by (simp add: ngx_hash_key_def)

lemma ngx_hash_key_snoc: "ngx_hash_key (data @ [c]) = ngx_hash (ngx_hash_key data) c"
  by (simp add: ngx_hash_key_def ngx_hash_key_loop_snoc)

lemma ngx_hash_key_lc_map: "ngx_hash_key_lc data = ngx_hash_key (map ngx_tolower data)"
  by (simp add: ngx_hash_key_lc_def ngx_hash_key_def ngx_hash_key_lc_loop_map)

lemma ngx_hash_key_lc_snoc: "ngx_hash_key_lc (data @ [c]) = ngx_hash (ngx_hash_key_lc data) (ngx_tolower c)"
  by (simp add: ngx_hash_key_lc_map ngx_hash_key_snoc)

lemma ngx_hash_strlow_loop_eq:
  "ngx_hash_strlow_loop key dst src = (ngx_hash_key_lc_loop key src, dst @ map ngx_tolower src)"
  by (induction src arbitrary: key dst) simp_all

lemma ngx_hash_strlow_eq: "ngx_hash_strlow src = (ngx_hash_key (map ngx_tolower src), map ngx_tolower src)"
  by (simp add: ngx_hash_strlow_def ngx_hash_strlow_loop_eq ngx_hash_key_lc_loop_map ngx_hash_key_def)

end
