(* ===== verification/Ngx_Header_Line.thy ===== *)
theory Ngx_Header_Line
  imports Ngx_Scan Ngx_Hash_Key
begin

section \<open>\<open>ngx_http_parse_header_line\<close>\<close>

text \<open>
  \<open>ngx_http_parse_header_line\<close> of \<open>src/http/ngx_http_parse.c\<close> (754--1007), one definition per case of its
  switch.  The record holds the fields of \<open>ngx_http_request_t\<close> that the function uses.  The loop's
  local variables \<open>state\<close>, \<open>hash\<close> and \<open>i\<close> are the loop state; they are saved in the request at
  \<open>NGX_AGAIN\<close>.  The parameter \<open>us\<close> is \<open>allow_underscores\<close>.
\<close>

subsection \<open>State\<close>

datatype hl_state =
    HL_start
  | HL_name
  | HL_space_before_value
  | HL_value
  | HL_space_after_value
  | HL_ignore_line
  | HL_almost_done
  | HL_header_almost_done

record ngx_http_header_request =
  hr_state :: hl_state
  header_hash :: u64
  lowcase_index :: nat
  lowcase_header :: bytes
  header_name_start :: ptr
  header_name_end :: ptr
  header_start :: ptr
  header_end :: ptr
  invalid_header :: bool
  upstream :: bool

abbreviation (input) "NGX_HTTP_LC_HEADER_LEN \<equiv> 32 :: nat"

text \<open>The label \<open>done\<close> still uses the local variables \<open>hash\<close> and \<open>i\<close>.\<close>

datatype hl_label = HL_done u64 nat | HL_header_done

type_synonym hl_locals = "hl_state \<times> u64 \<times> nat"
type_synonym hl_result = "(hl_locals, ngx_http_header_request, hl_label, ngx_rc) step"

definition lowcase :: bytes where
  "lowcase =
    replicate 32 0 @
    replicate 13 0 @ str ''-'' @ replicate 2 0 @ str ''0123456789'' @ replicate 6 0 @
    [0] @ str ''abcdefghijklmnopqrstuvwxyz'' @ replicate 5 0 @
    [0] @ str ''abcdefghijklmnopqrstuvwxyz'' @ replicate 5 0 @
    replicate 128 0"

subsection \<open>The cases of the switch\<close>

definition hl_start :: "nat \<Rightarrow> byte \<Rightarrow> u64 \<Rightarrow> nat \<Rightarrow> ngx_http_header_request \<Rightarrow> hl_result" where
  "hl_start p ch hash i r =
    (let r = r\<lparr>header_name_start := Some p, invalid_header := False\<rparr> in
     if ch = CR then Next (HL_header_almost_done, hash, i) (r\<lparr>header_end := Some p\<rparr>)
     else if ch = LF then Goto HL_header_done (r\<lparr>header_end := Some p\<rparr>)
     else
       (let c = lowcase ! unat ch in
        if c \<noteq> 0 then
          Next (HL_name, ngx_hash 0 c, 1) (r\<lparr>lowcase_header := (lowcase_header r)[0 := c]\<rparr>)
        else if ch = NUL then Return NGX_HTTP_PARSE_INVALID_HEADER r
        else Next (HL_name, hash, i) (r\<lparr>invalid_header := True\<rparr>)))"

definition hl_name ::
  "bool \<Rightarrow> bytes \<Rightarrow> nat \<Rightarrow> byte \<Rightarrow> u64 \<Rightarrow> nat \<Rightarrow> ngx_http_header_request \<Rightarrow> hl_result" where
  "hl_name us b p ch hash i r =
    (let c = lowcase ! unat ch in
     if c \<noteq> 0 then
       Next (HL_name, ngx_hash hash c, (i + 1) AND (NGX_HTTP_LC_HEADER_LEN - 1))
         (r\<lparr>lowcase_header := (lowcase_header r)[i := c]\<rparr>)
     else if ch = ch_uscore then
       (if us then
          Next (HL_name, ngx_hash hash ch, (i + 1) AND (NGX_HTTP_LC_HEADER_LEN - 1))
            (r\<lparr>lowcase_header := (lowcase_header r)[i := ch]\<rparr>)
        else Next (HL_name, hash, i) (r\<lparr>invalid_header := True\<rparr>))
     else if ch = ch_colon then
       Next (HL_space_before_value, hash, i) (r\<lparr>header_name_end := Some p\<rparr>)
     else if ch = CR then
       Next (HL_almost_done, hash, i)
         (r\<lparr>header_name_end := Some p, header_start := Some p, header_end := Some p\<rparr>)
     else if ch = LF then
       Goto (HL_done hash i)
         (r\<lparr>header_name_end := Some p, header_start := Some p, header_end := Some p\<rparr>)
     else if ch = ch_slash \<and> upstream r \<and>
         (case header_name_start r of
            None \<Rightarrow> False
          | Some s \<Rightarrow> p - s = 4 \<and> take 4 (drop s b) = str ''HTTP'') then
       Next (HL_ignore_line, hash, i) r
     else if ch = NUL then Return NGX_HTTP_PARSE_INVALID_HEADER r
     else Next (HL_name, hash, i) (r\<lparr>invalid_header := True\<rparr>))"

definition hl_space_before_value ::
  "nat \<Rightarrow> byte \<Rightarrow> u64 \<Rightarrow> nat \<Rightarrow> ngx_http_header_request \<Rightarrow> hl_result" where
  "hl_space_before_value p ch hash i r =
    (if ch = ch_space then Next (HL_space_before_value, hash, i) r
     else if ch = CR then
       Next (HL_almost_done, hash, i) (r\<lparr>header_start := Some p, header_end := Some p\<rparr>)
     else if ch = LF then
       Goto (HL_done hash i) (r\<lparr>header_start := Some p, header_end := Some p\<rparr>)
     else if ch = NUL then Return NGX_HTTP_PARSE_INVALID_HEADER r
     else Next (HL_value, hash, i) (r\<lparr>header_start := Some p\<rparr>))"

definition hl_value :: "nat \<Rightarrow> byte \<Rightarrow> u64 \<Rightarrow> nat \<Rightarrow> ngx_http_header_request \<Rightarrow> hl_result" where
  "hl_value p ch hash i r =
    (if ch = ch_space then Next (HL_space_after_value, hash, i) (r\<lparr>header_end := Some p\<rparr>)
     else if ch = CR then Next (HL_almost_done, hash, i) (r\<lparr>header_end := Some p\<rparr>)
     else if ch = LF then Goto (HL_done hash i) (r\<lparr>header_end := Some p\<rparr>)
     else if ch = NUL then Return NGX_HTTP_PARSE_INVALID_HEADER r
     else Next (HL_value, hash, i) r)"

definition hl_space_after_value ::
  "byte \<Rightarrow> u64 \<Rightarrow> nat \<Rightarrow> ngx_http_header_request \<Rightarrow> hl_result" where
  "hl_space_after_value ch hash i r =
    (if ch = ch_space then Next (HL_space_after_value, hash, i) r
     else if ch = CR then Next (HL_almost_done, hash, i) r
     else if ch = LF then Goto (HL_done hash i) r
     else if ch = NUL then Return NGX_HTTP_PARSE_INVALID_HEADER r
     else Next (HL_value, hash, i) r)"

definition hl_ignore_line :: "byte \<Rightarrow> u64 \<Rightarrow> nat \<Rightarrow> ngx_http_header_request \<Rightarrow> hl_result" where
  "hl_ignore_line ch hash i r =
    (if ch = LF then Next (HL_start, hash, i) r else Next (HL_ignore_line, hash, i) r)"

definition hl_almost_done :: "byte \<Rightarrow> u64 \<Rightarrow> nat \<Rightarrow> ngx_http_header_request \<Rightarrow> hl_result" where
  "hl_almost_done ch hash i r =
    (if ch = LF then Goto (HL_done hash i) r
     else if ch = CR then Next (HL_almost_done, hash, i) r
     else Return NGX_HTTP_PARSE_INVALID_HEADER r)"

definition hl_header_almost_done :: "byte \<Rightarrow> ngx_http_header_request \<Rightarrow> hl_result" where
  "hl_header_almost_done ch r =
    (if ch = LF then Goto HL_header_done r else Return NGX_HTTP_PARSE_INVALID_HEADER r)"

subsection \<open>The switch and the function\<close>

fun hl_step ::
  "bool \<Rightarrow> bytes \<Rightarrow> nat \<Rightarrow> byte \<Rightarrow> hl_locals \<Rightarrow> ngx_http_header_request \<Rightarrow> hl_result" where
  "hl_step us b p ch (HL_start, hash, i) r = hl_start p ch hash i r"
| "hl_step us b p ch (HL_name, hash, i) r = hl_name us b p ch hash i r"
| "hl_step us b p ch (HL_space_before_value, hash, i) r = hl_space_before_value p ch hash i r"
| "hl_step us b p ch (HL_value, hash, i) r = hl_value p ch hash i r"
| "hl_step us b p ch (HL_space_after_value, hash, i) r = hl_space_after_value ch hash i r"
| "hl_step us b p ch (HL_ignore_line, hash, i) r = hl_ignore_line ch hash i r"
| "hl_step us b p ch (HL_almost_done, hash, i) r = hl_almost_done ch hash i r"
| "hl_step us b p ch (HL_header_almost_done, hash, i) r = hl_header_almost_done ch r"

definition hl_load :: "ngx_http_header_request \<Rightarrow> hl_locals" where
  "hl_load r = (hr_state r, header_hash r, lowcase_index r)"

definition hl_save :: "hl_locals \<Rightarrow> ngx_http_header_request \<Rightarrow> ngx_http_header_request" where
  "hl_save l r = (case l of (st, hash, i) \<Rightarrow>
     r\<lparr>hr_state := st, header_hash := hash, lowcase_index := i\<rparr>)"

definition ngx_http_parse_header_line ::
  "ngx_http_header_request \<Rightarrow> bytes \<Rightarrow> nat \<Rightarrow> bool \<Rightarrow> ngx_rc \<times> nat \<times> ngx_http_header_request" where
  "ngx_http_parse_header_line r b pos allow_underscores =
    (case scan (hl_step allow_underscores) b pos (hl_load r) r of
       Exhausted p l r' \<Rightarrow> (NGX_AGAIN, p, hl_save l r')
     | Jumped (HL_done hash i) p r' \<Rightarrow> (NGX_OK, p + 1, hl_save (HL_start, hash, i) r')
     | Jumped HL_header_done p r' \<Rightarrow> (NGX_HTTP_PARSE_HEADER_DONE, p + 1, r'\<lparr>hr_state := HL_start\<rparr>)
     | Returned rc r' \<Rightarrow> (rc, pos, r'))"

named_theorems hl_cases \<open>the definitions of the cases of the header-line switch\<close>

declare hl_start_def [hl_cases] hl_name_def [hl_cases] hl_space_before_value_def [hl_cases]
  hl_value_def [hl_cases] hl_space_after_value_def [hl_cases] hl_ignore_line_def [hl_cases]
  hl_almost_done_def [hl_cases] hl_header_almost_done_def [hl_cases]

subsection \<open>The table \<open>lowcase\<close>\<close>

definition header_char :: "byte \<Rightarrow> bool" where
  "header_char c \<longleftrightarrow> (ch_A \<le> c \<and> c \<le> ch_Z) \<or> (ch_a \<le> c \<and> c \<le> ch_z) \<or> is_digit c \<or> c = ch_dash"

lemma header_char_not [simp]:
  "\<not> header_char NUL" "\<not> header_char CR" "\<not> header_char LF" "\<not> header_char ch_colon"
  "\<not> header_char ch_uscore" "\<not> header_char ch_slash" "\<not> header_char ch_space"
  by (simp_all add: header_char_def is_digit_def)

lemma lowcase_map:
  "lowcase = map (\<lambda>n. if 65 \<le> n \<and> n \<le> 90 then word_of_nat (n + 32)
     else if (97 \<le> n \<and> n \<le> 122) \<or> (48 \<le> n \<and> n \<le> 57) \<or> n = 45 then word_of_nat n else 0) byte_codes"
  by (simp add: byte_codes_def lowcase_def str_def replicate_numeral)

lemma lowcase_nth: "lowcase ! unat ch = (if header_char ch then ngx_tolower ch else 0)"
proof -
  have "unat ch < 256" by (rule unat_byte_less)
  moreover have "ch = ch_dash \<longleftrightarrow> unat ch = 45"
    using word_unat_eq_iff [of ch 45] by simp
  moreover have "ngx_tolower ch = ch" if "\<not> (ch_A \<le> ch \<and> ch \<le> ch_Z)"
    using that by (auto simp: ngx_tolower_def)
  ultimately show ?thesis
    using ngx_tolower_upper [of ch]
    by (auto simp: lowcase_map byte_codes_upt header_char_def is_digit_def word_le_nat_alt) 
qed


lemma header_char_tolower: "header_char c \<Longrightarrow> ngx_tolower c \<noteq> 0"
  by (auto simp: header_char_def is_digit_def ngx_tolower_def dest: or_eq_0_iff [THEN iffD1])

lemma lowcase_nonzero [simp]: "lowcase ! unat ch \<noteq> 0 \<longleftrightarrow> header_char ch" "lowcase ! unat ch = 0 \<longleftrightarrow> \<not> header_char ch"
  using header_char_tolower [of ch] by (auto simp: lowcase_nth)

lemma hl_start_alt:
  "hl_start p ch hash i r =
    (let r = r\<lparr>header_name_start := Some p, invalid_header := False\<rparr> in
     if ch = CR then Next (HL_header_almost_done, hash, i) (r\<lparr>header_end := Some p\<rparr>)
     else if ch = LF then Goto HL_header_done (r\<lparr>header_end := Some p\<rparr>)
     else if header_char ch then
       Next (HL_name, ngx_hash 0 (ngx_tolower ch), 1)
         (r\<lparr>lowcase_header := (lowcase_header r)[0 := ngx_tolower ch]\<rparr>)
     else if ch = NUL then Return NGX_HTTP_PARSE_INVALID_HEADER r
     else Next (HL_name, hash, i) (r\<lparr>invalid_header := True\<rparr>))"
  by (simp add: hl_start_def Let_def lowcase_nth header_char_tolower)

lemma hl_name_alt:
  "hl_name us b p ch hash i r =
    (if header_char ch \<or> ch = ch_uscore \<and> us then
       Next (HL_name, ngx_hash hash (ngx_tolower ch), (i + 1) AND 31)
         (r\<lparr>lowcase_header := (lowcase_header r)[i := ngx_tolower ch]\<rparr>)
     else if ch = ch_uscore then Next (HL_name, hash, i) (r\<lparr>invalid_header := True\<rparr>)
     else if ch = ch_colon then
       Next (HL_space_before_value, hash, i) (r\<lparr>header_name_end := Some p\<rparr>)
     else if ch = CR then
       Next (HL_almost_done, hash, i)
         (r\<lparr>header_name_end := Some p, header_start := Some p, header_end := Some p\<rparr>)
     else if ch = LF then
       Goto (HL_done hash i)
         (r\<lparr>header_name_end := Some p, header_start := Some p, header_end := Some p\<rparr>)
     else if ch = ch_slash \<and> upstream r \<and>
         (case header_name_start r of
            None \<Rightarrow> False
          | Some s \<Rightarrow> p - s = 4 \<and> take 4 (drop s b) = str ''HTTP'') then
       Next (HL_ignore_line, hash, i) r
     else if ch = NUL then Return NGX_HTTP_PARSE_INVALID_HEADER r
     else Next (HL_name, hash, i) (r\<lparr>invalid_header := True\<rparr>))"
proof (cases "header_char ch")
  case True
  then show ?thesis by (simp add: hl_name_def Let_def lowcase_nth header_char_tolower)
next
  case False
  then have "lowcase ! unat ch = 0" and "ngx_tolower ch_uscore = ch_uscore"
    by (simp_all add: lowcase_nth ngx_tolower_def)
  with False show ?thesis unfolding hl_name_def Let_def by auto
qed

subsection \<open>Resumption\<close>

lemma hl_step_local:
  assumes "p < length b"
  shows "hl_step us (b @ rest) p ch l r = hl_step us b p ch l r"
proof -
  have "take 4 (drop s (b @ rest)) = take 4 (drop s b)" if "p - s = 4" for s
    using assms that by simp
  then have "(p - s = 4 \<and> take 4 (drop s (b @ rest)) = h) = (p - s = 4 \<and> take 4 (drop s b) = h)" for s h
    by metis
  then have "hl_name us (b @ rest) p ch hash i r = hl_name us b p ch hash i r" for hash i
    by (simp only: hl_name_def)
  then show ?thesis by (cases "(us, b, p, ch, l, r)" rule: hl_step.cases) simp_all
qed

lemma hl_load_save: "hl_load (hl_save l r) = l"
  by (cases l) (simp add: hl_load_def hl_save_def)

lemma hl_save_commute:
  "(hl_save s r)\<lparr>lowcase_header := v0\<rparr> = hl_save s (r\<lparr>lowcase_header := v0\<rparr>)"
  "(hl_save s r)\<lparr>header_name_start := v1\<rparr> = hl_save s (r\<lparr>header_name_start := v1\<rparr>)"
  "(hl_save s r)\<lparr>header_name_end := v2\<rparr> = hl_save s (r\<lparr>header_name_end := v2\<rparr>)"
  "(hl_save s r)\<lparr>header_start := v3\<rparr> = hl_save s (r\<lparr>header_start := v3\<rparr>)"
  "(hl_save s r)\<lparr>header_end := v4\<rparr> = hl_save s (r\<lparr>header_end := v4\<rparr>)"
  "(hl_save s r)\<lparr>invalid_header := v5\<rparr> = hl_save s (r\<lparr>invalid_header := v5\<rparr>)"
  by (cases s; simp add: hl_save_def)+

lemma hl_save_fields [simp]:
  "lowcase_header (hl_save s r) = lowcase_header r"
  "header_name_start (hl_save s r) = header_name_start r"
  "header_name_end (hl_save s r) = header_name_end r"
  "header_start (hl_save s r) = header_start r"
  "header_end (hl_save s r) = header_end r"
  "invalid_header (hl_save s r) = invalid_header r"
  "upstream (hl_save s r) = upstream r"
  by (cases s; simp add: hl_save_def)+

lemma hl_step_save:
  "hl_step us b p ch l (hl_save s r) = map_step id (hl_save s) id id (hl_step us b p ch l r)"
  by (cases "(us, b, p, ch, l, r)" rule: hl_step.cases)
    (simp_all add: hl_cases Let_def hl_save_commute if_distrib [of "map_step _ _ _ _"]
      cong: if_cong split del: if_split)

interpretation hl: resumable "hl_step us" hl_load hl_save for us
  by unfold_locales (simp_all add: hl_step_local hl_step_save hl_load_save)

end
