(* ===== verification/Ngx_Header_Line_Correct.thy ===== *)
theory Ngx_Header_Line_Correct
  imports Ngx_Header_Line
begin

section \<open>Correctness of the header-line parser\<close>

text \<open>
  The invariant of the loop of \<open>ngx_http_parse_header_line\<close> and what follows from it: the structure of an
  accepted header line, the hash of its name, the bounds of the ring buffer \<open>lowcase_header\<close>,
  resumption, and acceptance of well-formed lines.
\<close>

text \<open>
  The name read so far, \<open>b[s..e-1]\<close>: \<open>hash\<close> is its hash, \<open>i\<close> its length modulo 32, and
  \<open>lowcase_header\<close> is a ring buffer with its last 32 lower-cased bytes.
\<close>

definition lowcase_ring :: "bytes \<Rightarrow> bytes \<Rightarrow> bool" where
  "lowcase_ring ring name \<longleftrightarrow> length ring = 32 \<and>
    (\<forall>k < length name. length name \<le> k + 32 \<longrightarrow> ring ! (k mod 32) = ngx_tolower (name ! k))"

definition name_hashed :: "bytes \<Rightarrow> u64 \<Rightarrow> nat \<Rightarrow> bytes \<Rightarrow> bool" where
  "name_hashed name hash i ring \<longleftrightarrow>
    hash = ngx_hash_key_lc name \<and> i = length name mod 32 \<and> lowcase_ring ring name"

lemma mod_32_window:
  assumes "(k :: nat) < n" "Suc n \<le> k + 32" shows "k mod 32 \<noteq> n mod 32"
proof
  assume "k mod 32 = n mod 32"
  then have "(n - k) mod 32 = 0" using assms(1) by (metis less_imp_le mod_eq_dvd_iff_nat dvd_imp_mod_0)
  then show False using assms by (auto simp: mod_eq_0_iff_dvd dest: dvd_imp_le)
qed

lemma lowcase_ring_snoc:
  assumes "lowcase_ring ring name"
  shows "lowcase_ring (ring[length name mod 32 := ngx_tolower c]) (name @ [c])"
  using assms mod_32_window [of _ "length name"] unfolding lowcase_ring_def
  by (auto simp: nth_append nth_list_update less_Suc_eq) blast

lemma name_hashed_snoc:
  assumes "name_hashed name hash i ring"
  shows "name_hashed (name @ [c]) (ngx_hash hash (ngx_tolower c)) ((i + 1) AND 31) (ring[i := ngx_tolower c])"
  using assms lowcase_ring_snoc [of ring name c]
  by (simp add: name_hashed_def ngx_hash_key_lc_snoc and_31 mod_Suc_eq)

lemma name_hashed_single:
  "length ring = 32 \<Longrightarrow> name_hashed [c] (ngx_hash 0 (ngx_tolower c)) 1 (ring[0 := ngx_tolower c])"
  by (simp add: name_hashed_def lowcase_ring_def ngx_hash_key_lc_map ngx_hash_key_def ngx_hash_key_loop.simps)


definition clean :: "bytes \<Rightarrow> nat \<Rightarrow> nat \<Rightarrow> bool" where
  "clean b s e \<longleftrightarrow> e \<le> length b \<and> (\<forall>k. s \<le> k \<longrightarrow> k < e \<longrightarrow> b ! k \<noteq> NUL \<and> b ! k \<noteq> CR \<and> b ! k \<noteq> LF)"

definition spaces :: "bytes \<Rightarrow> nat \<Rightarrow> nat \<Rightarrow> bool" where
  "spaces b s e \<longleftrightarrow> (\<forall>k. s \<le> k \<longrightarrow> k < e \<longrightarrow> b ! k = ch_space)"

lemma clean_Suc: "clean b s p \<Longrightarrow> p < length b \<Longrightarrow> b ! p \<noteq> NUL \<Longrightarrow> b ! p \<noteq> CR \<Longrightarrow> b ! p \<noteq> LF \<Longrightarrow> clean b s (Suc p)"
  by (auto simp: clean_def less_Suc_eq)

lemma spaces_Suc: "spaces b s p \<Longrightarrow> b ! p = ch_space \<Longrightarrow> spaces b s (Suc p)"
  by (auto simp: spaces_def less_Suc_eq)

lemma clean_empty: "p \<le> length b \<Longrightarrow> clean b p p" and spaces_empty: "e \<le> s \<Longrightarrow> spaces b s e"
  by (auto simp: clean_def spaces_def)

text \<open>The name is \<open>b[s..e-1]\<close>.\<close>

definition hl_name_read :: "bytes \<Rightarrow> nat \<Rightarrow> nat \<Rightarrow> u64 \<Rightarrow> nat \<Rightarrow> ngx_http_header_request \<Rightarrow> bool" where
  "hl_name_read b s e hash i r \<longleftrightarrow> header_name_start r = Some s \<and> s < e \<and> clean b s e \<and>
    (\<not> invalid_header r \<longrightarrow> name_hashed (bslice s e b) hash i (lowcase_header r))"

definition hl_named :: "bytes \<Rightarrow> nat \<Rightarrow> nat \<Rightarrow> u64 \<Rightarrow> nat \<Rightarrow> ngx_http_header_request \<Rightarrow> bool" where
  "hl_named b pos ne hash i r \<longleftrightarrow> header_name_end r = Some ne \<and> ne < length b \<and>
    (\<exists>s. pos \<le> s \<and> hl_name_read b s ne hash i r) \<and> (b ! ne = ch_colon \<or> b ! ne = CR \<or> b ! ne = LF)"

text \<open>The value \<open>b[hs..he-1]\<close> is what lies between the name and \<open>q\<close>, without the spaces at either end.\<close>

definition hl_valued :: "bytes \<Rightarrow> nat \<Rightarrow> nat \<Rightarrow> ngx_http_header_request \<Rightarrow> bool" where
  "hl_valued b ne q r \<longleftrightarrow>
    (\<exists>hs he. header_start r = Some hs \<and> header_end r = Some he \<and> ne \<le> hs \<and> hs \<le> he \<and> he \<le> q \<and>
      spaces b (ne + 1) hs \<and> clean b hs he \<and> spaces b he q \<and>
      (hs < he \<longrightarrow> b ! hs \<noteq> ch_space \<and> b ! (he - 1) \<noteq> ch_space))"

text \<open>The value is followed by carriage returns up to \<open>p\<close>.\<close>

definition hl_closed :: "bytes \<Rightarrow> nat \<Rightarrow> nat \<Rightarrow> u64 \<Rightarrow> nat \<Rightarrow> ngx_http_header_request \<Rightarrow> bool" where
  "hl_closed b pos p hash i r \<longleftrightarrow>
    (\<exists>ne q. hl_named b pos ne hash i r \<and> hl_valued b ne q r \<and> q \<le> p \<and>
      (\<forall>k. q \<le> k \<longrightarrow> k < p \<longrightarrow> b ! k = CR))"

lemma hl_closedI:
  "hl_named b pos ne hash i r \<Longrightarrow> hl_valued b ne p r \<Longrightarrow> hl_closed b pos p hash i r"
  unfolding hl_closed_def by (intro exI [of _ ne] exI [of _ p]) auto

lemma hl_closed_Suc: "hl_closed b pos p hash i r \<Longrightarrow> b ! p = CR \<Longrightarrow> hl_closed b pos (Suc p) hash i r"
  unfolding hl_closed_def by (metis le_SucI less_Suc_eq)

lemma hl_closed_SucI:
  "hl_named b pos ne hash i r \<Longrightarrow> hl_valued b ne p r \<Longrightarrow> b ! p = CR \<Longrightarrow> hl_closed b pos (Suc p) hash i r"
  by (intro hl_closed_Suc hl_closedI)

definition hl_ring_ok :: "nat \<Rightarrow> ngx_http_header_request \<Rightarrow> bool" where
  "hl_ring_ok i r \<longleftrightarrow> i < 32 \<and> length (lowcase_header r) = 32"

fun hl_inv :: "bytes \<Rightarrow> nat \<Rightarrow> nat \<Rightarrow> hl_locals \<Rightarrow> ngx_http_header_request \<Rightarrow> bool" where
  "hl_inv b pos p (HL_start, hash, i) r \<longleftrightarrow> pos \<le> p \<and> hl_ring_ok i r"
| "hl_inv b pos p (HL_name, hash, i) r \<longleftrightarrow> hl_ring_ok i r \<and> (\<exists>s\<ge>pos. hl_name_read b s p hash i r)"
| "hl_inv b pos p (HL_space_before_value, hash, i) r \<longleftrightarrow> hl_ring_ok i r \<and>
    (\<exists>ne < p. hl_named b pos ne hash i r \<and> spaces b (ne + 1) p)"
| "hl_inv b pos p (HL_value, hash, i) r \<longleftrightarrow> hl_ring_ok i r \<and>
    (\<exists>ne hs. hl_named b pos ne hash i r \<and> header_start r = Some hs \<and> ne < hs \<and> hs < p \<and>
      spaces b (ne + 1) hs \<and> clean b hs p \<and> b ! hs \<noteq> ch_space \<and> b ! (p - 1) \<noteq> ch_space)"
| "hl_inv b pos p (HL_space_after_value, hash, i) r \<longleftrightarrow> hl_ring_ok i r \<and>
    (\<exists>ne hs. hl_named b pos ne hash i r \<and> hl_valued b ne p r \<and> header_start r = Some hs \<and> 
      ne < hs \<and> hs < p \<and> clean b hs p \<and> b ! hs \<noteq> ch_space)"
| "hl_inv b pos p (HL_ignore_line, hash, i) r \<longleftrightarrow> pos \<le> p \<and> hl_ring_ok i r"
| "hl_inv b pos p (HL_almost_done, hash, i) r \<longleftrightarrow> hl_ring_ok i r \<and> hl_closed b pos p hash i r"
| "hl_inv b pos p (HL_header_almost_done, hash, i) r \<longleftrightarrow>
    hl_ring_ok i r \<and> 0 < p \<and> pos \<le> p - 1 \<and> header_end r = Some (p - 1) \<and> b ! (p - 1) = CR"

lemma hl_start_inv:
  assumes "p < length b" "hl_inv b pos p (HL_start, hash, i) r" "hl_start p (b ! p) hash i r = Next l' r'"
  shows "hl_inv b pos (Suc p) l' r'"
  using assms name_hashed_single [of "lowcase_header r" "b ! p"] 
  by (auto simp: hl_start_alt Let_def hl_ring_ok_def hl_name_read_def bslice_one clean_def less_Suc_eq
      split: if_splits intro!: exI [of _ p])


lemma hl_name_read_Suc:
  assumes "hl_name_read b s p hash i r" "p < length b" "header_char (b ! p) \<or> b ! p = ch_uscore"
  shows "hl_name_read b s (Suc p) (ngx_hash hash (ngx_tolower (b ! p))) ((i + 1) AND 31)
    (r\<lparr>lowcase_header := (lowcase_header r)[i := ngx_tolower (b ! p)]\<rparr>)"
proof -
  have "clean b s (Suc p)" using assms by (intro clean_Suc) (auto simp: hl_name_read_def)
  then show ?thesis
    using assms name_hashed_snoc [of "bslice s p b" hash i "lowcase_header r" "b ! p"]
    by (simp add: hl_name_read_def bslice_Suc)
qed

lemma hl_name_read_invalid:
  assumes "hl_name_read b s p hash i r" "p < length b" "b ! p \<notin> {NUL, CR, LF}"
  shows "hl_name_read b s (Suc p) hash i (r\<lparr>invalid_header := True\<rparr>)"
  using assms clean_Suc [of b s p] by (simp add: hl_name_read_def)

lemma hl_named_intro:
  assumes "hl_name_read b s p hash i r" "pos \<le> s" "p < length b" "b ! p \<in> {ch_colon, CR, LF}"
  shows "hl_named b pos p hash i (r\<lparr>header_name_end := Some p\<rparr>)"
  using assms by (auto simp: hl_named_def hl_name_read_def)

lemma hl_named_frame [simp]:
  "hl_named b pos ne hash i (r\<lparr>header_start := x0\<rparr>) = hl_named b pos ne hash i r"
  "hl_named b pos ne hash i (r\<lparr>header_end := x1\<rparr>) = hl_named b pos ne hash i r"
  by (simp_all add: hl_named_def hl_name_read_def)

lemma hl_ring_ok_frame [simp]:
  "hl_ring_ok i (r\<lparr>header_start := x0\<rparr>) = hl_ring_ok i r"
  "hl_ring_ok i (r\<lparr>header_end := x1\<rparr>) = hl_ring_ok i r"
  "hl_ring_ok i (r\<lparr>header_name_end := x2\<rparr>) = hl_ring_ok i r"
  "hl_ring_ok i (r\<lparr>header_name_start := x3\<rparr>) = hl_ring_ok i r"
  "hl_ring_ok i (r\<lparr>invalid_header := x4\<rparr>) = hl_ring_ok i r"
  by (simp_all add: hl_ring_ok_def)

lemma hl_ring_ok_upd: "hl_ring_ok i r \<Longrightarrow> hl_ring_ok ((i + 1) AND 31) (r\<lparr>lowcase_header := (lowcase_header r)[j := c]\<rparr>)"
  by (simp add: hl_ring_ok_def and_31)

lemma hl_valued_empty:
  "ne < length b \<Longrightarrow> ne \<le> p \<Longrightarrow> spaces b (ne + 1) p \<Longrightarrow> p \<le> length b \<Longrightarrow> hl_valued b ne p (r\<lparr>header_start := Some p, header_end := Some p\<rparr>)"
  by (auto simp: hl_valued_def clean_def spaces_def)

lemma hl_name_inv:
  assumes p: "p < length b" and inv: "hl_inv b pos p (HL_name, hash, i) r"
    and step: "hl_name us b p (b ! p) hash i r = Next l' r'"
  shows "hl_inv b pos (Suc p) l' r'"
proof -
  from inv obtain s where s: "pos \<le> s" "hl_name_read b s p hash i r" and ring: "hl_ring_ok i r" by auto
  have sp: "s < p" using s(2) by (simp add: hl_name_read_def)
  have valued: "hl_valued b p p (r\<lparr>header_name_end := Some p, header_start := Some p, header_end := Some p\<rparr>)"
    using p by (intro hl_valued_empty) (auto simp: spaces_def)
  have sp0: "spaces b (Suc p) (Suc p)" by (simp add: spaces_def)
  show ?thesis
  proof (cases "header_char (b ! p) \<or> b ! p = ch_uscore \<and> us")
    case True
    then show ?thesis
      using step hl_name_read_Suc [OF s(2) p] hl_ring_ok_upd [OF ring] s(1) by (auto simp: hl_name_alt)
  next
    case False
    have cr: "b ! p = CR \<Longrightarrow> hl_closed b pos (Suc p) hash i
        (r\<lparr>header_name_end := Some p, header_start := Some p, header_end := Some p\<rparr>)"
      using hl_named_intro [OF s(2,1) p] valued by (intro hl_closed_SucI) simp_all
    show ?thesis
      using False step hl_named_intro [OF s(2,1) p] ring hl_name_read_invalid [OF s(2) p] s(1) sp sp0 cr
      by (auto simp: hl_name_alt split: if_splits)
  qed
qed

lemma hl_value_inv:
  assumes "p < length b" "hl_inv b pos p l r" "hl_step us b p (b ! p) l r = Next l' r'"
    "fst l \<in> {HL_space_before_value, HL_value, HL_space_after_value}"
  shows "hl_inv b pos (Suc p) l' r'"
proof -
  obtain st hash i where l: "l = (st, hash, i)" by (cases l)
  have ring: "hl_ring_ok i r" using assms(2,4) l by auto
  consider "st = HL_space_before_value" | "st = HL_value" | "st = HL_space_after_value" using assms(4) l by auto
  then show ?thesis
  proof cases
    case 1
    then obtain ne where ne: "ne < p" "hl_named b pos ne hash i r" "spaces b (Suc ne) p"
      using assms(2) l by auto
    have nx: "b ! p = ch_space \<Longrightarrow> \<exists>ne<Suc p. hl_named b pos ne hash i r \<and> spaces b (Suc ne) (Suc p)"
      using ne spaces_Suc [OF ne(3)] by (intro exI [of _ ne]) auto
    have "clean b p (Suc p)" if "b ! p \<notin> {NUL, CR, LF}" using that assms(1) by (auto simp: clean_def less_Suc_eq)
    then show ?thesis
      using assms(1,3) 1 l ne ring hl_valued_empty [of ne b p r] nx
        hl_closed_SucI [of b pos ne hash i _ p]
      by (auto simp: hl_space_before_value_def split: if_splits)
  next
    case 2
    then obtain ne hs where v: "hl_named b pos ne hash i r" "header_start r = Some hs" "ne < hs" "hs < p"
      "spaces b (ne + 1) hs" "clean b hs p" "b ! hs \<noteq> ch_space" "b ! (p - 1) \<noteq> ch_space"
      using assms(2) l by auto
    have val: "hl_valued b ne p (r\<lparr>header_end := Some p\<rparr>)"
      using v by (auto simp: hl_valued_def spaces_def)
    have val': "b ! p = ch_space \<Longrightarrow> hl_valued b ne (Suc p) (r\<lparr>header_end := Some p\<rparr>)"
      using v by (auto simp: hl_valued_def spaces_def less_Suc_eq)
    show ?thesis
      using assms(1,3) 2 l v ring hl_closed_SucI [of b pos ne hash i _ p] val val' clean_Suc [OF v(6)]
      by (auto simp: hl_value_def split: if_splits)
  next
    case 3
    then obtain ne hs where v: "hl_named b pos ne hash i r" "hl_valued b ne p r" "header_start r = Some hs" "ne < hs" "hs < p"
      "clean b hs p" "b ! hs \<noteq> ch_space"
      using assms(2) l by auto
    have val': "b ! p = ch_space \<Longrightarrow> hl_valued b ne (Suc p) r"
      using v by (fastforce simp: hl_valued_def spaces_def less_Suc_eq)
    have sp: "spaces b (Suc ne) hs" using v(2,3) by (auto simp: hl_valued_def)
    show ?thesis
      using assms(1,3) 3 l v ring hl_closed_SucI [OF v(1,2)] val' sp clean_Suc [OF v(6)]
      by (auto simp: hl_space_after_value_def split: if_splits)
  qed
qed


lemma hl_inv_step:
  assumes "p < length b" "hl_inv b pos p l r" "hl_step us b p (b ! p) l r = Next l' r'"
  shows "hl_inv b pos (Suc p) l' r'"
proof -
  obtain st hash i where l: "l = (st, hash, i)" by (cases l)
  show ?thesis
  proof (cases st)
    case HL_start
    then show ?thesis using hl_start_inv [of p b pos hash i r l' r'] assms by (simp add: l)
  next
    case HL_name
    then show ?thesis using hl_name_inv [of p b pos hash i r us l' r'] assms by (simp add: l)
  next
    case HL_almost_done
    then show ?thesis using assms hl_closed_Suc [of b pos p hash i r]
      by (auto simp: l hl_almost_done_def split: if_splits)
  qed (use assms hl_value_inv [OF assms] in
      \<open>auto simp: l hl_ignore_line_def hl_header_almost_done_def split: if_splits\<close>)
qed

lemma hl_inv_keeps: "scan_keeps (hl_step us) b (hl_inv b pos)"
  by (rule scan_keepsI) (rule hl_inv_step)

text \<open>The iteration that reaches a label.\<close>

lemma hl_done:
  assumes "p < length b" "hl_inv b pos p l r" "hl_step us b p (b ! p) l r = Goto (HL_done hash i) r'"
  shows "hl_closed b pos p hash i r' \<and> hl_ring_ok i r' \<and> b ! p = LF"
proof -
  obtain st hash' i' where l': "l = (st, hash', i')" by (cases l)
  then have "hash' = hash" "i' = i" and LF: "b ! p = LF" using assms(3)
    by (cases st; auto simp: hl_start_alt hl_name_alt hl_space_before_value_def hl_value_def hl_space_after_value_def
      hl_almost_done_def hl_ignore_line_def hl_header_almost_done_def Let_def split: if_splits)+
  then have l: "l = (st, hash, i)" using l' by simp
  show ?thesis
  proof (cases st)
    case HL_name
    have r': "r' = r\<lparr>header_name_end := Some p, header_start := Some p, header_end := Some p\<rparr>"
      using assms(3) LF by (auto simp: l HL_name hl_name_alt)
    obtain s where s: "pos \<le> s" "hl_name_read b s p hash i r" "hl_ring_ok i r"
      using assms(2) by (auto simp: l HL_name)
    have "hl_valued b p p r'" using assms(1) r' by (auto simp: hl_valued_def clean_def spaces_def)
    then have "hl_closed b pos p hash i r'"
      using hl_named_intro [OF s(2,1) assms(1)] LF r' by (intro hl_closedI) auto
    then show ?thesis using s LF r' by simp
  next
    case HL_space_before_value
    have r': "r' = r\<lparr>header_start := Some p, header_end := Some p\<rparr>"
      using assms(3) LF by (auto simp: l HL_space_before_value hl_space_before_value_def)
    obtain ne where ne: "ne < p" "hl_named b pos ne hash i r" "spaces b (Suc ne) p" "hl_ring_ok i r"
      using assms(2) by (auto simp: l HL_space_before_value)
    have "hl_valued b ne p r'" using ne assms(1) unfolding r' by (intro hl_valued_empty) auto
    then show ?thesis using hl_closedI [of b pos ne hash i r' p] ne LF r' by simp
  next
    case HL_value
    have r': "r' = r\<lparr>header_end := Some p\<rparr>"
      using assms(3) LF by (auto simp: l HL_value hl_value_def)
    obtain ne hs where v: "hl_named b pos ne hash i r" "header_start r = Some hs" "ne < hs" "hs < p"
      "spaces b (ne + 1) hs" "clean b hs p" "b ! hs \<noteq> ch_space" "b ! (p - 1) \<noteq> ch_space" "hl_ring_ok i r"
      using assms(2) by (auto simp: l HL_value)
    then have "hl_valued b ne p r'" by (auto simp: hl_valued_def spaces_def r')
    then show ?thesis using v LF r' hl_closedI [of b pos ne hash i r' p] by simp
  next
    case HL_space_after_value
    have r': "r' = r" using assms(3) LF by (auto simp: l HL_space_after_value hl_space_after_value_def)
    then show ?thesis using LF assms(2) hl_closedI [of b pos _ hash i r p] by (auto simp: l HL_space_after_value)
  qed (use assms(2,3) LF in \<open>auto simp: l hl_start_alt hl_ignore_line_def hl_almost_done_def hl_header_almost_done_def Let_def split: if_splits\<close>)
qed

lemma hl_step_Return: "hl_step us b p ch l r = Return c r' \<Longrightarrow> c = NGX_HTTP_PARSE_INVALID_HEADER"
  by (cases "(us, b, p, ch, l, r)" rule: hl_step.cases) (auto simp: hl_cases Let_def split: if_splits)

lemma hl_scan_Returned:
  assumes "scan (hl_step us) b p l r = Returned c r'"
  shows "c = NGX_HTTP_PARSE_INVALID_HEADER"
  using scan_outcome(3) [where I = "\<lambda>_ _ _. True", OF _ _ assms]
  by (auto simp: scan_keeps_def dest: hl_step_Return)


lemma hl_parse_OK:
  assumes "hr_state r = HL_start" "hl_ring_ok (lowcase_index r) r"
    and "ngx_http_parse_header_line r b pos us = (NGX_OK, pos', r')"
  shows "0 < pos' \<and> pos' \<le> length b \<and> b ! (pos' - 1) = LF \<and> hr_state r' = HL_start \<and>
    hl_ring_ok (lowcase_index r') r' \<and>
    hl_closed b pos (pos' - 1) (header_hash r') (lowcase_index r') r'"
proof -
  have inv0: "hl_inv b pos pos (hl_load r) r" using assms(1,2) by (simp add: hl_load_def)
  from assms(3) obtain hash i p r1 where run: "scan (hl_step us) b pos (hl_load r) r = Jumped (HL_done hash i) p r1"
    and r': "pos' = Suc p" "r' = hl_save (HL_start, hash, i) r1"
    by (auto simp: ngx_http_parse_header_line_def dest: hl_scan_Returned split: outcome.splits hl_label.splits)
  obtain l r0 where step: "hl_inv b pos p l r0" "p < length b" "hl_step us b p (b ! p) l r0 = Goto (HL_done hash i) r1"
    using scan_outcome(2) [OF hl_inv_keeps inv0 run] by blast
  have d: "hl_closed b pos p hash i r1" "hl_ring_ok i r1" "b ! p = LF"
    using hl_done [OF step(2,1,3)] by auto
  have "hl_closed b pos p hash i r'" "hl_ring_ok i r'"
    using d(1,2) by (simp_all add: r' hl_closed_def hl_named_def hl_name_read_def hl_valued_def hl_ring_ok_def)
  then show ?thesis using d(3) step(2) by (simp add: r'(1)) (simp add: r'(2) hl_save_def)
qed

text \<open>The request as \<open>ngx_http_init_request\<close> hands it over: zeroed memory, not an upstream's.\<close>

definition ngx_http_header_init :: ngx_http_header_request where
  "ngx_http_header_init =
    \<lparr> hr_state = HL_start, header_hash = 0, lowcase_index = 0, lowcase_header = replicate 32 0,
      header_name_start = None, header_name_end = None, header_start = None, header_end = None,
      invalid_header = False, upstream = False \<rparr>"

lemmas hl_eval = ngx_http_parse_header_line_def ngx_http_header_init_def scan_whole hl_load_def hl_save_def
  hl_start_alt hl_name_alt hl_space_before_value_def hl_value_def hl_space_after_value_def
  hl_almost_done_def hl_header_almost_done_def Let_def header_char_def is_digit_def ngx_tolower_def
  str_def

text \<open>
  C15. When a header line is accepted, the pointers left in the request are ordered and lie in the data
  (\<open>pos \<le> header_name_start < header_name_end \<le> header_start \<le> header_end < b->pos\<close>). Name and value contain
  no NUL byte and no line end; the value is everything between the colon and the line end without the
  spaces around it; and the line ends with carriage returns and one line feed.
\<close>

theorem parse_header_line_structure:
  assumes "hr_state r = HL_start" "lowcase_index r < 32" "length (lowcase_header r) = 32"
    and "ngx_http_parse_header_line r b pos us = (NGX_OK, pos', r')"
  shows "\<exists>s ne hs he q.
    header_name_start r' = Some s \<and> header_name_end r' = Some ne \<and>
    header_start r' = Some hs \<and> header_end r' = Some he \<and>
    pos \<le> s \<and> s < ne \<and> ne \<le> hs \<and> hs \<le> he \<and> he \<le> q \<and> q < pos' \<and> pos' \<le> length b \<and>
    clean b s ne \<and> b ! ne \<in> {ch_colon, CR, LF} \<and> spaces b (ne + 1) hs \<and>
    clean b hs he \<and> (hs < he \<longrightarrow> b ! hs \<noteq> ch_space \<and> b ! (he - 1) \<noteq> ch_space) \<and>
    spaces b he q \<and> (\<forall>k. q \<le> k \<longrightarrow> k < pos' - 1 \<longrightarrow> b ! k = CR) \<and> b ! (pos' - 1) = LF"
proof -
  have ok: "0 < pos'" "pos' \<le> length b" "b ! (pos' - 1) = LF"
    "hl_closed b pos (pos' - 1) (header_hash r') (lowcase_index r') r'"
    using hl_parse_OK [OF assms(1) _ assms(4)] assms(2,3) by (auto simp: hl_ring_ok_def)
  from ok(4) obtain ne q where c: "hl_named b pos ne (header_hash r') (lowcase_index r') r'" "hl_valued b ne q r'"
    "q \<le> pos' - 1" "\<forall>k. q \<le> k \<longrightarrow> k < pos' - 1 \<longrightarrow> b ! k = CR"
    by (auto simp: hl_closed_def)
  from c(1) obtain s where n: "header_name_end r' = Some ne" "header_name_start r' = Some s" "pos \<le> s" "s < ne" "clean b s ne"
    "b ! ne \<in> {ch_colon, CR, LF}" by (auto simp: hl_named_def hl_name_read_def)
  from c(2) obtain hs he where v: "header_start r' = Some hs" "header_end r' = Some he" "ne \<le> hs" "hs \<le> he" "he \<le> q"
    "spaces b (ne + 1) hs" "clean b hs he" "spaces b he q"
    "hs < he \<longrightarrow> b ! hs \<noteq> ch_space \<and> b ! (he - 1) \<noteq> ch_space" unfolding hl_valued_def by blast
  have q: "q < pos'" using c(3) ok(1) by simp
  show ?thesis
    by (intro exI [of _ s] exI [of _ ne] exI [of _ hs] exI [of _ he] exI [of _ q] conjI; fact)
qed

theorem parse_header_line_structure_witness:
  "\<exists>r' s ne hs he q. ngx_http_parse_header_line ngx_http_header_init (str ''Ab: c '' @ [CR, LF]) 0 False =
      (NGX_OK, 8, r') \<and>
    header_name_start r' = Some s \<and> header_name_end r' = Some ne \<and>
    header_start r' = Some hs \<and> header_end r' = Some he \<and>
    s < ne \<and> ne \<le> hs \<and> hs \<le> he \<and> he \<le> q \<and> q < 8"
proof -
  obtain r' where r': "ngx_http_parse_header_line ngx_http_header_init (str ''Ab: c '' @ [CR, LF]) 0 False =
      (NGX_OK, 8, r')" by (simp add: hl_eval)
  show ?thesis using parse_header_line_structure [OF _ _ _ r'] r' by (auto simp: ngx_http_header_init_def)
qed

text \<open>
  C16. The hash that the parser computes byte by byte is the key of the name in the header hash tables:
  for a valid header name, \<open>header_hash\<close> is \<open>ngx_hash_key_lc\<close> of the name, and for names shorter than
  \<open>NGX_HTTP_LC_HEADER_LEN\<close> the first \<open>lowcase_index\<close> bytes of \<open>lowcase_header\<close> are the lower-cased name.
\<close>

theorem parse_header_line_hash:
  assumes "hr_state r = HL_start" "lowcase_index r < 32" "length (lowcase_header r) = 32"
    and "ngx_http_parse_header_line r b pos us = (NGX_OK, pos', r')" and "\<not> invalid_header r'"
  shows "\<exists>s ne. header_name_start r' = Some s \<and> header_name_end r' = Some ne \<and>
    header_hash r' = ngx_hash_key_lc (bslice s ne b) \<and>
    lowcase_index r' = (ne - s) mod 32 \<and>
    (ne - s < 32 \<longrightarrow> take (lowcase_index r') (lowcase_header r') = map ngx_tolower (bslice s ne b))"
proof -
  have "hl_closed b pos (pos' - 1) (header_hash r') (lowcase_index r') r'"
    using hl_parse_OK [OF assms(1) _ assms(4)] assms(2,3) by (auto simp: hl_ring_ok_def)
  then obtain s ne where n: "header_name_end r' = Some ne" "header_name_start r' = Some s" "ne < length b"
    and h: "name_hashed (bslice s ne b) (header_hash r') (lowcase_index r') (lowcase_header r')"
    using assms(5) by (auto simp: hl_closed_def hl_named_def hl_name_read_def)
  have len: "length (bslice s ne b) = ne - s" using n(3) by (simp add: length_bslice)
  have "take (lowcase_index r') (lowcase_header r') = map ngx_tolower (bslice s ne b)" if "ne - s < 32"
    using h that by (intro nth_equalityI) (auto simp: name_hashed_def lowcase_ring_def len)
  then show ?thesis using n h len by (auto simp: name_hashed_def)
qed

theorem parse_header_line_hash_witness:
  "\<exists>r'. ngx_http_parse_header_line ngx_http_header_init (str ''Ab: c'' @ [LF]) 0 False = (NGX_OK, 6, r') \<and>
    header_hash r' = ngx_hash_key_lc (str ''Ab'')"
proof -
  obtain r' where r': "ngx_http_parse_header_line ngx_http_header_init (str ''Ab: c'' @ [LF]) 0 False = (NGX_OK, 6, r')"
      "\<not> invalid_header r'" "header_name_start r' = Some 0" "header_name_end r' = Some 2"
    by (simp add: hl_eval)
  show ?thesis using parse_header_line_hash [OF _ _ _ r'(1,2)] r' by (simp add: ngx_http_header_init_def bslice_def str_def)
qed

text \<open>
  No iteration of the header-line loop writes outside of the 32 bytes of \<open>lowcase_header\<close>: the index
  is below 32 before every iteration, and so after it.
\<close>

theorem parse_header_line_ring:
  "scan_keeps (hl_step us) b (\<lambda>p (st, hash, i) r. i < 32 \<and> length (lowcase_header r) = 32)"
proof (rule scan_keepsI, clarify)
  fix p st hash i r st' hash' i' r'
  assume "p < length b" "i < (32::nat)" "length (lowcase_header r) = 32"
    "hl_step us b p (b ! p) (st, hash, i) r = Next (st', hash', i') r'"
  then show "i' < 32 \<and> length (lowcase_header r') = 32"
    by (cases st) (auto simp: hl_start_alt hl_name_alt hl_space_before_value_def hl_value_def hl_space_after_value_def
      hl_almost_done_def hl_ignore_line_def hl_header_almost_done_def Let_def and_31 split: if_splits)
qed

text \<open>
  C17. A header line may arrive in any number of pieces: continuing after \<open>NGX_AGAIN\<close> when \<open>rest\<close> has been
  received gives the return code, the position and the request that one call on the whole data gives;
  at the end of the header and for an invalid line, up to the saved loop variables, which are not used then.
\<close>

theorem parse_header_line_resume:
  assumes "pos \<le> length b"
    and again: "ngx_http_parse_header_line r b pos us = (NGX_AGAIN, pos1, r1)"
    and whole: "ngx_http_parse_header_line r (b @ rest) pos us = (rc, pos2, r2)"
    and resumed: "ngx_http_parse_header_line r1 (b @ rest) pos1 us = (rc', pos2', r2')"
  shows "pos1 = length b \<and> rc' = rc \<and>
    (rc \<in> {NGX_OK, NGX_AGAIN} \<longrightarrow> pos2' = pos2 \<and> r2' = r2) \<and>
    (rc = NGX_HTTP_PARSE_HEADER_DONE \<longrightarrow> pos2' = pos2 \<and> hl_save (hl_load r2) r2' = r2) \<and>
    (rc = NGX_HTTP_PARSE_INVALID_HEADER \<longrightarrow> r2' = hl_save (hl_load r1) r2)"
proof -
  obtain l r' where run: "scan (hl_step us) b pos (hl_load r) r = Exhausted pos1 l r'"
    and r1: "r1 = hl_save l r'"
    using again
    by (auto simp: ngx_http_parse_header_line_def dest: hl_scan_Returned split: outcome.splits hl_label.splits)
  have pos1: "pos1 = length b" using scan_Exhausted_pos [OF run assms(1)] .
  have resume: "scan (hl_step us) (b @ rest) pos1 (hl_load r1) r1 =
      map_outcome id (hl_save l) id id (scan (hl_step us) (b @ rest) pos (hl_load r) r)"
    using hl.scan_resume [OF assms(1) run, of rest] by (simp add: r1)
  have ss: "hl_save m (hl_save m' x) = hl_save m x" "hl_save (hl_load x) x = x" for m m' x
    by (cases m; cases m'; simp add: hl_save_def hl_load_def)+
  show ?thesis
  proof (cases "scan (hl_step us) (b @ rest) pos (hl_load r) r")
    case (Exhausted p st' r')
    then show ?thesis using whole resumed pos1 resume by (simp add: ngx_http_parse_header_line_def ss)
  next
    case (Jumped lb p r')
    then show ?thesis using whole resumed pos1 resume ss
      by (cases lb) (auto simp: ngx_http_parse_header_line_def hl_save_def hl_load_def split: prod.splits)
  next
    case (Returned c r')
    then show ?thesis using whole resumed pos1 resume hl_scan_Returned [OF Returned]
      by (auto simp: ngx_http_parse_header_line_def r1 hl_load_save)
  qed
qed

theorem parse_header_line_resume_witness:
  "\<exists>r1 r2. ngx_http_parse_header_line ngx_http_header_init (str ''A'') 0 False = (NGX_AGAIN, 1, r1) \<and>
     ngx_http_parse_header_line r1 (str ''A'' @ (str '':b'' @ [LF])) 1 False = (NGX_OK, 4, r2) \<and>
     ngx_http_parse_header_line ngx_http_header_init (str ''A'' @ (str '':b'' @ [LF])) 0 False = (NGX_OK, 4, r2)"
proof -
  let ?b = "str ''A''" and ?c = "str '':b'' @ [LF]" and ?r = ngx_http_header_init
  obtain r1 where r1: "ngx_http_parse_header_line ?r ?b 0 False = (NGX_AGAIN, 1, r1)" by (simp add: hl_eval)
  obtain r2 where r2: "ngx_http_parse_header_line ?r (?b @ ?c) 0 False = (NGX_OK, 4, r2)" by (simp add: hl_eval)
  obtain rc p r3 where r3: "ngx_http_parse_header_line r1 (?b @ ?c) 1 False = (rc, p, r3)"
    by (metis prod_cases3)
  show ?thesis using parse_header_line_resume [OF _ r1 r2 r3] r1 r2 r3 by simp
qed


definition value_char :: "byte \<Rightarrow> bool" where
  "value_char c \<longleftrightarrow> c \<noteq> NUL \<and> c \<noteq> CR \<and> c \<noteq> LF"

lemma scan_value:
  assumes "\<forall>c\<in>set v. value_char c"
  shows "v = [] \<or> last v \<noteq> ch_space \<Longrightarrow>
      scan_on (hl_step us) b (v @ [CR, LF]) p (HL_value, hash, i) r =
      Jumped (HL_done hash i) (p + length v + 1) (r\<lparr>header_end := Some (p + length v)\<rparr>)"
    and "v \<noteq> [] \<Longrightarrow> last v \<noteq> ch_space \<Longrightarrow>
      scan_on (hl_step us) b (v @ [CR, LF]) p (HL_space_after_value, hash, i) r =
      Jumped (HL_done hash i) (p + length v + 1) (r\<lparr>header_end := Some (p + length v)\<rparr>)"
  using assms
proof (induction v arbitrary: p r)
  case Nil
  case 1
  show ?case by (simp add: hl_value_def hl_almost_done_def)
next
  case Nil
  case 2
  then show ?case by simp
next
  case (Cons c v)
  case 1
  then show ?case using Cons.IH [of "Suc p"] by (auto simp: hl_value_def value_char_def split: if_splits)
next
  case (Cons c v)
  case 2
  then show ?case using Cons.IH [of "Suc p"] by (auto simp: hl_space_after_value_def value_char_def split: if_splits)
qed

lemma scan_name:
  assumes "\<forall>c\<in>set cs. header_char c" "name_hashed name hash i (lowcase_header r)"
  shows "\<exists>ring. name_hashed (name @ cs) (ngx_hash_key_lc (name @ cs)) (length (name @ cs) mod 32) ring \<and>
    scan_on (hl_step us) b (cs @ rest) p (HL_name, hash, i) r =
    scan_on (hl_step us) b rest (p + length cs)
      (HL_name, ngx_hash_key_lc (name @ cs), length (name @ cs) mod 32) (r\<lparr>lowcase_header := ring\<rparr>)"
  using assms
proof (induction cs arbitrary: name hash i r p)
  case Nil
  then show ?case by (intro exI [of _ "lowcase_header r"]) (simp add: name_hashed_def)
next
  case (Cons c cs)
  then show ?case
    using Cons.IH [of "name @ [c]" "ngx_hash hash (ngx_tolower c)" "(i + 1) AND 31"
        "r\<lparr>lowcase_header := (lowcase_header r)[i := ngx_tolower c]\<rparr>" "Suc p"]
      name_hashed_snoc [of name hash i "lowcase_header r" c]
    by (simp add: hl_name_alt)
qed

definition header_line :: "bytes \<Rightarrow> nat \<Rightarrow> bytes \<Rightarrow> bytes" where
  "header_line name n v = name @ [ch_colon] @ replicate n ch_space @ v @ [CR, LF]"

text \<open>
  C20. Every header line that consists of a name of valid characters, a colon, any number of spaces and a
  value without NUL bytes, line ends and surrounding spaces is accepted, and the request describes
  exactly this name and this value.
\<close>

theorem parse_header_line_accepts:
  assumes r: "hr_state r = HL_start" "length (lowcase_header r) = 32"
    and name: "name \<noteq> []" "\<forall>c\<in>set name. header_char c"
    and v: "v \<noteq> []" "\<forall>c\<in>set v. value_char c" "hd v \<noteq> ch_space" "last v \<noteq> ch_space"
  shows "\<exists>ring. ngx_http_parse_header_line r (header_line name n v) 0 us =
    (NGX_OK, length (header_line name n v),
     r\<lparr>header_name_start := Some 0, header_name_end := Some (length name),
       header_start := Some (length name + 1 + n), header_end := Some (length name + 1 + n + length v),
       header_hash := ngx_hash_key_lc name, lowcase_index := length name mod 32,
       lowcase_header := ring, invalid_header := False\<rparr>)"
proof -
  let ?b = "header_line name n v"
  obtain c cs where cs: "name = c # cs" using name(1) by (cases name) auto
  obtain w ws where ws: "v = w # ws" using v(1) by (cases v) auto
  define r1 where "r1 = r\<lparr>header_name_start := Some 0, invalid_header := False,
    lowcase_header := (lowcase_header r)[0 := ngx_tolower c]\<rparr>"
  have c: "header_char c" "c \<noteq> CR" "c \<noteq> LF" using name(2) cs by auto
  have "name_hashed [c] (ngx_hash 0 (ngx_tolower c)) 1 (lowcase_header r1)"
    using name_hashed_single [OF r(2)] by (simp add: r1_def)
  from scan_name [OF _ this, of cs us ?b "[ch_colon] @ replicate n ch_space @ v @ [CR, LF]" 1]
  obtain ring where n1: "scan_on (hl_step us) ?b ?b 0 (hl_load r) r =
    scan_on (hl_step us) ?b (ch_colon # replicate n ch_space @ v @ [CR, LF]) (length name)
      (HL_name, ngx_hash_key_lc name, length name mod 32) (r1\<lparr>lowcase_header := ring\<rparr>)"
    using name(2) c r(1) by (auto simp: cs header_line_def hl_load_def hl_start_alt Let_def r1_def)
  define l where "l = (ngx_hash_key_lc name, length name mod 32)"
  have n2: "scan_on (hl_step us) ?b (replicate n ch_space @ v @ [CR, LF]) p (HL_space_before_value, l) r' =
    scan_on (hl_step us) ?b (v @ [CR, LF]) (p + n) (HL_space_before_value, l) r'" for p r'
    using scan_on_run [of "replicate n ch_space" "hl_step us" ?b] by (simp add: l_def hl_space_before_value_def)
  have n3: "scan_on (hl_step us) ?b (v @ [CR, LF]) p (HL_space_before_value, l) r' =
    Jumped (HL_done (fst l) (snd l)) (p + length v + 1) (r'\<lparr>header_start := Some p, header_end := Some (p + length v)\<rparr>)" for p r'
    using v scan_value(1) [of ws us ?b "Suc p" "fst l" "snd l"]
    by (auto simp: ws l_def hl_space_before_value_def value_char_def split: if_splits)
  have "scan (hl_step us) ?b 0 (hl_load r) r = Jumped (HL_done (fst l) (snd l)) (length name + 1 + n + length v + 1)
    (r1\<lparr>lowcase_header := ring, header_name_end := Some (length name),
       header_start := Some (length name + 1 + n), header_end := Some (length name + 1 + n + length v)\<rparr>)"
    using n2 n3 by (simp add: scan_whole n1 hl_name_alt) (simp add: l_def)
  then show ?thesis
    by (intro exI [of _ ring]) (simp add: ngx_http_parse_header_line_def hl_save_def l_def r1_def header_line_def r(1))
qed

theorem parse_header_line_accepts_witness:
  "\<exists>r'. ngx_http_parse_header_line ngx_http_header_init (header_line (str ''Host'') 1 (str ''a b'')) 0 False =
    (NGX_OK, 11, r') \<and> header_start r' = Some 6 \<and> header_end r' = Some 9"
  using parse_header_line_accepts [of ngx_http_header_init "str ''Host''" "str ''a b''" 1 False]
  by (auto simp: str_def header_char_def value_char_def is_digit_def header_line_def ngx_http_header_init_def)

end
