(* ===== verification/Ngx_Complex_Uri.thy ===== *)
theory Ngx_Complex_Uri
  imports Ngx_Request
begin

section \<open>\<open>ngx_http_parse_complex_uri\<close>\<close>

text \<open>
  The URI normaliser \<open>ngx_http_parse_complex_uri\<close> of \<open>src/http/ngx_http_parse.c\<close> (1010--1332): it decodes
  percent escapes, merges slashes and resolves the segments \<open>.\<close> and \<open>..\<close> in one pass.  The output
  \<open>r->uri.data .. u\<close> is the list \<open>cu_out\<close>, so \<open>u\<close> is its length: the code reads only bytes below \<open>u\<close>,
  and \<open>*u++ = ch\<close> appends.  The header buffer is \<open>b\<close>, and \<open>p\<close>, \<open>us\<close> and \<open>ue\<close> (\<open>r->uri_start\<close>, \<open>r->uri_end\<close>) and
  \<open>args_start\<close> are indices into it; \<open>u_ext\<close> (\<open>r->uri_ext\<close>) is an index into the output.  The enumeration is split into
  the four states that may be interrupted by an escape (the values of \<open>quoted_state\<close>) and the
  two states inside of one.  Modelled is the non-Windows build.
\<close>

subsection \<open>State\<close>

datatype cu_path = CU_usual | CU_slash | CU_dot | CU_dot_dot

datatype cu_state = CU_path cu_path | CU_quoted | CU_quoted_second

text \<open>The fields of the request that the function writes; a string is an offset and a length.\<close>

record cu_request =
  u_uri :: bytes
  u_ext :: ptr
  u_exten :: "(nat \<times> nat) option"
  u_args_start :: ptr
  u_args :: "(nat \<times> nat) option"
  u_plus_in_uri :: bool
  u_quoted_uri :: bool

record cu_locals =
  cu_p :: nat
  cu_ch :: byte
  cu_st :: cu_state
  cu_quoted_state :: cu_path
  cu_decoded :: byte
  cu_out :: bytes

datatype cu_result =
    CU_next cu_locals cu_request
  | CU_args cu_locals cu_request
  | CU_done cu_locals cu_request
  | CU_return ngx_rc cu_request

text \<open>\<open>ch = *p++\<close>, \<open>*u++ = ch\<close>, and the backward search for the parent segment in \<open>sw_dot_dot\<close>.\<close>

definition cu_advance :: "bytes \<Rightarrow> cu_locals \<Rightarrow> cu_locals" where
  "cu_advance b l = l\<lparr>cu_ch := b ! cu_p l, cu_p := cu_p l + 1\<rparr>"

definition cu_put :: "byte \<Rightarrow> cu_locals \<Rightarrow> cu_locals" where
  "cu_put c l = l\<lparr>cu_out := cu_out l @ [c]\<rparr>"

fun cu_parent :: "bytes \<Rightarrow> nat \<Rightarrow> nat option" where
  "cu_parent out 0 = (if out ! 0 = ch_slash then Some 1 else None)"
| "cu_parent out (Suc u) = (if out ! Suc u = ch_slash then Some (Suc u + 1) else cu_parent out u)"

subsection \<open>The cases of the switch\<close>

definition cu_usual :: "bytes \<Rightarrow> cu_locals \<Rightarrow> cu_request \<Rightarrow> cu_result" where
  "cu_usual b l r =
    (let ch = cu_ch l in
     if bitmap_test usual ch then CU_next (cu_advance b (cu_put ch l)) r
     else if ch = ch_slash then
       CU_next (cu_advance b (cu_put ch (l\<lparr>cu_st := CU_path CU_slash\<rparr>))) (r\<lparr>u_ext := None\<rparr>)
     else if ch = ch_percent then
       CU_next (cu_advance b (l\<lparr>cu_quoted_state := CU_usual, cu_st := CU_quoted\<rparr>)) r
     else if ch = ch_quest then CU_args l (r\<lparr>u_args_start := Some (cu_p l)\<rparr>)
     else if ch = ch_hash then CU_done l r
     else if ch = ch_dot then
       CU_next (cu_advance b (cu_put ch l)) (r\<lparr>u_ext := Some (length (cu_out l) + 1)\<rparr>)
     else if ch = ch_plus then
       CU_next (cu_advance b (cu_put ch l)) (r\<lparr>u_plus_in_uri := True\<rparr>)
     else CU_next (cu_advance b (cu_put ch l)) r)"

definition cu_slash :: "bool \<Rightarrow> bytes \<Rightarrow> cu_locals \<Rightarrow> cu_request \<Rightarrow> cu_result" where
  "cu_slash merge_slashes b l r =
    (let ch = cu_ch l; lu = l\<lparr>cu_st := CU_path CU_usual\<rparr> in
     if bitmap_test usual ch then CU_next (cu_advance b (cu_put ch lu)) r
     else if ch = ch_slash then
       CU_next (cu_advance b (if merge_slashes then l else cu_put ch l)) r
     else if ch = ch_dot then CU_next (cu_advance b (cu_put ch (l\<lparr>cu_st := CU_path CU_dot\<rparr>))) r
     else if ch = ch_percent then
       CU_next (cu_advance b (l\<lparr>cu_quoted_state := CU_slash, cu_st := CU_quoted\<rparr>)) r
     else if ch = ch_quest then CU_args l (r\<lparr>u_args_start := Some (cu_p l)\<rparr>)
     else if ch = ch_hash then CU_done l r
     else if ch = ch_plus then
       CU_next (cu_advance b (cu_put ch lu)) (r\<lparr>u_plus_in_uri := True\<rparr>)
     else CU_next (cu_advance b (cu_put ch lu)) r)"

definition cu_dot :: "bytes \<Rightarrow> cu_locals \<Rightarrow> cu_request \<Rightarrow> cu_result" where
  "cu_dot b l r =
    (let ch = cu_ch l; lu = l\<lparr>cu_st := CU_path CU_usual\<rparr> in
     if bitmap_test usual ch then CU_next (cu_advance b (cu_put ch lu)) r
     else if ch = ch_slash then
       CU_next (cu_advance b (l\<lparr>cu_st := CU_path CU_slash, cu_out := butlast (cu_out l)\<rparr>)) r
     else if ch = ch_dot then
       CU_next (cu_advance b (cu_put ch (l\<lparr>cu_st := CU_path CU_dot_dot\<rparr>))) r
     else if ch = ch_percent then
       CU_next (cu_advance b (l\<lparr>cu_quoted_state := CU_dot, cu_st := CU_quoted\<rparr>)) r
     else if ch = ch_quest then CU_args l (r\<lparr>u_args_start := Some (cu_p l)\<rparr>)
     else if ch = ch_hash then CU_done l r
     else if ch = ch_plus then
       CU_next (cu_advance b (cu_put ch lu)) (r\<lparr>u_plus_in_uri := True\<rparr>)
     else CU_next (cu_advance b (cu_put ch lu)) r)"

definition cu_dot_dot :: "bytes \<Rightarrow> cu_locals \<Rightarrow> cu_request \<Rightarrow> cu_result" where
  "cu_dot_dot b l r =
    (let ch = cu_ch l; lu = l\<lparr>cu_st := CU_path CU_usual\<rparr> in
     if bitmap_test usual ch then CU_next (cu_advance b (cu_put ch lu)) r
     else if ch = ch_slash then
       (if length (cu_out l) < 5 then CU_return NGX_HTTP_PARSE_INVALID_REQUEST r
        else
          (case cu_parent (cu_out l) (length (cu_out l) - 5) of
             None \<Rightarrow> CU_return NGX_HTTP_PARSE_INVALID_REQUEST r
           | Some u \<Rightarrow>
               CU_next (cu_advance b (l\<lparr>cu_st := CU_path CU_slash, cu_out := take u (cu_out l)\<rparr>)) r))
     else if ch = ch_percent then
       CU_next (cu_advance b (l\<lparr>cu_quoted_state := CU_dot_dot, cu_st := CU_quoted\<rparr>)) r
     else if ch = ch_quest then CU_args l (r\<lparr>u_args_start := Some (cu_p l)\<rparr>)
     else if ch = ch_hash then CU_done l r
     else if ch = ch_plus then
       CU_next (cu_advance b (cu_put ch lu)) (r\<lparr>u_plus_in_uri := True\<rparr>)
     else CU_next (cu_advance b (cu_put ch lu)) r)"

definition cu_quoted :: "bytes \<Rightarrow> cu_locals \<Rightarrow> cu_request \<Rightarrow> cu_result" where
  "cu_quoted b l r =
    (let ch = cu_ch l; r = r\<lparr>u_quoted_uri := True\<rparr>; c = ch OR 0x20 in
     if ch_0 \<le> ch \<and> ch \<le> ch_9 then
       CU_next (cu_advance b (l\<lparr>cu_decoded := ch - ch_0, cu_st := CU_quoted_second\<rparr>)) r
     else if ch_a \<le> c \<and> c \<le> ch_f then
       CU_next (cu_advance b (l\<lparr>cu_decoded := c - ch_a + 10, cu_st := CU_quoted_second\<rparr>)) r
     else CU_return NGX_HTTP_PARSE_INVALID_REQUEST r)"

definition cu_quoted_second :: "bytes \<Rightarrow> cu_locals \<Rightarrow> cu_request \<Rightarrow> cu_result" where
  "cu_quoted_second b l r =
    (let ch = cu_ch l; c = ch OR 0x20; lu = l\<lparr>cu_st := CU_path CU_usual\<rparr>;
         lq = l\<lparr>cu_st := CU_path (cu_quoted_state l)\<rparr> in
     if ch_0 \<le> ch \<and> ch \<le> ch_9 then
       (let ch = push_bit 4 (cu_decoded l) + ch - ch_0 in
        if ch = ch_percent \<or> ch = ch_hash then CU_next (cu_advance b (cu_put ch lu)) r
        else if ch = NUL then CU_return NGX_HTTP_PARSE_INVALID_REQUEST r
        else CU_next (lq\<lparr>cu_ch := ch\<rparr>) r)
     else if ch_a \<le> c \<and> c \<le> ch_f then
       (let ch = push_bit 4 (cu_decoded l) + c - ch_a + 10 in
        if ch = ch_quest then CU_next (cu_advance b (cu_put ch lu)) r
        else if ch = ch_plus then CU_next (lq\<lparr>cu_ch := ch\<rparr>) (r\<lparr>u_plus_in_uri := True\<rparr>)
        else CU_next (lq\<lparr>cu_ch := ch\<rparr>) r)
     else CU_return NGX_HTTP_PARSE_INVALID_REQUEST r)"

subsection \<open>The loop\<close>

definition cu_step :: "bool \<Rightarrow> bytes \<Rightarrow> cu_locals \<Rightarrow> cu_request \<Rightarrow> cu_result" where
  "cu_step merge_slashes b l r =
    (case cu_st l of
       CU_path CU_usual \<Rightarrow> cu_usual b l r
     | CU_path CU_slash \<Rightarrow> cu_slash merge_slashes b l r
     | CU_path CU_dot \<Rightarrow> cu_dot b l r
     | CU_path CU_dot_dot \<Rightarrow> cu_dot_dot b l r
     | CU_quoted \<Rightarrow> cu_quoted b l r
     | CU_quoted_second \<Rightarrow> cu_quoted_second b l r)"

named_theorems cu_cases \<open>the definitions of the cases of the URI switch\<close>

declare cu_usual_def [cu_cases] cu_slash_def [cu_cases] cu_dot_def [cu_cases]
  cu_dot_dot_def [cu_cases] cu_quoted_def [cu_cases] cu_quoted_second_def [cu_cases]

text \<open>
  Every iteration reads a further byte, but for the one that ends an escape: it keeps the decoded
  byte as \<open>ch\<close> and returns to the interrupted state.
\<close>

definition cu_measure :: "nat \<Rightarrow> cu_locals \<Rightarrow> nat" where
  "cu_measure ue l =
    2 * (ue + 1 - cu_p l) + (if cu_st l = CU_quoted_second then 1 else 0)"

lemma cu_step_measure:
  assumes "cu_p l \<le> ue" and "cu_step merge b l r = CU_next l' r'"
  shows "cu_measure ue l' < cu_measure ue l"
proof (cases "cu_st l")
  case (CU_path s)
  then show ?thesis using assms
    by (cases s) (auto simp: cu_step_def cu_cases cu_measure_def cu_advance_def cu_put_def Let_def
        split: if_splits option.splits)
qed (use assms in \<open>auto simp: cu_step_def cu_cases cu_measure_def cu_advance_def cu_put_def Let_def
        split: if_splits\<close>)

function cu_loop :: "bool \<Rightarrow> bytes \<Rightarrow> nat \<Rightarrow> cu_locals \<Rightarrow> cu_request \<Rightarrow> cu_result" where
  "cu_loop merge_slashes b ue l r =
    (if cu_p l \<le> ue then
       (case cu_step merge_slashes b l r of
          CU_next l' r' \<Rightarrow> cu_loop merge_slashes b ue l' r'
        | other \<Rightarrow> other)
     else CU_done l r)"
  by pat_completeness auto
termination
  by (relation "measure (\<lambda>(m, b, ue, l, r). cu_measure ue l)")
    (auto intro: cu_step_measure)

declare cu_loop.simps [simp del]

subsection \<open>The function\<close>

text \<open>The code behind the label \<open>done\<close>, which the code behind \<open>args\<close> repeats.\<close>

definition cu_finish :: "cu_locals \<Rightarrow> cu_request \<Rightarrow> ngx_rc \<times> cu_request" where
  "cu_finish l r =
    (let r = r\<lparr>u_uri := cu_out l\<rparr>;
         r = (case u_ext r of None \<Rightarrow> r | Some e \<Rightarrow> r\<lparr>u_exten := Some (e, length (cu_out l) - e)\<rparr>)
     in (NGX_OK, r\<lparr>u_ext := None\<rparr>))"

text \<open>The loop behind the label \<open>args\<close>: a fragment ends the arguments.\<close>

function cu_args :: "bytes \<Rightarrow> nat \<Rightarrow> nat \<Rightarrow> cu_request \<Rightarrow> cu_request" where
  "cu_args b ue p r =
    (if p < ue then
       (if b ! p \<noteq> ch_hash then cu_args b ue (p + 1) r
        else
          (case u_args_start r of
             None \<Rightarrow> r
           | Some a \<Rightarrow> r\<lparr>u_args := Some (a, p + 1 - 1 - a), u_args_start := None\<rparr>))
     else r)"
  by pat_completeness auto
termination by (relation "measure (\<lambda>(b, ue, p, r). ue - p)") auto

declare cu_args.simps [simp del]

text \<open>The code behind the labels.\<close>

definition cu_exit :: "bytes \<Rightarrow> nat \<Rightarrow> cu_result \<Rightarrow> ngx_rc \<times> cu_request" where
  "cu_exit b ue res =
    (case res of
       CU_return rc r \<Rightarrow> (rc, r)
     | CU_done l r \<Rightarrow> cu_finish l r
     | CU_args l r \<Rightarrow> cu_finish l (cu_args b ue (cu_p l) r)
     | CU_next l r \<Rightarrow> cu_finish l r)"

definition ngx_http_parse_complex_uri ::
  "cu_request \<Rightarrow> bytes \<Rightarrow> nat \<Rightarrow> nat \<Rightarrow> bool \<Rightarrow> ngx_rc \<times> cu_request" where
  "ngx_http_parse_complex_uri r b us ue merge_slashes =
    cu_exit b ue
      (cu_loop merge_slashes b ue
        \<lparr>cu_p = us + 1, cu_ch = b ! us, cu_st = CU_path CU_usual,
         cu_quoted_state = CU_usual, cu_decoded = 0, cu_out = []\<rparr>
        (r\<lparr>u_ext := None, u_args_start := None\<rparr>))"

end
