(* ===== verification/Ngx_Complex_Uri_Correct.thy ===== *)
theory Ngx_Complex_Uri_Correct
  imports Ngx_Complex_Uri
begin

section \<open>Correctness of the URI normaliser\<close>

text \<open>
  A reference normaliser in two stages (percent decoding, then a stack of segments), the proof
  that \<open>ngx_http_parse_complex_uri\<close> refines it, and what this means for the URI the rest of the server
  works with; then the bounds of the output buffer, as an invariant of the reachable loop states.
\<close>

subsection \<open>The reference normaliser\<close>

definition hex_val :: "byte \<Rightarrow> byte option" where
  "hex_val c =
    (if is_digit c then Some (c - ch_0)
     else if ch_a \<le> c OR 0x20 \<and> c OR 0x20 \<le> ch_f then Some ((c OR 0x20) - ch_a + 10)
     else None)"

datatype cu_ending = CU_end | CU_query bytes | CU_fragment | CU_bad

fun cu_decode :: "bytes \<Rightarrow> bytes \<times> cu_ending" where
  "cu_decode [] = ([], CU_end)"
| "cu_decode (c # cs) =
    (if c = ch_quest then ([], CU_query cs)
     else if c = ch_hash then ([], CU_fragment)
     else if c \<noteq> ch_percent then (case cu_decode cs of (ds, e) \<Rightarrow> (c # ds, e))
     else
       (case cs of
          [] \<Rightarrow> ([], CU_end)
        | h # hs \<Rightarrow>
            (case hex_val h of
               None \<Rightarrow> ([], CU_bad)
             | Some x \<Rightarrow>
                 (case hs of
                    [] \<Rightarrow> ([], CU_end)
                  | k # ks \<Rightarrow>
                      (case hex_val k of
                         None \<Rightarrow> ([], CU_bad)
                       | Some y \<Rightarrow>
                           (let v = push_bit 4 x + y in
                            if v = NUL then ([], CU_bad)
                            else (case cu_decode ks of (ds, e) \<Rightarrow> (v # ds, e))))))))"

definition cu_seg_end :: "bool \<Rightarrow> bytes list \<Rightarrow> bytes \<Rightarrow> bytes list option" where
  "cu_seg_end merge stack cur =
    (if cur = [] then Some (if merge then stack else [] # stack)
     else if cur = [ch_dot] then Some stack
     else if cur = [ch_dot, ch_dot] then
       (case stack of
          [] \<Rightarrow> None
        | s # st \<Rightarrow> if s \<noteq> [] then Some st else (case st of [] \<Rightarrow> None | _ # st' \<Rightarrow> Some st'))
     else Some (cur # stack))"

fun cu_norm :: "bool \<Rightarrow> bytes list \<Rightarrow> bytes \<Rightarrow> bytes \<Rightarrow> (bytes list \<times> bytes) option" where
  "cu_norm merge stack cur [] = Some (stack, cur)"
| "cu_norm merge stack cur (c # cs) =
    (if c = ch_slash
     then (case cu_seg_end merge stack cur of
             None \<Rightarrow> None
           | Some stack' \<Rightarrow> cu_norm merge stack' [] cs)
     else cu_norm merge stack (cur @ [c]) cs)"

definition cu_render :: "bytes list \<Rightarrow> bytes \<Rightarrow> bytes" where
  "cu_render stack cur = ch_slash # concat (map (\<lambda>s. s @ [ch_slash]) (rev stack)) @ cur"

definition cu_spec :: "bool \<Rightarrow> bytes list \<Rightarrow> bytes \<Rightarrow> bytes \<Rightarrow> (bytes \<times> cu_ending) option" where
  "cu_spec merge stack cur bs =
    (case cu_decode bs of
       (cs, e) \<Rightarrow>
         (case cu_norm merge stack cur cs of
            None \<Rightarrow> None
          | Some (stack', cur') \<Rightarrow> if e = CU_bad then None else Some (cu_render stack' cur', e)))"

subsection \<open>Refinement\<close>

definition cu_byte :: "bool \<Rightarrow> bytes list \<Rightarrow> bytes \<Rightarrow> byte \<Rightarrow> (bytes list \<times> bytes) option" where
  "cu_byte merge stack cur c =
    (if c = ch_slash then map_option (\<lambda>st. (st, [])) (cu_seg_end merge stack cur)
     else Some (stack, cur @ [c]))"

lemma cu_spec_Nil: "cu_spec merge stack cur [] = Some (cu_render stack cur, CU_end)"
  by (simp add: cu_spec_def)

lemma cu_spec_query: "cu_spec merge stack cur (ch_quest # bs) = Some (cu_render stack cur, CU_query bs)"
  by (simp add: cu_spec_def)

lemma cu_spec_fragment: "cu_spec merge stack cur (ch_hash # bs) = Some (cu_render stack cur, CU_fragment)"
  by (simp add: cu_spec_def)

lemma cu_norm_Cons:
  "cu_norm merge stack cur (c # cs) =
   (case cu_byte merge stack cur c of None \<Rightarrow> None | Some (st, cu) \<Rightarrow> cu_norm merge st cu cs)"
  by (auto simp: cu_byte_def split: option.split)

declare cu_norm.simps(2) [simp del]

lemma cu_spec_byte:
  assumes "c \<noteq> ch_quest" "c \<noteq> ch_hash" "c \<noteq> ch_percent"
  shows "cu_spec merge stack cur (c # bs) =
    (case cu_byte merge stack cur c of None \<Rightarrow> None | Some (st, cu) \<Rightarrow> cu_spec merge st cu bs)"
proof -
  obtain cs e where "cu_decode bs = (cs, e)" by (cases "cu_decode bs")
  then show ?thesis
    using assms by (cases "cu_byte merge stack cur c") (simp_all add: cu_spec_def cu_norm_Cons split: prod.split)
qed

lemma cu_spec_escape:
  assumes "hex_val h = Some x" "hex_val k = Some y" "push_bit 4 x + y \<noteq> NUL"
  shows "cu_spec merge stack cur (ch_percent # h # k # bs) =
    (case cu_byte merge stack cur (push_bit 4 x + y) of None \<Rightarrow> None | Some (st, cu) \<Rightarrow> cu_spec merge st cu bs)"
proof -
  obtain cs e where "cu_decode bs = (cs, e)" by (cases "cu_decode bs")
  then have "cu_decode (ch_percent # h # k # bs) = ((push_bit 4 x + y) # cs, e)" using assms by simp
  with \<open>cu_decode bs = (cs, e)\<close> show ?thesis
    by (cases "cu_byte merge stack cur (push_bit 4 x + y)")
      (simp_all del: cu_decode.simps add: cu_spec_def cu_norm_Cons split: prod.split)
qed

lemma cu_spec_bad:
  "cu_spec merge stack cur [ch_percent] = Some (cu_render stack cur, CU_end)"
  "hex_val h = None \<Longrightarrow> cu_spec merge stack cur (ch_percent # h # bs) = None"
  "hex_val h = Some x \<Longrightarrow> cu_spec merge stack cur [ch_percent, h] = Some (cu_render stack cur, CU_end)"
  "hex_val h = Some x \<Longrightarrow> hex_val k = None \<Longrightarrow> cu_spec merge stack cur (ch_percent # h # k # bs) = None"
  "hex_val h = Some x \<Longrightarrow> hex_val k = Some y \<Longrightarrow> push_bit 4 x + y = NUL \<Longrightarrow>
    cu_spec merge stack cur (ch_percent # h # k # bs) = None"
  by (simp_all add: cu_spec_def)


definition path_state :: "bytes \<Rightarrow> cu_path" where
  "path_state cur = (if cur = [] then CU_slash else if cur = [ch_dot] then CU_dot
    else if cur = [ch_dot, ch_dot] then CU_dot_dot else CU_usual)"

lemma cu_render_Cons: "cu_render (s # stack) cur = cu_render stack [] @ s @ [ch_slash] @ cur"
  by (simp add: cu_render_def)

lemma cu_render_snoc: "cu_render stack cur @ [c] = cu_render stack (cur @ [c])"
  by (simp add: cu_render_def)

lemma cu_render_cur: "cu_render stack cur = cu_render stack [] @ cur"
  by (simp add: cu_render_def)

lemma cu_render_nonempty [simp]: "cu_render stack cur \<noteq> []"
  by (simp add: cu_render_def)

lemma cu_render_length: "s \<noteq> [] \<Longrightarrow> 5 \<le> length (cu_render (s # stack) [ch_dot, ch_dot])"
  by (cases s) (simp_all add: cu_render_def)

lemma cu_render_last: "\<exists>out. cu_render stack [] = out @ [ch_slash]"
proof (cases stack)
  case (Cons s st)
  then show ?thesis by (intro exI [of _ "cu_render st [] @ s"]) (simp add: cu_render_Cons)
qed (simp add: cu_render_def)

lemma cu_parent_unfold:
  "cu_parent out u = (if out ! u = ch_slash then Some (u + 1) else if u = 0 then None else cu_parent out (u - 1))"
  by (cases u) simp_all

lemma cu_parent_back:
  assumes "u = length pre + n" "n < length xs" "xs ! 0 = ch_slash" "\<And>i. 0 < i \<Longrightarrow> i \<le> n \<Longrightarrow> xs ! i \<noteq> ch_slash"
  shows "cu_parent (pre @ xs) u = Some (length pre + 1)"
  using assms
proof (induction n arbitrary: u)
  case 0
  then have "(pre @ xs) ! u = ch_slash" by (simp add: nth_append)
  then show ?case using 0 by (subst cu_parent_unfold) simp
next
  case (Suc n)
  then have "(pre @ xs) ! u \<noteq> ch_slash" by (simp add: nth_append)
  then show ?case using Suc by (subst cu_parent_unfold) simp
qed

text \<open>Going back from \<open>/seg/..\<close>.\<close>

lemma cu_parent_seg:
  assumes "s \<noteq> []" "ch_slash \<notin> set s"
  shows "cu_parent (cu_render (s # stack) [ch_dot, ch_dot]) (length (cu_render (s # stack) [ch_dot, ch_dot]) - 5) =
    Some (length (cu_render stack []))"
proof -
  obtain out where out: "cu_render stack [] = out @ [ch_slash]" using cu_render_last by blast
  have "cu_render (s # stack) [ch_dot, ch_dot] = out @ ([ch_slash] @ s @ [ch_slash, ch_dot, ch_dot])"
    by (simp add: cu_render_Cons out)
  moreover have "cu_parent (out @ ([ch_slash] @ s @ [ch_slash, ch_dot, ch_dot])) (length out + length s - 1) = Some (length out + 1)"
    using assms by (intro cu_parent_back [where n = "length s - 1"]) (auto simp: nth_Cons' nth_append in_set_conv_nth Suc_le_eq)
  ultimately show ?thesis using assms by (simp add: out)
qed

lemma cu_parent_empty:
  assumes "ch_slash \<notin> set s"
  shows "cu_parent (cu_render ([] # s # stack) [ch_dot, ch_dot]) (length (cu_render ([] # s # stack) [ch_dot, ch_dot]) - 5) =
    Some (length (cu_render stack []))"
proof -
  obtain out where out: "cu_render stack [] = out @ [ch_slash]" using cu_render_last by blast
  have "cu_render ([] # s # stack) [ch_dot, ch_dot] = out @ ([ch_slash] @ s @ [ch_slash, ch_slash, ch_dot, ch_dot])"
    by (simp add: cu_render_Cons out)
  moreover have "cu_parent (out @ ([ch_slash] @ s @ [ch_slash, ch_slash, ch_dot, ch_dot])) (length out + length s) = Some (length out + 1)"
    using assms by (intro cu_parent_back) (auto simp: nth_Cons' nth_append in_set_conv_nth)
  ultimately show ?thesis using assms by (simp add: out)
qed


text \<open>
  The states of the two machines correspond: the output is the rendered stack and current segment,
  and the state of the switch says which of the special segments the current one is.
\<close>

definition cu_segs :: "bytes list \<Rightarrow> bytes \<Rightarrow> bool" where
  "cu_segs stack cur \<longleftrightarrow> (\<forall>s\<in>set stack. ch_slash \<notin> set s) \<and> ch_slash \<notin> set cur"

definition cu_rel :: "cu_locals \<Rightarrow> bytes list \<Rightarrow> bytes \<Rightarrow> bool" where
  "cu_rel l stack cur \<longleftrightarrow> cu_segs stack cur \<and> cu_st l = CU_path (path_state cur) \<and>
    cu_out l = cu_render stack cur"

lemma path_state_simps [simp]:
  "path_state [] = CU_slash" "path_state [ch_dot] = CU_dot" "path_state [ch_dot, ch_dot] = CU_dot_dot"
  by (simp_all add: path_state_def)

lemma path_state_cases:
  obtains "cur = []" | "cur = [ch_dot]" | "cur = [ch_dot, ch_dot]"
    | "path_state cur = CU_usual" "cur \<noteq> []" "cur \<noteq> [ch_dot]" "cur \<noteq> [ch_dot, ch_dot]"
  by (cases "cur = [] \<or> cur = [ch_dot] \<or> cur = [ch_dot, ch_dot]") (auto simp: path_state_def)

lemma path_state_snoc:
  "path_state [c] = (if c = ch_dot then CU_dot else CU_usual)"
  "path_state [ch_dot, c] = (if c = ch_dot then CU_dot_dot else CU_usual)"
  "path_state [ch_dot, ch_dot, c] = CU_usual"
  "path_state cur = CU_usual \<Longrightarrow> path_state (cur @ [c]) = CU_usual"
proof -
  assume u: "path_state cur = CU_usual"
  then have "cur \<noteq> []" "cur \<noteq> [ch_dot]" by auto
  then have "cur @ [c] \<noteq> [ch_dot]" "cur @ [c] \<noteq> [ch_dot, ch_dot]" by (auto simp: append_eq_Cons_conv)
  then show "path_state (cur @ [c]) = CU_usual" by (simp add: path_state_def)
qed (simp_all add: path_state_def)

lemma cu_step_plain:
  assumes rel: "cu_rel l stack cur" and ch: "cu_ch l \<notin> {ch_slash, ch_percent, ch_quest, ch_hash}"
  shows "\<exists>r'. cu_step merge b l r =
    CU_next (cu_advance b (cu_put (cu_ch l) (l\<lparr>cu_st := CU_path (path_state (cur @ [cu_ch l]))\<rparr>))) r'"
proof (cases cur rule: path_state_cases)
  case 4
  then have st: "cu_st l = CU_path CU_usual" using rel by (simp add: cu_rel_def)
  then have "l\<lparr>cu_st := CU_path (path_state (cur @ [cu_ch l]))\<rparr> = l"
    using path_state_snoc(4) [OF 4(1)] by (cases l) simp
  then show ?thesis using ch by (simp add: cu_step_def st cu_usual_def Let_def)
qed (use rel ch in \<open>auto simp: cu_rel_def cu_step_def cu_cases path_state_snoc Let_def usual_iff\<close>)


lemma cu_step_slash:
  assumes rel: "cu_rel l stack cur" and ch: "cu_ch l = ch_slash"
  shows "case cu_seg_end merge stack cur of
      None \<Rightarrow> \<exists>r'. cu_step merge b l r = CU_return NGX_HTTP_PARSE_INVALID_REQUEST r'
    | Some stack' \<Rightarrow> \<exists>r'. cu_step merge b l r =
        CU_next (cu_advance b (l\<lparr>cu_st := CU_path CU_slash, cu_out := cu_render stack' []\<rparr>)) r'"
proof (cases cur rule: path_state_cases)
  case 1
  then have l: "cu_st l = CU_path CU_slash" "cu_out l = cu_render stack []" using rel by (simp_all add: cu_rel_def)
  then have "l\<lparr>cu_st := CU_path CU_slash, cu_out := cu_render stack []\<rparr> = l" by (cases l) simp
  moreover have "cu_put ch_slash l = l\<lparr>cu_st := CU_path CU_slash, cu_out := cu_render ([] # stack) []\<rparr>"
    using l by (cases l) (simp add: cu_put_def cu_render_Cons)
  ultimately show ?thesis using ch 1 by (simp add: cu_step_def l(1) cu_slash_def Let_def usual_iff cu_seg_end_def)
next
  case 2
  then show ?thesis using rel ch
    by (simp add: cu_rel_def cu_step_def cu_dot_def Let_def usual_iff cu_seg_end_def cu_render_cur [of stack "[_]"])
next
  case 3
  then have st: "cu_st l = CU_path CU_dot_dot" and out: "cu_out l = cu_render stack [ch_dot, ch_dot]"
    and segs: "\<forall>s\<in>set stack. ch_slash \<notin> set s" using rel by (simp_all add: cu_rel_def cu_segs_def)
  note dd = 3
  consider "stack = []" | s st where "stack = s # st" "s \<noteq> []" | "stack = [[]]" | s st where "stack = [] # s # st"
    by (metis list.exhaust)
  then show ?thesis
  proof cases
    case 1
    then show ?thesis using dd st out ch
      by (simp add: cu_step_def cu_dot_dot_def Let_def usual_iff cu_seg_end_def cu_render_def)
  next
    case (2 s st')
    then have "cu_parent (cu_out l) (length (cu_out l) - 5) = Some (length (cu_render st' []))"
      and "5 \<le> length (cu_out l)"
      using segs cu_parent_seg [of s st'] out cu_render_length [of s st'] by simp_all
    then show ?thesis using 2 dd st out ch
      by (simp add: cu_step_def cu_dot_dot_def Let_def usual_iff cu_seg_end_def cu_render_Cons)
  next
    case 3
    then show ?thesis using dd st out ch
      by (simp add: cu_step_def cu_dot_dot_def Let_def usual_iff cu_seg_end_def cu_render_def)
  next
    case (4 s st')
    then have "cu_parent (cu_out l) (length (cu_out l) - 5) = Some (length (cu_render st' []))"
      and "5 \<le> length (cu_out l)"
      using segs cu_parent_empty [of s st'] out by (auto simp: cu_render_Cons Suc_le_eq)
    then show ?thesis using dd 4 st out ch
      by (simp add: cu_step_def cu_dot_dot_def Let_def usual_iff cu_seg_end_def cu_render_Cons)
  qed
next
  case 4
  then show ?thesis using rel ch
    by (simp add: cu_rel_def cu_step_def cu_usual_def Let_def usual_iff cu_seg_end_def cu_put_def cu_render_Cons
      cu_render_cur [of stack cur])
qed


lemma cu_seg_end_segs: "cu_segs stack cur \<Longrightarrow> cu_seg_end merge stack cur = Some stack' \<Longrightarrow> cu_segs stack' []"
  by (auto simp: cu_segs_def cu_seg_end_def split: if_splits list.splits)

lemma cu_step_byte:
  assumes rel: "cu_rel l stack cur" and ch: "cu_ch l \<notin> {ch_percent, ch_quest, ch_hash}"
  shows "case cu_byte merge stack cur (cu_ch l) of
      None \<Rightarrow> \<exists>r'. cu_step merge b l r = CU_return NGX_HTTP_PARSE_INVALID_REQUEST r'
    | Some (st, cu) \<Rightarrow> \<exists>l' r'. cu_step merge b l r = CU_next l' r' \<and> cu_rel l' st cu \<and>
        cu_p l' = cu_p l + 1 \<and> cu_ch l' = b ! cu_p l"
proof (cases "cu_ch l = ch_slash")
  case True
  then show ?thesis
    using cu_step_slash [OF rel True, of merge b r] rel cu_seg_end_segs [of stack cur merge]
    by (auto simp: cu_byte_def cu_rel_def cu_advance_def split: option.splits)
next
  case False
  then have "cu_segs stack (cur @ [cu_ch l])" using rel by (auto simp: cu_rel_def cu_segs_def)
  moreover obtain r' where "cu_step merge b l r =
    CU_next (cu_advance b (cu_put (cu_ch l) (l\<lparr>cu_st := CU_path (path_state (cur @ [cu_ch l]))\<rparr>))) r'"
    using cu_step_plain [OF rel, of merge b r] ch False by auto
  ultimately show ?thesis
    using rel False by (simp add: cu_byte_def cu_rel_def cu_advance_def cu_put_def cu_render_snoc)
qed

lemma cu_step_special:
  assumes "cu_rel l stack cur"
  shows "cu_ch l = ch_quest \<Longrightarrow> cu_step merge b l r = CU_args l (r\<lparr>u_args_start := Some (cu_p l)\<rparr>)"
    and "cu_ch l = ch_hash \<Longrightarrow> cu_step merge b l r = CU_done l r"
    and "cu_ch l = ch_percent \<Longrightarrow> cu_step merge b l r =
      CU_next (cu_advance b (l\<lparr>cu_quoted_state := path_state cur, cu_st := CU_quoted\<rparr>)) r"
  using assms by (cases cur rule: path_state_cases; simp add: cu_rel_def cu_step_def cu_cases Let_def usual_iff)+

lemma cu_step_quoted:
  assumes "cu_st l = CU_quoted"
  shows "cu_step merge b l r = (case hex_val (cu_ch l) of
      None \<Rightarrow> CU_return NGX_HTTP_PARSE_INVALID_REQUEST (r\<lparr>u_quoted_uri := True\<rparr>)
    | Some x \<Rightarrow> CU_next (cu_advance b (l\<lparr>cu_decoded := x, cu_st := CU_quoted_second\<rparr>)) (r\<lparr>u_quoted_uri := True\<rparr>))"
  using assms by (simp add: cu_step_def cu_quoted_def hex_val_def is_digit_def Let_def)

text \<open>The low digit of an escape tells which of the special characters it can be.\<close>

lemma escape_low: "unat (push_bit 4 x + y :: byte) mod 16 = unat y mod 16"
proof -
  have "unat (push_bit 4 x + y :: byte) = (unat x * 16 + unat y) mod 256"
    by (simp add: push_bit_eq_mult unat_word_ariths mod_simps)
  then show ?thesis by (simp add: mod_mod_cancel)
qed

lemma hex_val_cases:
  assumes "hex_val c = Some y"
  obtains "is_digit c" "y = c - ch_0" "unat y < 10"
    | "\<not> is_digit c" "ch_a \<le> c OR 0x20" "c OR 0x20 \<le> ch_f" "y = (c OR 0x20) - ch_a + 10" "10 \<le> unat y" "unat y < 16"
proof -
  have "is_digit c \<Longrightarrow> unat (c - ch_0) < 10"
    unfolding is_digit_def by unat_arith
  moreover have "ch_a \<le> d \<Longrightarrow> d \<le> ch_f \<Longrightarrow> 10 \<le> unat (d - ch_a + 10) \<and> unat (d - ch_a + 10) < 16" for d :: byte
    by unat_arith
  ultimately show thesis using assms that unfolding hex_val_def by (metis option.inject option.distinct(1))
qed

lemma cu_step_quoted_second_alt:
  assumes "cu_st l = CU_quoted_second"
  shows "is_digit (cu_ch l) \<Longrightarrow> cu_step merge b l r =
      (let ch = push_bit 4 (cu_decoded l) + cu_ch l - ch_0 in
        if ch = ch_percent \<or> ch = ch_hash then CU_next (cu_advance b (cu_put ch (l\<lparr>cu_st := CU_path CU_usual\<rparr>))) r
        else if ch = NUL then CU_return NGX_HTTP_PARSE_INVALID_REQUEST r
        else CU_next (l\<lparr>cu_st := CU_path (cu_quoted_state l), cu_ch := ch\<rparr>) r)"
    and "\<not> is_digit (cu_ch l) \<Longrightarrow> cu_step merge b l r =
      (if ch_a \<le> cu_ch l OR 0x20 \<and> cu_ch l OR 0x20 \<le> ch_f then
       (let ch = push_bit 4 (cu_decoded l) + (cu_ch l OR 0x20) - ch_a + 10 in
        if ch = ch_quest then CU_next (cu_advance b (cu_put ch (l\<lparr>cu_st := CU_path CU_usual\<rparr>))) r
        else if ch = ch_plus then CU_next (l\<lparr>cu_st := CU_path (cu_quoted_state l), cu_ch := ch\<rparr>) (r\<lparr>u_plus_in_uri := True\<rparr>)
        else CU_next (l\<lparr>cu_st := CU_path (cu_quoted_state l), cu_ch := ch\<rparr>) r)
     else CU_return NGX_HTTP_PARSE_INVALID_REQUEST r)"
  using assms by (simp_all only: cu_step_def cu_quoted_second_def is_digit_def Let_def cu_state.case if_True if_False simp_thms)

lemma cu_step_quoted_second:
  assumes st: "cu_st l = CU_quoted_second" and y: "hex_val (cu_ch l) = Some y"
    and v: "v = push_bit 4 (cu_decoded l) + y"
  shows "if v \<in> {ch_percent, ch_hash, ch_quest}
      then cu_step merge b l r = CU_next (cu_advance b (cu_put v (l\<lparr>cu_st := CU_path CU_usual\<rparr>))) r
    else if v = NUL then cu_step merge b l r = CU_return NGX_HTTP_PARSE_INVALID_REQUEST r
    else \<exists>r'. cu_step merge b l r = CU_next (l\<lparr>cu_st := CU_path (cu_quoted_state l), cu_ch := v\<rparr>) r'"
  using y
proof (cases rule: hex_val_cases)
  case 1
  have "v \<noteq> ch_quest" using escape_low [of "cu_decoded l" y] 1(3) unfolding v by auto
  moreover have "push_bit 4 (cu_decoded l) + cu_ch l - ch_0 = v" by (simp add: v 1(2))
  ultimately show ?thesis using cu_step_quoted_second_alt(1) [OF st 1(1), of merge b r] by (simp only: Let_def) auto
next
  case 2
  have "v \<noteq> ch_percent" "v \<noteq> ch_hash" "v \<noteq> NUL"
    using escape_low [of "cu_decoded l" y] 2(5,6) unfolding v by auto
  moreover have "push_bit 4 (cu_decoded l) + (cu_ch l OR 0x20) - ch_a + 10 = v" by (simp add: v 2(4))
  ultimately show ?thesis using cu_step_quoted_second_alt(2) [OF st 2(1), of merge b r] 2(2,3) by (simp only: Let_def) auto
qed

lemma cu_step_quoted_bad:
  assumes "cu_st l = CU_quoted_second" "hex_val (cu_ch l) = None"
  shows "cu_step merge b l r = CU_return NGX_HTTP_PARSE_INVALID_REQUEST r"
proof -
  have "\<not> is_digit (cu_ch l)" "\<not> (ch_a \<le> cu_ch l OR 0x20 \<and> cu_ch l OR 0x20 \<le> ch_f)"
    using assms(2) by (auto simp: hex_val_def split: if_splits)
  then show ?thesis using cu_step_quoted_second_alt(2) [OF assms(1)] by presburger
qed


definition cu_meets :: "bytes \<Rightarrow> nat \<Rightarrow> cu_result \<Rightarrow> (bytes \<times> cu_ending) option \<Rightarrow> bool" where
  "cu_meets b ue res spec =
    (case spec of
       None \<Rightarrow> \<exists>r'. res = CU_return NGX_HTTP_PARSE_INVALID_REQUEST r'
     | Some (out, CU_query q) \<Rightarrow> \<exists>l' r'. res = CU_args l' r' \<and> cu_out l' = out \<and>
         q = bslice (cu_p l') ue b \<and> cu_p l' \<le> ue \<and> u_args_start r' = Some (cu_p l')
     | Some (out, _) \<Rightarrow> \<exists>l' r'. res = CU_done l' r' \<and> cu_out l' = out \<and> u_args_start r' = None)"

lemma cu_step_args_start:
  "cu_step merge b l r = CU_next l' r' \<Longrightarrow> u_args_start r' = u_args_start r"
  "cu_step merge b l r = CU_done l' r' \<Longrightarrow> u_args_start r' = u_args_start r"
  unfolding cu_step_def
  by (auto simp: cu_cases Let_def split: cu_state.splits cu_path.splits if_splits option.splits)

lemma cu_loop_step:
  assumes "cu_p l \<le> ue"
  shows "cu_step merge b l r = CU_next l' r' \<Longrightarrow> cu_loop merge b ue l r = cu_loop merge b ue l' r'"
    and "cu_step merge b l r = CU_args l' r' \<Longrightarrow> cu_loop merge b ue l r = CU_args l' r'"
    and "cu_step merge b l r = CU_done l' r' \<Longrightarrow> cu_loop merge b ue l r = CU_done l' r'"
    and "cu_step merge b l r = CU_return rc r' \<Longrightarrow> cu_loop merge b ue l r = CU_return rc r'"
  using assms by (simp_all add: cu_loop.simps [of merge b ue l r])

lemma cu_loop_end: "ue < cu_p l \<Longrightarrow> cu_loop merge b ue l r = CU_done l r"
  by (simp add: cu_loop.simps)

text \<open>One byte, read or decoded, and the rest of the run.\<close>

lemma cu_loop_byte:
  assumes rel: "cu_rel l stack cur" and ch: "cu_ch l \<notin> {ch_percent, ch_quest, ch_hash}"
    and p: "cu_p l \<le> ue" and r: "u_args_start r = None"
    and IH: "\<And>l' r' st cu. cu_rel l' st cu \<Longrightarrow> cu_p l' = Suc (cu_p l) \<Longrightarrow> cu_ch l' = b ! cu_p l \<Longrightarrow>
      u_args_start r' = None \<Longrightarrow> cu_meets b ue (cu_loop merge b ue l' r') (cu_spec merge st cu bs)"
  shows "cu_meets b ue (cu_loop merge b ue l r)
    (case cu_byte merge stack cur (cu_ch l) of None \<Rightarrow> None | Some (st, cu) \<Rightarrow> cu_spec merge st cu bs)"
proof (cases "cu_byte merge stack cur (cu_ch l)")
  case None
  then obtain r' where "cu_step merge b l r = CU_return NGX_HTTP_PARSE_INVALID_REQUEST r'"
    using cu_step_byte [OF rel ch, of merge b r] by auto
  then show ?thesis using None cu_loop_step(4) [OF p] by (simp add: cu_meets_def)
next
  case (Some x)
  obtain st cu where x: "x = (st, cu)" by (cases x)
  obtain l' r' where "cu_step merge b l r = CU_next l' r'" "cu_rel l' st cu"
    "cu_p l' = cu_p l + 1" "cu_ch l' = b ! cu_p l"
    using cu_step_byte [OF rel ch, of merge b r] Some x by auto
  then show ?thesis using IH [of l' st cu r'] Some x r cu_loop_step(1) [OF p] cu_step_args_start(1) [of merge b l r]
    by simp
qed

text \<open>The iteration that ends an escape.\<close>

lemma path_state_other: "v \<noteq> ch_dot \<Longrightarrow> path_state (cur @ [v]) = CU_usual"
  by (cases cur rule: path_state_cases) (simp_all add: path_state_snoc)

lemma cu_loop_escaped:
  assumes st: "cu_st l = CU_quoted_second" "cu_out l = cu_render stack cur" "cu_quoted_state l = path_state cur"
    and segs: "cu_segs stack cur" and p: "cu_p l \<le> ue" and y: "hex_val (cu_ch l) = Some y"
    and h: "hex_val h = Some (cu_decoded l)" and k: "cu_ch l = k" and r: "u_args_start r = None"
    and IH: "\<And>l' r' st cu. cu_rel l' st cu \<Longrightarrow> cu_p l' = Suc (cu_p l) \<Longrightarrow> cu_ch l' = b ! cu_p l \<Longrightarrow>
      u_args_start r' = None \<Longrightarrow> cu_meets b ue (cu_loop merge b ue l' r') (cu_spec merge st cu bs)"
  shows "cu_meets b ue (cu_loop merge b ue l r) (cu_spec merge stack cur (ch_percent # h # k # bs))"
proof -
  define v where "v = push_bit 4 (cu_decoded l) + y"
  note step = cu_step_quoted_second [OF st(1) y v_def, of merge b r]
  consider "v \<in> {ch_percent, ch_hash, ch_quest}" | "v = NUL" | "v \<notin> {ch_percent, ch_hash, ch_quest}" "v \<noteq> NUL" by auto
  then show ?thesis
  proof cases
    case 1
    define l' where "l' = cu_advance b (cu_put v (l\<lparr>cu_st := CU_path CU_usual\<rparr>))"
    have "cu_loop merge b ue l r = cu_loop merge b ue l' r" using step 1 cu_loop_step(1) [OF p] by (simp add: l'_def)
    moreover have "cu_rel l' stack (cur @ [v])"
      using 1 st segs by (auto simp: cu_rel_def l'_def cu_advance_def cu_put_def cu_render_snoc path_state_other cu_segs_def)
    ultimately show ?thesis
      using IH [of l' stack "cur @ [v]" r] cu_spec_escape [OF h y [unfolded k]] 1 r
      by (auto simp: v_def [symmetric] cu_byte_def l'_def cu_advance_def cu_put_def)
  next
    case 2
    then show ?thesis using step cu_loop_step(4) [OF p] cu_spec_bad(5) [OF h y [unfolded k]]
      by (simp add: v_def [symmetric] cu_meets_def)
  next
    case 3
    define l' where "l' = l\<lparr>cu_st := CU_path (cu_quoted_state l), cu_ch := v\<rparr>"
    obtain r' where s: "cu_step merge b l r = CU_next l' r'" using step 3 by (auto simp: l'_def)
    have l': "cu_rel l' stack cur" "cu_ch l' = v" "cu_p l' = cu_p l" using st segs by (simp_all add: cu_rel_def l'_def)
    have "cu_meets b ue (cu_loop merge b ue l' r')
        (case cu_byte merge stack cur (cu_ch l') of None \<Rightarrow> None | Some (st, cu) \<Rightarrow> cu_spec merge st cu bs)"
      using 3 p l' IH r cu_step_args_start(1) [OF s] by (intro cu_loop_byte) auto
    then show ?thesis
      using cu_spec_escape [OF h y [unfolded k]] 3 cu_loop_step(1) [OF p s] l'(2) by (simp add: v_def [symmetric])
  qed
qed

lemma cu_loop_escape:
  assumes rel: "cu_rel l stack cur" and ch: "cu_ch l = ch_percent" and p: "cu_p l \<le> ue" "ue < length b"
    and r: "u_args_start r = None"
    and IH: "\<And>l' r' st cu. cu_rel l' st cu \<Longrightarrow> cu_p l' = cu_p l + 3 \<Longrightarrow> cu_p l + 2 \<le> ue \<Longrightarrow>
      cu_ch l' = b ! (cu_p l + 2) \<Longrightarrow> u_args_start r' = None \<Longrightarrow> 
      cu_meets b ue (cu_loop merge b ue l' r') (cu_spec merge st cu (bslice (cu_p l + 2) ue b))"
  shows "cu_meets b ue (cu_loop merge b ue l r) (cu_spec merge stack cur (ch_percent # bslice (cu_p l) ue b))"
proof -
  define l1 where "l1 = cu_advance b (l\<lparr>cu_quoted_state := path_state cur, cu_st := CU_quoted\<rparr>)"
  have l1: "cu_st l1 = CU_quoted" "cu_p l1 = cu_p l + 1" "cu_ch l1 = b ! cu_p l" "cu_out l1 = cu_render stack cur"
    "cu_quoted_state l1 = path_state cur" and segs: "cu_segs stack cur"
    using rel by (simp_all add: l1_def cu_advance_def cu_rel_def)
  have loop1: "cu_loop merge b ue l r = cu_loop merge b ue l1 r"
    using cu_step_special(3) [OF rel ch, of merge b r] cu_loop_step(1) [OF p(1)] by (simp add: l1_def)
  show ?thesis
  proof (cases "cu_p l = ue \<or> hex_val (b ! cu_p l) = None")
    case True
    then show ?thesis
      using p r l1 cu_step_quoted [OF l1(1), of merge b r] cu_loop_step(4) [of l1 ue merge b r]
      by (cases "cu_p l = ue") (auto simp: loop1 cu_loop_end cu_spec_bad cu_meets_def bslice_Cons)
  next
    case False
    then obtain x where x: "hex_val (b ! cu_p l) = Some x" and p1: "cu_p l1 \<le> ue" using p l1 by auto
    define l2 where "l2 = cu_advance b (l1\<lparr>cu_decoded := x, cu_st := CU_quoted_second\<rparr>)"
    define r2 where "r2 = r\<lparr>u_quoted_uri := True\<rparr>"
    have l2: "cu_st l2 = CU_quoted_second" "cu_p l2 = cu_p l + 2" "cu_ch l2 = b ! (cu_p l + 1)"
      "cu_out l2 = cu_render stack cur" "cu_quoted_state l2 = path_state cur" "cu_decoded l2 = x" "u_args_start r2 = None"
      using l1 r by (simp_all add: l2_def cu_advance_def r2_def)
    have loop2: "cu_loop merge b ue l r = cu_loop merge b ue l2 r2"
      using cu_step_quoted [OF l1(1), of merge b r] cu_loop_step(1) [OF p1] x l1(3)
      by (simp add: loop1 l2_def r2_def)
    have sl: "bslice (cu_p l) ue b = b ! cu_p l # bslice (cu_p l + 1) ue b"
      using p1 p l1(2) by (simp add: bslice_Cons)
    show ?thesis
    proof (cases "cu_p l + 1 = ue \<or> hex_val (b ! (cu_p l + 1)) = None")
      case True
      then show ?thesis
        using p p1 l1(2) l2 x cu_step_quoted_bad [OF l2(1), of merge b r2] cu_loop_step(4) [of l2 ue merge b r2]
        by (cases "cu_p l + 1 = ue") (auto simp: loop2 sl cu_loop_end cu_spec_bad cu_meets_def bslice_Cons)
    next
      case False
      then obtain y where y: "hex_val (b ! (cu_p l + 1)) = Some y" and p2: "cu_p l2 \<le> ue" using p1 l1(2) l2(2) by auto
      have sl2: "bslice (cu_p l + 1) ue b = b ! (cu_p l + 1) # bslice (cu_p l + 2) ue b"
        using p2 p l2(2) by (simp add: bslice_Cons)
      show ?thesis unfolding loop2 sl sl2
        by (rule cu_loop_escaped [OF l2(1,4,5) segs p2, of y]) (use IH x y p2 l2 in auto)
    qed
  qed
qed

lemma cu_loop_meets:
  assumes "cu_rel l stack cur" "cu_p l = Suc p" "cu_ch l = b ! p" "p \<le> ue" "ue < length b" "u_args_start r = None"
  shows "cu_meets b ue (cu_loop merge b ue l r) (cu_spec merge stack cur (bslice p ue b))"
  using assms
proof (induction "ue - p" arbitrary: p l r stack cur rule: less_induct)
  case less
  show ?case
  proof (cases "p = ue")
    case True
    then show ?thesis using less.prems by (simp add: cu_loop_end cu_spec_Nil cu_meets_def cu_rel_def)
  next
    case False
    then have p: "cu_p l \<le> ue" "p < ue" using less.prems by auto
    have sl: "bslice p ue b = cu_ch l # bslice (cu_p l) ue b" using less.prems p by (simp add: bslice_Cons)
    note special = cu_step_special [OF less.prems(1), of merge b r]
    consider "cu_ch l = ch_quest" | "cu_ch l = ch_hash" | "cu_ch l = ch_percent"
      | "cu_ch l \<notin> {ch_percent, ch_quest, ch_hash}" by auto
    then show ?thesis
    proof cases
      case 1
      then show ?thesis using cu_loop_step(2) [OF p(1) special(1)] p less.prems
        by (simp add: sl cu_spec_query cu_meets_def cu_rel_def)
    next
      case 2
      then show ?thesis using cu_loop_step(3) [OF p(1) special(2)] p less.prems
        by (simp add: sl cu_spec_fragment cu_meets_def cu_rel_def)
    next
      case 3
      show ?thesis unfolding sl 3
        using less.prems p by (intro cu_loop_escape 3 less.hyps) auto
    next
      case 4
      then have "cu_spec merge stack cur (cu_ch l # bslice (cu_p l) ue b) =
        (case cu_byte merge stack cur (cu_ch l) of None \<Rightarrow> None
         | Some (st, cu) \<Rightarrow> cu_spec merge st cu (bslice (cu_p l) ue b))" by (intro cu_spec_byte) auto
      moreover have "cu_meets b ue (cu_loop merge b ue l r) \<dots>"
        by (rule cu_loop_byte [OF less.prems(1) 4 p(1) less.prems(6)], rule less.hyps) (use less.prems p in auto)
      ultimately show ?thesis unfolding sl by (simp only:)
    qed
  qed
qed


subsection \<open>The function\<close>

lemma cu_args_spec:
  assumes "p \<le> ue" "ue < length b" "u_args_start r = Some a"
  shows "cu_args b ue p r = (if ch_hash \<in> set (bslice p ue b)
    then r\<lparr>u_args := Some (a, p + length (takeWhile (\<lambda>c. c \<noteq> ch_hash) (bslice p ue b)) - a), u_args_start := None\<rparr>
    else r)"
  using assms
proof (induction "ue - p" arbitrary: p)
  case 0
  then show ?case by (simp add: cu_args.simps bslice_def)
next
  case (Suc n)
  then have "bslice p ue b = b ! p # bslice (Suc p) ue b" by (simp add: bslice_Cons)
  then show ?case using Suc by (simp add: cu_args.simps [of b ue p r])
qed

lemma cu_finish_fields:
  "fst (cu_finish l r) = NGX_OK" "u_uri (snd (cu_finish l r)) = cu_out l"
  "u_args (snd (cu_finish l r)) = u_args r" "u_args_start (snd (cu_finish l r)) = u_args_start r"
  by (simp_all add: cu_finish_def Let_def split: option.split)

lemma parse_complex_uri_loop:
  assumes "us < ue" "b ! us = ch_slash"
  obtains l1 r1 where "cu_rel l1 [] []" "cu_p l1 = us + 2" "cu_ch l1 = b ! (us + 1)" "u_args_start r1 = None"
    "ngx_http_parse_complex_uri r b us ue merge = cu_exit b ue (cu_loop merge b ue l1 r1)"
proof -
  define l0 where "l0 = \<lparr>cu_p = us + 1, cu_ch = b ! us, cu_st = CU_path CU_usual,
    cu_quoted_state = CU_usual, cu_decoded = 0, cu_out = []\<rparr>"
  define l1 where "l1 = cu_advance b (cu_put ch_slash (l0\<lparr>cu_st := CU_path CU_slash\<rparr>))"
  define r1 where "r1 = r\<lparr>u_ext := None, u_args_start := None\<rparr>"
  have "cu_step merge b l0 r1 = CU_next l1 r1"
    using assms(2) by (simp add: l0_def l1_def r1_def cu_step_def cu_usual_def usual_iff Let_def)
  then have "cu_loop merge b ue l0 r1 = cu_loop merge b ue l1 r1"
    using assms(1) by (intro cu_loop_step) (simp_all add: l0_def)
  then show thesis
    by (intro that [of l1 r1])
      (simp_all add: ngx_http_parse_complex_uri_def Let_def l0_def [symmetric] r1_def [symmetric],
        simp_all add: l1_def l0_def r1_def cu_rel_def cu_segs_def cu_advance_def cu_put_def cu_render_def)
qed

definition complex_uri_spec :: "bool \<Rightarrow> bytes \<Rightarrow> (bytes \<times> cu_ending) option" where
  "complex_uri_spec merge bs = cu_spec merge [] [] bs"

lemma parse_complex_uri_meets:
  assumes "us < ue" "ue < length b" "b ! us = ch_slash"
  obtains res where "cu_meets b ue res (complex_uri_spec merge (bslice (us + 1) ue b))"
    "ngx_http_parse_complex_uri r b us ue merge = cu_exit b ue (res)"
proof (rule parse_complex_uri_loop [OF assms(1,3), where r = r and merge = merge])
  fix l1 and r1 :: cu_request
  assume "cu_rel l1 [] []" "cu_p l1 = us + 2" "cu_ch l1 = b ! (us + 1)" "u_args_start r1 = None"
  then have "cu_meets b ue (cu_loop merge b ue l1 r1) (complex_uri_spec merge (bslice (us + 1) ue b))"
    unfolding complex_uri_spec_def using assms by (intro cu_loop_meets) auto
  then show "ngx_http_parse_complex_uri r b us ue merge = cu_exit b ue (cu_loop merge b ue l1 r1) \<Longrightarrow> thesis"
    by (rule that)
qed

text \<open>
  C1. The one-pass normaliser computes what the reference does in two stages: decode the escapes (an
  unescaped \<open>?\<close> or \<open>#\<close> ends the path), then resolve the segments on a stack. Both refuse the same
  URIs; otherwise the path is the rendered stack, and the query string is delimited as the input has it.
\<close>

theorem parse_complex_uri_refines:
  assumes "us < ue" "ue < length b" "b ! us = ch_slash"
    and run: "ngx_http_parse_complex_uri r b us ue merge = (rc, r')"
  shows "case complex_uri_spec merge (bslice (us + 1) ue b) of
      None \<Rightarrow> rc = NGX_HTTP_PARSE_INVALID_REQUEST
    | Some (out, CU_query q) \<Rightarrow> rc = NGX_OK \<and> u_uri r' = out \<and>
        (if ch_hash \<in> set q
         then u_args_start r' = None \<and>
           u_args r' = Some (ue - length q, length (takeWhile (\<lambda>c. c \<noteq> ch_hash) q))
         else u_args_start r' = Some (ue - length q))
    | Some (out, _) \<Rightarrow> rc = NGX_OK \<and> u_uri r' = out \<and> u_args_start r' = None"
proof (rule parse_complex_uri_meets [OF assms(1-3), where r = r and merge = merge])
  fix res
  assume meets: "cu_meets b ue res (complex_uri_spec merge (bslice (us + 1) ue b))"
    and "ngx_http_parse_complex_uri r b us ue merge = cu_exit b ue (res)" 
  then have res: "rc = fst (cu_exit b ue res)" "r' = snd (cu_exit b ue res)" using run by (metis fst_conv, metis snd_conv)
  show ?thesis
  proof (cases "complex_uri_spec merge (bslice (us + 1) ue b)")
    case None
    then show ?thesis using meets by (auto simp: cu_meets_def cu_exit_def res)
  next
    case (Some oe)
    obtain out e where oe: "oe = (out, e)" by (cases oe)
    show ?thesis
    proof (cases e)
      case (CU_query q)
      then obtain l' r2 where q: "res = CU_args l' r2" "cu_out l' = out"
         "q = bslice (cu_p l') ue b" "cu_p l' \<le> ue" "u_args_start r2 = Some (cu_p l')"
        using meets Some oe by (auto simp: cu_meets_def)
      have len: "length q = ue - cu_p l'" using q(3) assms(2) by (simp add: length_bslice)
      show ?thesis
        using Some oe CU_query q len cu_args_spec [OF q(4) assms(2) q(5)] by (simp add: cu_exit_def res cu_finish_fields)
    qed (use meets Some oe in \<open>auto simp: cu_meets_def cu_exit_def res cu_finish_fields\<close>)
  qed
qed

lemma parse_complex_uri_OK:
  assumes "us < ue" "ue < length b" "b ! us = ch_slash"
    and "ngx_http_parse_complex_uri r b us ue merge = (NGX_OK, r')"
  obtains cs stack cur where "cu_norm merge [] [] cs = Some (stack, cur)" "u_uri r' = cu_render stack cur"
proof (rule parse_complex_uri_meets [OF assms(1-3), where r = r and merge = merge])
  fix res
  assume meets: "cu_meets b ue res (complex_uri_spec merge (bslice (us + 1) ue b))"
    and "ngx_http_parse_complex_uri r b us ue merge = cu_exit b ue (res)" 
  then have res: "NGX_OK = fst (cu_exit b ue res)" "r' = snd (cu_exit b ue res)" using assms(4) by (metis fst_conv, metis snd_conv)
  obtain e where "complex_uri_spec merge (bslice (us + 1) ue b) = Some (u_uri r', e)"
    using meets res by (auto simp: cu_meets_def cu_exit_def cu_finish_fields split: option.splits prod.splits cu_ending.splits)
  then show thesis
    using that by (auto simp: complex_uri_spec_def cu_spec_def split: prod.splits option.splits if_splits)
qed

subsection \<open>What the normalised URI cannot contain\<close>

definition cu_clean :: "bool \<Rightarrow> bytes list \<Rightarrow> bool" where
  "cu_clean merge stack \<longleftrightarrow>
    (\<forall>s\<in>set stack. ch_slash \<notin> set s \<and> s \<noteq> [ch_dot] \<and> s \<noteq> [ch_dot, ch_dot] \<and> (merge \<longrightarrow> s \<noteq> []))"

lemma cu_seg_end_cases:
  assumes "cu_seg_end merge stack cur = Some stack'"
  shows "set stack' \<subseteq> set stack \<or>
    (stack' = cur # stack \<and> cur \<noteq> [] \<and> cur \<noteq> [ch_dot] \<and> cur \<noteq> [ch_dot, ch_dot]) \<or>
    (stack' = [] # stack \<and> \<not> merge)"
proof (cases cur rule: path_state_cases)
  case 3
  then show ?thesis using assms by (cases stack; cases "tl stack") (auto simp: cu_seg_end_def split: if_splits)
qed (use assms in \<open>auto simp: cu_seg_end_def split: if_splits\<close>)

lemma cu_seg_end_clean:
  assumes "cu_clean merge stack" "ch_slash \<notin> set cur" "cu_seg_end merge stack cur = Some stack'"
  shows "cu_clean merge stack'"
  using cu_seg_end_cases [OF assms(3)] assms(1,2) by (elim disjE) (auto simp: cu_clean_def)

lemma cu_norm_clean:
  assumes "cu_clean merge stack" "ch_slash \<notin> set cur" "cu_norm merge stack cur cs = Some (stack', cur')"
  shows "cu_clean merge stack' \<and> ch_slash \<notin> set cur'"
  using assms
proof (induction cs arbitrary: stack cur)
  case (Cons c cs)
  show ?case
  proof (cases "c = ch_slash")
    case True
    then obtain st where "cu_seg_end merge stack cur = Some st" "cu_norm merge st [] cs = Some (stack', cur')"
      using Cons.prems(3) by (auto simp: cu_norm_Cons cu_byte_def split: option.splits)
    then show ?thesis using Cons.IH [of st "[]"] cu_seg_end_clean [OF Cons.prems(1,2)] by simp
  next
    case False
    then show ?thesis using Cons.IH [of stack "cur @ [c]"] Cons.prems by (simp add: cu_norm_Cons cu_byte_def)
  qed
qed simp

lemma split_at_slash:
  assumes "xs @ ch_slash # ys = pre @ ch_slash # zs" "ch_slash \<notin> set xs"
  shows "(pre = xs \<and> zs = ys) \<or> (\<exists>pre'. pre = xs @ ch_slash # pre' \<and> ys = pre' @ ch_slash # zs)"
proof -
  from assms(1) consider us where "xs = pre @ us" "us @ ch_slash # ys = ch_slash # zs"
    | us where "pre = xs @ us" "ch_slash # ys = us @ ch_slash # zs" by (auto simp: append_eq_append_conv2)
  then show ?thesis
  proof cases
    case (1 us)
    then show ?thesis using assms(2) by (cases us) auto
  next
    case (2 us)
    then show ?thesis by (cases us) auto
  qed
qed

lemma segment_of_path:
  assumes "ch_slash # concat (map (\<lambda>s. s @ [ch_slash]) ss) @ cur = pre @ ch_slash # w @ ch_slash # post"
    "\<forall>s\<in>set ss. ch_slash \<notin> set s" "ch_slash \<notin> set cur" "ch_slash \<notin> set w"
  shows "w \<in> set ss"
  using assms
proof (induction ss arbitrary: pre)
  case Nil
  then show ?case by (cases pre) (auto dest: arg_cong [where f = set])
next
  case (Cons s ss)
  let ?tl = "concat (map (\<lambda>s. s @ [ch_slash]) ss) @ cur"
  show ?case
  proof (cases pre)
    case Nil
    then have "s @ ch_slash # ?tl = w @ ch_slash # post" using Cons.prems(1) by simp
    then show ?thesis using split_at_slash [of s ?tl w post] Cons.prems by auto
  next
    case (Cons c pre')
    then have "s @ ch_slash # ?tl = pre' @ ch_slash # w @ ch_slash # post" using Cons.prems(1) by simp
    then consider "pre' = s" "?tl = w @ ch_slash # post"
      | pre'' where "pre' = s @ ch_slash # pre''" "?tl = pre'' @ ch_slash # w @ ch_slash # post"
      using split_at_slash [of s ?tl pre' "w @ ch_slash # post"] Cons.prems by auto
    then show ?thesis
    proof cases
      case 1
      then show ?thesis using Cons.IH [of "[]"] Cons.prems by simp
    next
      case (2 pre'')
      then show ?thesis using Cons.IH [of "ch_slash # pre''"] Cons.prems by simp
    qed
  qed
qed

text \<open>
  C9. The path of an accepted URI starts with a slash and contains neither \<open>/../\<close> nor \<open>/./\<close>, whatever is
  escaped in the input, and with \<open>merge_slashes\<close> no two adjacent slashes: no request can climb out
  of its root through an inner segment.
\<close>

theorem parse_complex_uri_safe:
  assumes "us < ue" "ue < length b" "b ! us = ch_slash"
    and "ngx_http_parse_complex_uri r b us ue merge = (NGX_OK, r')"
  shows "(\<exists>path. u_uri r' = ch_slash # path) \<and>
    (\<forall>pre post. u_uri r' \<noteq> pre @ str ''/../'' @ post \<and> u_uri r' \<noteq> pre @ str ''/./'' @ post \<and>
      (merge \<longrightarrow> u_uri r' \<noteq> pre @ str ''//'' @ post))"
proof -
  obtain cs stack cur where norm: "cu_norm merge [] [] cs = Some (stack, cur)" and u: "u_uri r' = cu_render stack cur"
    using parse_complex_uri_OK [OF assms] .
  have clean: "cu_clean merge stack" "ch_slash \<notin> set cur"
    using cu_norm_clean [OF _ _ norm] by (auto simp: cu_clean_def)
  have seg: "w \<in> set stack" if "u_uri r' = pre @ ch_slash # w @ ch_slash # post" "ch_slash \<notin> set w" for pre w post
    using segment_of_path [of "rev stack" cur pre w post] that clean by (auto simp: u cu_render_def cu_clean_def)
  show ?thesis
    using seg [of _ "[ch_dot, ch_dot]"] seg [of _ "[ch_dot]"] seg [of _ "[]"] clean(1)
    by (auto simp: str_def cu_clean_def u) (auto simp: cu_render_def)
qed


subsection \<open>The bounds of the output\<close>

text \<open>The values the local variables and the request take at the head of the loop.\<close>

inductive cu_reach :: "bool \<Rightarrow> bytes \<Rightarrow> nat \<Rightarrow> nat \<Rightarrow> cu_request \<Rightarrow> cu_locals \<Rightarrow> cu_request \<Rightarrow> bool"
  for merge b us ue r0 where
  cu_reach_start: "cu_reach merge b us ue r0
    \<lparr>cu_p = us + 1, cu_ch = b ! us, cu_st = CU_path CU_usual,
      cu_quoted_state = CU_usual, cu_decoded = 0, cu_out = []\<rparr>
    (r0\<lparr>u_ext := None, u_args_start := None\<rparr>)"
| cu_reach_step: "cu_reach merge b us ue r0 l r \<Longrightarrow> cu_p l \<le> ue \<Longrightarrow> cu_step merge b l r = CU_next l' r' \<Longrightarrow>
    cu_reach merge b us ue r0 l' r'"

definition cu_interrupted :: "cu_locals \<Rightarrow> cu_path" where
  "cu_interrupted l = (case cu_st l of CU_path s \<Rightarrow> s | _ \<Rightarrow> cu_quoted_state l)"

definition cu_bounded :: "nat \<Rightarrow> nat \<Rightarrow> cu_locals \<Rightarrow> cu_request \<Rightarrow> bool" where
  "cu_bounded us ue l r \<longleftrightarrow> us + length (cu_out l) < cu_p l \<and> cu_p l \<le> ue + 1 \<and>
    (case u_ext r of None \<Rightarrow> True | Some e \<Rightarrow> cu_interrupted l = CU_usual \<and> 0 < e \<and> e \<le> length (cu_out l))"

lemmas cu_bounded_defs = cu_bounded_def cu_interrupted_def cu_advance_def cu_put_def

lemma cu_bounded_step:
  assumes "cu_bounded us ue l r" "cu_p l \<le> ue" "cu_step merge b l r = CU_next l' r'"
  shows "cu_bounded us ue l' r'"
proof (cases "cu_st l")
  case (CU_path s)
  show ?thesis
  proof (cases s)
    case CU_usual
    then show ?thesis using assms CU_path
      by (auto simp: cu_step_def cu_usual_def Let_def cu_bounded_defs split: if_splits option.splits)
  next
    case CU_slash
    then show ?thesis using assms CU_path
      by (auto simp: cu_step_def cu_slash_def Let_def cu_bounded_defs split: if_splits option.splits)
  next
    case CU_dot
    then show ?thesis using assms CU_path
      by (auto simp: cu_step_def cu_dot_def Let_def cu_bounded_defs split: if_splits option.splits)
  next
    case CU_dot_dot
    then show ?thesis using assms CU_path
      by (auto simp: cu_step_def cu_dot_dot_def Let_def cu_bounded_defs split: if_splits option.splits)
  qed
next
  case CU_quoted
  then show ?thesis using assms
    by (auto simp: cu_step_def cu_quoted_def Let_def cu_bounded_defs split: if_splits option.splits)
next
  case CU_quoted_second
  then show ?thesis using assms
    by (auto simp: cu_step_def cu_quoted_second_def Let_def cu_bounded_defs split: if_splits option.splits)
qed

lemma cu_reach_bounded:
  assumes "us \<le> ue" and reach: "cu_reach merge b us ue r0 l r"
  shows "cu_bounded us ue l r"
  using reach
proof induction
  case cu_reach_start
  then show ?case using assms(1) by (simp add: cu_bounded_def)
qed (rule cu_bounded_step)

text \<open>
  A raw question mark ends the path: the loop does not read beyond the byte behind it, so that the path
  ends where the request-line parser saw the arguments begin, or before.
\<close>

definition cu_before :: "bytes \<Rightarrow> nat \<Rightarrow> cu_locals \<Rightarrow> bool" where
  "cu_before b q l \<longleftrightarrow> cu_p l \<le> Suc q \<and> (cu_p l = Suc q \<longrightarrow> cu_ch l = ch_quest)"

lemma cu_step_quest: "cu_ch l = ch_quest \<Longrightarrow> cu_step merge b l r \<noteq> CU_next l' r'"
  by (cases "cu_st l"; cases "case cu_st l of CU_path s \<Rightarrow> s | _ \<Rightarrow> CU_usual")
    (auto simp: cu_step_def cu_cases Let_def usual_iff split: cu_path.splits)

lemma cu_step_position:
  "cu_step merge b l r = CU_next l' r' \<Longrightarrow> cu_p l' = cu_p l \<or> cu_p l' = Suc (cu_p l) \<and> cu_ch l' = b ! cu_p l"
  by (cases "cu_st l"; cases "case cu_st l of CU_path s \<Rightarrow> s | _ \<Rightarrow> CU_usual")
    (auto simp: cu_step_def cu_cases cu_advance_def cu_put_def Let_def split: if_splits option.splits)

lemma cu_reach_before:
  assumes "us < q" "b ! q = ch_quest" and reach: "cu_reach merge b us ue r0 l r"
  shows "cu_before b q l"
  using reach
proof induction
  case cu_reach_start
  then show ?case using assms(1) by (simp add: cu_before_def)
next
  case (cu_reach_step l r l' r')
  have "cu_p l \<le> q"
    using cu_reach_step.IH cu_step_quest cu_reach_step.hyps(3) by (fastforce simp: cu_before_def)
  then show ?case using cu_step_position [OF cu_reach_step.hyps(3)] assms(2) by (auto simp: cu_before_def)
qed

text \<open>The loop ends at a state it reached.\<close>

lemma cu_step_exit:
  "cu_step merge b l r = CU_args l' r' \<Longrightarrow> l' = l" "cu_step merge b l r = CU_done l' r' \<Longrightarrow> l' = l"
  "cu_step merge b l r = CU_return rc r' \<Longrightarrow> rc = NGX_HTTP_PARSE_INVALID_REQUEST"
  by (cases "cu_st l"; cases "case cu_st l of CU_path s \<Rightarrow> s | _ \<Rightarrow> CU_usual";
    auto simp: cu_step_def cu_cases Let_def split: if_splits option.splits)+

lemma cu_loop_reach:
  assumes "cu_reach merge b us ue r0 l r"
  shows "(\<exists>r'. cu_loop merge b ue l r = CU_return NGX_HTTP_PARSE_INVALID_REQUEST r') \<or>
    (\<exists>l' r' r''. (cu_loop merge b ue l r = CU_done l' r' \<or> cu_loop merge b ue l r = CU_args l' r') \<and>
      cu_reach merge b us ue r0 l' r'')"
  using assms
proof (induction merge b ue l r rule: cu_loop.induct)
  case (1 merge b ue l r)
  show ?case
  proof (cases "cu_p l \<le> ue")
    case True
    show ?thesis
    proof (cases "cu_step merge b l r")
      case (CU_next l' r')
      then show ?thesis
        using "1.IH" [OF True CU_next] cu_reach_step [OF "1.prems" True CU_next] True by (simp add: cu_loop.simps [of _ _ _ l])
    next
      case (CU_args l' r')
      then show ?thesis using "1.prems" cu_step_exit(1) [OF CU_args] True by (auto simp: cu_loop.simps [of _ _ _ l])
    next
      case (CU_done l' r')
      then show ?thesis using "1.prems" cu_step_exit(2) [OF CU_done] True by (auto simp: cu_loop.simps [of _ _ _ l])
    next
      case (CU_return rc r')
      then show ?thesis using cu_step_exit(3) [OF CU_return] True by (simp add: cu_loop.simps [of _ _ _ l])
    qed
  next
    case False
    then show ?thesis using "1.prems" by (auto simp: cu_loop_end)
  qed
qed


definition cu_request_init :: cu_request where
  "cu_request_init = \<lparr>u_uri = [], u_ext = None, u_exten = None, u_args_start = None, u_args = None,
    u_plus_in_uri = False, u_quoted_uri = False\<rparr>"

lemmas complex_uri_spec_eval = complex_uri_spec_def cu_spec_def cu_norm.simps cu_seg_end_def cu_render_def
  hex_val_def is_digit_def bslice_def str_def

theorem parse_complex_uri_refines_witness:
  "\<exists>r'. ngx_http_parse_complex_uri cu_request_init (str ''/a/../b?x'' @ [LF]) 0 9 True = (NGX_OK, r') \<and>
    u_uri r' = str ''/b'' \<and> u_args_start r' = Some 8"
proof -
  obtain rc r' where run: "ngx_http_parse_complex_uri cu_request_init (str ''/a/../b?x'' @ [LF]) 0 9 True = (rc, r')"
    by fastforce
  show ?thesis using parse_complex_uri_refines [OF _ _ _ run] run
    by (simp add: complex_uri_spec_eval)
qed

lemmas cu_eval = ngx_http_parse_complex_uri_def cu_request_init_def cu_loop.simps cu_step_def cu_cases cu_advance_def
  cu_put_def cu_exit_def cu_finish_def usual_iff str_def Let_def

theorem parse_complex_uri_safe_witness:
  "\<exists>r'. ngx_http_parse_complex_uri cu_request_init (str ''/./b'' @ [LF]) 0 4 True = (NGX_OK, r') \<and>
    (\<exists>path. u_uri r' = ch_slash # path) \<and> u_uri r' \<noteq> [] @ str ''/./'' @ str ''b''"
proof -
  obtain r' where run: "ngx_http_parse_complex_uri cu_request_init (str ''/./b'' @ [LF]) 0 4 True = (NGX_OK, r')"
    by (simp add: cu_eval)
  have b: "4 < length (str ''/./b'' @ [LF])" "(str ''/./b'' @ [LF]) ! 0 = ch_slash" by (simp_all add: str_def)
  show ?thesis using parse_complex_uri_safe [OF zero_less_numeral b run] run by blast
qed

text \<open>
  Two URIs that are accepted without being normalised: a last segment \<open>..\<close> is kept, and an escape that
  the end of the URI cuts off is dropped.
\<close>

lemma complex_uri_trailing_dot_dot:
  "\<exists>r'. ngx_http_parse_complex_uri cu_request_init (str ''/a/..'' @ [LF]) 0 5 True = (NGX_OK, r') \<and>
    u_uri r' = str ''/a/..''"
  by (simp add: cu_eval)

lemma complex_uri_cut_escape:
  "\<exists>r'. ngx_http_parse_complex_uri cu_request_init (str ''/a%4'' @ [LF]) 0 4 True = (NGX_OK, r') \<and>
    u_uri r' = str ''/a''"
  by (simp add: cu_eval)

end
