(* ===== verification/Ngx_Request_Uri.thy ===== *)
theory Ngx_Request_Uri
  imports Ngx_Request_Line_Correct Ngx_Complex_Uri_Correct
begin

section \<open>The URI of a request, from the request line to the normaliser\<close>

text \<open>
  The part of \<open>ngx_http_process_request_line\<close> (\<open>src/http/ngx_http_request.c\<close>, 750--777) that sits between the
  two parsers: it computes \<open>r->uri.len\<close> from the pointers the request-line parser left, allocates
  \<open>uri.len + 1\<close> bytes and has \<open>ngx_http_parse_complex_uri\<close> write the normalised URI into them.  The length leaves
  the query string out, while the normaliser reads up to \<open>uri_end\<close>: that its output fits all the same is the
  property of this theory.  \<open>alloc\<close> says which requests for memory \<open>ngx_pnalloc\<close> serves.
\<close>

datatype uri_outcome =
    Uri_set cu_request
  | Uri_bad_request cu_request
  | Uri_no_memory

definition http_uri_len :: "ngx_http_request \<Rightarrow> nat \<Rightarrow> nat \<Rightarrow> nat" where
  "http_uri_len r us ue = (case args_start r of Some a \<Rightarrow> a - 1 - us | None \<Rightarrow> ue - us)"

definition http_process_uri ::
  "(nat \<Rightarrow> bool) \<Rightarrow> bool \<Rightarrow> bytes \<Rightarrow> ngx_http_request \<Rightarrow> nat \<Rightarrow> nat \<Rightarrow> cu_request \<Rightarrow> uri_outcome" where
  "http_process_uri alloc merge_slashes b r us ue u =
    (let len = http_uri_len r us ue in
     if complex_uri r \<or> quoted_uri r then
       (if alloc (len + 1) then
          (case ngx_http_parse_complex_uri u b us ue merge_slashes of (rc, u') \<Rightarrow>
             if rc = NGX_HTTP_PARSE_INVALID_REQUEST then Uri_bad_request u' else Uri_set u')
        else Uri_no_memory)
     else Uri_set (u\<lparr>u_uri := bslice us (us + len) b\<rparr>))"

subsection \<open>What the request line promises of its pointers\<close>

lemma request_line_uri:
  assumes "ngx_http_parse_request_line ngx_http_request_init b pos = (NGX_OK, pos', r)"
    and "uri_start r = Some us" "uri_end r = Some ue"
  shows "us < ue" "ue < length b" "b ! us = ch_slash"
    "args_start r = Some a \<Longrightarrow> us + 1 < a \<and> a \<le> ue \<and> b ! (a - 1) = ch_quest"
proof -
  obtain p re r1 where p: "p < length b" "uri_closed b re r1" "re \<le> p"
    and r: "r = r1\<lparr>request_end := Some re, http_version := ucast (http_major r1) * 1000 + ucast (http_minor r1), r_state := RL_start\<rparr>"
    and quest: "\<And>a. args_start r1 = Some a \<Longrightarrow> b ! (a - 1) = ch_quest"
    using request_line_accepted [OF assms(1)] by metis
  have uri: "uri_at b r1 us ue" "ue \<le> re" using p(2) assms(2,3) by (auto simp: uri_closed_def uri_at_def r)
  then show uri': "us < ue" "ue < length b" "b ! us = ch_slash" using p by (auto simp: uri_at_def uri_bytes_def)
  assume a: "args_start r = Some a"
  then have "us < a" "a \<le> ue" "b ! (a - 1) = ch_quest" using uri(1) quest by (auto simp: uri_at_def ptr_in_def r)
  moreover from this have "us + 1 \<noteq> a" using uri'(3) by auto
  ultimately show "us + 1 < a \<and> a \<le> ue \<and> b ! (a - 1) = ch_quest" by simp
qed

lemma cu_reach_uri_len:
  assumes "us < ue" "\<And>a. args_start r = Some a \<Longrightarrow> us + 1 < a \<and> b ! (a - 1) = ch_quest" "cu_reach merge b us ue u l u'"
  shows "length (cu_out l) \<le> http_uri_len r us ue"
proof -
  have out: "us + length (cu_out l) < cu_p l" "cu_p l \<le> ue + 1"
    using cu_reach_bounded [OF _ assms(3)] assms(1) by (auto simp: cu_bounded_def)
  show ?thesis
  proof (cases "args_start r")
    case (Some a)
    then have "us < a - 1" "b ! (a - 1) = ch_quest" using assms(2) [OF Some] by auto
    then have "cu_p l \<le> a" using cu_reach_before [OF _ _ assms(3), of "a - 1"] by (simp add: cu_before_def)
    then show ?thesis using out Some by (simp add: http_uri_len_def)
  qed (use out in \<open>simp add: http_uri_len_def\<close>)
qed

lemma parse_complex_uri_out:
  assumes "ngx_http_parse_complex_uri u b us ue merge = (rc, u')" "rc \<noteq> NGX_HTTP_PARSE_INVALID_REQUEST"
  obtains l u'' where "cu_reach merge b us ue u l u''" "u_uri u' = cu_out l"
proof -
  have u': "u' = snd (ngx_http_parse_complex_uri u b us ue merge)" "rc = fst (ngx_http_parse_complex_uri u b us ue merge)"
    using assms(1) by simp_all
  show thesis
    using cu_loop_reach [OF cu_reach_start, of merge b ue us u] assms(2) that
    by (auto simp: u' ngx_http_parse_complex_uri_def cu_exit_def cu_finish_fields)
qed

text \<open>
  C21. For every accepted request line the normaliser stays inside of its buffers.  At every iteration the output
  is shorter than the \<open>uri.len + 1\<close> bytes that were allocated for it, although \<open>uri.len\<close> does not count the query
  string; the reading position is at most one behind \<open>uri_end\<close>, which lies in the header buffer; and \<open>uri_ext\<close>
  points into the output, so that \<open>exten.len\<close> does not wrap.  The URI the request ends up with is no longer than
  the \<open>uri.len\<close> computed before.
\<close>

theorem parse_complex_uri_bounds:
  assumes line: "ngx_http_parse_request_line ngx_http_request_init b pos = (NGX_OK, pos', r)"
    and uri: "uri_start r = Some us" "uri_end r = Some ue"
  shows "(\<forall>l u'. cu_reach merge b us ue u l u' \<longrightarrow>
      length (cu_out l) < http_uri_len r us ue + 1 \<and> cu_p l \<le> ue + 1 \<and> ue < length b \<and>
      (\<forall>e. u_ext u' = Some e \<longrightarrow> 0 < e \<and> e \<le> length (cu_out l))) \<and>
    (\<forall>u'. http_process_uri alloc merge b r us ue u = Uri_set u' \<longrightarrow> length (u_uri u') \<le> http_uri_len r us ue)"
proof -
  note request_line_uri = request_line_uri [OF line uri]
  have fits: "length (cu_out l) \<le> http_uri_len r us ue" if "cu_reach merge b us ue u l u'" for l u'
    using cu_reach_uri_len [OF request_line_uri(1) _ that] request_line_uri(4) by blast
  have "length (u_uri u') \<le> http_uri_len r us ue" if "http_process_uri alloc merge b r us ue u = Uri_set u'" for u'
    using that fits by (fastforce simp: http_process_uri_def Let_def bslice_def elim: parse_complex_uri_out
        split: if_splits prod.splits)
  moreover have "cu_p l \<le> ue + 1 \<and> (\<forall>e. u_ext u' = Some e \<longrightarrow> 0 < e \<and> e \<le> length (cu_out l))"
    if "cu_reach merge b us ue u l u'" for l u'
    using cu_reach_bounded [OF _ that] request_line_uri(1) by (auto simp: cu_bounded_def split: option.splits)
  ultimately show ?thesis using fits request_line_uri(2) by (simp add: less_Suc_eq_le)
qed

theorem parse_complex_uri_bounds_witness:
  "\<exists>r. ngx_http_parse_request_line ngx_http_request_init (str ''GET /b?x#y HTTP/1.1'' @ [CR, LF]) 0 = (NGX_OK, 21, r) \<and>
    http_uri_len r 4 10 = 2 \<and>
    (\<exists>u'. http_process_uri (\<lambda>n. n = 3) True (str ''GET /b?x#y HTTP/1.1'' @ [CR, LF]) r 4 10 cu_request_init = Uri_set u' \<and>
      u_uri u' = str ''/b'' \<and> length (u_uri u') \<le> 2)"
proof -
  let ?b = "str ''GET /b?x#y HTTP/1.1'' @ [CR, LF]"
  obtain r where r: "ngx_http_parse_request_line ngx_http_request_init ?b 0 = (NGX_OK, 21, r)"
      "uri_start r = Some 4" "uri_end r = Some 10" "args_start r = Some 7" "complex_uri r"
    by (simp add: rl_eval str_def)
  obtain u' where u': "http_process_uri (\<lambda>n. n = 3) True ?b r 4 10 cu_request_init = Uri_set u'" "u_uri u' = str ''/b''"
    using r(4,5) by (simp add: http_process_uri_def http_uri_len_def cu_eval cu_args.simps)
  show ?thesis using parse_complex_uri_bounds [OF r(1-3)] r u' by (fastforce simp: http_uri_len_def)
qed

end
