(* ===== verification/Ngx_Status_Line.thy ===== *)
theory Ngx_Status_Line
  imports Ngx_Scan
begin

section \<open>\<open>ngx_http_parse_status_line\<close>\<close>

text \<open>
  The status-line parser for upstream responses, \<open>ngx_http_parse_status_line\<close> of
  \<open>src/http/ngx_http_parse.c\<close> (1335--1537), with \<open>ngx_http_status_t\<close> and \<open>r->state\<close> as one record; the
  code is a 64-bit number.  It is resumable, accepts the well-formed status lines with the code they
  carry, and leaves the bounds of the status text in order.
\<close>

subsection \<open>Model\<close>

datatype sl_state =
    SL_start
  | SL_H
  | SL_HT
  | SL_HTT
  | SL_HTTP
  | SL_first_major_digit
  | SL_major_digit
  | SL_first_minor_digit
  | SL_minor_digit
  | SL_status
  | SL_space_after_status
  | SL_status_text
  | SL_almost_done

record ngx_http_status =
  sr_state :: sl_state
  s_code :: u64
  s_count :: nat
  s_start :: ptr
  s_end :: ptr

datatype sl_label = SL_done

type_synonym sl_result = "(sl_state, ngx_http_status, sl_label, ngx_rc) step"

text \<open>The cases \<open>sw_start\<close> to \<open>sw_HTTP\<close> expect one character each.\<close>

definition sl_expect :: "byte \<Rightarrow> sl_state \<Rightarrow> byte \<Rightarrow> ngx_http_status \<Rightarrow> sl_result" where
  "sl_expect c st ch r = (if ch = c then Next st r else Return NGX_ERROR r)"

definition sl_first_major_digit :: "byte \<Rightarrow> ngx_http_status \<Rightarrow> sl_result" where
  "sl_first_major_digit ch r =
    (if ch < ch_1 \<or> ch > ch_9 then Return NGX_ERROR r else Next SL_major_digit r)"

definition sl_major_digit :: "byte \<Rightarrow> ngx_http_status \<Rightarrow> sl_result" where
  "sl_major_digit ch r =
    (if ch = ch_dot then Next SL_first_minor_digit r
     else if ch < ch_0 \<or> ch > ch_9 then Return NGX_ERROR r
     else Next SL_major_digit r)"

definition sl_first_minor_digit :: "byte \<Rightarrow> ngx_http_status \<Rightarrow> sl_result" where
  "sl_first_minor_digit ch r =
    (if ch < ch_0 \<or> ch > ch_9 then Return NGX_ERROR r else Next SL_minor_digit r)"

definition sl_minor_digit :: "byte \<Rightarrow> ngx_http_status \<Rightarrow> sl_result" where
  "sl_minor_digit ch r =
    (if ch = ch_space then Next SL_status r
     else if ch < ch_0 \<or> ch > ch_9 then Return NGX_ERROR r
     else Next SL_minor_digit r)"

definition sl_status :: "nat \<Rightarrow> byte \<Rightarrow> ngx_http_status \<Rightarrow> sl_result" where
  "sl_status p ch r =
    (if ch = ch_space then Next SL_status r
     else if ch < ch_0 \<or> ch > ch_9 then Return NGX_ERROR r
     else
       (let r = r\<lparr>s_code := s_code r * 10 + ucast ch - 48, s_count := s_count r + 1\<rparr> in
        if s_count r = 3 then Next SL_space_after_status (r\<lparr>s_start := Some (p - 2)\<rparr>)
        else Next SL_status r))"

definition sl_space_after_status :: "byte \<Rightarrow> ngx_http_status \<Rightarrow> sl_result" where
  "sl_space_after_status ch r =
    (if ch = ch_space then Next SL_status_text r
     else if ch = ch_dot then Next SL_status_text r
     else if ch = CR then Next SL_almost_done r
     else if ch = LF then Goto SL_done r
     else Return NGX_ERROR r)"

definition sl_status_text :: "byte \<Rightarrow> ngx_http_status \<Rightarrow> sl_result" where
  "sl_status_text ch r =
    (if ch = CR then Next SL_almost_done r
     else if ch = LF then Goto SL_done r
     else Next SL_status_text r)"

definition sl_almost_done :: "nat \<Rightarrow> byte \<Rightarrow> ngx_http_status \<Rightarrow> sl_result" where
  "sl_almost_done p ch r =
    (let r = r\<lparr>s_end := Some (p - 1)\<rparr> in
     if ch = LF then Goto SL_done r else Return NGX_ERROR r)"

fun sl_step :: "bytes \<Rightarrow> nat \<Rightarrow> byte \<Rightarrow> sl_state \<Rightarrow> ngx_http_status \<Rightarrow> sl_result" where
  "sl_step b p ch SL_start r = sl_expect ch_H SL_H ch r"
| "sl_step b p ch SL_H r = sl_expect ch_T SL_HT ch r"
| "sl_step b p ch SL_HT r = sl_expect ch_T SL_HTT ch r"
| "sl_step b p ch SL_HTT r = sl_expect ch_P SL_HTTP ch r"
| "sl_step b p ch SL_HTTP r = sl_expect ch_slash SL_first_major_digit ch r"
| "sl_step b p ch SL_first_major_digit r = sl_first_major_digit ch r"
| "sl_step b p ch SL_major_digit r = sl_major_digit ch r"
| "sl_step b p ch SL_first_minor_digit r = sl_first_minor_digit ch r"
| "sl_step b p ch SL_minor_digit r = sl_minor_digit ch r"
| "sl_step b p ch SL_status r = sl_status p ch r"
| "sl_step b p ch SL_space_after_status r = sl_space_after_status ch r"
| "sl_step b p ch SL_status_text r = sl_status_text ch r"
| "sl_step b p ch SL_almost_done r = sl_almost_done p ch r"

definition sl_finish :: "nat \<Rightarrow> ngx_http_status \<Rightarrow> ngx_rc \<times> nat \<times> ngx_http_status" where
  "sl_finish p r =
    (let r = (case s_end r of None \<Rightarrow> r\<lparr>s_end := Some p\<rparr> | Some _ \<Rightarrow> r)
     in (NGX_OK, p + 1, r\<lparr>sr_state := SL_start\<rparr>))"

definition ngx_http_parse_status_line ::
  "ngx_http_status \<Rightarrow> bytes \<Rightarrow> nat \<Rightarrow> ngx_rc \<times> nat \<times> ngx_http_status" where
  "ngx_http_parse_status_line r b pos =
    (case scan sl_step b pos (sr_state r) r of
       Exhausted p st r' \<Rightarrow> (NGX_AGAIN, p, r'\<lparr>sr_state := st\<rparr>)
     | Jumped SL_done p r' \<Rightarrow> sl_finish p r'
     | Returned rc r' \<Rightarrow> (rc, pos, r'))"

text \<open>A fresh \<open>ngx_http_status_t\<close>: all bytes zero.\<close>

definition ngx_http_status_init :: ngx_http_status where
  "ngx_http_status_init =
    \<lparr>sr_state = SL_start, s_code = 0, s_count = 0, s_start = None, s_end = None\<rparr>"

named_theorems sl_cases \<open>the definitions of the cases of the status-line switch\<close>

declare sl_expect_def [sl_cases] sl_first_major_digit_def [sl_cases] sl_major_digit_def [sl_cases]
  sl_first_minor_digit_def [sl_cases] sl_minor_digit_def [sl_cases] sl_status_def [sl_cases]
  sl_space_after_status_def [sl_cases] sl_status_text_def [sl_cases] sl_almost_done_def [sl_cases]

subsection \<open>Resumption\<close>

lemma sl_step_local: "sl_step (b @ rest) p ch st r = sl_step b p ch st r"
  by (cases st) simp_all

lemma sl_step_save:
  "sl_step b p ch st (r\<lparr>sr_state := s\<rparr>) = map_step id (\<lambda>r. r\<lparr>sr_state := s\<rparr>) id id (sl_step b p ch st r)"
  by (cases st; cases r) (simp_all add: sl_cases Let_def)

interpretation sl: resumable sl_step sr_state "\<lambda>st r. r\<lparr>sr_state := st\<rparr>"
  by unfold_locales (simp_all add: sl_step_local sl_step_save)

lemma sl_step_Return: "sl_step b p ch st r = Return c r' \<Longrightarrow> c = NGX_ERROR"
  by (cases st) (auto simp: sl_cases Let_def split: if_splits)

lemma sl_scan_Returned:
  assumes "scan sl_step b p st r = Returned c r'"
  shows "c = NGX_ERROR"
  using scan_outcome(3) [where I = "\<lambda>_ _ _. True", OF _ _ assms]
  by (auto simp: scan_keeps_def dest: sl_step_Return)

text \<open>
  C22. A status line may arrive in any number of pieces: continuing after \<open>NGX_AGAIN\<close> when \<open>rest\<close> has been
  received gives what one call on the whole data gives (for a refused line, up to \<open>r->state\<close>).
\<close>

theorem parse_status_line_resume:
  assumes "pos \<le> length b"
    and again: "ngx_http_parse_status_line r b pos = (NGX_AGAIN, pos1, r1)"
    and whole: "ngx_http_parse_status_line r (b @ rest) pos = (rc, pos2, r2)"
    and resumed: "ngx_http_parse_status_line r1 (b @ rest) pos1 = (rc', pos2', r2')"
  shows "pos1 = length b \<and> rc' = rc \<and>
    (rc \<noteq> NGX_ERROR \<longrightarrow> pos2' = pos2 \<and> r2' = r2) \<and>
    (rc = NGX_ERROR \<longrightarrow> r2' = r2\<lparr>sr_state := sr_state r1\<rparr>)"
proof -
  obtain st r' where run: "scan sl_step b pos (sr_state r) r = Exhausted pos1 st r'"
    and r1: "r1 = r'\<lparr>sr_state := st\<rparr>"
    using again
    by (auto simp: ngx_http_parse_status_line_def sl_finish_def Let_def dest: sl_scan_Returned
        split: outcome.splits sl_label.splits)
  have pos1: "pos1 = length b" using scan_Exhausted_pos [OF run assms(1)] .
  have resume: "scan sl_step (b @ rest) pos1 (sr_state r1) r1 =
      map_outcome id (\<lambda>r. r\<lparr>sr_state := st\<rparr>) id id (scan sl_step (b @ rest) pos (sr_state r) r)"
    using sl.scan_resume [OF assms(1) run, of rest] by (simp add: r1)
  show ?thesis
  proof (cases "scan sl_step (b @ rest) pos (sr_state r) r")
    case (Exhausted p st' r')
    then show ?thesis using whole resumed pos1 resume by (auto simp: ngx_http_parse_status_line_def)
  next
    case (Jumped l p r')
    then show ?thesis using whole resumed pos1 resume
      by (cases l) (auto simp: ngx_http_parse_status_line_def sl_finish_def Let_def split: option.splits)
  next
    case (Returned c r')
    then show ?thesis using whole resumed pos1 resume sl_scan_Returned [OF Returned]
      by (auto simp: ngx_http_parse_status_line_def r1)
  qed
qed

lemmas sl_eval = ngx_http_parse_status_line_def ngx_http_status_init_def scan_whole sl_cases sl_finish_def
  Let_def str_def

theorem parse_status_line_resume_witness:
  "\<exists>r1 r2. ngx_http_parse_status_line ngx_http_status_init (str ''HTTP/1.1 2'') 0 = (NGX_AGAIN, 10, r1) \<and>
     ngx_http_parse_status_line r1 (str ''HTTP/1.1 2'' @ (str ''00'' @ [LF])) 10 = (NGX_OK, 13, r2) \<and>
     s_code r2 = 200"
proof -
  let ?b = "str ''HTTP/1.1 2''" and ?c = "str ''00'' @ [LF]" and ?r = ngx_http_status_init
  obtain r1 where r1: "ngx_http_parse_status_line ?r ?b 0 = (NGX_AGAIN, 10, r1)"
    by (simp add: sl_eval)
  obtain r2 where r2: "ngx_http_parse_status_line ?r (?b @ ?c) 0 = (NGX_OK, 13, r2)" "s_code r2 = 200"
    by (simp add: sl_eval)
  obtain rc p r3 where r3: "ngx_http_parse_status_line r1 (?b @ ?c) 10 = (rc, p, r3)"
    by (metis prod_cases3)
  show ?thesis using parse_status_line_resume [OF _ r1 r2(1) r3] r1 r2 r3 by simp
qed

subsection \<open>The status code and the bounds of the text\<close>

fun sl_inv :: "bytes \<Rightarrow> nat \<Rightarrow> sl_state \<Rightarrow> ngx_http_status \<Rightarrow> bool" where
  "sl_inv b p SL_status r \<longleftrightarrow> s_end r = None \<and> s_count r < 3 \<and> unat (s_code r) < 10 ^ s_count r \<and> s_count r < p"
| "sl_inv b p SL_space_after_status r \<longleftrightarrow> s_end r = None \<and> unat (s_code r) < 1000 \<and>
    (\<exists>s. s_start r = Some s \<and> s + 3 = p)"
| "sl_inv b p SL_status_text r \<longleftrightarrow> s_end r = None \<and> unat (s_code r) < 1000 \<and>
    (\<exists>s. s_start r = Some s \<and> s + 3 < p)"
| "sl_inv b p SL_almost_done r \<longleftrightarrow> s_end r = None \<and> unat (s_code r) < 1000 \<and>
    (\<exists>s. s_start r = Some s \<and> s + 3 < p)"
| "sl_inv b p SL_start r \<longleftrightarrow> s_end r = None \<and> s_count r = 0 \<and> s_code r = 0"
| "sl_inv b p _ r \<longleftrightarrow> s_end r = None \<and> s_count r = 0 \<and> s_code r = 0 \<and> 0 < p"

lemma status_digit:
  assumes "\<not> (ch < ch_0 \<or> ch > ch_9)" "unat (c :: u64) < 100"
  shows "unat (c * 10 + ucast ch - 48) = unat c * 10 + (unat ch - 48)"
proof -
  have ch: "48 \<le> unat ch" "unat ch \<le> 57" using assms(1) by (simp_all add: not_less word_le_nat_alt)
  have u: "unat (c * 10 + ucast ch) = unat c * 10 + unat ch"
    using assms(2) ch by (simp add: unat_word_ariths unsigned_ucast_eq take_bit_nat_eq_self)
  then have "48 \<le> c * 10 + ucast ch" using ch by (simp add: word_le_nat_alt)
  then show ?thesis using u ch by (simp add: unat_sub)
qed

lemma sl_status_inv:
  assumes "sl_inv b p SL_status r" "sl_status p ch r = Next st' r'"
  shows "sl_inv b (Suc p) st' r'"
proof (cases "ch = ch_space")
  case True
  then show ?thesis using assms by (auto simp: sl_status_def)
next
  case False
  have r: "s_end r = None" "s_count r < 3" "unat (s_code r) < 10 ^ s_count r" "s_count r < p" using assms(1) by auto
  then have "(10::nat) ^ s_count r \<le> 100" by (auto simp: less_Suc_eq numeral_eq_Suc)
  then have "unat (s_code r * 10 + ucast ch - 48) = unat (s_code r) * 10 + (unat ch - 48)" if "\<not> (ch < ch_0 \<or> ch > ch_9)"
    using that r(3) by (intro status_digit) auto
  then have "unat (s_code r * 10 + ucast ch - 48) < 10 ^ Suc (s_count r)" if "\<not> (ch < ch_0 \<or> ch > ch_9)"
    using that r(3) by (auto simp: not_less word_le_nat_alt)
  then show ?thesis using assms(2) False r
    by (auto simp: sl_status_def Let_def eval_nat_numeral split: if_splits)
qed

lemma sl_inv_keeps: "scan_keeps sl_step b (sl_inv b)"
proof (rule scan_keepsI)
  fix p st r st' r'
  assume "p < length b" "sl_inv b p st r" "sl_step b p (b ! p) st r = Next st' r'"
  then show "sl_inv b (Suc p) st' r'"
    using sl_status_inv [of b p r "b ! p" st' r']
    by (cases st) (auto simp: sl_expect_def sl_first_major_digit_def sl_major_digit_def sl_first_minor_digit_def
        sl_minor_digit_def sl_space_after_status_def sl_status_text_def sl_almost_done_def Let_def split: if_splits)
qed

text \<open>
  An accepted status line has a three-digit code below 1000, and its text lies between \<open>start\<close> and
  \<open>end\<close>: \<open>start + 3 \<le> end < b->pos\<close>, with a line feed at the end.
\<close>

theorem parse_status_line_structure:
  assumes "ngx_http_parse_status_line ngx_http_status_init b pos = (NGX_OK, pos', r)"
  shows "\<exists>s e. s_start r = Some s \<and> s_end r = Some e \<and> s + 3 \<le> e \<and> e < pos' \<and> pos' \<le> length b \<and>
    b ! (pos' - 1) = LF \<and> unat (s_code r) < 1000"
proof -
  have inv0: "sl_inv b pos SL_start ngx_http_status_init" by (simp add: ngx_http_status_init_def)
  from assms obtain p r1 where run: "scan sl_step b pos SL_start ngx_http_status_init = Jumped SL_done p r1"
    and fin: "sl_finish p r1 = (NGX_OK, pos', r)"
    by (auto simp: ngx_http_parse_status_line_def ngx_http_status_init_def dest: sl_scan_Returned
        split: outcome.splits sl_label.splits)
  obtain st r0 where inv: "sl_inv b p st r0" and p: "p < length b"
    and step: "sl_step b p (b ! p) st r0 = Goto SL_done r1"
    using scan_outcome(2) [OF sl_inv_keeps inv0 run] by blast
  have "unat (s_code r1) < 1000 \<and> b ! p = LF \<and> (\<exists>s. s_start r1 = Some s \<and> 
    (s_end r1 = None \<and> s + 3 \<le> p \<or> (\<exists>e. s_end r1 = Some e \<and> s + 3 \<le> e \<and> e < p)))"
    using inv step by (cases st) (auto simp: sl_cases Let_def split: if_splits)
  then show ?thesis using fin p by (auto simp: sl_finish_def Let_def split: option.splits)
qed

theorem parse_status_line_structure_witness:
  "\<exists>r s e. ngx_http_parse_status_line ngx_http_status_init (str ''HTTP/1.1 404 x'' @ [CR, LF]) 0 = (NGX_OK, 16, r) \<and>
    s_start r = Some s \<and> s_end r = Some e \<and> s + 3 \<le> e \<and> unat (s_code r) < 1000"
proof -
  obtain r where r: "ngx_http_parse_status_line ngx_http_status_init (str ''HTTP/1.1 404 x'' @ [CR, LF]) 0 = (NGX_OK, 16, r)"
    by (simp add: sl_eval)
  show ?thesis using parse_status_line_structure [OF r] r by blast
qed

text \<open>Spaces between the digits of the code are skipped.\<close>

lemma status_line_spaced_code:
  "\<exists>r. ngx_http_parse_status_line ngx_http_status_init (str ''HTTP/1.1 2 0 0'' @ [LF]) 0 = (NGX_OK, 15, r) \<and> s_code r = 200"
  by (simp add: sl_eval)

subsection \<open>Acceptance\<close>

definition status_line :: "bytes \<Rightarrow> bytes \<Rightarrow> bytes \<Rightarrow> bytes \<Rightarrow> bytes" where
  "status_line ds ms code reason =
    str ''HTTP/'' @ ds @ [ch_dot] @ ms @ [ch_space] @ code @ [ch_space] @ reason @ [CR, LF]"

lemma sl_digits_run:
  assumes "\<forall>c\<in>set ds. is_digit c" "st \<in> {SL_major_digit, SL_minor_digit}"
  shows "scan_on sl_step b (ds @ rest) p st r = scan_on sl_step b rest (p + length ds) st r"
  using assms is_digit_not
  by (intro scan_on_run) (fastforce simp: sl_major_digit_def sl_minor_digit_def)

lemma sl_text_run:
  assumes "\<forall>c\<in>set reason. c \<noteq> CR \<and> c \<noteq> LF"
  shows "scan_on sl_step b (reason @ rest) p SL_status_text r = scan_on sl_step b rest (p + length reason) SL_status_text r"
  using assms by (intro scan_on_run) (simp add: sl_status_text_def)

lemma status_code_word:
  assumes "is_digit x" "is_digit y" "is_digit z"
  shows "((ucast x - 48) * 10 + ucast y - 48) * 10 + ucast z - 48 = (word_of_nat (dec_value [x, y, z]) :: u64)"
proof -
  have "ucast c - 48 = (word_of_nat (unat c - 48) :: u64)" if "is_digit c" for c
  proof -
    have "48 \<le> unat c" using that by (simp add: is_digit_def word_le_nat_alt)
    then show ?thesis by (simp add: of_nat_diff)
  qed
  then show ?thesis using assms by (simp add: dec_value_def add_diff_eq [symmetric])
qed

text \<open>
  C23. Every status line \<open>HTTP/major.minor code text\<close> with a three-digit code and a text without line ends
  is accepted; the code is the number it denotes, and \<open>start\<close> and \<open>end\<close> delimit the code and the text.
\<close>

theorem parse_status_line_accepts:
  assumes d: "is_digit d" "d \<noteq> ch_0" "\<forall>c\<in>set ds. is_digit c" and m: "is_digit m" "\<forall>c\<in>set ms. is_digit c"
    and code: "is_digit x" "is_digit y" "is_digit z" and reason: "\<forall>c\<in>set reason. c \<noteq> CR \<and> c \<noteq> LF"
  shows "ngx_http_parse_status_line ngx_http_status_init (status_line (d # ds) (m # ms) [x, y, z] reason) 0 =
    (NGX_OK, length (status_line (d # ds) (m # ms) [x, y, z] reason),
     \<lparr>sr_state = SL_start, s_code = word_of_nat (dec_value [x, y, z]), s_count = 3,
       s_start = Some (length ds + length ms + 9), s_end = Some (length ds + length ms + length reason + 13)\<rparr>)"
proof -
  let ?b = "status_line (d # ds) (m # ms) [x, y, z] reason" and ?r = ngx_http_status_init
  let ?k = "length ds + length ms + 9"
  have dm: "\<not> d < ch_1" "\<not> d > ch_9" "\<not> m < ch_0" "\<not> m > ch_9"
    using d m unfolding is_digit_def by (unat_arith, auto)
  have six: "6 = Suc (Suc (Suc (Suc (Suc (Suc 0)))))" by simp
  have "scan sl_step ?b 0 SL_start ?r =
    scan_on sl_step ?b (ds @ [ch_dot] @ (m # ms) @ [ch_space] @ [x, y, z] @ [ch_space] @ reason @ [CR, LF]) 6 SL_major_digit ?r"
    unfolding scan_whole using dm
    by (subst (2) status_line_def) (simp add: str_def sl_expect_def sl_first_major_digit_def six)
  also have "\<dots> = scan_on sl_step ?b ([x, y, z] @ [ch_space] @ reason @ [CR, LF]) ?k SL_status ?r"
    using dm by (simp add: sl_digits_run [OF d(3)] sl_digits_run [OF m(2)] sl_major_digit_def sl_first_minor_digit_def
        sl_minor_digit_def add.commute)
  also have "\<dots> = scan_on sl_step ?b (reason @ [CR, LF]) (?k + 4) SL_status_text
      (?r\<lparr>s_code := word_of_nat (dec_value [x, y, z]), s_count := 3, s_start := Some ?k\<rparr>)"
    using code [THEN is_digit_not] status_code_word [OF code]
    by (simp add: sl_status_def sl_space_after_status_def Let_def ngx_http_status_init_def eval_nat_numeral)
  also have "\<dots> = Jumped SL_done (?k + 4 + length reason + 1)
      (?r\<lparr>s_code := word_of_nat (dec_value [x, y, z]), s_count := 3, s_start := Some ?k, s_end := Some (?k + 4 + length reason)\<rparr>)"
    by (simp add: sl_text_run [OF reason] sl_status_text_def sl_almost_done_def)
  finally show ?thesis
    by (simp add: ngx_http_parse_status_line_def ngx_http_status_init_def sl_finish_def status_line_def str_def)
qed

theorem parse_status_line_accepts_witness:
  "ngx_http_parse_status_line ngx_http_status_init (status_line [ch_1] [ch_1] (str ''404'') (str ''Not Found'')) 0 =
    (NGX_OK, 24, \<lparr>sr_state = SL_start, s_code = 404, s_count = 3, s_start = Some 9, s_end = Some 22\<rparr>)"
  using parse_status_line_accepts [of ch_1 "[]" ch_1 "[]" "0x34" "0x30" "0x34" "str ''Not Found''"]
  by (simp add: is_digit_def str_def dec_value_def status_line_def)

end
