(* ===== verification/Ngx_Strings.thy ===== *)
theory Ngx_Strings
  imports Ngx_Prelude
begin

section \<open>String copying, comparison and search\<close>

text \<open>
  The first part of \<open>src/core/ngx_string.c\<close> and \<open>ngx_strlchr\<close> of \<open>ngx_string.h\<close>.  A pointer argument is
  the list of the bytes that can be read from it on; a function that would read behind the end of the
  list returns \<open>None\<close>, so that a result \<open>Some x\<close> also says that every access was in bounds.  The value of
  a comparison is a mathematical integer (the code subtracts values of characters), a returned
  pointer is an offset from the first argument.
\<close>

subsection \<open>Copying\<close>

fun ngx_strlow :: "bytes \<Rightarrow> nat \<Rightarrow> bytes option" where
  "ngx_strlow src 0 = Some []"
| "ngx_strlow [] (Suc n) = None"
| "ngx_strlow (c # src) (Suc n) = map_option (\<lambda>dst. ngx_tolower c # dst) (ngx_strlow src n)"

text \<open>
  \<open>ngx_cpystrn\<close>: the bytes written to \<open>dst\<close>, in order, and the offset returned.  The loop runs with the
  decremented \<open>n\<close>; its last write is the terminator.
\<close>

fun ngx_cpystrn_loop :: "bytes \<Rightarrow> nat \<Rightarrow> (bytes \<times> nat) option" where
  "ngx_cpystrn_loop src 0 = Some ([NUL], 0)"
| "ngx_cpystrn_loop [] (Suc n) = None"
| "ngx_cpystrn_loop (c # src) (Suc n) =
    (if c = NUL then Some ([c], 0)
     else map_option (\<lambda>(dst, e). (c # dst, e + 1)) (ngx_cpystrn_loop src n))"

definition ngx_cpystrn :: "bytes \<Rightarrow> nat \<Rightarrow> (bytes \<times> nat) option" where
  "ngx_cpystrn src n = (if n = 0 then Some ([], 0) else ngx_cpystrn_loop src (n - 1))"

subsection \<open>Comparison\<close>

fun ngx_strcasecmp :: "bytes \<Rightarrow> bytes \<Rightarrow> int option" where
  "ngx_strcasecmp (a # s1) (b # s2) =
    (let c1 = ngx_tolower a; c2 = ngx_tolower b in
     if c1 = c2 then (if c1 \<noteq> 0 then ngx_strcasecmp s1 s2 else Some 0)
     else Some (uint c1 - uint c2))"
| "ngx_strcasecmp _ _ = None"

fun ngx_strncasecmp :: "bytes \<Rightarrow> bytes \<Rightarrow> nat \<Rightarrow> int option" where
  "ngx_strncasecmp s1 s2 0 = Some 0"
| "ngx_strncasecmp (a # s1) (b # s2) (Suc n) =
    (let c1 = ngx_tolower a; c2 = ngx_tolower b in
     if c1 = c2 then (if c1 \<noteq> 0 then ngx_strncasecmp s1 s2 n else Some 0)
     else Some (uint c1 - uint c2))"
| "ngx_strncasecmp _ _ (Suc n) = None"

text \<open>\<open>strncmp\<close> of the C library.\<close>

fun ngx_strncmp :: "bytes \<Rightarrow> bytes \<Rightarrow> nat \<Rightarrow> int option" where
  "ngx_strncmp s1 s2 0 = Some 0"
| "ngx_strncmp (a # s1) (b # s2) (Suc n) =
    (if a = b then (if a \<noteq> 0 then ngx_strncmp s1 s2 n else Some 0) else Some (uint a - uint b))"
| "ngx_strncmp _ _ (Suc n) = None"

text \<open>\<open>memcmp\<close> of the C library.\<close>

fun ngx_memcmp :: "bytes \<Rightarrow> bytes \<Rightarrow> nat \<Rightarrow> int option" where
  "ngx_memcmp s1 s2 0 = Some 0"
| "ngx_memcmp (a # s1) (b # s2) (Suc n) =
    (if a = b then ngx_memcmp s1 s2 n else Some (uint a - uint b))"
| "ngx_memcmp _ _ (Suc n) = None"

definition ngx_memn2cmp :: "bytes \<Rightarrow> bytes \<Rightarrow> nat \<Rightarrow> nat \<Rightarrow> int option" where
  "ngx_memn2cmp s1 s2 n1 n2 =
    (let (n, z) = (if n1 \<le> n2 then (n1, -1) else (n2, 1)) in
     case ngx_memcmp s1 s2 n of
       None \<Rightarrow> None
     | Some m \<Rightarrow> if m \<noteq> 0 \<or> n1 = n2 then Some m else Some z)"

fun ngx_dns_strcmp :: "bytes \<Rightarrow> bytes \<Rightarrow> int option" where
  "ngx_dns_strcmp (a # s1) (b # s2) =
    (let c1 = ngx_tolower a; c2 = ngx_tolower b in
     if c1 = c2 then (if c1 \<noteq> 0 then ngx_dns_strcmp s1 s2 else Some 0)
     else
       (let c1 = (if c1 = ch_dot then ch_space else c1); c2 = (if c2 = ch_dot then ch_space else c2)
        in Some (uint c1 - uint c2)))"
| "ngx_dns_strcmp _ _ = None"

text \<open>The comparisons from the end; \<open>n\<close> is the number of bytes still to compare.\<close>

fun ngx_rstrncmp :: "bytes \<Rightarrow> bytes \<Rightarrow> nat \<Rightarrow> int option" where
  "ngx_rstrncmp s1 s2 0 = Some 0"
| "ngx_rstrncmp s1 s2 (Suc n) =
    (if n < length s1 \<and> n < length s2 then
       (if s1 ! n \<noteq> s2 ! n then Some (uint (s1 ! n) - uint (s2 ! n)) else ngx_rstrncmp s1 s2 n)
     else None)"

definition ngx_rupper :: "byte \<Rightarrow> byte" where
  "ngx_rupper c = (if ch_a \<le> c \<and> c \<le> ch_z then c - 0x20 else c)"

fun ngx_rstrncasecmp :: "bytes \<Rightarrow> bytes \<Rightarrow> nat \<Rightarrow> int option" where
  "ngx_rstrncasecmp s1 s2 0 = Some 0"
| "ngx_rstrncasecmp s1 s2 (Suc n) =
    (if n < length s1 \<and> n < length s2 then
       (let c1 = ngx_rupper (s1 ! n); c2 = ngx_rupper (s2 ! n) in
        if c1 \<noteq> c2 then Some (uint c1 - uint c2) else ngx_rstrncasecmp s1 s2 n)
     else None)"

subsection \<open>Search\<close>

text \<open>
  The searches return \<open>Some None\<close> for \<open>NULL\<close>.  The two nested loops of each are one recursion: the inner
  one looks for the first character \<open>c2\<close>, the outer one compares the rest.
\<close>

fun ngx_strlchr :: "bytes \<Rightarrow> nat \<Rightarrow> byte \<Rightarrow> nat option option" where
  "ngx_strlchr p 0 c = Some None"
| "ngx_strlchr [] (Suc n) c = None"
| "ngx_strlchr (x # p) (Suc n) c =
    (if x = c then Some (Some 0) else map_option (map_option Suc) (ngx_strlchr p n c))"

fun ngx_strnstr_loop :: "bytes \<Rightarrow> byte \<Rightarrow> bytes \<Rightarrow> nat \<Rightarrow> nat \<Rightarrow> nat option option" where
  "ngx_strnstr_loop s1 c2 s2 n 0 = Some None"
| "ngx_strnstr_loop [] c2 s2 n (Suc len) = None"
| "ngx_strnstr_loop (c1 # s1) c2 s2 n (Suc len) =
    (if c1 = 0 then Some None
     else if c1 \<noteq> c2 then map_option (map_option Suc) (ngx_strnstr_loop s1 c2 s2 n len)
     else if n > len then Some None
     else
       (case ngx_strncmp s1 s2 n of
          None \<Rightarrow> None
        | Some m \<Rightarrow>
            if m \<noteq> 0 then map_option (map_option Suc) (ngx_strnstr_loop s1 c2 s2 n len)
            else Some (Some 0)))"

definition c_strlen :: "bytes \<Rightarrow> nat option" where
  "c_strlen s = (if NUL \<in> set s then Some (length (takeWhile (\<lambda>c. c \<noteq> NUL) s)) else None)"

definition ngx_strnstr :: "bytes \<Rightarrow> bytes \<Rightarrow> nat \<Rightarrow> nat option option" where
  "ngx_strnstr s1 s2 len =
    (case s2 of
       [] \<Rightarrow> None
     | c2 # s2' \<Rightarrow>
         (case c_strlen s2' of None \<Rightarrow> None | Some n \<Rightarrow> ngx_strnstr_loop s1 c2 s2' n len))"

fun ngx_strstrn_loop :: "bytes \<Rightarrow> byte \<Rightarrow> bytes \<Rightarrow> nat \<Rightarrow> nat option option" where
  "ngx_strstrn_loop [] c2 s2 n = None"
| "ngx_strstrn_loop (c1 # s1) c2 s2 n =
    (if c1 = 0 then Some None
     else if c1 \<noteq> c2 then map_option (map_option Suc) (ngx_strstrn_loop s1 c2 s2 n)
     else
       (case ngx_strncmp s1 s2 n of
          None \<Rightarrow> None
        | Some m \<Rightarrow>
            if m \<noteq> 0 then map_option (map_option Suc) (ngx_strstrn_loop s1 c2 s2 n)
            else Some (Some 0)))"

definition ngx_strstrn :: "bytes \<Rightarrow> bytes \<Rightarrow> nat \<Rightarrow> nat option option" where
  "ngx_strstrn s1 s2 n = (case s2 of [] \<Rightarrow> None | c2 # s2' \<Rightarrow> ngx_strstrn_loop s1 c2 s2' n)"

text \<open>
  In \<open>ngx_strcasestrn\<close> the pattern is a \<open>char *\<close>, so its first character is sign-extended to the 64 bits
  of \<open>c2\<close>, while \<open>c1\<close> is zero-extended.
\<close>

definition tolower_uint :: "u64 \<Rightarrow> u64" where
  "tolower_uint c = (if 0x41 \<le> c \<and> c \<le> 0x5A then c OR 0x20 else c)"

fun ngx_strcasestrn_loop :: "bytes \<Rightarrow> u64 \<Rightarrow> bytes \<Rightarrow> nat \<Rightarrow> nat option option" where
  "ngx_strcasestrn_loop [] c2 s2 n = None"
| "ngx_strcasestrn_loop (c1 # s1) c2 s2 n =
    (if c1 = 0 then Some None
     else if tolower_uint (ucast c1) \<noteq> c2 then
       map_option (map_option Suc) (ngx_strcasestrn_loop s1 c2 s2 n)
     else
       (case ngx_strncasecmp s1 s2 n of
          None \<Rightarrow> None
        | Some m \<Rightarrow>
            if m \<noteq> 0 then map_option (map_option Suc) (ngx_strcasestrn_loop s1 c2 s2 n)
            else Some (Some 0)))"

definition ngx_strcasestrn :: "bytes \<Rightarrow> bytes \<Rightarrow> nat \<Rightarrow> nat option option" where
  "ngx_strcasestrn s1 s2 n =
    (case s2 of
       [] \<Rightarrow> None
     | c2 # s2' \<Rightarrow> ngx_strcasestrn_loop s1 (tolower_uint (scast c2)) s2' n)"

text \<open>\<open>left\<close> is \<open>last - s1\<close> after \<open>last -= n\<close>: the number of positions where a match can start.\<close>

fun ngx_strlcasestrn_loop :: "bytes \<Rightarrow> nat \<Rightarrow> byte \<Rightarrow> bytes \<Rightarrow> nat \<Rightarrow> nat option option" where
  "ngx_strlcasestrn_loop s1 0 c2 s2 n = Some None"
| "ngx_strlcasestrn_loop [] (Suc left) c2 s2 n = None"
| "ngx_strlcasestrn_loop (c1 # s1) (Suc left) c2 s2 n =
    (if ngx_tolower c1 \<noteq> c2 then map_option (map_option Suc) (ngx_strlcasestrn_loop s1 left c2 s2 n)
     else
       (case ngx_strncasecmp s1 s2 n of
          None \<Rightarrow> None
        | Some m \<Rightarrow>
            if m \<noteq> 0 then map_option (map_option Suc) (ngx_strlcasestrn_loop s1 left c2 s2 n)
            else Some (Some 0)))"

definition ngx_strlcasestrn :: "bytes \<Rightarrow> nat \<Rightarrow> bytes \<Rightarrow> nat \<Rightarrow> nat option option" where
  "ngx_strlcasestrn s1 len s2 n =
    (case s2 of
       [] \<Rightarrow> None
     | c2 # s2' \<Rightarrow> ngx_strlcasestrn_loop s1 (len - n) (ngx_tolower c2) s2' n)"

end
