(* ===== verification/Ngx_Strings_Correct.thy ===== *)
theory Ngx_Strings_Correct
  imports Ngx_Strings
begin

section \<open>Correctness of the string functions\<close>

text \<open>
  The comparisons order strings lexicographically (after case folding, from the end, or with the length
  as tie-break), the searches return the first occurrence, and the copies are bounded and
  terminated.  The locale \<open>cmp_order\<close> is the contract of a comparison function with its callers, such
  as \<open>ngx_sort\<close>: its sign is a total preorder.
\<close>

subsection \<open>The contract of a comparison function\<close>

locale cmp_order =
  fixes cmp :: "'a \<Rightarrow> 'a \<Rightarrow> int"
  assumes cmp_swap: "sgn (cmp y x) = - sgn (cmp x y)"
    and cmp_trans: "cmp x y \<le> 0 \<Longrightarrow> cmp y z \<le> 0 \<Longrightarrow> cmp x z \<le> 0"
begin

lemma cmp_refl: "cmp x x = 0"
  using cmp_swap [of x x] by (simp add: sgn_if split: if_splits)

lemma cmp_total: "cmp x y \<le> 0 \<or> cmp y x \<le> 0"
  using cmp_swap [of y x] by (auto simp: sgn_if split: if_splits)

lemma cmp_less_iff: "cmp x y < 0 \<longleftrightarrow> 0 < cmp y x"
  using cmp_swap [of y x] by (auto simp: sgn_if split: if_splits)

lemma cmp_le_iff: "cmp x y \<le> 0 \<longleftrightarrow> \<not> cmp y x < 0"
  using cmp_less_iff [of y x] by auto

lemma cmp_less_trans: "cmp x y < 0 \<Longrightarrow> cmp y z \<le> 0 \<Longrightarrow> cmp x z < 0"
  using cmp_trans [of y z x] cmp_le_iff [of z x] cmp_le_iff [of y x] cmp_trans [of x y z] by (metis less_imp_le not_le cmp_less_iff)

end

text \<open>The reference: the sign of the lexicographic comparison of two lists.\<close>

fun lex_sgn :: "'a::linorder list \<Rightarrow> 'a list \<Rightarrow> int" where
  "lex_sgn [] [] = 0"
| "lex_sgn [] (y # ys) = -1"
| "lex_sgn (x # xs) [] = 1"
| "lex_sgn (x # xs) (y # ys) = (if x = y then lex_sgn xs ys else if x < y then -1 else 1)"

lemma lex_sgn_swap: "lex_sgn ys xs = - lex_sgn xs ys"
  by (induction xs ys rule: lex_sgn.induct) auto

lemma lex_sgn_0: "lex_sgn xs ys = 0 \<longleftrightarrow> xs = ys"
  by (induction xs ys rule: lex_sgn.induct) auto

lemma lex_sgn_trans: "lex_sgn xs ys \<le> 0 \<Longrightarrow> lex_sgn ys zs \<le> 0 \<Longrightarrow> lex_sgn xs zs \<le> 0"
proof (induction xs ys arbitrary: zs rule: lex_sgn.induct)
  case (4 x xs y ys)
  then show ?case by (cases zs) (auto split: if_splits)
next
  case (1)
  then show ?case by simp
next
  case (2 y ys)
  then show ?case by (cases zs) auto
qed auto

lemma lex_sgn_range: "lex_sgn xs ys \<in> {-1, 0, 1}"
  by (induction xs ys rule: lex_sgn.induct) auto

lemma sgn_lex_sgn [simp]: "sgn (lex_sgn xs ys) = lex_sgn xs ys"
  using lex_sgn_range [of xs ys] by auto

lemma cmp_order_of_sgn:
  assumes "\<And>x y. sgn (cmp x y) = lex_sgn (key x) (key y)"
  shows "cmp_order cmp"
proof
  show "sgn (cmp y x) = - sgn (cmp x y)" for x y
    by (simp add: assms) (rule lex_sgn_swap)
  have iff: "cmp x y \<le> 0 \<longleftrightarrow> lex_sgn (key x) (key y) \<le> 0" for x y
    by (auto simp: assms [symmetric] sgn_if)
  show "cmp x y \<le> 0 \<Longrightarrow> cmp y z \<le> 0 \<Longrightarrow> cmp x z \<le> 0" for x y z
    unfolding iff by (rule lex_sgn_trans)
qed

lemma sgn_uint_diff: "a \<noteq> b \<Longrightarrow> sgn (uint a - uint (b :: byte)) = (if a < b then -1 else 1)"
  by (auto simp: word_less_def sgn_if not_less word_uint_eq_iff)

subsection \<open>Case-insensitive comparison\<close>

text \<open>The contents of a C string: the bytes before the terminator.\<close>

definition cstr :: "bytes \<Rightarrow> bytes" where
  "cstr s = takeWhile (\<lambda>c. c \<noteq> NUL) s"

lemma cstr_simps [simp]:
  "cstr [] = []" "cstr (c # s) = (if c = NUL then [] else c # cstr s)"
  by (simp_all add: cstr_def)

lemma ngx_tolower_0 [simp]: "ngx_tolower c = 0 \<longleftrightarrow> c = 0"
  by (auto simp: ngx_tolower_def dest: or_eq_0_iff [THEN iffD1])

lemma ngx_tolower_NUL [simp]: "ngx_tolower 0 = 0"
  by (simp add: ngx_tolower_def)

lemma ngx_strcasecmp_sgn:
  assumes "NUL \<in> set s1" "NUL \<in> set s2"
  shows "\<exists>v. ngx_strcasecmp s1 s2 = Some v \<and>
    sgn v = lex_sgn (map ngx_tolower (cstr s1)) (map ngx_tolower (cstr s2))"
  using assms
proof (induction s1 s2 rule: ngx_strcasecmp.induct)
  case (1 a s1 b s2)
  show ?case
  proof (cases "ngx_tolower a = ngx_tolower b")
    case True
    then have "a = 0 \<longleftrightarrow> b = 0" by (metis ngx_tolower_0)
    then show ?thesis using 1 True by auto
  next
    case False
    moreover have "0 < ngx_tolower c" if "c \<noteq> 0" for c
      using that by (metis ngx_tolower_0 word_gt_0)
    ultimately show ?thesis by (auto simp: sgn_uint_diff)
  qed
qed auto

text \<open>The comparison of two C strings with the given contents.\<close>

definition cstr_casecmp :: "bytes \<Rightarrow> bytes \<Rightarrow> int" where
  "cstr_casecmp x y = the (ngx_strcasecmp (x @ [NUL]) (y @ [NUL]))"

lemma cstr_casecmp_sgn:
  "sgn (cstr_casecmp x y) = lex_sgn (map ngx_tolower (cstr x)) (map ngx_tolower (cstr y))"
proof -
  have "cstr (x @ [NUL]) = cstr x" for x by (induction x) auto
  then show ?thesis using ngx_strcasecmp_sgn [of "x @ [NUL]" "y @ [NUL]"] by (auto simp: cstr_casecmp_def)
qed

interpretation casecmp: cmp_order cstr_casecmp
  by (rule cmp_order_of_sgn [OF cstr_casecmp_sgn])

text \<open>
  \<open>ngx_strcasecmp\<close> of two terminated strings reads nothing behind the terminators and orders them
  as their lower-cased contents are ordered lexicographically; in particular it is 0 exactly for
  strings that are equal up to case.
\<close>

theorem strcasecmp_correct:
  assumes "NUL \<in> set s1" "NUL \<in> set s2"
  shows "\<exists>v. ngx_strcasecmp s1 s2 = Some v \<and>
    sgn v = lex_sgn (map ngx_tolower (cstr s1)) (map ngx_tolower (cstr s2)) \<and>
    (v = 0 \<longleftrightarrow> map ngx_tolower (cstr s1) = map ngx_tolower (cstr s2))"
  using ngx_strcasecmp_sgn [OF assms] lex_sgn_0 by (metis sgn_0_0)

theorem strcasecmp_correct_witness:
  "\<exists>v. ngx_strcasecmp (str ''Host'' @ [NUL]) (str ''hOST'' @ [NUL, ch_A]) = Some v \<and> v = 0"
  using strcasecmp_correct [of "str ''Host'' @ [NUL]" "str ''hOST'' @ [NUL, ch_A]"]
  by (simp add: str_def ngx_tolower_def)

subsection \<open>Comparison of byte ranges\<close>

lemma ngx_memcmp_sgn:
  assumes "n \<le> length s1" "n \<le> length s2"
  shows "\<exists>v. ngx_memcmp s1 s2 n = Some v \<and> sgn v = lex_sgn (take n s1) (take n s2)"
  using assms by (induction s1 s2 n rule: ngx_memcmp.induct) (auto simp: sgn_uint_diff)

lemma lex_sgn_take:
  "lex_sgn xs ys = (let n = min (length xs) (length ys); m = lex_sgn (take n xs) (take n ys) in
    if m \<noteq> 0 then m else if length xs = length ys then 0 else if length xs < length ys then -1 else 1)"
  by (induction xs ys rule: lex_sgn.induct) (simp_all add: Let_def)

lemma ngx_memn2cmp_sgn:
  assumes "n1 \<le> length s1" "n2 \<le> length s2"
  shows "\<exists>v. ngx_memn2cmp s1 s2 n1 n2 = Some v \<and> sgn v = lex_sgn (take n1 s1) (take n2 s2)"
proof -
  let ?n = "min n1 n2"
  have "?n \<le> length s1" "?n \<le> length s2" using assms by auto
  then obtain m where m: "ngx_memcmp s1 s2 ?n = Some m" "sgn m = lex_sgn (take ?n s1) (take ?n s2)"
    using ngx_memcmp_sgn by blast
  have "lex_sgn (take n1 s1) (take n2 s2) =
    (if sgn m \<noteq> 0 then sgn m else if n1 = n2 then 0 else if n1 < n2 then -1 else 1)"
    using lex_sgn_take [of "take n1 s1" "take n2 s2"] assms m(2)
    by (simp add: Let_def min_absorb2 min.commute)
  then show ?thesis using m(1) by (auto simp: ngx_memn2cmp_def min_def sgn_0_0)
qed

definition str_n2cmp :: "bytes \<Rightarrow> bytes \<Rightarrow> int" where
  "str_n2cmp x y = the (ngx_memn2cmp x y (length x) (length y))"

lemma str_n2cmp_sgn: "sgn (str_n2cmp x y) = lex_sgn x y"
  using ngx_memn2cmp_sgn [of "length x" x "length y" y] by (auto simp: str_n2cmp_def)

interpretation n2cmp: cmp_order str_n2cmp
  by (rule cmp_order_of_sgn [where key = "\<lambda>x. x"]) (rule str_n2cmp_sgn)

lemma ngx_rstrncmp_sgn:
  assumes "n \<le> length s1" "n \<le> length s2"
  shows "\<exists>v. ngx_rstrncmp s1 s2 n = Some v \<and> sgn v = lex_sgn (rev (take n s1)) (rev (take n s2))"
  using assms by (induction s1 s2 n rule: ngx_rstrncmp.induct) (auto simp: sgn_uint_diff take_Suc_conv_app_nth)

lemma ngx_rstrncasecmp_sgn:
  assumes "n \<le> length s1" "n \<le> length s2"
  shows "\<exists>v. ngx_rstrncasecmp s1 s2 n = Some v \<and>
    sgn v = lex_sgn (rev (map ngx_rupper (take n s1))) (rev (map ngx_rupper (take n s2)))"
  using assms
  by (induction s1 s2 n rule: ngx_rstrncasecmp.induct) (auto simp: sgn_uint_diff take_Suc_conv_app_nth Let_def)

text \<open>
  \<open>ngx_memn2cmp\<close> reads only the \<open>n1\<close> and \<open>n2\<close> bytes it is given and orders the two ranges
  lexicographically, a proper prefix first; \<open>ngx_rstrncmp\<close> and \<open>ngx_rstrncasecmp\<close> order two ranges of the same
  length by their bytes (upper-cased) from the end.
\<close>

theorem range_compare_correct:
  assumes "n1 \<le> length s1" "n2 \<le> length s2"
  shows "(\<exists>v. ngx_memn2cmp s1 s2 n1 n2 = Some v \<and> sgn v = lex_sgn (take n1 s1) (take n2 s2)) \<and>
    (n2 = n1 \<longrightarrow>
      (\<exists>v. ngx_rstrncmp s1 s2 n1 = Some v \<and> sgn v = lex_sgn (rev (take n1 s1)) (rev (take n1 s2))) \<and>
      (\<exists>v. ngx_rstrncasecmp s1 s2 n1 = Some v \<and>
        sgn v = lex_sgn (rev (map ngx_rupper (take n1 s1))) (rev (map ngx_rupper (take n1 s2)))))"
  using ngx_memn2cmp_sgn [OF assms] ngx_rstrncmp_sgn [of n1 s1 s2] ngx_rstrncasecmp_sgn [of n1 s1 s2] assms
  by simp

theorem range_compare_correct_witness:
  "(\<exists>v. ngx_memn2cmp (str ''ab'') (str ''abc'') 2 3 = Some v \<and> sgn v = -1) \<and>
   (\<exists>v. ngx_rstrncasecmp (str ''aB'') (str ''Ab'') 2 = Some v \<and> sgn v = 0)"
  using range_compare_correct [of 2 "str ''ab''" 3 "str ''abc''"] range_compare_correct [of 2 "str ''aB''" 2 "str ''Ab''"]
  by (simp add: str_def ngx_rupper_def)

subsection \<open>Search\<close>

text \<open>The reference: the offset of the first occurrence of \<open>p\<close>.\<close>

fun find_sub :: "'a list \<Rightarrow> 'a list \<Rightarrow> nat option" where
  "find_sub p [] = (if p = [] then Some 0 else None)"
| "find_sub p (c # cs) =
    (if take (length p) (c # cs) = p then Some 0 else map_option Suc (find_sub p cs))"

lemma find_sub_Some:
  "find_sub p s = Some i \<longleftrightarrow>
    take (length p) (drop i s) = p \<and> i \<le> length s \<and> (\<forall>j < i. take (length p) (drop j s) \<noteq> p)"
proof (induction s arbitrary: i)
  case Nil
  then show ?case by auto
next
  case (Cons c cs)
  show ?case
  proof (cases i)
    case 0
    then show ?thesis by auto
  next
    case (Suc k)
    have "(\<forall>j < Suc k. take (length p) (drop j (c # cs)) \<noteq> p) \<longleftrightarrow>
      take (length p) (c # cs) \<noteq> p \<and> (\<forall>j < k. take (length p) (drop j cs) \<noteq> p)"
      by (auto simp: less_Suc_eq_0_disj)
    then show ?thesis using Cons.IH [of k] Suc by auto
  qed
qed

lemma find_sub_None: "find_sub p s = None \<longleftrightarrow> (\<forall>i \<le> length s. take (length p) (drop i s) \<noteq> p)"
proof (induction s)
  case (Cons c cs)
  have "(\<forall>i \<le> Suc n. P i) \<longleftrightarrow> P 0 \<and> (\<forall>i \<le> n. P (Suc i))" for P n
    by (simp add: All_less_Suc2 flip: less_Suc_eq_le)
  then show ?case using Cons.IH by simp
qed auto

lemma find_sub_short: "length s < length p \<Longrightarrow> find_sub p s = None"
  by (induction s) auto

lemma ngx_strncmp_0:
  assumes "NUL \<in> set s1 \<or> n \<le> length s1" "n \<le> length s2" "NUL \<notin> set (take n s2)"
  shows "\<exists>v. ngx_strncmp s1 s2 n = Some v \<and> (v = 0 \<longleftrightarrow> take n (cstr s1) = take n s2)"
  using assms by (induction s1 s2 n rule: ngx_strncmp.induct) (auto simp: word_uint_eq_iff)

lemma ngx_strncasecmp_0:
  assumes "NUL \<in> set s1 \<or> n \<le> length s1" "n \<le> length s2" "NUL \<notin> set (take n s2)"
  shows "\<exists>v. ngx_strncasecmp s1 s2 n = Some v \<and>
    (v = 0 \<longleftrightarrow> map ngx_tolower (take n (cstr s1)) = map ngx_tolower (take n s2))"
  using assms
proof (induction s1 s2 n rule: ngx_strncasecmp.induct)
  case (2 a s1 b s2 n)
  show ?case
  proof (cases "ngx_tolower a = ngx_tolower b")
    case True
    then have "a \<noteq> 0" using 2 by (metis list.set_intros(1) ngx_tolower_0 take_Suc_Cons)
    then show ?thesis using 2 True by (auto simp: Let_def)
  next
    case False
    then show ?thesis using 2 by (auto simp: Let_def word_uint_eq_iff)
  qed
qed auto

lemma find_sub_Cons:
  "find_sub (c # p) (x # s) = (if x = c \<and> take (length p) s = p then Some 0 else map_option Suc (find_sub (c # p) s))"
  by simp

lemma find_sub_Cons_Nil: "find_sub (c # p) [] = None"
  by simp

lemmas find_sub_step = find_sub_Cons find_sub_Cons_Nil

declare find_sub.simps [simp del]

lemma cstr_take: "cstr (take k s) = take k (cstr s)"
  by (induction s arbitrary: k) (auto simp: take_Cons' )

lemma ngx_strstrn_loop_find:
  assumes "NUL \<in> set s1" "length p = n" "n \<le> length s2" "take n s2 = p" "NUL \<notin> set p"
  shows "ngx_strstrn_loop s1 c2 s2 n = Some (find_sub (c2 # p) (cstr s1))"
  using assms(1)
proof (induction s1)
  case (Cons c1 s1)
  show ?case
  proof (cases "c1 = 0")
    case False
    then have "NUL \<in> set s1" using Cons.prems by simp
    then obtain v where v: "ngx_strncmp s1 s2 n = Some v" "v = 0 \<longleftrightarrow> take n (cstr s1) = p"
      using ngx_strncmp_0 [of s1 n s2] assms by auto
    show ?thesis using False Cons.IH \<open>NUL \<in> set s1\<close> v assms(2) by (auto simp: find_sub_step)
  qed (simp add: find_sub_step)
qed simp

lemma ngx_strnstr_loop_find:
  assumes "NUL \<in> set s1 \<or> len \<le> length s1" "length p = n" "n \<le> length s2" "take n s2 = p" "NUL \<notin> set p"
  shows "ngx_strnstr_loop s1 c2 s2 n len = Some (find_sub (c2 # p) (take len (cstr s1)))"
  using assms(1)
proof (induction s1 arbitrary: len)
  case Nil
  then show ?case by (cases len) (auto simp: find_sub_step)
next
  case (Cons c1 s1)
  show ?case
  proof (cases len)
    case (Suc k)
    show ?thesis
    proof (cases "c1 = 0")
      case False
      then have s1: "NUL \<in> set s1 \<or> k \<le> length s1" using Cons.prems Suc by simp
      show ?thesis
      proof (cases "n > k")
        case True
        then have "find_sub (c2 # p) (c1 # take k (cstr s1)) = None"
          using assms(2) by (intro find_sub_short) simp
        then show ?thesis using False Suc True Cons.IH [OF s1] assms(2)
          by (auto simp: find_sub_step split: if_splits)
      next
        case False
        then obtain v where v: "ngx_strncmp s1 s2 n = Some v" "v = 0 \<longleftrightarrow> take n (cstr s1) = p"
          using ngx_strncmp_0 [of s1 n s2] assms s1 by auto
        show ?thesis using False \<open>c1 \<noteq> 0\<close> Suc Cons.IH [OF s1] v assms(2) by (auto simp: find_sub_step min_def)
      qed
    qed (simp add: Suc find_sub_step)
  qed (simp add: find_sub_step)
qed

lemma tolower_uint_ucast: "tolower_uint (ucast (c :: byte)) = ucast (ngx_tolower c)"
proof -
  have "(0x41 \<le> (ucast c :: u64)) = (ch_A \<le> c)" "((ucast c :: u64) \<le> 0x5A) = (c \<le> ch_Z)"
    by (simp_all add: word_le_nat_alt unsigned_ucast_eq take_bit_nat_eq_self unat_byte_less [THEN less_trans])
  moreover have "(ucast (c OR 0x20) :: u64) = ucast c OR 0x20" by (simp add: unsigned_or_eq)
  ultimately show ?thesis by (auto simp: tolower_uint_def ngx_tolower_def)
qed

lemma scast_ascii: "c < 0x80 \<Longrightarrow> (scast (c :: byte) :: u64) = ucast c"
  using byte_allI [where P = "\<lambda>c. c < 0x80 \<longrightarrow> (scast (c :: byte) :: u64) = ucast c" and b = c]
  by (simp add: byte_codes_def)

lemma ucast_byte_eq [simp]: "(ucast (a :: byte) :: u64) = ucast b \<longleftrightarrow> a = b"
proof
  assume "(ucast a :: u64) = ucast b"
  then have "unat (ucast a :: u64) = unat (ucast b :: u64)" by simp
  moreover have "unat (ucast c :: u64) = unat c" for c :: byte
    using unat_byte_less [of c] by (simp add: unsigned_ucast_eq take_bit_nat_eq_self)
  ultimately show "a = b" by (simp add: word_unat_eq_iff)
qed simp

lemma map_tolower_cstr:
  assumes "NUL \<notin> set p" "length p = n"
  shows "map ngx_tolower (take n (cstr s)) = map ngx_tolower p \<longleftrightarrow> map ngx_tolower (take n s) = map ngx_tolower p"
  using assms
proof (induction s arbitrary: n p)
  case (Cons c s)
  show ?case
  proof (cases p)
    case (Cons d q)
    then have "d \<noteq> 0" "ngx_tolower d \<noteq> 0" using Cons.prems by auto
    then show ?thesis using Cons.prems Cons.IH [of q "n - 1"] Cons by (cases n) auto
  qed (use Cons.prems in auto)
qed simp

lemma ngx_strcasestrn_loop_find:
  assumes "NUL \<in> set s1" "length p = n" "n \<le> length s2" "take n s2 = p" "NUL \<notin> set p"
  shows "ngx_strcasestrn_loop s1 (ucast c2) s2 n =
    Some (find_sub (c2 # map ngx_tolower p) (map ngx_tolower (cstr s1)))"
  using assms(1)
proof (induction s1)
  case (Cons c1 s1)
  show ?case
  proof (cases "c1 = 0")
    case False
    then have "NUL \<in> set s1" using Cons.prems by simp
    then obtain v where v: "ngx_strncasecmp s1 s2 n = Some v"
        "v = 0 \<longleftrightarrow> take n (map ngx_tolower (cstr s1)) = map ngx_tolower p"
      using ngx_strncasecmp_0 [of s1 n s2] assms by (auto simp: take_map)
    show ?thesis using False Cons.IH \<open>NUL \<in> set s1\<close> v assms(2)
      by (auto simp: find_sub_step tolower_uint_ucast)
  qed (simp add: find_sub_step)
qed simp

text \<open>A first character of the pattern with the highest bit set is sign-extended and equal to no byte of the text.\<close>

lemma scast_high: "\<not> c < 0x80 \<Longrightarrow> 0xff < (scast (c :: byte) :: u64)"
  using byte_allI [where P = "\<lambda>c. \<not> c < 0x80 \<longrightarrow> 0xff < (scast (c :: byte) :: u64)" and b = c] by (simp add: byte_codes_def)

lemma tolower_uint_high: "\<not> c2 < 0x80 \<Longrightarrow> tolower_uint (ucast (c1 :: byte)) \<noteq> tolower_uint (scast (c2 :: byte))"
proof -
  assume "\<not> c2 < 0x80"
  from scast_high [OF this] have "tolower_uint (scast c2) = scast c2" "0xff < unat (scast c2 :: u64)"
    by (auto simp: tolower_uint_def word_le_nat_alt word_less_nat_alt)
  moreover have "unat (ucast (ngx_tolower c1) :: u64) < 256"
    using unat_byte_less [of "ngx_tolower c1"] by (simp add: unsigned_ucast_eq take_bit_nat_eq_self)
  ultimately show ?thesis unfolding tolower_uint_ucast by auto
qed

lemma ngx_strcasestrn_loop_high:
  "NUL \<in> set s1 \<Longrightarrow> \<not> (c2 :: byte) < 0x80 \<Longrightarrow> ngx_strcasestrn_loop s1 (tolower_uint (scast c2)) s2 n = Some None"
proof (induction s1)
  case (Cons c1 s1)
  then show ?case using tolower_uint_high [OF Cons.prems(2), of c1] by auto
qed simp

lemma ngx_strlcasestrn_loop_find:
  assumes "left + n \<le> length s1" "length p = n" "n \<le> length s2" "take n s2 = p" "NUL \<notin> set p"
  shows "ngx_strlcasestrn_loop s1 left c2 s2 n =
    Some (find_sub (c2 # map ngx_tolower p) (map ngx_tolower (take (left + n) s1)))"
  using assms(1)
proof (induction s1 arbitrary: left)
  case Nil
  then show ?case using assms(2) by (simp add: find_sub_step)
next
  case (Cons c1 s1)
  show ?case
  proof (cases left)
    case 0
    then show ?thesis using assms(2) by (simp add: find_sub_short)
  next
    case (Suc k)
    then have le: "k + n \<le> length s1" using Cons.prems by simp
    then obtain v where v: "ngx_strncasecmp s1 s2 n = Some v"
        "v = 0 \<longleftrightarrow> take n (map ngx_tolower (take (k + n) s1)) = map ngx_tolower p"
      using ngx_strncasecmp_0 [of s1 n s2] assms map_tolower_cstr [of p n s1]
      by (auto simp: take_map min_def)
    show ?thesis using Suc Cons.IH [OF le] v assms(2) by (auto simp: find_sub_step)
  qed
qed

text \<open>
  C24. The four substring searches return the offset of the first occurrence of the pattern and \<open>NULL\<close>
  where there is none, reading nothing behind the terminator or the given length: \<open>ngx_strstrn\<close> and
  \<open>ngx_strcasestrn\<close> in a terminated string, \<open>ngx_strnstr\<close> in the first \<open>len\<close> bytes of one, and
  \<open>ngx_strlcasestrn\<close> in \<open>len\<close> bytes; \<open>n\<close> is the length of the pattern less one.  The one exception is \<open>ngx_strcasestrn\<close> with a pattern
  that begins with a byte from \<open>0x80\<close> on, which it never finds.
\<close>

theorem search_correct:
  assumes "c2 \<noteq> NUL" "NUL \<notin> set p"
  shows "(NUL \<in> set s \<longrightarrow> ngx_strstrn s (c2 # p) (length p) = Some (find_sub (c2 # p) (cstr s))) \<and>
    (NUL \<in> set s \<longrightarrow> ngx_strcasestrn s (c2 # p) (length p) =
      Some (if c2 < 0x80 then find_sub (map ngx_tolower (c2 # p)) (map ngx_tolower (cstr s)) else None)) \<and>
    (NUL \<in> set s \<or> len \<le> length s \<longrightarrow> ngx_strnstr s (c2 # p @ [NUL]) len =
      Some (find_sub (c2 # p) (take len (cstr s)))) \<and>
    (len \<le> length s \<longrightarrow> ngx_strlcasestrn s len (c2 # p) (length p) =
      Some (find_sub (map ngx_tolower (c2 # p)) (map ngx_tolower (take len s))))"
proof (intro conjI impI)
  have "takeWhile (\<lambda>c. c \<noteq> NUL) (p @ [NUL]) = p" using assms(2) by (simp add: takeWhile_append)
  then show "ngx_strnstr s (c2 # p @ [NUL]) len = Some (find_sub (c2 # p) (take len (cstr s)))"
    if "NUL \<in> set s \<or> len \<le> length s"
    using that assms by (simp add: ngx_strnstr_def c_strlen_def ngx_strnstr_loop_find)
  show "ngx_strlcasestrn s len (c2 # p) (length p) =
      Some (find_sub (map ngx_tolower (c2 # p)) (map ngx_tolower (take len s)))" if "len \<le> length s"
  proof (cases "length p \<le> len")
    case True
    then show ?thesis using that assms ngx_strlcasestrn_loop_find [of "len - length p" "length p" s p p]
      by (simp add: ngx_strlcasestrn_def)
  next
    case False
    then show ?thesis by (simp add: ngx_strlcasestrn_def find_sub_short)
  qed
qed (use assms in \<open>auto simp: ngx_strstrn_def ngx_strstrn_loop_find ngx_strcasestrn_def ngx_strcasestrn_loop_find
      ngx_strcasestrn_loop_high scast_ascii tolower_uint_ucast\<close>)

theorem search_correct_witness:
  "ngx_strlcasestrn (str ''a=1&Bc=2'') 8 (str ''bC'') 1 = Some (Some 4) \<and>
   ngx_strstrn (str ''aab'' @ [NUL]) (str ''ab'') 1 = Some (Some 1)"
  using search_correct [of "0x62" "str ''C''" "str ''a=1&Bc=2''" 8] search_correct [of "0x61" "str ''b''" "str ''aab'' @ [NUL]"]
  by (simp add: str_def ngx_tolower_def find_sub.simps)

subsection \<open>The order of domain names\<close>

definition dns_key :: "byte \<Rightarrow> byte" where
  "dns_key c = (if ngx_tolower c = ch_dot then ch_space else ngx_tolower c)"

lemma dns_key_eq:
  assumes "a \<noteq> ch_space" "b \<noteq> ch_space"
  shows "dns_key a = dns_key b \<longleftrightarrow> ngx_tolower a = ngx_tolower b"
proof -
  have "ngx_tolower c \<noteq> ch_space" if "c \<noteq> ch_space" for c
    using that byte_allI [where P = "\<lambda>c. c \<noteq> ch_space \<longrightarrow> ngx_tolower c \<noteq> ch_space" and b = c]
    by (simp add: byte_codes_def ngx_tolower_def)
  then show ?thesis using assms by (auto simp: dns_key_def)
qed

lemma dns_key_pos: "c \<noteq> 0 \<Longrightarrow> 0 < dns_key c"
  using ngx_tolower_0 [of c] by (auto simp: dns_key_def word_gt_0)

text \<open>For names without spaces, \<open>ngx_dns_strcmp\<close> is the case-insensitive order in which the dot is lowest.\<close>

lemma ngx_dns_strcmp_sgn:
  assumes "NUL \<in> set s1" "NUL \<in> set s2" "ch_space \<notin> set (cstr s1)" "ch_space \<notin> set (cstr s2)"
  shows "\<exists>v. ngx_dns_strcmp s1 s2 = Some v \<and> sgn v = lex_sgn (map dns_key (cstr s1)) (map dns_key (cstr s2))"
  using assms
proof (induction s1 s2 rule: ngx_dns_strcmp.induct)
  case (1 a s1 b s2)
  show ?case
  proof (cases "ngx_tolower a = ngx_tolower b")
    case True
    then have "a = 0 \<longleftrightarrow> b = 0" "dns_key a = dns_key b" by (metis ngx_tolower_0, simp add: dns_key_def)
    then show ?thesis using 1 True by auto
  next
    case False
    have d: "dns_key a \<noteq> dns_key b"
      using False 1 dns_key_eq [of a b] dns_key_pos [of a] dns_key_pos [of b]
      by (cases "a = 0"; cases "b = 0") (auto simp: dns_key_def)
    have "ngx_dns_strcmp (a # s1) (b # s2) = Some (uint (dns_key a) - uint (dns_key b))"
      using False by (simp add: dns_key_def Let_def)
    moreover have "dns_key 0 = 0" by (simp add: dns_key_def)
    ultimately show ?thesis using d False dns_key_pos [of a] dns_key_pos [of b] sgn_uint_diff [OF d]
      by (cases "a = 0"; cases "b = 0") auto
  qed
qed auto

subsection \<open>Copying\<close>

lemma ngx_strlow_take: "n \<le> length src \<Longrightarrow> ngx_strlow src n = Some (map ngx_tolower (take n src))"
  by (induction src n rule: ngx_strlow.induct) auto

lemma ngx_cpystrn_loop_take:
  assumes "NUL \<in> set src \<or> n \<le> length src"
  shows "ngx_cpystrn_loop src n = Some (take n (cstr src) @ [NUL], length (take n (cstr src)))"
  using assms by (induction src n rule: ngx_cpystrn_loop.induct) auto

text \<open>
  \<open>ngx_cpystrn\<close> copies at most \<open>n - 1\<close> bytes of the string and always terminates the copy: it writes the
  first \<open>n - 1\<close> bytes of the contents and a NUL, at most \<open>n\<close> bytes in all, and returns the position of
  the NUL.
\<close>

theorem cpystrn_correct:
  assumes "0 < n" "NUL \<in> set src \<or> n - 1 \<le> length src"
  shows "\<exists>dst e. ngx_cpystrn src n = Some (dst, e) \<and> length dst \<le> n \<and> e < length dst \<and> dst ! e = NUL \<and>
    take e dst = take (n - 1) (cstr src)"
  using ngx_cpystrn_loop_take [OF assms(2)] assms(1) by (auto simp: ngx_cpystrn_def nth_append min_def)

theorem cpystrn_correct_witness:
  "\<exists>dst e. ngx_cpystrn (str ''hello'' @ [NUL]) 4 = Some (dst, e) \<and> take e dst = str ''hel'' \<and> dst ! e = NUL"
  using cpystrn_correct [of 4 "str ''hello'' @ [NUL]"] by (auto simp: str_def)

end
