(* ===== verification/Ngx_Uri_Args.thy ===== *)
theory Ngx_Uri_Args
  imports Ngx_Request Ngx_Strings_Correct "HOL-Library.Monad_Syntax"
begin

section \<open>Unsafe URIs, header values and query arguments\<close>

text \<open>
  The last functions of \<open>src/http/ngx_http_parse.c\<close> (1540--1734).  A string argument is the list of the
  bytes that can be read from its start, with its length as a separate number; \<open>None\<close> stands for a
  read behind that memory.
\<close>

subsection \<open>\<open>ngx_http_parse_unsafe_uri\<close>\<close>

text \<open>
  The result: refused, or accepted with the new length of the URI and the arguments (offset and length),
  if there are any.
\<close>

datatype unsafe_uri = Uri_unsafe | Uri_ok nat "(nat \<times> nat) option"

text \<open>\<open>p[0] == '.' && p[1] == '.' && ngx_path_separator(p[2])\<close>, evaluated from left to right.\<close>

fun sees_dot_dot :: "bytes \<Rightarrow> bool option" where
  "sees_dot_dot [] = None"
| "sees_dot_dot [c0] = (if c0 \<noteq> ch_dot then Some False else None)"
| "sees_dot_dot [c0, c1] = (if c0 \<noteq> ch_dot \<or> c1 \<noteq> ch_dot then Some False else None)"
| "sees_dot_dot (c0 # c1 # c2 # p) = Some (c0 = ch_dot \<and> c1 = ch_dot \<and> c2 = ch_slash)"

text \<open>The loop: \<open>p\<close> is the memory from \<open>p\<close> on, \<open>len\<close> the remaining length, \<open>pos\<close> the offset of \<open>p\<close>.\<close>

fun unsafe_uri_loop :: "bytes \<Rightarrow> nat \<Rightarrow> nat \<Rightarrow> unsafe_uri option" where
  "unsafe_uri_loop p 0 pos = Some (Uri_ok pos None)"
| "unsafe_uri_loop [] (Suc len) pos = None"
| "unsafe_uri_loop (ch # p) (Suc len) pos =
    (if bitmap_test usual ch then unsafe_uri_loop p len (pos + 1)
     else if ch = ch_quest then Some (Uri_ok pos (Some (pos + 1, len)))
     else if ch = NUL then Some Uri_unsafe
     else if ch = ch_slash \<and> Suc len > 2 then
       (case sees_dot_dot p of
          None \<Rightarrow> None
        | Some True \<Rightarrow> Some Uri_unsafe
        | Some False \<Rightarrow> unsafe_uri_loop p len (pos + 1))
     else unsafe_uri_loop p len (pos + 1))"

definition ngx_http_parse_unsafe_uri :: "bytes \<Rightarrow> nat \<Rightarrow> unsafe_uri option" where
  "ngx_http_parse_unsafe_uri d len =
    (if len = 0 then Some Uri_unsafe
     else if d = [] then None
     else if d ! 0 = ch_quest then Some Uri_unsafe
     else if d ! 0 = ch_dot \<and> len = 3 then
       (case sees_dot_dot d of
          None \<Rightarrow> None
        | Some True \<Rightarrow> Some Uri_unsafe
        | Some False \<Rightarrow> unsafe_uri_loop d len 0)
     else unsafe_uri_loop d len 0)"

fun has_dot_dot :: "bytes \<Rightarrow> bool" where
  "has_dot_dot [] = False"
| "has_dot_dot (c # cs) = (c = ch_slash \<and> take 3 cs = [ch_dot, ch_dot, ch_slash] \<or> has_dot_dot cs)"

lemma has_dot_dot_append: "has_dot_dot (a @ str ''/../'' @ b)"
  by (induction a) (simp_all add: str_def)

lemma has_dot_dot_iff: "has_dot_dot s \<longleftrightarrow> (\<exists>a b. s = a @ str ''/../'' @ b)"
proof
  show "has_dot_dot s \<Longrightarrow> \<exists>a b. s = a @ str ''/../'' @ b"
  proof (induction s)
    case (Cons c cs)
    show ?case
    proof (cases "has_dot_dot cs")
      case True
      then obtain a b where "cs = a @ str ''/../'' @ b" using Cons.IH by blast
      then show ?thesis by (intro exI [of _ "c # a"] exI [of _ b]) simp
    next
      case False
      then have "c = ch_slash" "take 3 cs = [ch_dot, ch_dot, ch_slash]" using Cons.prems by auto
      then have "c # cs = [] @ str ''/../'' @ drop 3 cs"
        using append_take_drop_id [of 3 cs] by (simp add: str_def)
      then show ?thesis by blast
    qed
  qed simp
qed (auto simp: has_dot_dot_append)

text \<open>
  The part of the memory the function looks at: the bytes before the question mark, or all bytes and
  the one behind them.
\<close>

definition unsafe_uri_seen :: "bytes \<Rightarrow> nat \<Rightarrow> bytes" where
  "unsafe_uri_seen d len =
    (if ch_quest \<in> set (take len d) then takeWhile (\<lambda>c. c \<noteq> ch_quest) (take len d) else take (len + 1) d)"

lemma unsafe_uri_seen_Cons:
  "unsafe_uri_seen (c # d) (Suc n) = (if c = ch_quest then [] else c # unsafe_uri_seen d n)"
  by (simp add: unsafe_uri_seen_def)

lemma sees_dot_dot_seen:
  assumes "2 \<le> n" "n < length d"
  shows "sees_dot_dot d = Some (take 3 (unsafe_uri_seen d n) = [ch_dot, ch_dot, ch_slash])"
proof -
  obtain c0 c1 c2 r where d: "d = c0 # c1 # c2 # r" 
    using assms by (cases d; cases "tl d"; cases "tl (tl d)") auto
  obtain m where n: "n = Suc (Suc m)" using assms(1) by (cases n; cases "n - 1") auto
  have "take 1 (unsafe_uri_seen (c2 # r) m) = (if 0 < m \<and> c2 = ch_quest then [] else [c2])"
    by (cases m) (simp_all add: unsafe_uri_seen_Cons, simp add: unsafe_uri_seen_def)
  then show ?thesis by (auto simp: d n unsafe_uri_seen_Cons numeral_3_eq_3 take_Suc_Cons)
qed

definition unsafe_uri_path :: "bytes \<Rightarrow> nat \<Rightarrow> bytes" where
  "unsafe_uri_path d len = takeWhile (\<lambda>c. c \<noteq> ch_quest) (take len d)"

definition unsafe_uri_split :: "nat \<Rightarrow> bytes \<Rightarrow> nat \<Rightarrow> unsafe_uri" where
  "unsafe_uri_split pos d len =
    (let k = length (unsafe_uri_path d len) in
     if k < len then Uri_ok (pos + k) (Some (pos + k + 1, len - k - 1)) else Uri_ok (pos + len) None)"

lemma unsafe_uri_path_Cons:
  "unsafe_uri_path (c # d) (Suc n) = (if c = ch_quest then [] else c # unsafe_uri_path d n)"
  by (simp add: unsafe_uri_path_def)

lemma unsafe_uri_split_Cons:
  "c \<noteq> ch_quest \<Longrightarrow> unsafe_uri_split pos (c # d) (Suc n) = unsafe_uri_split (Suc pos) d n"
  by (simp add: unsafe_uri_split_def unsafe_uri_path_Cons Let_def)

lemma unsafe_uri_loop_spec:
  assumes "n < length d"
  shows "unsafe_uri_loop d n pos =
    Some (if NUL \<in> set (unsafe_uri_path d n) \<or> has_dot_dot (unsafe_uri_seen d n) then Uri_unsafe
          else unsafe_uri_split pos d n)"
  using assms
proof (induction d n pos rule: unsafe_uri_loop.induct)
  case (1 p pos)
  then obtain c q where "p = c # q" by (cases p) auto
  then show ?case by (simp add: unsafe_uri_seen_def unsafe_uri_path_def unsafe_uri_split_def Let_def)
next
  case (3 ch p len pos)
  then have len: "len < length p" by simp
  show ?case
  proof (cases "ch = ch_slash")
    case False
    then show ?thesis using 3 len
      by (auto simp: usual_iff unsafe_uri_seen_Cons unsafe_uri_path_Cons unsafe_uri_split_Cons)
        (simp_all add: unsafe_uri_split_def unsafe_uri_path_Cons Let_def)
  next
    case True
    have short: "take 3 (unsafe_uri_seen p len) \<noteq> [ch_dot, ch_dot, ch_slash]" if "\<not> 2 \<le> len"
    proof
      assume "take 3 (unsafe_uri_seen p len) = [ch_dot, ch_dot, ch_slash]"
      then have "3 \<le> length (unsafe_uri_seen p len)" by (metis length_Cons length_take list.size(3) min.cobounded1 numeral_3_eq_3)
      moreover have "length (unsafe_uri_seen p len) \<le> len + 1"
        using length_takeWhile_le [of "\<lambda>c. c \<noteq> ch_quest" "take len p"] by (auto simp: unsafe_uri_seen_def)
      ultimately show False using that by simp
    qed
    show ?thesis
      using 3 len True short sees_dot_dot_seen [of len p]
      by (cases "2 \<le> len") (auto simp: usual_iff unsafe_uri_seen_Cons unsafe_uri_path_Cons unsafe_uri_split_Cons split: option.split bool.split)
  qed
qed simp

lemma parse_unsafe_uri_dots:
  assumes "0 < len" "len < length d"
  shows "ngx_http_parse_unsafe_uri d len =
    Some (if d ! 0 = ch_quest \<or> take len d = str ''../'' \<or> NUL \<in> set (unsafe_uri_path d len) \<or>
             has_dot_dot (unsafe_uri_seen d len)
          then Uri_unsafe else unsafe_uri_split 0 d len)"
proof -
  have three: "take len d = str ''../'' \<longleftrightarrow> d ! 0 = ch_dot \<and> len = 3 \<and> sees_dot_dot d = Some True"
  proof
    assume t: "take len d = str ''../''"
    then have "length (take len d) = 3" by (simp add: str_def)
    then have l3: "len = 3" using assms(2) by simp
    with t assms(2) show "d ! 0 = ch_dot \<and> len = 3 \<and> sees_dot_dot d = Some True"
      by (cases d rule: sees_dot_dot.cases) (auto simp: str_def)
  next
    assume "d ! 0 = ch_dot \<and> len = 3 \<and> sees_dot_dot d = Some True"
    then show "take len d = str ''../''"
      by (cases d rule: sees_dot_dot.cases) (auto simp: str_def split: if_splits)
  qed
  have "sees_dot_dot d \<noteq> None" if "len = 3"
    using assms that by (cases d rule: sees_dot_dot.cases) auto
  then show ?thesis
    using assms unsafe_uri_loop_spec [OF assms(2), of 0]
    unfolding ngx_http_parse_unsafe_uri_def three
    by (auto split: option.split bool.split)
qed

text \<open>
  C25. A URI of length \<open>len\<close> at \<open>d\<close>, with at least one more readable byte behind it, is refused exactly if it
  starts with a question mark, is \<open>../\<close>, has a NUL byte before its arguments, or if the bytes before
  its arguments contain \<open>/../\<close>, where a URI without arguments counts with the byte behind its end.  An
  accepted URI is cut at its first question mark: the path keeps its length and the arguments are all
  that follows the question mark.
\<close>

theorem parse_unsafe_uri_correct:
  assumes "0 < len" "len < length d"
  shows "ngx_http_parse_unsafe_uri d len =
    Some (if d ! 0 = ch_quest \<or> take len d = str ''../'' \<or> NUL \<in> set (unsafe_uri_path d len) \<or>
             (\<exists>a b. unsafe_uri_seen d len = a @ str ''/../'' @ b)
          then Uri_unsafe else unsafe_uri_split 0 d len)"
  using parse_unsafe_uri_dots [OF assms] by (simp only: has_dot_dot_iff)

lemmas unsafe_uri_eval = unsafe_uri_path_def unsafe_uri_seen_def unsafe_uri_split_def str_def Let_def

theorem parse_unsafe_uri_correct_witness:
  "ngx_http_parse_unsafe_uri (str ''/a/b?c=d'' @ [NUL]) 8 = Some (Uri_ok 4 (Some (5, 3))) \<and>
   ngx_http_parse_unsafe_uri (str ''/a/../b'' @ [NUL]) 7 = Some Uri_unsafe"
proof -
  have "\<not> (\<exists>a b. unsafe_uri_seen (str ''/a/b?c=d'' @ [NUL]) 8 = a @ str ''/../'' @ b)"
    "\<exists>a b. unsafe_uri_seen (str ''/a/../b'' @ [NUL]) 7 = a @ str ''/../'' @ b"
    unfolding has_dot_dot_iff [symmetric] by (simp_all add: unsafe_uri_eval)
  then show ?thesis
    using parse_unsafe_uri_correct [of 8 "str ''/a/b?c=d'' @ [NUL]"] parse_unsafe_uri_correct [of 7 "str ''/a/../b'' @ [NUL]"]
    by (simp add: unsafe_uri_eval)
qed

text \<open>
  For a URI that ends in \<open>/..\<close> the answer depends on the byte behind its end, and a URI that begins with
  \<open>../\<close> is accepted unless it is exactly that.
\<close>

lemma unsafe_uri_byte_behind:
  "ngx_http_parse_unsafe_uri (str ''/a/..'' @ [ch_slash]) 5 = Some Uri_unsafe"
  "ngx_http_parse_unsafe_uri (str ''/a/..'' @ [NUL]) 5 = Some (Uri_ok 5 None)"
  by (subst parse_unsafe_uri_dots, simp_all add: unsafe_uri_eval)+

lemma unsafe_uri_leading_dot_dot:
  "ngx_http_parse_unsafe_uri (str ''../a'' @ [NUL]) 4 = Some (Uri_ok 4 None)"
  by (subst parse_unsafe_uri_dots) (simp_all add: unsafe_uri_eval)

subsection \<open>\<open>ngx_http_split_args\<close>\<close>

text \<open>The new length of the URI, the length of the arguments and their offset, if it is set.\<close>

definition ngx_http_split_args :: "bytes \<Rightarrow> nat \<Rightarrow> (nat \<times> nat \<times> nat option) option" where
  "ngx_http_split_args d len =
    (case ngx_strlchr d len ch_quest of
       None \<Rightarrow> None
     | Some None \<Rightarrow> Some (len, 0, None)
     | Some (Some p) \<Rightarrow> Some (p, len - (p + 1), Some (p + 1)))"

lemma ngx_strlchr_takeWhile:
  assumes "n \<le> length p"
  shows "ngx_strlchr p n c =
    Some (if c \<in> set (take n p) then Some (length (takeWhile (\<lambda>x. x \<noteq> c) (take n p))) else None)"
  using assms by (induction p n c rule: ngx_strlchr.induct) auto

text \<open>An accepted URI is split in the same way by \<open>ngx_http_parse_unsafe_uri\<close> and \<open>ngx_http_split_args\<close>.\<close>

lemma length_path_less:
  assumes "len \<le> length d"
  shows "length (unsafe_uri_path d len) < len \<longleftrightarrow> ch_quest \<in> set (take len d)"
proof -
  have "length (takeWhile P xs) < length xs \<longleftrightarrow> (\<exists>x \<in> set xs. \<not> P x)" for P and xs :: bytes
    by (induction xs) auto
  from this [of "\<lambda>c. c \<noteq> ch_quest" "take len d"] show ?thesis using assms by (simp add: unsafe_uri_path_def min_absorb2)
qed

lemma split_args_unsafe_uri:
  assumes "0 < len" "len < length d" "ngx_http_parse_unsafe_uri d len = Some (Uri_ok n args)"
  shows "ngx_http_split_args d len =
    Some (n, case args of None \<Rightarrow> 0 | Some (off, l) \<Rightarrow> l, map_option fst args)"
proof -
  have "Uri_ok n args = unsafe_uri_split 0 d len"
    using assms(3) unsafe_uri_loop_spec [OF assms(2), of 0]
    by (auto simp: ngx_http_parse_unsafe_uri_def split: if_splits option.splits bool.splits)
  then show ?thesis using assms(2) length_path_less [of len d]
    by (auto simp: ngx_http_split_args_def ngx_strlchr_takeWhile unsafe_uri_split_def unsafe_uri_path_def Let_def
        split: if_splits)
qed

subsection \<open>\<open>ngx_http_arg\<close>\<close>

text \<open>
  \<open>d\<close> is the memory at \<open>r->args.data\<close>, \<open>alen\<close> is \<open>r->args.len\<close>; the result is the offset and the length
  (a \<open>size_t\<close>) of the value, or \<open>Some None\<close> for \<open>NGX_DECLINED\<close>.  The length handed to \<open>ngx_strlcasestrn\<close>
  is \<open>len - 1\<close>, which wraps around for an empty name; the end of the search range is then \<open>last\<close>.
\<close>

definition http_arg_search :: "bytes \<Rightarrow> nat \<Rightarrow> bytes \<Rightarrow> nat \<Rightarrow> nat \<Rightarrow> nat option option" where
  "http_arg_search d alen name len pos =
    (if len = 0 then ngx_strlcasestrn (drop pos d) (alen - pos + (2 ^ 64 - 1)) name (2 ^ 64 - 1)
     else ngx_strlcasestrn (drop pos d) (alen - 1 - pos) name (len - 1))"

definition http_arg_value :: "bytes \<Rightarrow> nat \<Rightarrow> nat \<Rightarrow> nat \<Rightarrow> (nat \<times> u64) option" where
  "http_arg_value d alen len p =
    (let v = p + len + 1 in
     case ngx_strlchr (drop p d) (alen - p) ch_amp of
       None \<Rightarrow> None
     | Some None \<Rightarrow> Some (v, word_of_nat alen - word_of_nat v)
     | Some (Some k) \<Rightarrow> Some (v, word_of_nat (p + k) - word_of_nat v))"

function http_arg_loop :: "bytes \<Rightarrow> nat \<Rightarrow> bytes \<Rightarrow> nat \<Rightarrow> nat \<Rightarrow> (nat \<times> u64) option option" where
  "http_arg_loop d alen name len pos =
    (if pos < alen then
       (case http_arg_search d alen name len pos of
          None \<Rightarrow> None
        | Some None \<Rightarrow> Some None
        | Some (Some k) \<Rightarrow>
            (let p = pos + k in
             if p = 0 \<or> d ! (p - 1) = ch_amp then
               (if p + len < length d then
                  (if d ! (p + len) = ch_eq then map_option Some (http_arg_value d alen len p)
                   else http_arg_loop d alen name len (p + 1))
                else None)
             else http_arg_loop d alen name len (p + 1)))
     else Some None)"
  by auto
termination by (relation "measure (\<lambda>(d, alen, name, len, pos). alen - pos)") auto

definition ngx_http_arg :: "bytes \<Rightarrow> nat \<Rightarrow> bytes \<Rightarrow> nat \<Rightarrow> (nat \<times> u64) option option" where
  "ngx_http_arg d alen name len = (if alen = 0 then Some None else http_arg_loop d alen name len 0)"

text \<open>An argument of the given name starts at \<open>p\<close>.\<close>

definition arg_at :: "bytes \<Rightarrow> bytes \<Rightarrow> nat \<Rightarrow> bool" where
  "arg_at args name p \<longleftrightarrow>
    (p = 0 \<or> args ! (p - 1) = ch_amp) \<and> p + length name < length args \<and>
    map ngx_tolower (bslice p (p + length name) args) = map ngx_tolower name \<and> args ! (p + length name) = ch_eq"

declare http_arg_loop.simps [simp del]

lemma http_arg_search_find:
  assumes "name \<noteq> []" "NUL \<notin> set name" "pos < length args"
  shows "http_arg_search (args @ rest) (length args) name (length name) pos =
    Some (find_sub (map ngx_tolower name) (map ngx_tolower (drop pos (butlast args))))"
proof -
  obtain c n where name: "name = c # n" using assms(1) by (cases name) auto
  let ?left = "length args - 1 - pos - length n"
  show ?thesis
  proof (cases "length n \<le> length args - 1 - pos")
    case True
    then have "take (?left + length n) (drop pos (args @ rest)) = drop pos (butlast args)"
      using assms(3) by (auto simp: butlast_conv_take drop_take)
    then show ?thesis
      using ngx_strlcasestrn_loop_find [of ?left "length n" "drop pos (args @ rest)" n n "ngx_tolower c"] assms True
      by (auto simp: http_arg_search_def ngx_strlcasestrn_def name)
  next
    case False
    then have "length (map ngx_tolower (drop pos (butlast args))) < length (map ngx_tolower name)"
      using name by simp
    from find_sub_short [OF this] False show ?thesis
      by (simp add: http_arg_search_def ngx_strlcasestrn_def name)
  qed
qed

text \<open>Where the search stops, the name is found in front of the last byte; before that no argument starts.\<close>

lemma arg_at_find:
  assumes "arg_at args name (pos + j)"
  shows "take (length name) (drop j (map ngx_tolower (drop pos (butlast args)))) = map ngx_tolower name"
  using assms by (simp add: arg_at_def bslice_def take_map drop_map add.commute butlast_conv_take drop_take flip: drop_drop)
    (auto simp: min_def drop_drop)

lemma arg_at_search:
  assumes "find_sub (map ngx_tolower name) (map ngx_tolower (drop pos (butlast args))) = Some k" "name \<noteq> []"
  shows "pos + k + length name < length args"
    "map ngx_tolower (bslice (pos + k) (pos + k + length name) args) = map ngx_tolower name"
    "j < k \<Longrightarrow> \<not> arg_at args name (pos + j)"
proof -
  note f = assms(1) [unfolded find_sub_Some, THEN conjunct1]
  then have "length (take (length name) (drop k (map ngx_tolower (drop pos (butlast args))))) = length name" by simp
  then show l: "pos + k + length name < length args" using assms(2) by (cases name) (auto simp: min_def split: if_splits)
  from f l show "map ngx_tolower (bslice (pos + k) (pos + k + length name) args) = map ngx_tolower name"
    by (simp add: bslice_def take_map drop_map butlast_conv_take drop_take add.commute)
  show "j < k \<Longrightarrow> \<not> arg_at args name (pos + j)"
    using assms(1) arg_at_find [of args name pos j] by (auto simp: find_sub_Some)
qed

lemma find_append: "find P (xs @ ys) = (case find P xs of None \<Rightarrow> find P ys | Some x \<Rightarrow> Some x)"
  by (induction xs) auto

lemma find_upt_skip:
  assumes "\<And>j. j < k \<Longrightarrow> \<not> P (pos + j)"
  shows "find P [pos..<pos + k + n] = find P [pos + k..<pos + k + n]"
proof -
  have "find P [pos..<pos + k] = None" using assms by (auto simp: find_None_iff) (metis add_diff_inverse_nat less_diff_conv2 not_le add.commute le_add_diff_inverse)
  then show ?thesis by (simp only: upt_add_eq_append [of pos "pos + k" n, OF le_add1] find_append option.case)
qed

lemma http_arg_loop_spec:
  assumes "name \<noteq> []" "NUL \<notin> set name"
  shows "http_arg_loop (args @ rest) (length args) name (length name) pos =
    (case find (arg_at args name) [pos..<length args] of
       None \<Rightarrow> Some None
     | Some p \<Rightarrow> map_option Some (http_arg_value (args @ rest) (length args) (length name) p))"
proof (induction "length args - pos" arbitrary: pos rule: less_induct)
  case less
  let ?l = "http_arg_loop (args @ rest) (length args) name (length name)"
  show ?case
  proof (cases "pos < length args")
    case False
    then show ?thesis by (simp add: http_arg_loop.simps [of _ _ _ _ pos])
  next
    case pos: True
    note sr = http_arg_search_find [OF assms pos, of rest]
    show ?thesis
    proof (cases "find_sub (map ngx_tolower name) (map ngx_tolower (drop pos (butlast args)))")
      case None
      have "\<not> arg_at args name x" if "pos \<le> x" for x
      proof
        assume a: "arg_at args name x"
        then have "x - pos \<le> length (map ngx_tolower (drop pos (butlast args)))" by (auto simp: arg_at_def)
        with a that show False
          using None [unfolded find_sub_None, rule_format, of "x - pos"] arg_at_find [of args name pos "x - pos"] by simp
      qed
      then have "find (arg_at args name) [pos..<length args] = None" by (simp add: find_None_iff)
      with sr None pos show ?thesis by (simp add: http_arg_loop.simps [of _ _ _ _ pos])
    next
      case (Some k)
      note k = arg_at_search [OF Some assms(1)]
      let ?p = "pos + k"
      have "find (arg_at args name) [pos..<length args] = find (arg_at args name) [?p..<length args]"
        using find_upt_skip [of k "arg_at args name" pos "length args - ?p"] k by simp
      also have "\<dots> = (if arg_at args name ?p then Some ?p else find (arg_at args name) [Suc ?p..<length args])"
        using k(1) by (simp add: upt_conv_Cons)
      finally have fd: "find (arg_at args name) [pos..<length args] =
        (if arg_at args name ?p then Some ?p else find (arg_at args name) [Suc ?p..<length args])" .
      have at: "arg_at args name ?p \<longleftrightarrow> (?p = 0 \<or> args ! (?p - 1) = ch_amp) \<and> args ! (?p + length name) = ch_eq"
        using k by (auto simp: arg_at_def)
      have "(args @ rest) ! (?p - 1) = args ! (?p - 1)" "(args @ rest) ! (?p + length name) = args ! (?p + length name)"
        using k(1) by (auto simp: nth_append)
      then have "?l pos = (if arg_at args name ?p then map_option Some (http_arg_value (args @ rest) (length args) (length name) ?p)
          else ?l (Suc ?p))"
        using k(1) sr Some pos unfolding at by (subst http_arg_loop.simps) (simp add: Let_def)
      then show ?thesis using less [of "Suc ?p"] pos fd by simp
    qed
  qed
qed

lemma tolower_amp: "ngx_tolower c = ch_amp \<longleftrightarrow> c = ch_amp"
  using byte_allI [where P = "\<lambda>c. ngx_tolower c = ch_amp \<longleftrightarrow> c = ch_amp" and b = c]
  by (simp add: byte_codes_def ngx_tolower_def)

lemma http_arg_value_spec:
  assumes at: "arg_at args name p" and name: "ch_amp \<notin> set name"
  shows "http_arg_value (args @ rest) (length args) (length name) p =
    Some (p + length name + 1, word_of_nat (length (takeWhile (\<lambda>c. c \<noteq> ch_amp) (drop (p + length name + 1) args))))"
proof -
  define v where "v = p + length name + 1"
  let ?n = "bslice p (p + length name) args"
  have v: "v \<le> length args" "p < v" using at by (auto simp: arg_at_def v_def)
  have "drop p args = take (length name) (drop p args) @ drop (p + length name) args"
    using append_take_drop_id [of "length name" "drop p args", symmetric] by (simp add: add.commute)
  also have "drop (p + length name) args = ch_eq # drop v args"
    using at Cons_nth_drop_Suc [of "p + length name" args] by (simp add: arg_at_def v_def)
  finally have split: "drop p args = ?n @ ch_eq # drop v args" by (simp add: bslice_def)
  have "set (map ngx_tolower ?n) = set (map ngx_tolower name)" using at by (simp only: arg_at_def)
  moreover have "ch_amp \<notin> set (map ngx_tolower name)" using name tolower_amp by auto
  ultimately have clean: "ch_amp \<notin> set ?n" using image_eqI [of ch_amp ngx_tolower ch_amp "set ?n"] tolower_amp by auto
  have ln: "length ?n = length name" using v by (simp add: bslice_def v_def)
  have "takeWhile (\<lambda>c. c \<noteq> ch_amp) (drop p args) = ?n @ ch_eq # takeWhile (\<lambda>c. c \<noteq> ch_amp) (drop v args)"
    unfolding split using clean by (subst takeWhile_append2) auto
  then have k: "length (takeWhile (\<lambda>c. c \<noteq> ch_amp) (drop p args)) =
      length name + 1 + length (takeWhile (\<lambda>c. c \<noteq> ch_amp) (drop v args))" using ln by simp
  have mem: "ch_amp \<in> set (drop p args) \<longleftrightarrow> ch_amp \<in> set (drop v args)" unfolding split using clean by auto
  have "ngx_strlchr (drop p (args @ rest)) (length args - p) ch_amp =
      Some (if ch_amp \<in> set (drop v args) then Some (v - p + length (takeWhile (\<lambda>c. c \<noteq> ch_amp) (drop v args))) else None)"
    using v k by (subst ngx_strlchr_takeWhile) (simp_all add: mem v_def)
  moreover have "length (takeWhile (\<lambda>c. c \<noteq> ch_amp) (drop v args)) = length args - v" if "ch_amp \<notin> set (drop v args)"
    using that by (subst takeWhile_eq_all_conv [THEN iffD2]) auto
  ultimately show ?thesis using v unfolding http_arg_value_def v_def [symmetric] Let_def
    by (auto simp: of_nat_diff)
qed

text \<open>
  C26. For a non-empty name without NUL and ampersand, \<open>ngx_http_arg\<close> returns the value of the first
  argument of that name, compared case-insensitively: the bytes between its equals sign and the next
  ampersand or the end.  Without such an argument it declines.  No byte behind the arguments is read.
\<close>

theorem http_arg_correct:
  assumes "name \<noteq> []" "NUL \<notin> set name" "ch_amp \<notin> set name"
  shows "ngx_http_arg (args @ rest) (length args) name (length name) =
    Some (map_option
      (\<lambda>p. let v = p + length name + 1 in (v, word_of_nat (length (takeWhile (\<lambda>c. c \<noteq> ch_amp) (drop v args)))))
      (find (arg_at args name) [0..<length args]))"
proof -
  have "http_arg_value (args @ rest) (length args) (length name) p =
      (let v = p + length name + 1 in Some (v, word_of_nat (length (takeWhile (\<lambda>c. c \<noteq> ch_amp) (drop v args)))))"
    if "find (arg_at args name) [0..<length args] = Some p" for p
    using http_arg_value_spec [of args name p rest] assms(3) that by (auto simp: find_Some_iff Let_def)
  then show ?thesis using http_arg_loop_spec [OF assms(1,2), of args rest 0]
    by (auto simp: ngx_http_arg_def Let_def split: option.split)
qed

theorem http_arg_correct_witness:
  "ngx_http_arg (str ''ab=1&B=23&c'') 11 (str ''b'') 1 = Some (Some (7, 2))"
proof -
  have l: "length (str ''ab=1&B=23&c'') = 11" "length (str ''b'') = 1" by (simp_all add: str_def)
  have q: "[0..<11] = [0, 1, 2, 3, 4, 5, 6, 7, 8, 9, 10 :: nat]" by (simp add: upt_conv_Cons)
  have "find (arg_at (str ''ab=1&B=23&c'') (str ''b'')) [0..<11] = Some 5"
    unfolding q by (simp add: arg_at_def bslice_def str_def ngx_tolower_def)
  moreover have "NUL \<notin> set (str ''b'')" "ch_amp \<notin> set (str ''b'')" "str ''b'' \<noteq> []"
    "takeWhile (\<lambda>c. c \<noteq> ch_amp) (drop 7 (str ''ab=1&B=23&c'')) = str ''23''" "length (str ''23'') = 2"
    by (simp_all add: str_def)
  ultimately show ?thesis using http_arg_correct [of "str ''b''" "str ''ab=1&B=23&c''" "[]"] l by simp
qed

subsection \<open>\<open>ngx_http_parse_multi_header_lines\<close>\<close>

text \<open>
  A header value is the memory at \<open>value.data\<close> with \<open>value.len\<close>; \<open>pos\<close> is \<open>start\<close> and \<open>e\<close> is \<open>end\<close>, as offsets.
\<close>

text \<open>\<open>while (start < end && *start == ' ') start++\<close>; the fuel is \<open>end - start\<close>.\<close>

fun mh_spaces :: "bytes \<Rightarrow> nat \<Rightarrow> nat \<Rightarrow> nat option" where
  "mh_spaces d pos 0 = Some pos"
| "mh_spaces d pos (Suc n) =
    do { c \<leftarrow> peek d pos; if c = ch_space then mh_spaces d (pos + 1) n else Some pos }"

text \<open>The label \<open>skip\<close>: run behind the next separator.\<close>

fun mh_separator :: "bytes \<Rightarrow> nat \<Rightarrow> nat \<Rightarrow> nat option" where
  "mh_separator d pos 0 = Some pos"
| "mh_separator d pos (Suc n) =
    do { c \<leftarrow> peek d pos; if c = ch_semi \<or> c = ch_comma then Some (pos + 1) else mh_separator d (pos + 1) n }"

definition mh_skip :: "bytes \<Rightarrow> nat \<Rightarrow> nat \<Rightarrow> nat option" where
  "mh_skip d pos e = do { p \<leftarrow> mh_separator d pos (e - pos); mh_spaces d p (e - p) }"

text \<open>\<open>for (last = start; last < end && *last != ';'; last++)\<close>: the number of bytes passed.\<close>

fun mh_value_len :: "bytes \<Rightarrow> nat \<Rightarrow> nat \<Rightarrow> nat option" where
  "mh_value_len d pos 0 = Some 0"
| "mh_value_len d pos (Suc n) =
    do { c \<leftarrow> peek d pos; if c = ch_semi then Some 0 else map_option Suc (mh_value_len d (pos + 1) n) }"

text \<open>
  One pass of the inner loop: found with the offset and length of the value (\<open>None\<close> when the caller
  passed \<open>value == NULL\<close>), or to be continued at a later position.
\<close>

datatype mh_step = Mh_found "(nat \<times> nat) option" | Mh_next nat

definition mh_next :: "bytes \<Rightarrow> nat \<Rightarrow> nat \<Rightarrow> mh_step option" where
  "mh_next d e pos = map_option Mh_next (mh_skip d pos e)"

definition mh_pass :: "bytes \<Rightarrow> nat \<Rightarrow> bytes \<Rightarrow> nat \<Rightarrow> bool \<Rightarrow> nat \<Rightarrow> mh_step option" where
  "mh_pass d e name len want pos = do {
     m \<leftarrow> ngx_strncasecmp (drop pos d) name len;
     if m \<noteq> 0 then mh_next d e pos
     else do {
       p \<leftarrow> mh_spaces d (pos + len) (e - (pos + len));
       if \<not> want then
         if p = e then Some (Mh_found None)
         else do { c \<leftarrow> peek d p; if c = ch_comma then Some (Mh_found None) else mh_next d e p }
       else if p = e then mh_next d e p
       else do {
         c \<leftarrow> peek d p;
         if c \<noteq> ch_eq then mh_next d e (p + 1)
         else do {
           v \<leftarrow> mh_spaces d (p + 1) (e - (p + 1));
           n \<leftarrow> mh_value_len d v (e - v);
           Some (Mh_found (Some (v, n))) } } } }"

text \<open>
  The inner loop.  Each pass moves \<open>start\<close> forward, so \<open>end - start\<close> passes are enough; the recursion stops
  where the loop condition fails.
\<close>

fun mh_loop :: "nat \<Rightarrow> bytes \<Rightarrow> nat \<Rightarrow> bytes \<Rightarrow> nat \<Rightarrow> bool \<Rightarrow> nat \<Rightarrow> (nat \<times> nat) option option option" where
  "mh_loop fuel d e name len want pos =
    (if pos < e then
       (case fuel of
          0 \<Rightarrow> None
        | Suc fuel' \<Rightarrow>
            do {
              r \<leftarrow> mh_pass d e name len want pos;
              case r of
                Mh_found v \<Rightarrow> Some (Some v)
              | Mh_next p \<Rightarrow> mh_loop fuel' d e name len want p })
     else Some None)"

text \<open>The outer loop over the headers, \<open>i\<close> counting them; \<open>Some None\<close> is \<open>NGX_DECLINED\<close>.\<close>

fun mh_headers :: "(bytes \<times> nat) list \<Rightarrow> nat \<Rightarrow> bytes \<Rightarrow> nat \<Rightarrow> bool \<Rightarrow> (nat \<times> (nat \<times> nat) option) option option" where
  "mh_headers [] i name len want = Some None"
| "mh_headers ((d, n) # hs) i name len want =
    (if len > n then mh_headers hs (i + 1) name len want
     else do {
       r \<leftarrow> mh_loop n d n name len want 0;
       case r of
         Some v \<Rightarrow> Some (Some (i, v))
       | None \<Rightarrow> mh_headers hs (i + 1) name len want })"

definition ngx_http_parse_multi_header_lines ::
    "(bytes \<times> nat) list \<Rightarrow> bytes \<Rightarrow> nat \<Rightarrow> bool \<Rightarrow> (nat \<times> (nat \<times> nat) option) option option" where
  "ngx_http_parse_multi_header_lines headers name len want = mh_headers headers 0 name len want"

text \<open>A parameter starts at \<open>p\<close>: at the beginning, or behind a separator and spaces.\<close>

definition token_start :: "bytes \<Rightarrow> nat \<Rightarrow> bool" where
  "token_start vl p \<longleftrightarrow>
    p = 0 \<or> (\<exists>q < p. vl ! q \<in> {ch_semi, ch_comma} \<and> (\<forall>k < p. q < k \<longrightarrow> vl ! k = ch_space))"

abbreviation spaces_at :: "bytes \<Rightarrow> nat \<Rightarrow> nat" where
  "spaces_at vl p \<equiv> p + length (takeWhile (\<lambda>c. c = ch_space) (drop p vl))"

text \<open>
  The parameter of the given name at \<open>pos\<close> and what is returned for it: the name, then spaces, then the
  equals sign, spaces, and the value up to the next semicolon; or, where no value is asked for, the name
  and spaces up to a comma or the end.
\<close>

definition mh_meets :: "bytes \<Rightarrow> bytes \<Rightarrow> bool \<Rightarrow> nat \<Rightarrow> (nat \<times> nat) option \<Rightarrow> bool" where
  "mh_meets vl name want pos r \<longleftrightarrow>
    pos + length name \<le> length vl \<and>
    map ngx_tolower (bslice pos (pos + length name) vl) = map ngx_tolower name \<and>
    (let p = spaces_at vl (pos + length name) in
     if want then
       p < length vl \<and> vl ! p = ch_eq \<and>
       (let v = spaces_at vl (p + 1) in r = Some (v, length (takeWhile (\<lambda>c. c \<noteq> ch_semi) (drop v vl))))
     else r = None \<and> (p = length vl \<or> vl ! p = ch_comma))"

lemma mh_spaces_take:
  "pos + n \<le> length d \<Longrightarrow> mh_spaces d pos n = Some (pos + length (takeWhile (\<lambda>c. c = ch_space) (take n (drop pos d))))"
proof (induction d pos n rule: mh_spaces.induct)
  case (2 d pos n)
  then show ?case by (simp add: peek_def Cons_nth_drop_Suc [symmetric])
qed simp

lemma mh_value_len_take:
  "pos + n \<le> length d \<Longrightarrow> mh_value_len d pos n = Some (length (takeWhile (\<lambda>c. c \<noteq> ch_semi) (take n (drop pos d))))"
proof (induction d pos n rule: mh_value_len.induct)
  case (2 d pos n)
  then show ?case by (simp add: peek_def Cons_nth_drop_Suc [symmetric])
qed simp

lemma mh_separator_behind:
  "pos + n \<le> length d \<Longrightarrow> \<exists>p. mh_separator d pos n = Some p \<and> p \<le> pos + n \<and> (0 < n \<longrightarrow> pos < p) \<and>
    (p = pos + n \<or> pos < p \<and> d ! (p - 1) \<in> {ch_semi, ch_comma})"
proof (induction d pos n rule: mh_separator.induct)
  case (2 d pos n)
  show ?case
  proof (cases "d ! pos = ch_semi \<or> d ! pos = ch_comma")
    case True
    then show ?thesis using 2 by (auto simp: peek_def)
  next
    case False
    then obtain p where "mh_separator d (pos + 1) n = Some p" "p \<le> pos + 1 + n" "0 < n \<longrightarrow> pos + 1 < p"
      "p = pos + 1 + n \<or> pos + 1 < p \<and> d ! (p - 1) \<in> {ch_semi, ch_comma}"
      using 2 by (auto simp: peek_def)
    then show ?thesis using 2(2) False by (auto simp: peek_def)
  qed
qed simp

lemma take_value: "pos \<le> length vl \<Longrightarrow> take (length vl - pos) (drop pos (vl @ rest)) = drop pos vl"
  by simp

lemma mh_spaces_value:
  "pos \<le> length vl \<Longrightarrow> mh_spaces (vl @ rest) pos (length vl - pos) = Some (spaces_at vl pos)"
  by (simp add: mh_spaces_take)

lemma spaces_at_le: "pos \<le> length vl \<Longrightarrow> spaces_at vl pos \<le> length vl"
  using length_takeWhile_le [of "\<lambda>c. c = ch_space" "drop pos vl"] by simp

lemma spaces_at_between:
  assumes "pos \<le> k" "k < spaces_at vl pos"
  shows "vl ! k = ch_space"
proof -
  have k: "k - pos < length (takeWhile (\<lambda>c. c = ch_space) (drop pos vl))" using assms by simp
  then have "k - pos < length (drop pos vl)" using length_takeWhile_le less_le_trans by blast
  then show ?thesis using nth_mem [OF k] set_takeWhileD [of _ "\<lambda>c. c = ch_space" "drop pos vl"] takeWhile_nth [OF k] assms
    by (metis le_add_diff_inverse less_imp_le_nat length_drop nth_drop zero_less_diff less_nat_zero_code linorder_not_le drop_all list.size(3))
qed

lemma mh_skip_value:
  assumes "pos \<le> length vl"
  shows "\<exists>p. mh_skip (vl @ rest) pos (length vl) = Some p \<and> pos \<le> p \<and> p \<le> length vl \<and> (pos < length vl \<longrightarrow> pos < p) \<and>
    (p = length vl \<or> token_start vl p)"
proof -
  obtain q where q: "mh_separator (vl @ rest) pos (length vl - pos) = Some q" "q \<le> length vl" "pos < length vl \<longrightarrow> pos < q"
    "q = length vl \<or> pos < q \<and> (vl @ rest) ! (q - 1) \<in> {ch_semi, ch_comma}"
    using mh_separator_behind [of pos "length vl - pos" "vl @ rest"] assms by auto
  let ?p = "spaces_at vl q"
  have "?p = length vl \<or> token_start vl ?p"
  proof (cases "q = length vl")
    case False
    then have "q - 1 < ?p" "vl ! (q - 1) \<in> {ch_semi, ch_comma}" using q by (auto simp: nth_append split: if_splits)
    moreover have "vl ! k = ch_space" if "k < ?p" "q - 1 < k" for k using spaces_at_between [of q k vl] that by simp
    ultimately show ?thesis unfolding token_start_def by blast
  qed simp
  then show ?thesis using assms q spaces_at_le [OF q(2)] mh_spaces_value [OF q(2), of rest] by (auto simp: mh_skip_def)
qed

lemma mh_match:
  assumes "NUL \<notin> set name" "pos \<le> length vl"
  shows "\<exists>m. ngx_strncasecmp (drop pos (vl @ NUL # rest)) name (length name) = Some m \<and>
    (m = 0 \<longleftrightarrow> pos + length name \<le> length vl \<and>
      map ngx_tolower (bslice pos (pos + length name) vl) = map ngx_tolower name)"
proof -
  let ?s = "drop pos (vl @ NUL # rest)"
  obtain m where m: "ngx_strncasecmp ?s name (length name) = Some m"
    "m = 0 \<longleftrightarrow> map ngx_tolower (take (length name) (cstr ?s)) = map ngx_tolower name"
    using ngx_strncasecmp_0 [of ?s "length name" name] assms by auto
  have "cstr ?s = cstr (drop pos vl)" using assms(2) by (simp add: cstr_def takeWhile_tail)
  with m(2) have "m = 0 \<longleftrightarrow> map ngx_tolower (take (length name) (drop pos vl)) = map ngx_tolower name"
    by (simp only: map_tolower_cstr [OF assms(1) refl])
  moreover have "pos + length name \<le> length vl" if "map ngx_tolower (take (length name) (drop pos vl)) = map ngx_tolower name"
    using arg_cong [OF that, of length] assms(2) by simp
  ultimately show ?thesis using m(1) by (auto simp: bslice_def)
qed

text \<open>
  One pass either returns the parameter at \<open>pos\<close>, if there is one, or moves on to the start of another
  parameter or to the end.
\<close>

lemma mh_next_value:
  assumes "pos < length vl" "pos \<le> p" "p \<le> length vl"
  shows "\<exists>q. mh_next (vl @ rest) (length vl) p = Some (Mh_next q) \<and> pos < q \<and> q \<le> length vl \<and>
    (q = length vl \<or> token_start vl q)"
  using mh_skip_value [OF assms(3), of rest] assms(1,2) by (auto simp: mh_next_def)

lemma mh_pass_value:
  assumes "NUL \<notin> set name" "pos < length vl"
  shows "(\<exists>r. mh_pass (vl @ NUL # rest) (length vl) name (length name) want pos = Some (Mh_found r) \<and>
      mh_meets vl name want pos r) \<or>
    (\<exists>q. mh_pass (vl @ NUL # rest) (length vl) name (length name) want pos = Some (Mh_next q) \<and> pos < q \<and>
      q \<le> length vl \<and> (q = length vl \<or> token_start vl q) \<and> (\<nexists>r. mh_meets vl name want pos r))"
proof -
  let ?d = "vl @ NUL # rest" and ?k = "pos + length name"
  let ?p = "spaces_at vl ?k"
  note nx = mh_next_value [OF assms(2), where rest = "NUL # rest"]
  obtain m where m: "ngx_strncasecmp (drop pos ?d) name (length name) = Some m"
    "m = 0 \<longleftrightarrow> ?k \<le> length vl \<and> map ngx_tolower (bslice pos ?k vl) = map ngx_tolower name"
    using mh_match [OF assms(1), of pos vl rest] assms(2) by auto
  show ?thesis
  proof (cases "m = 0")
    case False
    then show ?thesis using m nx [of pos] assms(2) by (auto simp: mh_pass_def mh_meets_def)
  next
    case True
    then have k: "?k \<le> length vl" using m by simp
    note p = spaces_at_le [OF k] mh_spaces_value [OF k, of "NUL # rest"]
    consider "?p = length vl" | "?p < length vl" using p(1) by linarith
    then show ?thesis
    proof cases
      case 1
      then show ?thesis using m p True nx [of ?p] by (auto simp: mh_pass_def mh_meets_def Let_def)
    next
      case 2
      note v = spaces_at_le [of "?p + 1" vl] mh_spaces_value [of "?p + 1" vl "NUL # rest"]
        mh_value_len_take [of "spaces_at vl (?p + 1)" "length vl - spaces_at vl (?p + 1)" ?d]
      have pk: "peek ?d ?p = Some (vl ! ?p)" using 2 by (simp add: peek_def nth_append)
      show ?thesis
        using 2 m p True v pk nx [of ?p] nx [of "?p + 1"] by (auto simp: mh_pass_def mh_meets_def Let_def)
    qed
  qed
qed

declare mh_loop.simps [simp del]

lemma mh_loop_value:
  assumes "NUL \<notin> set name" "length vl - pos \<le> fuel" "pos = length vl \<or> token_start vl pos"
  shows "\<exists>r. mh_loop fuel (vl @ NUL # rest) (length vl) name (length name) want pos = Some r \<and>
    (case r of
       Some v \<Rightarrow> \<exists>p < length vl. token_start vl p \<and> mh_meets vl name want p v
     | None \<Rightarrow> pos < length vl \<longrightarrow> (\<nexists>v. mh_meets vl name want pos v))"
  using assms(2,3)
proof (induction fuel arbitrary: pos)
  case 0
  then show ?case by (simp add: mh_loop.simps)
next
  case (Suc fuel)
  show ?case
  proof (cases "pos < length vl")
    case True
    then consider (found) r where "mh_pass (vl @ NUL # rest) (length vl) name (length name) want pos = Some (Mh_found r)"
        "mh_meets vl name want pos r"
      | (another) q where "mh_pass (vl @ NUL # rest) (length vl) name (length name) want pos = Some (Mh_next q)"
        "pos < q" "q \<le> length vl" "\<nexists>r. mh_meets vl name want pos r" "q = length vl \<or> token_start vl q"
      using mh_pass_value [OF assms(1) True, of rest want] by blast
    then show ?thesis
    proof cases
      case found
      then show ?thesis using True Suc.prems by (auto simp: mh_loop.simps [of "Suc fuel"])
    next
      case (another q)
      from another(2) Suc.prems have "length vl - q \<le> fuel" by linarith
      from Suc.IH [OF this another(5)] obtain r where
        r: "mh_loop fuel (vl @ NUL # rest) (length vl) name (length name) want q = Some r"
        "case r of
           Some v \<Rightarrow> \<exists>p < length vl. token_start vl p \<and> mh_meets vl name want p v
         | None \<Rightarrow> q < length vl \<longrightarrow> (\<nexists>v. mh_meets vl name want q v)" by blast
      have "mh_loop (Suc fuel) (vl @ NUL # rest) (length vl) name (length name) want pos = Some r"
        using another True r(1) by (simp add: mh_loop.simps [of "Suc fuel"])
      then show ?thesis using r(2) another(4) by (intro exI [of _ r]) (auto split: option.splits)
    qed
  qed (simp add: mh_loop.simps)
qed

abbreviation header_in_memory :: "bytes \<times> bytes \<Rightarrow> bytes \<times> nat" where
  "header_in_memory h \<equiv> (fst h @ NUL # snd h, length (fst h))"

lemma mh_headers_value:
  assumes "NUL \<notin> set name" "name \<noteq> []"
  shows "\<exists>r. mh_headers (map header_in_memory hs) i name (length name) want = Some r \<and>
    (case r of
       Some (j, v) \<Rightarrow> \<exists>vl p. i \<le> j \<and> j < i + length hs \<and> vl = fst (hs ! (j - i)) \<and> p < length vl \<and> token_start vl p \<and>
         mh_meets vl name want p v
     | None \<Rightarrow> \<forall>h \<in> set hs. \<nexists>v. mh_meets (fst h) name want 0 v)"
proof (induction hs arbitrary: i)
  case (Cons h hs)
  obtain r where r: "mh_headers (map header_in_memory hs) (i + 1) name (length name) want = Some r"
    "case r of
       Some (j, v) \<Rightarrow> \<exists>vl p. i + 1 \<le> j \<and> j < i + 1 + length hs \<and> vl = fst (hs ! (j - (i + 1))) \<and> p < length vl \<and> token_start vl p \<and>
         mh_meets vl name want p v
     | None \<Rightarrow> \<forall>h \<in> set hs. \<nexists>v. mh_meets (fst h) name want 0 v"
    using Cons.IH [of "i + 1"] by blast
  have later: "case r of
       Some (j, v) \<Rightarrow> \<exists>vl p. i \<le> j \<and> j < i + length (h # hs) \<and> vl = fst ((h # hs) ! (j - i)) \<and> p < length vl \<and> token_start vl p \<and>
         mh_meets vl name want p v
     | None \<Rightarrow> (\<nexists>v. mh_meets (fst h) name want 0 v) \<longrightarrow> (\<forall>h \<in> set (h # hs). \<nexists>v. mh_meets (fst h) name want 0 v)"
    using r(2) by (auto split: option.splits prod.splits)
  show ?case
  proof (cases "length name > length (fst h)")
    case True
    then have "\<nexists>v. mh_meets (fst h) name want 0 v" by (simp add: mh_meets_def)
    then show ?thesis using True r(1) later by (auto split: option.splits)
  next
    case False
    have "token_start (fst h) 0" by (simp add: token_start_def)
    then obtain l where l: "mh_loop (length (fst h)) (fst h @ NUL # snd h) (length (fst h)) name (length name) want 0 = Some l"
      "case l of
         Some v \<Rightarrow> \<exists>p < length (fst h). token_start (fst h) p \<and> mh_meets (fst h) name want p v
       | None \<Rightarrow> 0 < length (fst h) \<longrightarrow> (\<nexists>v. mh_meets (fst h) name want 0 v)"
      using mh_loop_value [OF assms(1), of "fst h" 0 "length (fst h)" "snd h" want] by auto
    then show ?thesis using False r(1) later assms(2) by (cases l) (auto split: option.splits)
  qed
qed simp

text \<open>
  C27. For header values in NUL-terminated memory and a non-empty name without NUL,
  \<open>ngx_http_parse_multi_header_lines\<close> always ends and reads nothing behind the terminator.  If it returns
  the header \<open>i\<close>, a parameter of that name starts there at the beginning or behind a separator, and the
  value returned is the one that follows it; if it declines, no header begins with such a parameter.
\<close>

theorem parse_multi_header_lines_sound:
  assumes "NUL \<notin> set name" "name \<noteq> []"
  shows "\<exists>r. ngx_http_parse_multi_header_lines (map header_in_memory hs) name (length name) want = Some r \<and>
    (case r of
       Some (i, v) \<Rightarrow> i < length hs \<and>
         (\<exists>p < length (fst (hs ! i)). token_start (fst (hs ! i)) p \<and> mh_meets (fst (hs ! i)) name want p v)
     | None \<Rightarrow> (\<forall>h \<in> set hs. \<nexists>v. mh_meets (fst h) name want 0 v))"
proof -
  obtain r where "mh_headers (map header_in_memory hs) 0 name (length name) want = Some r"
    "case r of
       Some (j, v) \<Rightarrow> \<exists>vl p. 0 \<le> j \<and> j < 0 + length hs \<and> vl = fst (hs ! (j - 0)) \<and> p < length vl \<and> token_start vl p \<and>
         mh_meets vl name want p v
     | None \<Rightarrow> \<forall>h \<in> set hs. \<nexists>v. mh_meets (fst h) name want 0 v"
    using mh_headers_value [OF assms, of hs 0 want] by blast
  then show ?thesis
    by (intro exI [of _ r]) (auto simp: ngx_http_parse_multi_header_lines_def split: option.splits)
qed

lemmas mh_eval = ngx_http_parse_multi_header_lines_def mh_loop.simps mh_pass_def mh_next_def mh_skip_def peek_def
  ngx_tolower_def str_def

theorem parse_multi_header_lines_sound_witness:
  "\<exists>r. ngx_http_parse_multi_header_lines (map header_in_memory [(str ''a=1; b = 23;c'', [])]) (str ''B'') 1 True = Some r \<and>
    (\<exists>v. r = Some (0, v))"
proof -
  have l: "length (str ''B'') = 1" "NUL \<notin> set (str ''B'')" "str ''B'' \<noteq> []" by (simp_all add: str_def)
  obtain r where r: "ngx_http_parse_multi_header_lines (map header_in_memory [(str ''a=1; b = 23;c'', [])]) (str ''B'') 1 True = Some r"
    "\<And>i v. r = Some (i, v) \<Longrightarrow> i < 1"
    using parse_multi_header_lines_sound [OF l(2,3), of "[(str ''a=1; b = 23;c'', [])]" True, unfolded l]
    by (force split: option.splits)
  moreover have "ngx_http_parse_multi_header_lines (map header_in_memory [(str ''a=1; b = 23;c'', [])]) (str ''B'') 1 True \<noteq> Some None"
    by (simp add: mh_eval)
  ultimately show ?thesis by (cases r) auto
qed

text \<open>
  A parameter without a value swallows the one behind it: the separator is consumed by the test for the
  equals sign, so the skip runs to the next separator.
\<close>

lemma multi_header_swallows:
  "ngx_http_parse_multi_header_lines (map header_in_memory [(str ''a; a=1'', [])]) (str ''a'') 1 True = Some None"
  by (simp add: mh_eval)

end
