(* ===== verification/Ngx_Numbers.thy ===== *)
theory Ngx_Numbers
  imports Ngx_Prelude
begin

section \<open>Conversion of numbers\<close>

text \<open>
  The conversions between numbers and text of \<open>src/core/ngx_string.c\<close>: \<open>ngx_atoi\<close> and its copies for the
  other integer types, \<open>ngx_atofp\<close>, \<open>ngx_hextoi\<close>, \<open>ngx_hex_dump\<close> and \<open>ngx_sprintf_num\<close>.  The signed types are 64 bits
  wide and wrap around; \<open>NGX_ERROR\<close> is \<open>-1\<close>.  As in the string functions, \<open>None\<close> stands for a read behind the
  end of the memory.
\<close>

subsection \<open>Reading decimal numbers\<close>

abbreviation NGX_ERR :: u64 where "NGX_ERR \<equiv> -1"

text \<open>The final test \<open>value < 0\<close>, on the signed value.\<close>

definition non_negative :: "u64 \<Rightarrow> u64" where
  "non_negative value = (if value <s 0 then NGX_ERR else value)"

fun atoi_loop :: "u64 \<Rightarrow> bytes \<Rightarrow> nat \<Rightarrow> u64 option" where
  "atoi_loop value line 0 = Some (non_negative value)"
| "atoi_loop value [] (Suc n) = None"
| "atoi_loop value (c # line) (Suc n) =
    (if c < ch_0 \<or> c > ch_9 then Some NGX_ERR else atoi_loop (value * 10 + ucast (c - ch_0)) line n)"

definition ngx_atoi :: "bytes \<Rightarrow> nat \<Rightarrow> u64 option" where
  "ngx_atoi line n = (if n = 0 then Some NGX_ERR else atoi_loop 0 line n)"

definition ngx_atosz :: "bytes \<Rightarrow> nat \<Rightarrow> u64 option" where
  "ngx_atosz line n = (if n = 0 then Some NGX_ERR else atoi_loop 0 line n)"

definition ngx_atoof :: "bytes \<Rightarrow> nat \<Rightarrow> u64 option" where
  "ngx_atoof line n = (if n = 0 then Some NGX_ERR else atoi_loop 0 line n)"

definition ngx_atotm :: "bytes \<Rightarrow> nat \<Rightarrow> u64 option" where
  "ngx_atotm line n = (if n = 0 then Some NGX_ERR else atoi_loop 0 line n)"

text \<open>\<open>while (point--) value = value * 10\<close>\<close>

fun atofp_scale :: "u64 \<Rightarrow> nat \<Rightarrow> u64" where
  "atofp_scale value 0 = value"
| "atofp_scale value (Suc point) = atofp_scale (value * 10) point"

fun atofp_loop :: "u64 \<Rightarrow> bool \<Rightarrow> bytes \<Rightarrow> nat \<Rightarrow> nat \<Rightarrow> u64 option" where
  "atofp_loop value dot line 0 point = Some (non_negative (atofp_scale value point))"
| "atofp_loop value dot line (Suc n) point =
    (if point = 0 then Some NGX_ERR
     else
       (case line of
          [] \<Rightarrow> None
        | c # line' \<Rightarrow>
            if c = ch_dot then (if dot then Some NGX_ERR else atofp_loop value True line' n point)
            else if c < ch_0 \<or> c > ch_9 then Some NGX_ERR
            else atofp_loop (value * 10 + ucast (c - ch_0)) dot line' n (if dot then point - 1 else point)))"

definition ngx_atofp :: "bytes \<Rightarrow> nat \<Rightarrow> nat \<Rightarrow> u64 option" where
  "ngx_atofp line n point = (if n = 0 then Some NGX_ERR else atofp_loop 0 False line n point)"

subsection \<open>Hexadecimal numbers\<close>

fun hextoi_loop :: "u64 \<Rightarrow> bytes \<Rightarrow> nat \<Rightarrow> u64 option" where
  "hextoi_loop value line 0 = Some (non_negative value)"
| "hextoi_loop value [] (Suc n) = None"
| "hextoi_loop value (ch # line) (Suc n) =
    (if ch_0 \<le> ch \<and> ch \<le> ch_9 then hextoi_loop (value * 16 + ucast (ch - ch_0)) line n
     else
       (let c = ch OR 0x20 in
        if ch_a \<le> c \<and> c \<le> ch_f then hextoi_loop (value * 16 + ucast (c - ch_a + 10)) line n
        else Some NGX_ERR))"

definition ngx_hextoi :: "bytes \<Rightarrow> nat \<Rightarrow> u64 option" where
  "ngx_hextoi line n = (if n = 0 then Some NGX_ERR else hextoi_loop 0 line n)"

definition hex_lower :: bytes where
  "hex_lower = str ''0123456789abcdef''"

definition hex_upper :: bytes where
  "hex_upper = str ''0123456789ABCDEF''"

fun ngx_hex_dump :: "bytes \<Rightarrow> nat \<Rightarrow> bytes option" where
  "ngx_hex_dump src 0 = Some []"
| "ngx_hex_dump [] (Suc len) = None"
| "ngx_hex_dump (c # src) (Suc len) =
    map_option (\<lambda>dst. hex_lower ! unat (drop_bit 4 c) # hex_lower ! unat (c AND 0xf) # dst) (ngx_hex_dump src len)"

subsection \<open>Writing numbers\<close>

text \<open>
  The three \<open>do ... while\<close> loops of \<open>ngx_sprintf_num\<close> fill \<open>temp\<close> from its end; \<open>p\<close> is what has been written.
  A 32-bit number is divided at that width.
\<close>

function num_dec32 :: "u32 \<Rightarrow> bytes \<Rightarrow> bytes" where
  "num_dec32 ui32 p =
    (let p = ucast (ui32 mod 10 + 0x30) # p; ui32 = ui32 div 10 in if ui32 \<noteq> 0 then num_dec32 ui32 p else p)"
  by auto
termination
  by (relation "measure (\<lambda>(ui32, p). unat ui32)") (simp_all add: unat_div_less)

function num_dec64 :: "u64 \<Rightarrow> bytes \<Rightarrow> bytes" where
  "num_dec64 ui64 p =
    (let p = ucast (ui64 mod 10 + 0x30) # p; ui64 = ui64 div 10 in if ui64 \<noteq> 0 then num_dec64 ui64 p else p)"
  by auto
termination
  by (relation "measure (\<lambda>(ui64, p). unat ui64)") (simp_all add: unat_div_less)

function num_hex :: "bytes \<Rightarrow> u64 \<Rightarrow> bytes \<Rightarrow> bytes" where
  "num_hex digits ui64 p =
    (let p = digits ! unat (ui64 AND 0xf) # p; ui64 = drop_bit 4 ui64 in
     if ui64 \<noteq> 0 then num_hex digits ui64 p else p)"
  by auto
termination
  by (relation "measure (\<lambda>(digits, ui64, p). unat ui64)") (simp_all add: unat_div_less drop_bit_eq_div)

declare num_dec32.simps [simp del] num_dec64.simps [simp del] num_hex.simps [simp del]

text \<open>\<open>while (len++ < width && buf < last) *buf++ = zero\<close>, for \<open>width - len\<close> and \<open>last - buf\<close>.\<close>

fun num_pad :: "byte \<Rightarrow> nat \<Rightarrow> nat \<Rightarrow> bytes" where
  "num_pad zero (Suc n) (Suc room) = zero # num_pad zero n room"
| "num_pad zero _ _ = []"

definition sprintf_digits :: "u64 \<Rightarrow> nat \<Rightarrow> bytes" where
  "sprintf_digits ui64 hexadecimal =
    (if hexadecimal = 0 then
       (if ui64 \<le> 0xffffffff then num_dec32 (ucast ui64) [] else num_dec64 ui64 [])
     else if hexadecimal = 1 then num_hex hex_lower ui64 []
     else num_hex hex_upper ui64 [])"

text \<open>\<open>ngx_sprintf_num\<close>: the bytes written to \<open>buf\<close>, of which \<open>room\<close> are free.\<close>

definition ngx_sprintf_num :: "nat \<Rightarrow> u64 \<Rightarrow> byte \<Rightarrow> nat \<Rightarrow> nat \<Rightarrow> bytes" where
  "ngx_sprintf_num room ui64 zero hexadecimal width =
    (let temp = sprintf_digits ui64 hexadecimal;
         pad = num_pad zero (width - length temp) room;
         room = room - length pad;
         len = (if length temp > room then room else length temp)
     in pad @ take len temp)"

subsection \<open>Reading is correct\<close>

lemma non_negative_nat:
  "non_negative (word_of_nat n) = (if bit n 63 then NGX_ERR else word_of_nat n)"
  by (simp add: non_negative_def word_sless_alt signed_of_nat signed_take_bit_negative_iff bit_of_nat_iff_bit)

lemma not_bit_small: "(n :: nat) < 2 ^ k \<Longrightarrow> \<not> bit n k"
  by (simp add: bit_iff_odd)

lemma bit_63_mod: "bit (v :: nat) 63 \<longleftrightarrow> \<not> v mod 2 ^ 64 < 2 ^ 63"
proof -
  have "bit v 63 \<longleftrightarrow> bit (take_bit 64 v) 63" by (simp add: bit_take_bit_iff)
  also have "\<dots> \<longleftrightarrow> odd (v mod 2 ^ 64 div 2 ^ 63)" by (simp add: bit_iff_odd take_bit_eq_mod)
  also have "\<dots> \<longleftrightarrow> v mod 2 ^ 64 div 2 ^ 63 = 1"
  proof -
    have "v mod 2 ^ 64 div 2 ^ 63 < 2" by (intro less_mult_imp_div_less) simp
    then show ?thesis by (auto simp: numeral_2_eq_2 less_Suc_eq)
  qed
  also have "\<dots> \<longleftrightarrow> \<not> v mod 2 ^ 64 < 2 ^ 63"
  proof -
    have "v mod 2 ^ 64 < 2 * 2 ^ 63" using mod_less_divisor [of "2 ^ 64" v] by simp
    then show ?thesis by (auto simp: div_if)
  qed
  finally show ?thesis .
qed

abbreviation dec_step :: "nat \<Rightarrow> byte \<Rightarrow> nat" where
  "dec_step v c \<equiv> v * 10 + (unat c - 48)"

lemma atoi_loop_read:
  "n \<le> length line \<Longrightarrow> atoi_loop (word_of_nat v) line n =
    Some (if list_all is_digit (take n line) then non_negative (word_of_nat (foldl dec_step v (take n line))) else NGX_ERR)"
proof (induction n arbitrary: v line)
  case (Suc n)
  then obtain c l where line: "line = c # l" "n \<le> length l" by (cases line) auto
  show ?case
  proof (cases "is_digit c")
    case True
    then have "atoi_loop (word_of_nat v) line (Suc n) = atoi_loop (word_of_nat v * 10 + ucast (c - ch_0)) l n"
      using is_digit_not [OF True] by (simp add: line)
    also have "(word_of_nat v * 10 + ucast (c - ch_0) :: u64) = word_of_nat (dec_step v c)"
      using ucast_digit [OF True, where ?'a = 64] by simp
    also note Suc.IH [OF line(2)]
    finally show ?thesis using True by (simp add: line(1) del: of_nat_add of_nat_mult)
  qed (auto simp: line is_digit_def not_le)
qed simp

lemma atoi_loop_dec:
  assumes "n \<le> length line"
  shows "atoi_loop 0 line n =
    Some (if list_all is_digit (take n line) \<and> \<not> bit (dec_value (take n line)) 63
          then word_of_nat (dec_value (take n line)) else NGX_ERR)"
  using atoi_loop_read [OF assms, of 0] by (simp add: non_negative_nat dec_value_def)

subsection \<open>Decimal and hexadecimal notation\<close>

fun dec_digits :: "nat \<Rightarrow> bytes" where
  "dec_digits n = (if n < 10 then [word_of_nat (n + 48)] else dec_digits (n div 10) @ [word_of_nat (n mod 10 + 48)])"

declare dec_digits.simps [simp del]

lemma unat_byte_of_nat: "n < 256 \<Longrightarrow> unat (word_of_nat n :: byte) = n"
  by (simp add: unsigned_of_nat take_bit_nat_eq_self)

lemma dec_digit: "n < 10 \<Longrightarrow> is_digit (word_of_nat (n + 48)) \<and> unat (word_of_nat (n + 48) :: byte) - 48 = n"
  using unat_byte_of_nat [of "n + 48"] by (simp add: is_digit_def word_le_nat_alt)

lemma dec_digits_value: "dec_value (dec_digits n) = n \<and> list_all is_digit (dec_digits n) \<and> dec_digits n \<noteq> []"
proof (induction n rule: dec_digits.induct)
  case (1 n)
  show ?case
  proof (cases "n < 10")
    case True
    then show ?thesis using dec_digit [of n] by (simp add: dec_digits.simps [of n] dec_value_def)
  next
    case False
    then show ?thesis using 1 dec_digit [of "n mod 10"] by (simp add: dec_digits.simps [of n] dec_value_snoc)
  qed
qed

lemma dec_digits_length: "n < 10 ^ k \<Longrightarrow> 0 < k \<Longrightarrow> length (dec_digits n) \<le> k"
proof (induction k arbitrary: n)
  case (Suc k)
  show ?case
  proof (cases "n < 10")
    case False
    then have "0 < k" using Suc.prems(1) by (cases k) auto
    then have "length (dec_digits (n div 10)) \<le> k" using Suc by (simp add: div_less_iff_less_mult mult.commute)
    then show ?thesis using False by (subst dec_digits.simps) simp
  qed (simp add: dec_digits.simps)
qed simp

lemma word_low_digit:
  fixes w :: "'a::len word"
  assumes "8 \<le> LENGTH('a)"
  shows "(ucast (w mod 10 + 0x30) :: byte) = word_of_nat (unat w mod 10 + 48)"
proof -
  have l: "(256 :: nat) \<le> 2 ^ LENGTH('a)" using power_increasing [OF assms, of "2 :: nat"] by simp
  then have n: "unat (10 :: 'a word) = 10" "unat (0x30 :: 'a word) = 48"
    by (simp_all add: unsigned_numeral take_bit_nat_eq_self)
  then have m: "unat (w mod 10) = unat w mod 10" by (simp add: unat_mod)
  have "unat (w mod 10 + 0x30) = unat w mod 10 + 48"
    using l n m mod_less_divisor [of 10 "unat w"] by (subst unat_add_lem [THEN iffD1]) auto
  then show ?thesis by (metis of_nat_unat)
qed

lemma num_dec64_digits: "num_dec64 w p = dec_digits (unat w) @ p"
proof (induction w p rule: num_dec64.induct)
  case (1 w p)
  have d: "unat (w div 10) = unat w div 10" by (simp add: unat_div)
  have "w div 10 \<noteq> 0 \<longleftrightarrow> \<not> unat w < 10" unfolding unat_eq_0 [symmetric] d by (simp add: div_eq_0_iff)
  then show ?case using 1 by (subst num_dec64.simps, subst dec_digits.simps) (simp add: Let_def word_low_digit d)
qed

lemma num_dec32_digits: "num_dec32 w p = dec_digits (unat w) @ p"
proof (induction w p rule: num_dec32.induct)
  case (1 w p)
  have d: "unat (w div 10) = unat w div 10" by (simp add: unat_div)
  have "w div 10 \<noteq> 0 \<longleftrightarrow> \<not> unat w < 10" unfolding unat_eq_0 [symmetric] d by (simp add: div_eq_0_iff)
  then show ?case using 1 by (subst num_dec32.simps, subst dec_digits.simps) (simp add: Let_def word_low_digit d)
qed

lemma sprintf_digits_dec: "sprintf_digits w 0 = dec_digits (unat w)"
proof -
  have "unat (ucast w :: u32) = unat w" if "w \<le> 0xffffffff"
  proof -
    have "unat w < 2 ^ 32" using that by (simp add: word_le_nat_alt)
    then show ?thesis by (simp add: unsigned_ucast_eq take_bit_nat_eq_self)
  qed
  then show ?thesis by (simp add: sprintf_digits_def num_dec32_digits num_dec64_digits)
qed

text \<open>The same for base 16, with either alphabet.\<close>

fun hex_digits :: "bytes \<Rightarrow> nat \<Rightarrow> bytes" where
  "hex_digits ds n = (if n < 16 then [ds ! n] else hex_digits ds (n div 16) @ [ds ! (n mod 16)])"

declare hex_digits.simps [simp del]

lemma unat_and_15: "unat (w AND 0xf :: 'a::len word) = unat w mod 16"
proof -
  have "w AND mask 4 = take_bit 4 w" by (simp add: take_bit_eq_mask)
  then have "w AND 0xf = take_bit 4 w" by (simp add: mask_eq_exp_minus_1)
  then show ?thesis by (simp only: unsigned_take_bit_eq) (simp add: take_bit_eq_mod)
qed

lemma num_hex_digits: "num_hex ds w p = hex_digits ds (unat w) @ p"
proof (induction ds w p rule: num_hex.induct)
  case (1 ds w p)
  have d: "unat (drop_bit 4 w) = unat w div 16" by (simp add: drop_bit_eq_div unat_div)
  have "drop_bit 4 w \<noteq> 0 \<longleftrightarrow> \<not> unat w < 16" unfolding unat_eq_0 [symmetric] d by (simp add: div_eq_0_iff)
  then show ?case using 1 by (subst num_hex.simps, subst hex_digits.simps) (simp add: Let_def unat_and_15 d)
qed

lemma hex_digits_length: "n < 16 ^ k \<Longrightarrow> 0 < k \<Longrightarrow> length (hex_digits ds n) \<le> k"
proof (induction k arbitrary: n)
  case (Suc k)
  show ?case
  proof (cases "n < 16")
    case False
    then have "0 < k" using Suc.prems(1) by (cases k) auto
    then have "length (hex_digits ds (n div 16)) \<le> k" using Suc by (simp add: div_less_iff_less_mult mult.commute)
    then show ?thesis using False by (subst hex_digits.simps) simp
  qed (simp add: hex_digits.simps)
qed simp

definition is_hex :: "byte \<Rightarrow> bool" where
  "is_hex c \<longleftrightarrow> is_digit c \<or> ch_a \<le> c OR 0x20 \<and> c OR 0x20 \<le> ch_f"

definition hex_digit_value :: "byte \<Rightarrow> nat" where
  "hex_digit_value c = (if is_digit c then unat c - 48 else unat (c OR 0x20) - 87)"

abbreviation hex_step :: "nat \<Rightarrow> byte \<Rightarrow> nat" where
  "hex_step v c \<equiv> v * 16 + hex_digit_value c"

definition hex_value :: "bytes \<Rightarrow> nat" where
  "hex_value ds = foldl hex_step 0 ds"

lemma hex_value_snoc: "hex_value (ds @ [c]) = hex_value ds * 16 + hex_digit_value c"
  by (simp add: hex_value_def)

lemma hex_letter:
  assumes "ch_a \<le> c" "c \<le> ch_f"
  shows "(ucast (c - ch_a + 10) :: u64) = word_of_nat (unat c - 87)"
proof -
  have "unat (c - ch_a + 10) = unat c - 87" using assms by unat_arith
  then show ?thesis by (metis of_nat_unat)
qed

lemma hextoi_loop_read:
  "n \<le> length line \<Longrightarrow> hextoi_loop (word_of_nat v) line n =
    Some (if list_all is_hex (take n line) then non_negative (word_of_nat (foldl hex_step v (take n line))) else NGX_ERR)"
proof (induction n arbitrary: v line)
  case (Suc n)
  then obtain c l where line: "line = c # l" "n \<le> length l" by (cases line) auto
  show ?case
  proof (cases "is_hex c")
    case True
    have "hextoi_loop (word_of_nat v) line (Suc n) = hextoi_loop (word_of_nat (hex_step v c)) l n"
    proof (cases "is_digit c")
      case True
      then show ?thesis using ucast_digit [OF True, where ?'a = 64]
        by (simp add: line hex_digit_value_def) (simp add: is_digit_def)
    next
      case False
      then have "ch_a \<le> c OR 0x20" "c OR 0x20 \<le> ch_f" using True by (simp_all add: is_hex_def)
      from this False hex_letter [OF this] show ?thesis by (simp add: line hex_digit_value_def Let_def) (auto simp: is_digit_def)
    qed
    also note Suc.IH [OF line(2)]
    finally show ?thesis using True by (simp add: line(1) del: of_nat_add of_nat_mult)
  qed (auto simp: line is_hex_def is_digit_def Let_def)
qed simp

lemma hex_alphabets:
  assumes "n < 16" "ds = hex_lower \<or> ds = hex_upper"
  shows "is_hex (ds ! n) \<and> hex_digit_value (ds ! n) = n"
proof -
  have "list_all (\<lambda>n. is_hex (hex_lower ! n) \<and> hex_digit_value (hex_lower ! n) = n \<and>
      is_hex (hex_upper ! n) \<and> hex_digit_value (hex_upper ! n) = n) [0..<16]"
    by (simp add: upt_rec hex_lower_def hex_upper_def str_def is_hex_def is_digit_def hex_digit_value_def)
  then show ?thesis using assms by (auto simp: list_all_iff)
qed

lemma hex_digits_value:
  assumes "ds = hex_lower \<or> ds = hex_upper"
  shows "hex_value (hex_digits ds n) = n \<and> list_all is_hex (hex_digits ds n) \<and> hex_digits ds n \<noteq> []"
proof (induction n rule: less_induct)
  case (less n)
  show ?case
  proof (cases "n < 16")
    case True
    then show ?thesis using hex_alphabets [OF True assms] by (simp add: hex_digits.simps [of _ n] hex_value_def)
  next
    case False
    then show ?thesis using less [of "n div 16"] hex_alphabets [OF _ assms, of "n mod 16"]
      by (simp add: hex_digits.simps [of _ n] hex_value_snoc)
  qed
qed

subsection \<open>Properties\<close>

text \<open>
  C29. \<open>ngx_atoi\<close>, \<open>ngx_atosz\<close>, \<open>ngx_atoof\<close> and \<open>ngx_atotm\<close> read the \<open>n\<close> bytes of a decimal number and return its
  value, for every number of the non-negative range of the type.  The empty string and a string with
  another character are errors.  A greater number wraps around at \<open>2^64\<close>, and is an error where that gives a negative number
  and else accepted with the wrong value.
\<close>

theorem atoi_correct:
  assumes "n \<le> length line" "f \<in> {ngx_atoi, ngx_atosz, ngx_atoof, ngx_atotm}"
  shows "f line n =
    Some (let v = dec_value (take n line) in
      if n = 0 \<or> \<not> list_all is_digit (take n line) then NGX_ERR
      else if v < 2 ^ 63 then word_of_nat v
      else if v mod 2 ^ 64 < 2 ^ 63 then word_of_nat (v mod 2 ^ 64)
      else NGX_ERR)"
proof -
  let ?v = "dec_value (take n line)"
  have "word_of_nat (?v mod 2 ^ 64) = (word_of_nat ?v :: u64)" by (simp add: word_of_nat_eq_iff take_bit_eq_mod)
  moreover have "?v < 2 ^ 63 \<Longrightarrow> ?v mod 2 ^ 64 = ?v" by (intro mod_less) simp
  ultimately show ?thesis using assms(2) atoi_loop_dec [OF assms(1)] bit_63_mod [of ?v]
    by (auto simp: ngx_atoi_def ngx_atosz_def ngx_atoof_def ngx_atotm_def Let_def)
qed

theorem atoi_correct_witness:
  "ngx_atoi (str ''1024k'') 4 = Some 1024 \<and> ngx_atosz (str ''10k'') 3 = Some NGX_ERR"
proof -
  have d: "take 4 (str ''1024k'') = str ''1024''" "list_all is_digit (str ''1024'')" "dec_value (str ''1024'') = 1024"
    "\<not> list_all is_digit (take 3 (str ''10k''))" "4 \<le> length (str ''1024k'')" "3 \<le> length (str ''10k'')"
    by (simp_all add: str_def is_digit_def dec_value_def)
  show ?thesis
    using atoi_correct [of 4 "str ''1024k''" ngx_atoi] atoi_correct [of 3 "str ''10k''" ngx_atosz] d by simp
qed

text \<open>Numbers of the type's range and beyond are not told apart: the value wraps around.\<close>

lemma atoi_wraps: "ngx_atoi (str ''18446744073709551617'') 20 = Some 1"
  using atoi_loop_dec [of 20 "str ''18446744073709551617''"]
  by (simp add: ngx_atoi_def str_def is_digit_def dec_value_def bit_iff_odd)

lemma atofp_scale_power: "atofp_scale (word_of_nat v) k = word_of_nat (v * 10 ^ k)"
proof (induction k arbitrary: v)
  case (Suc k)
  have "(word_of_nat v * 10 :: u64) = word_of_nat (v * 10)" by simp
  then have "atofp_scale (word_of_nat v) (Suc k) = atofp_scale (word_of_nat (v * 10)) k" by (simp only: atofp_scale.simps)
  then show ?case by (simp only: Suc) (simp add: mult.assoc)
qed simp

lemma atofp_loop_digit:
  assumes "is_digit c" "0 < point"
  shows "atofp_loop (word_of_nat v) dot (c # line) (Suc n) point =
    atofp_loop (word_of_nat (dec_step v c)) dot line n (if dot then point - 1 else point)"
  using is_digit_not [OF assms(1)] ucast_digit [OF assms(1), where ?'a = 64] assms(2) by simp

lemma atofp_loop_integer:
  "list_all is_digit ds \<Longrightarrow> 0 < point \<Longrightarrow>
    atofp_loop (word_of_nat v) False (ds @ line) (length ds + n) point = atofp_loop (word_of_nat (foldl dec_step v ds)) False line n point"
proof (induction ds arbitrary: v)
  case (Cons c ds)
  then have "atofp_loop (word_of_nat v) False ((c # ds) @ line) (length (c # ds) + n) point =
      atofp_loop (word_of_nat (dec_step v c)) False (ds @ line) (length ds + n) point"
    using atofp_loop_digit [of c point v False "ds @ line" "length ds + n"] by simp
  then show ?case using Cons by (simp del: of_nat_add of_nat_mult)
qed simp

lemma atofp_loop_fraction:
  "list_all is_digit ds \<Longrightarrow> length ds \<le> point \<Longrightarrow>
    atofp_loop (word_of_nat v) True (ds @ rest) (length ds) point =
      Some (non_negative (word_of_nat (foldl dec_step v ds * 10 ^ (point - length ds))))"
proof (induction ds arbitrary: v point)
  case Nil
  then show ?case by (simp add: atofp_scale_power del: of_nat_add of_nat_mult)
next
  case (Cons c ds)
  then have "atofp_loop (word_of_nat v) True ((c # ds) @ rest) (length (c # ds)) point =
      atofp_loop (word_of_nat (dec_step v c)) True (ds @ rest) (length ds) (point - 1)"
    using atofp_loop_digit [of c point v True "ds @ rest" "length ds"] by simp
  then show ?case using Cons.IH [of "point - 1"] Cons.prems by (simp del: of_nat_add of_nat_mult)
qed

lemma atofp_loop_long:
  "list_all is_digit ds \<Longrightarrow> point < length ds \<Longrightarrow>
    atofp_loop (word_of_nat v) True (ds @ rest) (length ds) point = Some NGX_ERR"
proof (induction ds arbitrary: v point)
  case (Cons c ds)
  show ?case
  proof (cases "point = 0")
    case False
    then have "atofp_loop (word_of_nat v) True ((c # ds) @ rest) (length (c # ds)) point =
        atofp_loop (word_of_nat (dec_step v c)) True (ds @ rest) (length ds) (point - 1)"
      using atofp_loop_digit [of c point v True "ds @ rest" "length ds"] Cons.prems by simp
    then show ?thesis using Cons.IH [of "point - 1"] Cons.prems False by (simp del: of_nat_add of_nat_mult)
  qed simp
qed simp

lemma atofp_fraction:
  assumes "list_all is_digit whole" "list_all is_digit frac" "0 < point" "length frac \<le> point"
    and "dec_value (whole @ frac) * 10 ^ (point - length frac) < 2 ^ 63"
  shows "ngx_atofp (whole @ ch_dot # frac @ rest) (length whole + 1 + length frac) point =
    Some (word_of_nat (dec_value (whole @ frac) * 10 ^ (point - length frac)))"
proof -
  let ?v = "foldl dec_step 0 whole"
  have "ngx_atofp (whole @ ch_dot # frac @ rest) (length whole + 1 + length frac) point =
      atofp_loop (word_of_nat ?v) False (ch_dot # frac @ rest) (1 + length frac) point"
    using atofp_loop_integer [OF assms(1,3), of 0 "ch_dot # frac @ rest" "1 + length frac"] by (simp add: ngx_atofp_def)
  also have "\<dots> = atofp_loop (word_of_nat ?v) True (frac @ rest) (length frac) point" using assms(3) by simp
  also have "\<dots> = Some (non_negative (word_of_nat (dec_value (whole @ frac) * 10 ^ (point - length frac))))"
    using atofp_loop_fraction [OF assms(2,4), of ?v rest] by (simp only: dec_value_def foldl_append)
  finally show ?thesis using not_bit_small [OF assms(5)] by (simp only: non_negative_nat if_False)
qed

text \<open>
  \<open>ngx_atofp\<close> reads a number with an optional fraction of at most \<open>point\<close> digits and returns it multiplied
  by ten to the power \<open>point\<close>, as long as the result is in the range of the type.  A longer fraction is an error.
\<close>

theorem atofp_correct:
  assumes "list_all is_digit whole" "list_all is_digit frac" "0 < point"
  shows "(length frac \<le> point \<and> dec_value (whole @ frac) * 10 ^ (point - length frac) < 2 ^ 63 \<longrightarrow>
      ngx_atofp (whole @ ch_dot # frac @ rest) (length whole + 1 + length frac) point =
        Some (word_of_nat (dec_value (whole @ frac) * 10 ^ (point - length frac)))) \<and>
    (whole \<noteq> [] \<and> dec_value whole * 10 ^ point < 2 ^ 63 \<longrightarrow>
      ngx_atofp (whole @ rest) (length whole) point = Some (word_of_nat (dec_value whole * 10 ^ point))) \<and>
    (point < length frac \<longrightarrow>
      ngx_atofp (whole @ ch_dot # frac @ rest) (length whole + 1 + length frac) point = Some NGX_ERR)"
proof (intro conjI impI)
  show "ngx_atofp (whole @ rest) (length whole) point = Some (word_of_nat (dec_value whole * 10 ^ point))"
    if "whole \<noteq> [] \<and> dec_value whole * 10 ^ point < 2 ^ 63"
    using that atofp_loop_integer [OF assms(1,3), of 0 rest 0] not_bit_small [of "dec_value whole * 10 ^ point" 63]
    by (simp add: ngx_atofp_def atofp_scale_power non_negative_nat dec_value_def del: of_nat_add of_nat_mult)
  have "ngx_atofp (whole @ ch_dot # frac @ rest) (length whole + 1 + length frac) point =
      atofp_loop (word_of_nat (foldl dec_step 0 whole)) True (frac @ rest) (length frac) point"
    using atofp_loop_integer [OF assms(1,3), of 0 "ch_dot # frac @ rest" "1 + length frac"] assms(3) by (simp add: ngx_atofp_def)
  then show "ngx_atofp (whole @ ch_dot # frac @ rest) (length whole + 1 + length frac) point = Some NGX_ERR"
    if "point < length frac" by (simp only: atofp_loop_long [OF assms(2) that])
qed (use atofp_fraction [OF assms] in blast)

theorem atofp_correct_witness:
  "ngx_atofp (str ''10.5'') 4 2 = Some 1050"
proof -
  have "str ''10'' @ ch_dot # str ''5'' @ [] = str ''10.5''" "length (str ''10'') + 1 + length (str ''5'') = 4"
    "list_all is_digit (str ''10'')" "list_all is_digit (str ''5'')" "dec_value (str ''10'' @ str ''5'') = 105" "length (str ''5'') = 1"
    by (simp_all add: str_def is_digit_def dec_value_def)
  then show ?thesis using atofp_correct [of "str ''10''" "str ''5''" 2 "[]"] by simp
qed

lemma num_pad_length: "num_pad zero n room = replicate (min n room) zero"
  by (induction zero n room rule: num_pad.induct) auto

lemma sprintf_digits_length: "length (sprintf_digits w h) \<le> 20"
proof -
  have w: "unat w < 18446744073709551616" using unsigned_less [of w] by simp
  show ?thesis
  proof (cases "h = 0")
    case True
    then show ?thesis using w dec_digits_length [of "unat w" 20] by (simp add: sprintf_digits_dec)
  next
    case False
    then show ?thesis using w hex_digits_length [of "unat w" 16 hex_lower] hex_digits_length [of "unat w" 16 hex_upper]
      by (simp add: sprintf_digits_def num_hex_digits)
  qed
qed

text \<open>
  The digits of a number never overrun the 20 bytes of \<open>temp\<close>, and \<open>ngx_sprintf_num\<close> never writes behind
  \<open>last\<close>.  With enough room it writes exactly the padding and the digits.
\<close>

theorem sprintf_num_bounds:
  "length (sprintf_digits w h) \<le> 20 \<and> length (ngx_sprintf_num room w zero h width) \<le> room \<and>
    (max width 20 \<le> room \<longrightarrow>
      ngx_sprintf_num room w zero h width =
        replicate (width - length (sprintf_digits w h)) zero @ sprintf_digits w h)"
  using sprintf_digits_length [of w h]
  by (auto simp: ngx_sprintf_num_def num_pad_length Let_def min_def)

theorem sprintf_num_bounds_witness:
  "ngx_sprintf_num 20 7 ch_0 0 2 = replicate (2 - length (sprintf_digits 7 0)) ch_0 @ sprintf_digits 7 0"
  using sprintf_num_bounds [of 7 0 20 ch_0 2] by simp

lemma dec_value_zeros: "dec_value (replicate k ch_0 @ ds) = dec_value ds"
proof -
  have "foldl dec_step 0 (replicate k ch_0) = 0" by (induction k) auto
  then show ?thesis by (simp add: dec_value_def)
qed

lemma hex_value_zeros: "hex_value (replicate k ch_0 @ ds) = hex_value ds"
proof -
  have "foldl hex_step 0 (replicate k ch_0) = 0"
    by (induction k) (auto simp: hex_digit_value_def is_digit_def)
  then show ?thesis by (simp add: hex_value_def)
qed

lemma ngx_atoi_value:
  assumes "ds \<noteq> []" "list_all is_digit ds" "dec_value ds < 2 ^ 63"
  shows "ngx_atoi ds (length ds) = Some (word_of_nat (dec_value ds))"
  using atoi_loop_dec [of "length ds" ds] assms not_bit_small [OF assms(3)] by (simp add: ngx_atoi_def)

lemma ngx_hextoi_value:
  assumes "ds \<noteq> []" "list_all is_hex ds" "hex_value ds < 2 ^ 63"
  shows "ngx_hextoi ds (length ds) = Some (word_of_nat (hex_value ds))"
  using hextoi_loop_read [of "length ds" ds 0] assms not_bit_small [OF assms(3)]
  by (simp add: ngx_hextoi_def hex_value_def non_negative_nat)

text \<open>
  C28. Reading back what \<open>ngx_sprintf_num\<close> wrote gives the number: \<open>ngx_atoi\<close> for the decimal notation and
  \<open>ngx_hextoi\<close> for the two hexadecimal ones, with any zero padding, for all numbers that fit \<open>ngx_int_t\<close>.
\<close>

theorem sprintf_num_roundtrip:
  assumes "unat w < 2 ^ 63" "max width 20 \<le> room" "0 < h"
  shows "(let out = ngx_sprintf_num room w ch_0 0 width in ngx_atoi out (length out) = Some w) \<and>
    (let out = ngx_sprintf_num room w ch_0 h width in ngx_hextoi out (length out) = Some w)"
proof
  have out: "ngx_sprintf_num room w ch_0 h width = replicate (width - length (sprintf_digits w h)) ch_0 @ sprintf_digits w h" for h
    using sprintf_digits_length [of w h] assms(2) by (auto simp: ngx_sprintf_num_def num_pad_length Let_def min_def)
  have z: "is_digit ch_0" "is_hex ch_0" by (simp_all add: is_digit_def is_hex_def)
  show "let out = ngx_sprintf_num room w ch_0 0 width in ngx_atoi out (length out) = Some w"
    using dec_digits_value [of "unat w"] assms(1) z
    by (simp only: Let_def, subst ngx_atoi_value) (auto simp: out sprintf_digits_dec dec_value_zeros list_all_iff)
  obtain ds where ds: "sprintf_digits w h = hex_digits ds (unat w)" "ds = hex_lower \<or> ds = hex_upper"
    using assms(3) by (cases "h = 1") (auto simp: sprintf_digits_def num_hex_digits)
  show "let out = ngx_sprintf_num room w ch_0 h width in ngx_hextoi out (length out) = Some w"
    using hex_digits_value [OF ds(2), of "unat w"] assms(1) z
    by (simp only: Let_def, subst ngx_hextoi_value) (auto simp: out ds(1) hex_value_zeros list_all_iff)
qed

theorem sprintf_num_roundtrip_witness:
  "let out = ngx_sprintf_num 30 255 ch_0 2 8 in ngx_hextoi out (length out) = Some 255"
  using sprintf_num_roundtrip [of 255 8 30 2] by (simp add: Let_def)

text \<open>The number a string of bytes denotes, most significant byte first.\<close>

definition be_value :: "bytes \<Rightarrow> nat" where
  "be_value bs = foldl (\<lambda>v c. v * 256 + unat c) 0 bs"

lemma hex_dump_value:
  "\<exists>out. ngx_hex_dump src (length src) = Some out \<and> length out = 2 * length src \<and> list_all is_hex out \<and>
    (\<forall>v. foldl hex_step v out = foldl (\<lambda>v c. v * 256 + unat c) v src)"
proof (induction src)
  case (Cons c src)
  then obtain out where out: "ngx_hex_dump src (length src) = Some out" "length out = 2 * length src" "list_all is_hex out"
    "\<forall>v. foldl hex_step v out = foldl (\<lambda>v c. v * 256 + unat c) v src" by blast
  have d: "unat (drop_bit 4 c) = unat c div 16" "unat (c AND 0xf) = unat c mod 16"
    by (simp_all add: drop_bit_eq_div unat_div unat_and_15)
  have "unat c div 16 < 16" using unat_byte_less [of c] by (simp add: div_less_iff_less_mult)
  from hex_alphabets [OF this, of hex_lower] hex_alphabets [of "unat c mod 16" hex_lower] out
  show ?case by (auto simp: d algebra_simps)
qed simp

lemma be_value_less: "be_value bs < 256 ^ length bs"
proof (induction bs rule: rev_induct)
  case (snoc c bs)
  then show ?case using unat_byte_less [of c] by (simp add: be_value_def)
qed (simp add: be_value_def)

text \<open>
  \<open>ngx_hex_dump\<close> writes two hexadecimal digits for each byte, and reading up to seven bytes back with
  \<open>ngx_hextoi\<close> gives the number they denote.
\<close>

theorem hex_dump_roundtrip:
  "\<exists>out. ngx_hex_dump src (length src) = Some out \<and> length out = 2 * length src \<and> list_all is_hex out \<and>
    hex_value out = be_value src \<and>
    (src \<noteq> [] \<and> length src \<le> 7 \<longrightarrow> ngx_hextoi out (length out) = Some (word_of_nat (be_value src)))"
proof -
  obtain out where out: "ngx_hex_dump src (length src) = Some out" "length out = 2 * length src" "list_all is_hex out"
    "hex_value out = be_value src"
    using hex_dump_value [of src] by (auto simp: hex_value_def be_value_def)
  have "be_value src < 2 ^ 63" if "length src \<le> 7"
    using be_value_less [of src] power_increasing [OF that, of "256 :: nat"] by simp
  then have "ngx_hextoi out (length out) = Some (word_of_nat (be_value src))" if "src \<noteq> []" "length src \<le> 7"
    using ngx_hextoi_value [of out] out that by fastforce
  then show ?thesis using out by blast
qed

theorem hex_dump_roundtrip_witness:
  "\<exists>out. ngx_hex_dump [0x12, 0xAB] 2 = Some out \<and> ngx_hextoi out 4 = Some 0x12AB"
proof -
  have "length [0x12, 0xAB :: byte] = 2" "be_value [0x12, 0xAB] = 0x12AB" by (simp_all add: be_value_def)
  then show ?thesis using hex_dump_roundtrip [of "[0x12, 0xAB]"] by (simp only:) auto
qed

end
