(* ===== verification/Ngx_Parse.thy ===== *)
theory Ngx_Parse
  imports Ngx_Numbers
begin

section \<open>Sizes, offsets and times of the configuration\<close>

text \<open>
  \<open>src/core/ngx_parse.c\<close>.  A string is the memory it lies in (a list of bytes) and its length.  \<open>None\<close> stands for
  a read outside that memory, which includes the read of \<open>data[len - 1]\<close> for an empty string.
\<close>

subsection \<open>Sizes and offsets\<close>

definition size_unit :: "byte \<Rightarrow> nat \<times> u64" where
  "size_unit unit =
    (if unit = ch_K \<or> unit = 0x6B then (1, 1024)
     else if unit = ch_M \<or> unit = 0x6D then (1, 1024 * 1024)
     else (0, 1))"

definition ngx_parse_size :: "bytes \<Rightarrow> nat \<Rightarrow> u64 option" where
  "ngx_parse_size line len =
    (if 0 < len \<and> len - 1 < length line then
       (let (cut, scale) = size_unit (line ! (len - 1)) in
        case ngx_atosz line (len - cut) of
          None \<Rightarrow> None
        | Some sz \<Rightarrow> if sz = NGX_ERR then Some NGX_ERR else Some (sz * scale))
     else None)"

definition offset_unit :: "byte \<Rightarrow> nat \<times> u64" where
  "offset_unit unit =
    (if unit = ch_K \<or> unit = 0x6B then (1, 1024)
     else if unit = ch_M \<or> unit = 0x6D then (1, 1024 * 1024)
     else if unit = ch_G \<or> unit = 0x67 then (1, 1024 * 1024 * 1024)
     else (0, 1))"

definition ngx_parse_offset :: "bytes \<Rightarrow> nat \<Rightarrow> u64 option" where
  "ngx_parse_offset line len =
    (if 0 < len \<and> len - 1 < length line then
       (let (cut, scale) = offset_unit (line ! (len - 1)) in
        case ngx_atoof line (len - cut) of
          None \<Rightarrow> None
        | Some off \<Rightarrow> if off = NGX_ERR then Some NGX_ERR else Some (off * scale))
     else None)"

subsection \<open>Times\<close>

datatype time_step = St_start | St_year | St_month | St_week | St_day | St_hour | St_min | St_sec | St_msec | St_last

primrec step_rank :: "time_step \<Rightarrow> nat" where
  "step_rank St_start = 0"
| "step_rank St_year = 1"
| "step_rank St_month = 2"
| "step_rank St_week = 3"
| "step_rank St_day = 4"
| "step_rank St_hour = 5"
| "step_rank St_min = 6"
| "step_rank St_sec = 7"
| "step_rank St_msec = 8"
| "step_rank St_last = 9"

instantiation time_step :: linorder
begin

definition less_eq_time_step :: "time_step \<Rightarrow> time_step \<Rightarrow> bool" where
  "s \<le> t \<longleftrightarrow> step_rank s \<le> step_rank t"

definition less_time_step :: "time_step \<Rightarrow> time_step \<Rightarrow> bool" where
  "s < t \<longleftrightarrow> step_rank s < step_rank t"

instance
proof
  fix s t :: time_step
  show "s \<le> t \<Longrightarrow> t \<le> s \<Longrightarrow> s = t"
    by (cases s; cases t) (simp_all add: less_eq_time_step_def)
qed (auto simp: less_eq_time_step_def less_time_step_def)

end

abbreviation MAX_INT32 :: u64 where "MAX_INT32 \<equiv> 0x7fffffff"

text \<open>
  The \<open>switch\<close> on a unit character: an error, a read behind the memory, or the new step, the largest
  admissible value, the scale and the number of bytes read behind the character.  \<open>p\<close> is the memory
  behind it.
\<close>

datatype time_unit = Unit_error | Unit_oob | Unit time_step u64 u64 nat

definition unit_if :: "bool \<Rightarrow> time_unit \<Rightarrow> time_unit" where
  "unit_if ok u = (if ok then u else Unit_error)"

definition time_unit_of :: "bool \<Rightarrow> time_step \<Rightarrow> byte \<Rightarrow> bytes \<Rightarrow> time_unit" where
  "time_unit_of is_sec step ch p =
    (if ch = 0x79 then
       unit_if (\<not> step > St_start) (Unit St_year (MAX_INT32 div (60 * 60 * 24 * 365)) (60 * 60 * 24 * 365) 0)
     else if ch = ch_M then
       unit_if (\<not> step \<ge> St_month) (Unit St_month (MAX_INT32 div (60 * 60 * 24 * 30)) (60 * 60 * 24 * 30) 0)
     else if ch = 0x77 then
       unit_if (\<not> step \<ge> St_week) (Unit St_week (MAX_INT32 div (60 * 60 * 24 * 7)) (60 * 60 * 24 * 7) 0)
     else if ch = 0x64 then
       unit_if (\<not> step \<ge> St_day) (Unit St_day (MAX_INT32 div (60 * 60 * 24)) (60 * 60 * 24) 0)
     else if ch = 0x68 then
       unit_if (\<not> step \<ge> St_hour) (Unit St_hour (MAX_INT32 div (60 * 60)) (60 * 60) 0)
     else if ch = 0x6D then
       (case p of
          [] \<Rightarrow> Unit_oob
        | c # _ \<Rightarrow>
            if c = 0x73 then unit_if (\<not> (is_sec \<or> step \<ge> St_msec)) (Unit St_msec MAX_INT32 1 1)
            else unit_if (\<not> step \<ge> St_min) (Unit St_min (MAX_INT32 div 60) 60 0))
     else if ch = 0x73 then unit_if (\<not> step \<ge> St_sec) (Unit St_sec MAX_INT32 1 0)
     else if ch = ch_space then unit_if (\<not> step \<ge> St_sec) (Unit St_last MAX_INT32 1 0)
     else Unit_error)"

text \<open>\<open>while (p < last && *p == ' ') p++\<close>; \<open>n\<close> is \<open>last - p\<close>.\<close>

fun time_spaces :: "bytes \<Rightarrow> nat \<Rightarrow> (bytes \<times> nat) option" where
  "time_spaces p 0 = Some (p, 0)"
| "time_spaces [] (Suc n) = None"
| "time_spaces (c # p) (Suc n) = (if c = ch_space then time_spaces p n else Some (c # p, Suc n))"

record time_state =
  t_value :: u64
  t_total :: u64
  t_step :: time_step
  t_scale :: u64
  t_valid :: bool

definition time_base :: "bool \<Rightarrow> u64" where
  "time_base is_sec = (if is_sec then 1 else 1000)"

text \<open>The rest of the loop body behind the \<open>switch\<close>: the new state, or \<open>None\<close> for \<open>NGX_ERROR\<close>.\<close>

definition time_add :: "bool \<Rightarrow> time_state \<Rightarrow> time_step \<Rightarrow> u64 \<Rightarrow> u64 \<Rightarrow> time_state option" where
  "time_add is_sec s step mx scale =
    (let (scale, mx) = (if step \<noteq> St_msec \<and> \<not> is_sec then (scale * 1000, mx div 1000) else (scale, mx));
         total = t_total s + t_value s * scale
     in if t_value s > mx then None
        else if total > MAX_INT32 then None
        else Some (s\<lparr>t_value := 0, t_total := total, t_step := step, t_scale := time_base is_sec\<rparr>))"

lemma time_spaces_length: "time_spaces p n = Some (q, m) \<Longrightarrow> m \<le> n"
  by (induction p n rule: time_spaces.induct) (auto split: if_splits)

function time_loop :: "bool \<Rightarrow> time_state \<Rightarrow> bytes \<Rightarrow> nat \<Rightarrow> u64 option" where
  "time_loop is_sec s p 0 = Some (if t_valid s then t_total s + t_value s * t_scale s else NGX_ERR)"
| "time_loop is_sec s [] (Suc n) = None"
| "time_loop is_sec s (c # p) (Suc n) =
    (if ch_0 \<le> c \<and> c \<le> ch_9 then
       time_loop is_sec (s\<lparr>t_value := t_value s * 10 + ucast (c - ch_0), t_valid := True\<rparr>) p n
     else
       (case time_unit_of is_sec (t_step s) c p of
          Unit_error \<Rightarrow> Some NGX_ERR
        | Unit_oob \<Rightarrow> None
        | Unit step mx scale more_read \<Rightarrow>
            (case time_add is_sec s step mx scale of
               None \<Rightarrow> Some NGX_ERR
             | Some s' \<Rightarrow>
                 (case time_spaces (drop more_read p) (n - more_read) of
                    None \<Rightarrow> None
                  | Some (q, m) \<Rightarrow> time_loop is_sec s' q m))))"
  by pat_completeness auto
termination
  by (relation "measure (\<lambda>(is_sec, s, p, n). n)") (auto dest!: time_spaces_length)

definition ngx_parse_time :: "bytes \<Rightarrow> nat \<Rightarrow> bool \<Rightarrow> u64 option" where
  "ngx_parse_time line len is_sec =
    time_loop is_sec
      \<lparr>t_value = 0, t_total = 0, t_step = (if is_sec then St_start else St_month), t_scale = time_base is_sec, t_valid = False\<rparr>
      line len"

subsection \<open>Sizes and offsets: correctness\<close>

lemma atosz_append:
  assumes "ds \<noteq> []" "list_all is_digit ds" "dec_value ds < 2 ^ 63"
  shows "ngx_atosz (ds @ rest) (length ds) = Some (word_of_nat (dec_value ds))"
    "ngx_atoof (ds @ rest) (length ds) = Some (word_of_nat (dec_value ds))"
  using atoi_loop_dec [of "length ds" "ds @ rest"] assms not_bit_small [OF assms(3)]
  by (simp_all add: ngx_atosz_def ngx_atoof_def)

lemma word_of_nat_not_err:
  assumes "n < 2 ^ 63"
  shows "(word_of_nat n :: u64) \<noteq> NGX_ERR"
proof
  assume "(word_of_nat n :: u64) = NGX_ERR"
  then have "unat (word_of_nat n :: u64) = unat NGX_ERR" by simp
  then show False using assms by (simp add: unsigned_of_nat take_bit_nat_eq_self unsigned_minus_1_eq_mask mask_eq_exp_minus_1)
qed

lemma digit_no_unit: "is_digit c \<Longrightarrow> size_unit c = (0, 1) \<and> offset_unit c = (0, 1)"
  by (auto simp: is_digit_def size_unit_def offset_unit_def)

text \<open>The factor of a unit character.\<close>

definition size_factor :: "byte \<Rightarrow> nat option" where
  "size_factor u =
    (if ngx_tolower u = 0x6B then Some 1024
     else if ngx_tolower u = 0x6D then Some (1024 ^ 2)
     else if ngx_tolower u = 0x67 then Some (1024 ^ 3)
     else None)"

lemma tolower_unit:
  "ngx_tolower c = 0x6B \<longleftrightarrow> c = 0x6B \<or> c = ch_K"
  "ngx_tolower c = 0x6D \<longleftrightarrow> c = 0x6D \<or> c = ch_M"
  "ngx_tolower c = 0x67 \<longleftrightarrow> c = 0x67 \<or> c = ch_G"
  by (auto simp: ngx_tolower_cases eq_diff_eq [symmetric])

lemma offset_size_factor:
  "offset_unit u = (case size_factor u of Some k \<Rightarrow> (1, word_of_nat k) | None \<Rightarrow> (0, 1))"
  by (auto simp: offset_unit_def size_factor_def tolower_unit)

lemma size_unit_offset: "size_unit u = (if ngx_tolower u = 0x67 then (0, 1) else offset_unit u)"
  by (auto simp: offset_unit_def size_unit_def tolower_unit)

lemma size_factor_digit: "is_digit u \<Longrightarrow> size_factor u = None"
  by (auto simp: is_digit_def size_factor_def tolower_unit)

text \<open>
  C31. A decimal number is read as a size or an offset, with the factor of its unit: 1024 for \<open>k\<close>, \<open>1024\<^sup>2\<close> for
  \<open>m\<close> and, for offsets only, \<open>1024\<^sup>3\<close> for \<open>g\<close>, in either case.  The product is taken modulo \<open>2\<^sup>6\<^sup>4\<close>.
\<close>

theorem parse_size_correct:
  assumes "ds \<noteq> []" "list_all is_digit ds" "dec_value ds < 2 ^ 63"
  shows "ngx_parse_size (ds @ rest) (length ds) = Some (word_of_nat (dec_value ds)) \<and>
    ngx_parse_offset (ds @ rest) (length ds) = Some (word_of_nat (dec_value ds)) \<and>
    (size_factor u = Some k \<longrightarrow>
      ngx_parse_offset (ds @ u # rest) (length ds + 1) = Some (word_of_nat (dec_value ds * k)) \<and>
      (ngx_tolower u \<noteq> 0x67 \<longrightarrow> ngx_parse_size (ds @ u # rest) (length ds + 1) = Some (word_of_nat (dec_value ds * k))))"
proof -
  have "is_digit (ds ! (length ds - 1))" using assms(1,2) by (auto simp: list_all_length)
  then have d: "is_digit ((ds @ rest) ! (length ds - 1))" using assms(1) by (auto simp: nth_append)
  note n = atosz_append [OF assms, of rest] atosz_append [OF assms, of "u # rest"] word_of_nat_not_err [OF assms(3)]
  have "length ds - 1 < length ds + length rest" using assms(1) by (cases ds) auto
  then show ?thesis
    using n digit_no_unit [OF d] assms(1)
    by (auto simp: ngx_parse_size_def ngx_parse_offset_def size_unit_offset offset_size_factor nth_append)
qed

theorem parse_size_correct_witness:
  "ngx_parse_size (str ''10'' @ [ch_M]) (length (str ''10'') + 1) = Some 10485760"
  using parse_size_correct [of "str ''10''" "[]" ch_M "1024 ^ 2"]
  by (simp add: str_def is_digit_def dec_value_def size_factor_def ngx_tolower_def)

text \<open>
  C32. A string that has no digits, or another character than a digit in front of its unit, is neither a size
  nor an offset: both functions return \<open>NGX_ERROR\<close>.
\<close>

theorem parse_size_rejects:
  assumes "0 < n" "n \<le> length line"
    and "body = take (if size_factor (line ! (n - 1)) = None then n else n - 1) line"
    and "body = [] \<or> \<not> list_all is_digit body"
  shows "ngx_parse_size line n = Some NGX_ERR \<and> ngx_parse_offset line n = Some NGX_ERR"
proof -
  let ?u = "line ! (n - 1)"
  have rd: "atoi_loop 0 line k = Some NGX_ERR" if "k \<le> n" "\<not> list_all is_digit (take k line)" for k
    using atoi_loop_dec [of k line] assms(2) that by simp
  have line: "take n line = take (n - 1) line @ [?u]"
    using assms(1,2) take_Suc_conv_app_nth [of "n - 1" line] by simp
  have g: "\<not> list_all is_digit (take n line)" if "size_factor ?u \<noteq> None"
    unfolding line using that size_factor_digit [of ?u] by auto
  have l: "n - 1 < length line" using assms(1,2) by simp
  show ?thesis
  proof (cases "size_factor ?u")
    case None
    then have "body = take n line" using assms(3) by simp
    then have "\<not> list_all is_digit (take n line)" using assms(4) l by (auto simp: line)
    from rd [OF le_refl this] show ?thesis using None l assms(1)
      by (simp add: ngx_parse_size_def ngx_parse_offset_def size_unit_offset offset_size_factor ngx_atosz_def ngx_atoof_def)
  next
    case (Some k)
    then have b: "body = take (n - 1) line" using assms(3) by simp
    then have "n - 1 = 0 \<or> \<not> list_all is_digit (take (n - 1) line)" using assms(4) l by auto
    then have "ngx_atosz line (n - 1) = Some NGX_ERR" "ngx_atoof line (n - 1) = Some NGX_ERR"
      using rd [of "n - 1"] by (auto simp: ngx_atosz_def ngx_atoof_def)
    moreover have "ngx_atosz line n = Some NGX_ERR" using rd [OF le_refl g] Some by (simp add: ngx_atosz_def)
    ultimately show ?thesis using Some l assms(1)
      by (simp add: ngx_parse_size_def ngx_parse_offset_def size_unit_offset offset_size_factor)
  qed
qed

theorem parse_size_rejects_witness:
  "ngx_parse_offset (str ''1x3k'') 4 = Some NGX_ERR"
proof -
  have "\<not> list_all is_digit (take (if size_factor (str ''1x3k'' ! (4 - 1)) = None then 4 else 4 - 1) (str ''1x3k''))"
    by (simp add: str_def size_factor_def ngx_tolower_def is_digit_def)
  moreover have "4 \<le> length (str ''1x3k'')" by (simp add: str_def)
  ultimately show ?thesis using parse_size_rejects [of 4 "str ''1x3k''", OF _ _ refl] by simp
qed

text \<open>The scaling is not checked for overflow.\<close>

lemma parse_size_wraps: "ngx_parse_size (str ''18014398509481985k'') 18 = Some 1024"
proof -
  have "str ''18014398509481985k'' = str ''18014398509481985'' @ [0x6B]" "length (str ''18014398509481985'') = 17"
    "list_all is_digit (str ''18014398509481985'')" "str ''18014398509481985'' \<noteq> []" "dec_value (str ''18014398509481985'') = 18014398509481985"
    by (simp_all add: str_def is_digit_def dec_value_def)
  then show ?thesis using atosz_append(1) [of "str ''18014398509481985''" "[0x6B]"]
    by (auto simp: ngx_parse_size_def size_unit_def nth_append)
qed

subsection \<open>Times: correctness\<close>

text \<open>The units of the notation, their text, their place in the order and their length in seconds.\<close>

datatype tunit = U_year | U_month | U_week | U_day | U_hour | U_min | U_sec | U_msec

primrec unit_text :: "tunit \<Rightarrow> bytes" where
  "unit_text U_year = [0x79]"
| "unit_text U_month = [ch_M]"
| "unit_text U_week = [0x77]"
| "unit_text U_day = [0x64]"
| "unit_text U_hour = [0x68]"
| "unit_text U_min = [0x6D]"
| "unit_text U_sec = [0x73]"
| "unit_text U_msec = [0x6D, 0x73]"

primrec unit_step :: "tunit \<Rightarrow> time_step" where
  "unit_step U_year = St_year"
| "unit_step U_month = St_month"
| "unit_step U_week = St_week"
| "unit_step U_day = St_day"
| "unit_step U_hour = St_hour"
| "unit_step U_min = St_min"
| "unit_step U_sec = St_sec"
| "unit_step U_msec = St_msec"

primrec unit_seconds :: "tunit \<Rightarrow> nat" where
  "unit_seconds U_year = 31536000"
| "unit_seconds U_month = 2592000"
| "unit_seconds U_week = 604800"
| "unit_seconds U_day = 86400"
| "unit_seconds U_hour = 3600"
| "unit_seconds U_min = 60"
| "unit_seconds U_sec = 1"
| "unit_seconds U_msec = 0"

definition unit_length :: "bool \<Rightarrow> tunit \<Rightarrow> nat" where
  "unit_length is_sec u = (if u = U_msec then 1 else if is_sec then unit_seconds u else unit_seconds u * 1000)"

text \<open>A time: numbers with units, each followed by any number of spaces.\<close>

type_synonym time_part = "bytes \<times> tunit \<times> nat"

definition part_text :: "time_part \<Rightarrow> bytes" where
  "part_text = (\<lambda>(ds, u, k). ds @ unit_text u @ replicate k ch_space)"

fun parts_ok :: "bool \<Rightarrow> time_step \<Rightarrow> time_part list \<Rightarrow> bool" where
  "parts_ok is_sec st [] = True"
| "parts_ok is_sec st ((ds, u, k) # cs) =
    (ds \<noteq> [] \<and> list_all is_digit ds \<and> st < unit_step u \<and> (is_sec \<longrightarrow> u \<noteq> U_msec) \<and> parts_ok is_sec (unit_step u) cs)"

definition time_text :: "time_part list \<Rightarrow> bytes" where
  "time_text cs = concat (map part_text cs)"

definition time_sum :: "bool \<Rightarrow> time_part list \<Rightarrow> nat" where
  "time_sum is_sec cs = sum_list (map (\<lambda>(ds, u, k). dec_value ds * unit_length is_sec u) cs)"

lemma time_loop_digits:
  "list_all is_digit ds \<Longrightarrow> t_value s = word_of_nat v \<Longrightarrow> time_loop is_sec s (ds @ p) (length ds + n) =
    time_loop is_sec (s\<lparr>t_value := word_of_nat (foldl dec_step v ds), t_valid := t_valid s \<or> ds \<noteq> []\<rparr>) p n"
proof (induction ds arbitrary: s v)
  case Nil
  then show ?case by (cases s) simp
next
  case (Cons c ds)
  have "time_loop is_sec s ((c # ds) @ p) (length (c # ds) + n) =
      time_loop is_sec (s\<lparr>t_value := t_value s * 10 + ucast (c - ch_0), t_valid := True\<rparr>) (ds @ p) (length ds + n)"
    using Cons.prems by (simp add: is_digit_def)
  also have "t_value s * 10 + ucast (c - ch_0) = word_of_nat (dec_step v c)"
    using Cons.prems ucast_digit [of c, where ?'a = 64] by simp
  finally show ?case using Cons.IH [of "s\<lparr>t_value := word_of_nat (dec_step v c), t_valid := True\<rparr>" "dec_step v c"] Cons.prems
    by (simp del: of_nat_add of_nat_mult)
qed

lemma time_spaces_replicate:
  assumes "n = 0 \<or> (\<exists>c q. p = c # q \<and> c \<noteq> ch_space)"
  shows "time_spaces (replicate k ch_space @ p) (k + n) = Some (p, n)"
proof (induction k)
  case 0
  then show ?case using assms by (cases n) auto
qed simp

lemma not_after_start: "st < St_year \<Longrightarrow> \<not> St_start < st"
  by (cases st) (simp_all add: less_time_step_def)

lemma unit_of_text:
  assumes "st < unit_step u" "is_sec \<longrightarrow> u \<noteq> U_msec" "p = c # q" "c \<noteq> 0x73"
  shows "\<exists>mx sc. time_unit_of is_sec st (hd (unit_text u)) (tl (unit_text u) @ p) =
      Unit (unit_step u) mx sc (length (unit_text u) - 1) \<and>
    (if unit_step u \<noteq> St_msec \<and> \<not> is_sec then (sc * 1000, mx div 1000) else (sc, mx)) =
      (word_of_nat (unit_length is_sec u), word_of_nat (0x7fffffff div unit_length is_sec u))"
  using assms
  by (cases u; cases is_sec)
    (simp_all add: time_unit_of_def unit_if_def unit_length_def not_after_start linorder_not_le)

lemma time_add_part:
  assumes "t_value s = word_of_nat v" "t_total s = word_of_nat t" "t + v * l \<le> 0x7fffffff" "0 < l"
    and "(if step \<noteq> St_msec \<and> \<not> is_sec then (sc * 1000, mx div 1000) else (sc, mx)) = (word_of_nat l, word_of_nat (0x7fffffff div l))"
  shows "time_add is_sec s step mx sc =
    Some (s\<lparr>t_value := 0, t_total := word_of_nat (t + v * l), t_step := step, t_scale := time_base is_sec\<rparr>)"
proof -
  have "v * l \<le> 0x7fffffff" using assms(3) by simp
  then have vl: "v \<le> 0x7fffffff div l" using assms(4) by (simp add: less_eq_div_iff_mult_less_eq)
  then have v: "v \<le> 0x7fffffff" using div_le_dividend [of "0x7fffffff" l] by linarith
  have u: "unat (word_of_nat k :: u64) = k" if "k \<le> 0x7fffffff" for k
    using that by (simp add: unsigned_of_nat take_bit_nat_eq_self)
  have "\<not> (word_of_nat v :: u64) > word_of_nat (0x7fffffff div l)"
    using vl v by (simp add: word_less_nat_alt u div_le_dividend not_less)
  moreover have "\<not> (word_of_nat (t + v * l) :: u64) > MAX_INT32"
    using assms(3) by (simp add: word_less_nat_alt u not_less del: of_nat_add of_nat_mult)
  ultimately show ?thesis using assms(1,2) unfolding time_add_def assms(5) by (simp add: Let_def)
qed

lemma unit_length_pos: "0 < unit_length is_sec u"
  by (cases u) (auto simp: unit_length_def)

lemma unit_text_not_digit: "\<not> is_digit (hd (unit_text u))"
  by (cases u) (auto simp: is_digit_def)

text \<open>One part: digits, unit and spaces.\<close>

lemma time_loop_part:
  assumes "t_value s = 0" "t_total s = word_of_nat t" "parts_ok is_sec (t_step s) [(ds, u, k)]"
    and "t + dec_value ds * unit_length is_sec u \<le> 0x7fffffff"
    and "p = c # q" "c \<noteq> ch_space" "c \<noteq> 0x73"
  shows "time_loop is_sec s (part_text (ds, u, k) @ p) (length (part_text (ds, u, k)) + n) =
    time_loop is_sec \<lparr>t_value = 0, t_total = word_of_nat (t + dec_value ds * unit_length is_sec u), t_step = unit_step u,
      t_scale = time_base is_sec, t_valid = True\<rparr> p n"
proof -
  let ?s = "s\<lparr>t_value := word_of_nat (dec_value ds), t_valid := True\<rparr>"
  let ?p = "replicate k ch_space @ p"
  obtain h r where h: "unit_text u = h # r" by (cases u) auto
  have "\<exists>c q. ?p = c # q \<and> c \<noteq> 0x73" using assms(5,7) by (cases k) auto
  then obtain mx sc where u: "time_unit_of is_sec (t_step s) h (r @ ?p) = Unit (unit_step u) mx sc (length r)"
    "(if unit_step u \<noteq> St_msec \<and> \<not> is_sec then (sc * 1000, mx div 1000) else (sc, mx)) =
      (word_of_nat (unit_length is_sec u), word_of_nat (0x7fffffff div unit_length is_sec u))"
    using unit_of_text [of "t_step s" u is_sec ?p] assms(3) h by auto
  note add = time_add_part [of ?s "dec_value ds" t, OF _ _ assms(4) unit_length_pos u(2)]
  have hd: "(ch_0 \<le> h \<and> h \<le> ch_9) = False" using unit_text_not_digit [of u] by (simp add: h is_digit_def)
  have "time_loop is_sec s (part_text (ds, u, k) @ p) (length (part_text (ds, u, k)) + n) =
      time_loop is_sec ?s (h # r @ ?p) (Suc (length r + k + n))"
    using time_loop_digits [of ds s 0 is_sec "h # r @ ?p" "Suc (length r + k + n)"] assms(1,3)
    by (simp add: part_text_def h dec_value_def add.assoc del: time_loop.simps)
  also have "\<dots> = time_loop is_sec (?s\<lparr>t_value := 0, t_total := word_of_nat (t + dec_value ds * unit_length is_sec u),
      t_step := unit_step u, t_scale := time_base is_sec\<rparr>) p n"
    using u(1) add time_spaces_replicate [of n p k] assms(2,5,6)
    unfolding time_loop.simps hd by (simp add: add.assoc del: of_nat_add of_nat_mult time_loop.simps)
  finally show ?thesis by (cases s) simp
qed

lemma time_text_Cons: "time_text (c # cs) = part_text c @ time_text cs"
  by (simp add: time_text_def)

lemma parts_head:
  assumes "parts_ok is_sec st cs" "list_all is_digit tail" "e \<noteq> ch_space" "e \<noteq> 0x73"
  shows "\<exists>c q. time_text cs @ tail @ e # rest = c # q \<and> c \<noteq> ch_space \<and> c \<noteq> 0x73"
proof -
  have d: "c \<noteq> ch_space \<and> c \<noteq> 0x73" if "is_digit c" for c using that by (auto simp: is_digit_def)
  show ?thesis
  proof (cases cs)
    case Nil
    then show ?thesis using assms d by (cases tail) (auto simp: time_text_def)
  next
    case (Cons a as)
    then obtain ds u k where a: "cs = (ds, u, k) # as" by (cases a) auto
    then show ?thesis using assms(1) d by (cases ds) (auto simp: time_text_def part_text_def)
  qed
qed

lemma time_loop_parts:
  assumes "parts_ok is_sec (t_step s) cs" "t_value s = 0" "t_total s = word_of_nat t" "t_scale s = time_base is_sec"
    and "t + time_sum is_sec cs \<le> 0x7fffffff" "t_valid s \<or> cs \<noteq> [] \<or> tail \<noteq> []"
    and "list_all is_digit tail" "e \<noteq> ch_space" "e \<noteq> 0x73"
  shows "time_loop is_sec s (time_text cs @ tail @ e # rest) (length (time_text cs @ tail)) =
    Some (word_of_nat (t + time_sum is_sec cs) + word_of_nat (dec_value tail) * time_base is_sec)"
  using assms(1-6)
proof (induction cs arbitrary: s t)
  case Nil
  then show ?case using time_loop_digits [of tail s 0 is_sec "e # rest" 0] assms(7)
    by (auto simp: time_text_def time_sum_def dec_value_def)
next
  case (Cons a cs)
  obtain ds u k where a: "a = (ds, u, k)" by (cases a)
  let ?l = "dec_value ds * unit_length is_sec u" and ?p = "time_text cs @ tail @ e # rest"
  let ?s = "\<lparr>t_value = 0, t_total = word_of_nat (t + ?l), t_step = unit_step u, t_scale = time_base is_sec, t_valid = True\<rparr>"
  have sum: "time_sum is_sec (a # cs) = ?l + time_sum is_sec cs" by (simp add: time_sum_def a)
  have ok: "parts_ok is_sec (t_step s) [(ds, u, k)]" "parts_ok is_sec (unit_step u) cs" using Cons.prems(1) by (auto simp: a)
  obtain c q where p: "?p = c # q" "c \<noteq> ch_space" "c \<noteq> 0x73" using parts_head [OF ok(2) assms(7-9)] by blast
  have l: "t + ?l \<le> 0x7fffffff" using Cons.prems(5) sum by simp
  have "time_loop is_sec s (time_text (a # cs) @ tail @ e # rest) (length (time_text (a # cs) @ tail)) =
      time_loop is_sec ?s ?p (length (time_text cs @ tail))"
    using time_loop_part [OF Cons.prems(2,3) ok(1) l p, of "length (time_text cs @ tail)"]
    by (simp only: time_text_Cons a append_assoc length_append)
  also have "\<dots> = Some (word_of_nat (t + ?l + time_sum is_sec cs) + word_of_nat (dec_value tail) * time_base is_sec)"
    using Cons.IH [of ?s "t + ?l"] ok(2) Cons.prems(5) sum by (simp del: of_nat_add of_nat_mult)
  finally show ?case by (simp only: sum add.assoc)
qed

text \<open>
  C30. A time in the notation of the configuration is read as the sum of its parts: numbers with the units
  year, month, week, day, hour, minute, second and millisecond in this order, separated by spaces, and a last number
  without a unit that counts seconds.  The result is in seconds or milliseconds, as \<open>is_sec\<close> asks, if the
  parts with a unit do not exceed \<open>2\<^sup>3\<^sup>1 - 1\<close>.
\<close>

theorem parse_time_correct:
  assumes "parts_ok is_sec (if is_sec then St_start else St_month) cs" "list_all is_digit tail" "cs \<noteq> [] \<or> tail \<noteq> []"
    and "time_sum is_sec cs \<le> 0x7fffffff" "e \<noteq> ch_space" "e \<noteq> 0x73"
  shows "ngx_parse_time (time_text cs @ tail @ e # rest) (length (time_text cs @ tail)) is_sec =
    Some (word_of_nat (time_sum is_sec cs + dec_value tail * (if is_sec then 1 else 1000)))"
  unfolding ngx_parse_time_def using assms
  by (subst time_loop_parts [where t = 0]) (auto simp: time_base_def)

theorem parse_time_correct_witness:
  "ngx_parse_time (str ''1h 30m15'' @ [NUL]) 8 True = Some 5415"
proof -
  let ?cs = "[(str ''1'', U_hour, 1), (str ''30'', U_min, 0)]"
  have t: "time_text ?cs @ str ''15'' @ NUL # [] = str ''1h 30m15'' @ [NUL]" "length (time_text ?cs @ str ''15'') = 8"
    "parts_ok True St_start ?cs" "list_all is_digit (str ''15'')" "time_sum True ?cs = 5400" "dec_value (str ''15'') = 15"
    by (simp_all add: time_text_def part_text_def str_def is_digit_def less_time_step_def time_sum_def unit_length_def dec_value_def)
  show ?thesis using parse_time_correct [of True ?cs "str ''15''" NUL "[]"] unfolding t(1,2,5,6) using t(3,4) by simp
qed

text \<open>
  The last number is not checked against the bound, and a \<open>m\<close> at the end is taken together with the
  byte behind the string.
\<close>

lemma parse_time_trailing: "ngx_parse_time (str ''18446744073709551617'' @ [NUL]) 20 True = Some 1"
proof -
  have "list_all is_digit (str ''18446744073709551617'')" "length (str ''18446744073709551617'') = 20"
    "dec_value (str ''18446744073709551617'') = 18446744073709551617" "str ''18446744073709551617'' \<noteq> []"
    "(18446744073709551617 :: u64) = 1"
    by (simp_all add: str_def is_digit_def dec_value_def)
  then show ?thesis
    using time_loop_parts [of True "\<lparr>t_value = 0, t_total = 0, t_step = St_start, t_scale = 1, t_valid = False\<rparr>" "[]" 0
        "str ''18446744073709551617''" NUL "[]"]
    by (auto simp: ngx_parse_time_def time_base_def time_text_def time_sum_def)
qed


lemma parse_time_behind:
  "ngx_parse_time (str ''5m'' @ [NUL]) 2 False = Some 300000"
  "ngx_parse_time (str ''5m'' @ [0x73]) 2 False = Some 5"
proof -
  have l: "str ''5m'' @ r = 0x35 # 0x6D # r" for r by (simp add: str_def)
  show "ngx_parse_time (str ''5m'' @ [NUL]) 2 False = Some 300000"
    unfolding l ngx_parse_time_def numeral_2_eq_2
    by (simp add: time_base_def time_unit_of_def unit_if_def less_eq_time_step_def time_add_def)
  show "ngx_parse_time (str ''5m'' @ [0x73]) 2 False = Some 5"
    unfolding l ngx_parse_time_def numeral_2_eq_2
    by (simp add: time_base_def time_unit_of_def unit_if_def less_eq_time_step_def time_add_def)
qed

end
