(* ===== verification/Ngx_Utf8.thy ===== *)
theory Ngx_Utf8
  imports Ngx_Prelude
begin

section \<open>UTF-8\<close>

text \<open>
  \<open>ngx_utf8_decode\<close>, \<open>ngx_utf8_length\<close> and \<open>ngx_utf8_cpystrn\<close> of \<open>src/core/ngx_string.c\<close>.  A pointer is the list of
  the bytes readable from it; the moves of the pointer \<open>*p\<close> are returned as a number of bytes.  \<open>None\<close> is a read
  behind the memory.
\<close>

subsection \<open>Model\<close>

text \<open>The lead byte: its data bits, the bound for overlong forms and the number of bytes to follow.\<close>

definition utf8_lead :: "u32 \<Rightarrow> (u32 \<times> u32 \<times> nat) option" where
  "utf8_lead u =
    (if u \<ge> 0xf0 then Some (u AND 0x07, 0xffff, 3)
     else if u \<ge> 0xe0 then Some (u AND 0x0f, 0x7ff, 2)
     else if u \<ge> 0xc2 then Some (u AND 0x1f, 0x7f, 1)
     else None)"

text \<open>The loop over the following bytes: the character, or \<open>None\<close> for \<open>0xffffffff\<close>, and the moves of the pointer.\<close>

fun utf8_tail :: "u32 \<Rightarrow> bytes \<Rightarrow> nat \<Rightarrow> nat \<Rightarrow> (u32 option \<times> nat) option" where
  "utf8_tail u p 0 k = Some (Some u, k)"
| "utf8_tail u [] (Suc len) k = None"
| "utf8_tail u (c # p) (Suc len) k =
    (let i = ucast c :: u32 in
     if i < 0x80 then Some (None, k + 1) else utf8_tail (push_bit 6 u OR (i AND 0x3f)) p len (k + 1))"

definition ngx_utf8_decode :: "bytes \<Rightarrow> u64 \<Rightarrow> (u32 \<times> nat) option" where
  "ngx_utf8_decode p n =
    (case p of
       [] \<Rightarrow> None
     | c # q \<Rightarrow>
         (case utf8_lead (ucast c) of
            None \<Rightarrow> Some (0xffffffff, 1)
          | Some (u, valid, len) \<Rightarrow>
              if n - 1 < word_of_nat len then Some (0xfffffffe, 0)
              else
                (case utf8_tail u q len 1 of
                   None \<Rightarrow> None
                 | Some (None, k) \<Rightarrow> Some (0xffffffff, k)
                 | Some (Some u, k) \<Rightarrow> Some (if u > valid then u else 0xffffffff, k))))"

lemma utf8_tail_moves: "utf8_tail u p len k = Some (r, k') \<Longrightarrow> k \<le> k'"
  by (induction u p len k rule: utf8_tail.induct) (auto simp: Let_def split: if_splits)

lemma utf8_decode_moves:
  assumes "ngx_utf8_decode p n = Some (u, k)" "u \<noteq> 0xfffffffe"
  shows "0 < k"
  using assms by (auto simp: ngx_utf8_decode_def dest!: utf8_tail_moves split: list.splits option.splits if_splits)

text \<open>\<open>ngx_utf8_length\<close>: \<open>left\<close> is \<open>last - p\<close>, or 0 when \<open>p\<close> has passed \<open>last\<close>.\<close>

function utf8_length_loop :: "bytes \<Rightarrow> nat \<Rightarrow> nat \<Rightarrow> nat \<Rightarrow> nat option" where
  "utf8_length_loop p left n len =
    (if left = 0 then Some len
     else
       (case p of
          [] \<Rightarrow> None
        | c # q \<Rightarrow>
            if c < 0x80 then utf8_length_loop q (left - 1) n (len + 1)
            else
              (case ngx_utf8_decode p (word_of_nat n) of
                 None \<Rightarrow> None
               | Some (u, k) \<Rightarrow>
                   if u > 0x10ffff then Some n else utf8_length_loop (drop k p) (left - k) n (len + 1))))"
  by auto
termination
  by (relation "measure (\<lambda>(p, left, n, len). left)") (auto dest: utf8_decode_moves)

definition ngx_utf8_length :: "bytes \<Rightarrow> nat \<Rightarrow> nat option" where
  "ngx_utf8_length p n = utf8_length_loop p n n 0"

text \<open>\<open>ngx_utf8_cpystrn\<close>: the bytes in front of the terminator; \<open>n\<close> counts the passes of \<open>while (--n)\<close>.\<close>

fun utf8_cpystrn_loop :: "bytes \<Rightarrow> nat \<Rightarrow> u64 \<Rightarrow> bytes option" where
  "utf8_cpystrn_loop src 0 len = Some []"
| "utf8_cpystrn_loop src (Suc n) len =
    (case src of
       [] \<Rightarrow> None
     | c # q \<Rightarrow>
         if c < 0x80 then
           (if c \<noteq> NUL then map_option (\<lambda>dst. c # dst) (utf8_cpystrn_loop q n (len - 1)) else Some [])
         else
           (case ngx_utf8_decode src len of
              None \<Rightarrow> None
            | Some (u, k) \<Rightarrow>
                if u > 0x10ffff then Some []
                else map_option (\<lambda>dst. take k src @ dst) (utf8_cpystrn_loop (drop k src) n (len - word_of_nat k))))"

definition ngx_utf8_cpystrn :: "bytes \<Rightarrow> nat \<Rightarrow> u64 \<Rightarrow> bytes option" where
  "ngx_utf8_cpystrn src n len =
    (if n = 0 then Some [] else map_option (\<lambda>dst. dst @ [NUL]) (utf8_cpystrn_loop src (n - 1) len))"

declare utf8_length_loop.simps [simp del]

subsection \<open>The encoding\<close>

definition utf8_encode :: "nat \<Rightarrow> bytes" where
  "utf8_encode u =
    (if u < 0x80 then [word_of_nat u]
     else if u < 0x800 then [word_of_nat (0xc0 + u div 64), word_of_nat (0x80 + u mod 64)]
     else if u < 0x10000 then
       [word_of_nat (0xe0 + u div 4096), word_of_nat (0x80 + u div 64 mod 64), word_of_nat (0x80 + u mod 64)]
     else
       [word_of_nat (0xf0 + u div 262144), word_of_nat (0x80 + u div 4096 mod 64), word_of_nat (0x80 + u div 64 mod 64),
        word_of_nat (0x80 + u mod 64)])"

text \<open>One following byte shifts six more bits in.\<close>

lemma tail_bits: "b < 64 \<Longrightarrow> (ucast (word_of_nat (0x80 + b) :: byte) :: u32) AND 0x3f = word_of_nat b"
  by (rule list_all_upt [where P = "\<lambda>b. (ucast (word_of_nat (0x80 + b) :: byte) :: u32) AND 0x3f = word_of_nat b" and m = 0])
    (simp_all add: upt_rec)

lemma tail_high: "b < 64 \<Longrightarrow> \<not> (ucast (word_of_nat (0x80 + b) :: byte) :: u32) < 0x80"
  by (rule list_all_upt [where P = "\<lambda>b. \<not> (ucast (word_of_nat (0x80 + b) :: byte) :: u32) < 0x80" and m = 0])
    (simp_all add: upt_rec)

lemma shift_in:
  assumes "b < 64"
  shows "push_bit 6 (word_of_nat a) OR word_of_nat b = (word_of_nat (a * 64 + b) :: u32)"
proof -
  have p: "push_bit 6 (word_of_nat a :: u32) = word_of_nat (a * 64)" by (simp add: push_bit_eq_mult)
  have "\<not> bit (word_of_nat b :: u32) n" if "6 \<le> n" for n
  proof -
    have "b < 2 ^ n" using assms power_increasing [OF that, of "2 :: nat"] by simp
    then have "\<not> bit b n" by (simp add: bit_iff_odd)
    then show ?thesis by (simp add: bit_of_nat_iff)
  qed
  then have "push_bit 6 (word_of_nat a :: u32) + word_of_nat b = push_bit 6 (word_of_nat a) OR word_of_nat b"
    by (intro disjunctive_add) (auto simp: bit_push_bit_iff not_le)
  then show ?thesis by (simp add: p)
qed

lemma utf8_tail_step:
  assumes "b < 64"
  shows "utf8_tail (word_of_nat a) (word_of_nat (0x80 + b) # p) (Suc len) k = utf8_tail (word_of_nat (a * 64 + b)) p len (k + 1)"
  unfolding utf8_tail.simps Let_def tail_bits [OF assms] shift_in [OF assms] using tail_high [OF assms] by simp

lemma utf8_lead_byte:
  "2 \<le> a \<Longrightarrow> a < 32 \<Longrightarrow> utf8_lead (ucast (word_of_nat (0xc0 + a) :: byte)) = Some (word_of_nat a, 0x7f, 1)"
  "a < 16 \<Longrightarrow> utf8_lead (ucast (word_of_nat (0xe0 + a) :: byte)) = Some (word_of_nat a, 0x7ff, 2)"
  "a < 8 \<Longrightarrow> utf8_lead (ucast (word_of_nat (0xf0 + a) :: byte)) = Some (word_of_nat a, 0xffff, 3)"
proof -
  show "2 \<le> a \<Longrightarrow> a < 32 \<Longrightarrow> utf8_lead (ucast (word_of_nat (0xc0 + a) :: byte)) = Some (word_of_nat a, 0x7f, 1)"
    by (rule list_all_upt [where P = "\<lambda>a. utf8_lead (ucast (word_of_nat (0xc0 + a) :: byte)) = Some (word_of_nat a, 0x7f, 1)"])
      (simp_all add: upt_rec utf8_lead_def)
  show "a < 16 \<Longrightarrow> utf8_lead (ucast (word_of_nat (0xe0 + a) :: byte)) = Some (word_of_nat a, 0x7ff, 2)"
    by (rule list_all_upt [where P = "\<lambda>a. utf8_lead (ucast (word_of_nat (0xe0 + a) :: byte)) = Some (word_of_nat a, 0x7ff, 2)" and m = 0])
      (simp_all add: upt_rec utf8_lead_def)
  show "a < 8 \<Longrightarrow> utf8_lead (ucast (word_of_nat (0xf0 + a) :: byte)) = Some (word_of_nat a, 0xffff, 3)"
    by (rule list_all_upt [where P = "\<lambda>a. utf8_lead (ucast (word_of_nat (0xf0 + a) :: byte)) = Some (word_of_nat a, 0xffff, 3)" and m = 0])
      (simp_all add: upt_rec utf8_lead_def)
qed

lemma utf8_value:
  "(u :: nat) div 64 * 64 + u mod 64 = u"
  "((u :: nat) div 4096 * 64 + u div 64 mod 64) * 64 + u mod 64 = u"
  "(((u :: nat) div 262144 * 64 + u div 4096 mod 64) * 64 + u div 64 mod 64) * 64 + u mod 64 = u"
proof -
  have d: "u div 4096 = u div 64 div 64" "u div 262144 = u div 64 div 64 div 64" by (simp_all add: div_mult2_eq [symmetric])
  show "u div 64 * 64 + u mod 64 = u" "(u div 4096 * 64 + u div 64 mod 64) * 64 + u mod 64 = u"
    "((u div 262144 * 64 + u div 4096 mod 64) * 64 + u div 64 mod 64) * 64 + u mod 64 = u"
    unfolding d by (simp_all only: div_mult_mod_eq)
qed

lemma utf8_bound:
  assumes "u < 0x110000" "v < u" "v < 0x110000"
  shows "(word_of_nat u :: u32) > word_of_nat v"
  using assms by (simp add: word_less_nat_alt unsigned_of_nat take_bit_nat_eq_self)

lemma utf8_decode_tail:
  assumes "utf8_lead (ucast c) = Some (a, valid, len)" "\<not> n - 1 < word_of_nat len"
    and "utf8_tail a p len 1 = Some (Some u, k)" "u > valid"
  shows "ngx_utf8_decode (c # p) n = Some (u, k)"
  using assms by (simp add: ngx_utf8_decode_def)

lemma utf8_room:
  assumes "word_of_nat (Suc k) \<le> n" "k < 4"
  shows "\<not> (n :: u64) - 1 < word_of_nat k"
proof -
  have "unat (word_of_nat (Suc k) :: u64) = Suc k" "unat (word_of_nat k :: u64) = k"
    using assms(2) by (simp_all add: unsigned_of_nat take_bit_nat_eq_self del: of_nat_Suc)
  then show ?thesis using assms(1) by (simp add: word_le_nat_alt word_less_nat_alt unat_sub del: of_nat_Suc)
qed

lemma utf8_tails:
  "utf8_tail (word_of_nat (u div 64)) (word_of_nat (0x80 + u mod 64) # p) 1 1 = Some (Some (word_of_nat u), 2)"
  "utf8_tail (word_of_nat (u div 4096)) (word_of_nat (0x80 + u div 64 mod 64) # word_of_nat (0x80 + u mod 64) # p) 2 1 =
    Some (Some (word_of_nat u), 3)"
  "utf8_tail (word_of_nat (u div 262144)) (word_of_nat (0x80 + u div 4096 mod 64) # word_of_nat (0x80 + u div 64 mod 64) #
    word_of_nat (0x80 + u mod 64) # p) 3 1 = Some (Some (word_of_nat u), 4)"
  unfolding numeral_2_eq_2 numeral_3_eq_3 One_nat_def
  by (simp_all only: utf8_tail_step mod_less_divisor zero_less_numeral utf8_value utf8_tail.simps(1)) simp_all

lemma utf8_decode_encode:
  assumes "0x80 \<le> u" "u < 0x110000" "word_of_nat (length (utf8_encode u)) \<le> n"
  shows "ngx_utf8_decode (utf8_encode u @ rest) n = Some (word_of_nat u, length (utf8_encode u))"
proof -
  consider "u < 0x800" | "0x800 \<le> u" "u < 0x10000" | "0x10000 \<le> u" by linarith
  then show ?thesis
  proof cases
    case 1
    then have e: "utf8_encode u = [word_of_nat (0xc0 + u div 64), word_of_nat (0x80 + u mod 64)]" and d: "u div 64 < 32" "2 \<le> u div 64"
      using assms(1) by (auto simp: utf8_encode_def)
    have r: "word_of_nat (Suc 1) \<le> n" using assms(3) by (simp add: e)
    have "(word_of_nat u :: u32) > 0x7f" using utf8_bound [of u "0x7f"] assms by simp
    from utf8_decode_tail [OF utf8_lead_byte(1) [OF d(2,1)] utf8_room [OF r] utf8_tails(1) this]
    show ?thesis by (simp add: e)
  next
    case 2
    then have e: "utf8_encode u = [word_of_nat (0xe0 + u div 4096), word_of_nat (0x80 + u div 64 mod 64), word_of_nat (0x80 + u mod 64)]"
      and d: "u div 4096 < 16" by (auto simp: utf8_encode_def)
    have r: "word_of_nat (Suc 2) \<le> n" using assms(3) by (simp add: e)
    have "(word_of_nat u :: u32) > 0x7ff" using utf8_bound [of u "0x7ff"] assms 2 by simp
    from utf8_decode_tail [OF utf8_lead_byte(2) [OF d] utf8_room [OF r] utf8_tails(2) this]
    show ?thesis by (simp add: e)
  next
    case 3
    then have e: "utf8_encode u = [word_of_nat (0xf0 + u div 262144), word_of_nat (0x80 + u div 4096 mod 64),
        word_of_nat (0x80 + u div 64 mod 64), word_of_nat (0x80 + u mod 64)]" and d: "u div 262144 < 8"
      using assms(2) by (auto simp: utf8_encode_def)
    have r: "word_of_nat (Suc 3) \<le> n" using assms(3) by (simp add: e)
    have "(word_of_nat u :: u32) > 0xffff" using utf8_bound [of u "0xffff"] assms 3 by simp
    from utf8_decode_tail [OF utf8_lead_byte(3) [OF d] utf8_room [OF r] utf8_tails(3) this]
    show ?thesis by (simp add: e)
  qed
qed

subsection \<open>Correctness\<close>

lemma utf8_ascii: "u < 0x80 \<Longrightarrow> utf8_encode u = [word_of_nat u]"
  by (simp add: utf8_encode_def)

lemma byte_ascii: "u < 0x80 \<Longrightarrow> (word_of_nat u :: byte) < 0x80"
  by (simp add: word_less_nat_alt unsigned_of_nat take_bit_nat_eq_self)

lemma utf8_not_ascii:
  assumes "0x80 \<le> u" "u < 0x110000"
  shows "\<exists>c q. utf8_encode u = c # q \<and> \<not> c < 0x80"
proof -
  have "\<not> (word_of_nat n :: byte) < 0x80" if "0x80 \<le> n" "n < 0x100" for n
    using that by (simp add: word_less_nat_alt unsigned_of_nat take_bit_nat_eq_self)
  from this [of "0xc0 + u div 64"] this [of "0xe0 + u div 4096"] this [of "0xf0 + u div 262144"] assms
  show ?thesis by (auto simp: utf8_encode_def)
qed

lemma utf8_encode_length: "1 \<le> length (utf8_encode u) \<and> length (utf8_encode u) \<le> 4"
  by (simp add: utf8_encode_def)

lemma utf8_not_big: "u < 0x110000 \<Longrightarrow> \<not> (word_of_nat u :: u32) > 0x10ffff"
  by (simp add: word_less_nat_alt unsigned_of_nat take_bit_nat_eq_self)

abbreviation utf8_text :: "nat list \<Rightarrow> bytes" where
  "utf8_text us \<equiv> concat (map utf8_encode us)"

lemma utf8_length_step:
  assumes "u < 0x110000" "length (utf8_encode u) \<le> n" "n < 2 ^ 64"
  shows "utf8_length_loop (utf8_encode u @ p) (length (utf8_encode u) + left) n len = utf8_length_loop p left n (len + 1)"
proof (cases "u < 0x80")
  case True
  then show ?thesis using byte_ascii [OF True] by (subst utf8_length_loop.simps) (simp add: utf8_ascii)
next
  case False
  then obtain c q where e: "utf8_encode u = c # q" "\<not> c < 0x80" using utf8_not_ascii [of u] assms by auto
  have "word_of_nat (length (utf8_encode u)) \<le> (word_of_nat n :: u64)"
    using assms(2,3) by (simp add: word_le_nat_alt unsigned_of_nat take_bit_nat_eq_self)
  from utf8_decode_encode [OF _ assms(1) this, of p] False
  have "ngx_utf8_decode (utf8_encode u @ p) (word_of_nat n) = Some (word_of_nat u, length (utf8_encode u))" by simp
  then show ?thesis using e utf8_not_big [OF assms(1)] by (subst utf8_length_loop.simps) simp
qed

lemma utf8_length_text:
  assumes "list_all (\<lambda>u. u < 0x110000) us" "length (utf8_text us) \<le> n" "n < 2 ^ 64"
  shows "utf8_length_loop (utf8_text us @ rest) (length (utf8_text us)) n len = Some (len + length us)"
  using assms(1,2)
proof (induction us arbitrary: len)
  case Nil
  then show ?case by (subst utf8_length_loop.simps) simp
next
  case (Cons u us)
  then show ?case using utf8_length_step [of u n "utf8_text us @ rest" "length (utf8_text us)" len] assms(3) by simp
qed

lemma utf8_cpystrn_step:
  assumes "0 < u" "u < 0x110000" "word_of_nat (length (utf8_encode u)) \<le> len"
  shows "utf8_cpystrn_loop (utf8_encode u @ p) (Suc n) len =
    map_option (\<lambda>dst. utf8_encode u @ dst) (utf8_cpystrn_loop p n (len - word_of_nat (length (utf8_encode u))))"
proof (cases "u < 0x80")
  case True
  have "(word_of_nat u :: byte) \<noteq> 0" using True assms(1) by (simp add: word_unat_eq_iff unsigned_of_nat take_bit_nat_eq_self)
  then show ?thesis using byte_ascii [OF True] True by (simp add: utf8_ascii)
next
  case False
  then obtain c q where e: "utf8_encode u = c # q" "\<not> c < 0x80" using utf8_not_ascii [of u] assms by auto
  from utf8_decode_encode [OF _ assms(2,3), of p] False
  have "ngx_utf8_decode (utf8_encode u @ p) len = Some (word_of_nat u, length (utf8_encode u))" by simp
  moreover have "(@) (c # q) = (\<lambda>dst. c # q @ dst)" by auto
  ultimately show ?thesis using e utf8_not_big [OF assms(2)] by simp
qed

lemma utf8_cpystrn_text:
  assumes "list_all (\<lambda>u. 0 < u \<and> u < 0x110000) us" "length (utf8_text us) \<le> len" "len < 2 ^ 64"
  shows "utf8_cpystrn_loop (utf8_text us @ NUL # rest) n (word_of_nat len) = Some (utf8_text (take n us))"
  using assms
proof (induction us arbitrary: n len)
  case Nil
  then show ?case by (cases n) auto
next
  case (Cons u us)
  show ?case
  proof (cases n)
    case (Suc m)
    let ?k = "length (utf8_encode u)"
    have k: "?k \<le> len" using Cons.prems(2) by simp
    then have le: "word_of_nat ?k \<le> (word_of_nat len :: u64)"
      using Cons.prems(3) by (simp add: word_le_nat_alt unsigned_of_nat take_bit_nat_eq_self)
    have "(word_of_nat len :: u64) - word_of_nat ?k = word_of_nat (len - ?k)" using k by (simp add: of_nat_diff)
    then show ?thesis
      using utf8_cpystrn_step [OF _ _ le, of "utf8_text us @ NUL # rest" m] Cons.IH [of "len - ?k" m] Cons.prems Suc by simp
  qed simp
qed

text \<open>
  C34. \<open>ngx_utf8_decode\<close> inverts the UTF-8 encoding of every character from \<open>0x80\<close> on and moves the pointer behind
  it; \<open>ngx_utf8_length\<close> counts the characters of a well-formed text, and \<open>ngx_utf8_cpystrn\<close> copies whole
  characters, \<open>n - 1\<close> at most, and terminates the copy.
\<close>

theorem utf8_correct:
  assumes "list_all (\<lambda>u. 0 < u \<and> u < 0x110000) us" "length (utf8_text us) < 2 ^ 64"
  shows "(0x80 \<le> u \<and> u < 0x110000 \<and> 4 \<le> m \<longrightarrow>
      ngx_utf8_decode (utf8_encode u @ rest) m = Some (word_of_nat u, length (utf8_encode u))) \<and>
    ngx_utf8_length (utf8_text us @ rest) (length (utf8_text us)) = Some (length us) \<and>
    (0 < n \<longrightarrow> ngx_utf8_cpystrn (utf8_text us @ NUL # rest) n (word_of_nat (length (utf8_text us))) =
      Some (utf8_text (take (n - 1) us) @ [NUL]))"
proof (intro conjI impI)
  show "ngx_utf8_decode (utf8_encode u @ rest) m = Some (word_of_nat u, length (utf8_encode u))"
    if u: "0x80 \<le> u \<and> u < 0x110000 \<and> 4 \<le> m"
  proof (rule utf8_decode_encode)
    have "(word_of_nat (length (utf8_encode u)) :: u64) \<le> 4"
      using utf8_encode_length [of u] by (simp add: word_le_nat_alt unsigned_of_nat take_bit_nat_eq_self)
    then show "word_of_nat (length (utf8_encode u)) \<le> m" using u by auto
  qed (use u in auto)
  have us: "list_all (\<lambda>u. u < 0x110000) us" using assms(1) by (auto simp: list_all_iff)
  show "ngx_utf8_length (utf8_text us @ rest) (length (utf8_text us)) = Some (length us)"
    using utf8_length_text [OF us order_refl assms(2), of rest 0] by (simp add: ngx_utf8_length_def)
  show "ngx_utf8_cpystrn (utf8_text us @ NUL # rest) n (word_of_nat (length (utf8_text us))) =
      Some (utf8_text (take (n - 1) us) @ [NUL])" if "0 < n"
    using that utf8_cpystrn_text [OF assms(1) order_refl assms(2), of rest "n - 1"] by (simp add: ngx_utf8_cpystrn_def)
qed

theorem utf8_correct_witness:
  "ngx_utf8_length (utf8_text [0x41, 0xe9, 0x20ac]) (length (utf8_text [0x41, 0xe9, 0x20ac])) = Some 3"
  using utf8_correct [of "[0x41, 0xe9, 0x20ac]" 0 0 "[]" 0] by (simp add: utf8_encode_def)

text \<open>
  A following byte is only tested for its highest bit, and \<open>ngx_utf8_length\<close> passes the length of the whole text
  to \<open>ngx_utf8_decode\<close> instead of what is left of it, so that a sequence cut at the end is read across the end.
\<close>

lemma utf8_bad_following_byte: "ngx_utf8_decode [0xc3, 0xe9] 2 = Some (0xe9, 2)"
  by (simp add: ngx_utf8_decode_def utf8_lead_def)

lemma utf8_length_behind: "ngx_utf8_length [0x41, 0xc3] 2 = None"
  by (simp add: ngx_utf8_length_def utf8_length_loop.simps ngx_utf8_decode_def utf8_lead_def)

end
