(* ===== verification/Ngx_Base64.thy ===== *)
theory Ngx_Base64
  imports Ngx_Prelude
begin

section \<open>Base64\<close>

text \<open>
  \<open>ngx_encode_base64\<close>, \<open>ngx_decode_base64\<close>, \<open>ngx_decode_base64url\<close> and \<open>ngx_decode_base64_internal\<close> of
  \<open>src/core/ngx_string.c\<close>.  The argument is the list of the \<open>src->len\<close> bytes of the source, the result the list of the
  bytes stored in the destination.
\<close>

subsection \<open>Model\<close>

definition basis64 :: bytes where
  "basis64 = str ''ABCDEFGHIJKLMNOPQRSTUVWXYZabcdefghijklmnopqrstuvwxyz0123456789+/''"

fun ngx_encode_base64 :: "bytes \<Rightarrow> bytes" where
  "ngx_encode_base64 (s0 # s1 # s2 # s) =
    basis64 ! unat (drop_bit 2 s0 AND 0x3f) #
    basis64 ! unat (push_bit 4 (s0 AND 3) OR drop_bit 4 s1) #
    basis64 ! unat (push_bit 2 (s1 AND 0x0f) OR drop_bit 6 s2) #
    basis64 ! unat (s2 AND 0x3f) # ngx_encode_base64 s"
| "ngx_encode_base64 [s0, s1] =
    [basis64 ! unat (drop_bit 2 s0 AND 0x3f),
     basis64 ! unat (push_bit 4 (s0 AND 3) OR drop_bit 4 s1),
     basis64 ! unat (push_bit 2 (s1 AND 0x0f)),
     ch_eq]"
| "ngx_encode_base64 [s0] =
    [basis64 ! unat (drop_bit 2 s0 AND 0x3f),
     basis64 ! unat (push_bit 4 (s0 AND 3)),
     ch_eq,
     ch_eq]"
| "ngx_encode_base64 [] = []"

text \<open>The decoding tables; 77 marks a character outside the alphabet.\<close>

definition basis64_std :: bytes where
  "basis64_std =
    replicate 43 77 @ [62, 77, 77, 77, 63] @
    [52, 53, 54, 55, 56, 57, 58, 59, 60, 61, 77, 77, 77, 77, 77, 77] @
    [77, 0, 1, 2, 3, 4, 5, 6, 7, 8, 9, 10, 11, 12, 13, 14,
     15, 16, 17, 18, 19, 20, 21, 22, 23, 24, 25, 77, 77, 77, 77, 77] @
    [77, 26, 27, 28, 29, 30, 31, 32, 33, 34, 35, 36, 37, 38, 39, 40,
     41, 42, 43, 44, 45, 46, 47, 48, 49, 50, 51, 77, 77, 77, 77, 77] @
    replicate 128 77"

definition basis64_url :: bytes where
  "basis64_url =
    replicate 45 77 @ [62, 77, 77] @
    [52, 53, 54, 55, 56, 57, 58, 59, 60, 61, 77, 77, 77, 77, 77, 77] @
    [77, 0, 1, 2, 3, 4, 5, 6, 7, 8, 9, 10, 11, 12, 13, 14,
     15, 16, 17, 18, 19, 20, 21, 22, 23, 24, 25, 77, 77, 77, 77, 63] @
    [77, 26, 27, 28, 29, 30, 31, 32, 33, 34, 35, 36, 37, 38, 39, 40,
     41, 42, 43, 44, 45, 46, 47, 48, 49, 50, 51, 77, 77, 77, 77, 77] @
    replicate 128 77"

text \<open>The first loop: the number of bytes before the padding, or an error.\<close>

fun base64_len :: "bytes \<Rightarrow> bytes \<Rightarrow> nat option" where
  "base64_len basis [] = Some 0"
| "base64_len basis (c # s) =
    (if c = ch_eq then Some 0
     else if basis ! unat c = 77 then None
     else map_option Suc (base64_len basis s))"

fun base64_bytes :: "bytes \<Rightarrow> bytes \<Rightarrow> bytes" where
  "base64_bytes basis (s0 # s1 # s2 # s3 # s) =
    (push_bit 2 (basis ! unat s0) OR drop_bit 4 (basis ! unat s1)) #
    (push_bit 4 (basis ! unat s1) OR drop_bit 2 (basis ! unat s2)) #
    (push_bit 6 (basis ! unat s2) OR basis ! unat s3) # base64_bytes basis s"
| "base64_bytes basis [s0, s1, s2] =
    [push_bit 2 (basis ! unat s0) OR drop_bit 4 (basis ! unat s1),
     push_bit 4 (basis ! unat s1) OR drop_bit 2 (basis ! unat s2)]"
| "base64_bytes basis [s0, s1] = [push_bit 2 (basis ! unat s0) OR drop_bit 4 (basis ! unat s1)]"
| "base64_bytes basis _ = []"

text \<open>\<open>None\<close> is \<open>NGX_ERROR\<close>.\<close>

definition ngx_decode_base64_internal :: "bytes \<Rightarrow> bytes \<Rightarrow> bytes option" where
  "ngx_decode_base64_internal basis src =
    (case base64_len basis src of
       None \<Rightarrow> None
     | Some len \<Rightarrow> if len mod 4 = 1 then None else Some (base64_bytes basis (take len src)))"

definition ngx_decode_base64 :: "bytes \<Rightarrow> bytes option" where
  "ngx_decode_base64 src = ngx_decode_base64_internal basis64_std src"

definition ngx_decode_base64url :: "bytes \<Rightarrow> bytes option" where
  "ngx_decode_base64url src = ngx_decode_base64_internal basis64_url src"

subsection \<open>Codecs\<close>

text \<open>The contract of an encoder and its decoder.\<close>

locale codec =
  fixes enc :: "'a list \<Rightarrow> 'b list"
    and dec :: "'b list \<Rightarrow> 'a list option"
  assumes dec_enc: "dec (enc x) = Some x"
begin

lemma enc_inj: "enc x = enc y \<longleftrightarrow> x = y"
  by (metis dec_enc option.inject)

lemma dec_onto: "\<exists>y. dec y = Some x"
  using dec_enc by blast

end

subsection \<open>Correctness\<close>

lemma byte_eqI:
  fixes a b :: byte
  assumes "bit a 0 = bit b 0" "bit a 1 = bit b 1" "bit a 2 = bit b 2" "bit a 3 = bit b 3"
    "bit a 4 = bit b 4" "bit a 5 = bit b 5" "bit a 6 = bit b 6" "bit a 7 = bit b 7"
  shows "a = b"
proof (rule bit_word_eqI)
  fix n assume "n < LENGTH(8)"
  then have "n = 0 \<or> n = 1 \<or> n = 2 \<or> n = 3 \<or> n = 4 \<or> n = 5 \<or> n = 6 \<or> n = 7" by auto
  then show "bit a n = bit b n" using assms by auto
qed

lemma byte_bit_high: "8 \<le> n \<Longrightarrow> \<not> bit (w :: byte) n"
  using bit_imp_le_length [of w n] by auto

lemma sextets:
  fixes s0 s1 s2 :: byte
  shows "push_bit 2 (drop_bit 2 s0 AND 0x3f) OR drop_bit 4 (push_bit 4 (s0 AND 3) OR drop_bit 4 s1) = s0"
    "push_bit 2 (drop_bit 2 s0 AND 0x3f) OR drop_bit 4 (push_bit 4 (s0 AND 3)) = s0"
    "push_bit 4 (push_bit 4 (s0 AND 3) OR drop_bit 4 s1) OR drop_bit 2 (push_bit 2 (s1 AND 0x0f) OR drop_bit 6 s2) = s1"
    "push_bit 4 (push_bit 4 (s0 AND 3) OR drop_bit 4 s1) OR drop_bit 2 (push_bit 2 (s1 AND 0x0f)) = s1"
    "push_bit 6 (push_bit 2 (s1 AND 0x0f) OR drop_bit 6 s2) OR (s2 AND 0x3f) = s2"
  by (rule byte_eqI; simp add: bit_simps)+

lemma sextet_range:
  fixes s0 s1 s2 :: byte
  shows "drop_bit 2 s0 AND 0x3f = (drop_bit 2 s0 AND 0x3f) AND 0x3f"
    "push_bit 4 (s0 AND 3) OR drop_bit 4 s1 = (push_bit 4 (s0 AND 3) OR drop_bit 4 s1) AND 0x3f"
    "push_bit 4 (s0 AND 3) = push_bit 4 (s0 AND 3) AND 0x3f"
    "push_bit 2 (s1 AND 0x0f) OR drop_bit 6 s2 = (push_bit 2 (s1 AND 0x0f) OR drop_bit 6 s2) AND 0x3f"
    "push_bit 2 (s1 AND 0x0f) = push_bit 2 (s1 AND 0x0f) AND 0x3f"
    "s2 AND 0x3f = (s2 AND 0x3f) AND 0x3f"
  by (rule byte_eqI; simp add: bit_simps byte_bit_high)+

lemma unat_and_63: "unat (w AND 0x3f :: byte) < 64"
  using byte_allI [where P = "\<lambda>w. unat (w AND 0x3f :: byte) < 64" and b = w] by (simp add: byte_codes_def)

definition sextet :: "byte \<Rightarrow> bool" where
  "sextet i \<longleftrightarrow> i = i AND 0x3f"

lemma basis64_inverse:
  assumes "sextet i"
  shows "basis64_std ! unat (basis64 ! unat i) = i" "basis64 ! unat i \<noteq> ch_eq" "i \<noteq> 77"
proof -
  have "list_all (\<lambda>n. basis64_std ! unat (basis64 ! n) = word_of_nat n \<and> basis64 ! n \<noteq> ch_eq \<and> word_of_nat n \<noteq> (77 :: byte))
      [0..<64]"
    by (simp add: upt_rec basis64_def basis64_std_def str_def replicate_numeral)
  moreover have "unat i < 64" using assms unat_and_63 [of i] by (simp add: sextet_def)
  ultimately show "basis64_std ! unat (basis64 ! unat i) = i" "basis64 ! unat i \<noteq> ch_eq" "i \<noteq> 77"
    by (auto simp: list_all_iff)
qed

lemma base64_len_sextet:
  "sextet i \<Longrightarrow> base64_len basis64_std (basis64 ! unat i # s) = map_option Suc (base64_len basis64_std s)"
  using basis64_inverse [of i] by simp

lemma base64_group:
  assumes "sextet i0" "sextet i1" "sextet i2" "sextet i3"
    and "base64_len basis64_std t = Some len" "len mod 4 \<noteq> 1" "base64_bytes basis64_std (take len t) = s"
  shows "\<exists>len. base64_len basis64_std (basis64 ! unat i0 # basis64 ! unat i1 # basis64 ! unat i2 # basis64 ! unat i3 # t) = Some len \<and>
    len mod 4 \<noteq> 1 \<and>
    base64_bytes basis64_std (take len (basis64 ! unat i0 # basis64 ! unat i1 # basis64 ! unat i2 # basis64 ! unat i3 # t)) =
      (push_bit 2 i0 OR drop_bit 4 i1) # (push_bit 4 i1 OR drop_bit 2 i2) # (push_bit 6 i2 OR i3) # s"
  using assms base64_len_sextet basis64_inverse(1) by auto

lemma base64_tail3:
  assumes "sextet i0" "sextet i1" "sextet i2"
  shows "base64_len basis64_std [basis64 ! unat i0, basis64 ! unat i1, basis64 ! unat i2, ch_eq] = Some 3"
    "base64_bytes basis64_std (take 3 [basis64 ! unat i0, basis64 ! unat i1, basis64 ! unat i2, ch_eq]) =
      [push_bit 2 i0 OR drop_bit 4 i1, push_bit 4 i1 OR drop_bit 2 i2]"
  using assms base64_len_sextet basis64_inverse(1) by (auto simp: numeral_3_eq_3)

lemma base64_tail2:
  assumes "sextet i0" "sextet i1"
  shows "base64_len basis64_std [basis64 ! unat i0, basis64 ! unat i1, ch_eq, ch_eq] = Some 2"
    "base64_bytes basis64_std (take 2 [basis64 ! unat i0, basis64 ! unat i1, ch_eq, ch_eq]) =
      [push_bit 2 i0 OR drop_bit 4 i1]"
  using assms base64_len_sextet basis64_inverse(1) by (auto simp: numeral_2_eq_2)

lemmas sextet_of = sextet_range [folded sextet_def]

lemma base64_roundtrip:
  "\<exists>len. base64_len basis64_std (ngx_encode_base64 s) = Some len \<and> len mod 4 \<noteq> 1 \<and>
    base64_bytes basis64_std (take len (ngx_encode_base64 s)) = s"
proof (induction s rule: ngx_encode_base64.induct)
  case (1 s0 s1 s2 s)
  then obtain len where "base64_len basis64_std (ngx_encode_base64 s) = Some len" "len mod 4 \<noteq> 1"
    "base64_bytes basis64_std (take len (ngx_encode_base64 s)) = s" by blast
  from base64_group [OF sextet_of(1) [of s0] sextet_of(2) [of s0 s1] sextet_of(4) [of s1 s2] sextet_of(6) [of s2] this]
  show ?case by (simp only: ngx_encode_base64.simps sextets)
next
  case (2 s0 s1)
  show ?case unfolding ngx_encode_base64.simps
    by (rule exI [of _ 3], simp only: base64_tail3 [OF sextet_of(1) [of s0] sextet_of(2) [of s0 s1] sextet_of(5) [of s1]] sextets) simp
next
  case (3 s0)
  show ?case unfolding ngx_encode_base64.simps
    by (rule exI [of _ 2], simp only: base64_tail2 [OF sextet_of(1) [of s0] sextet_of(3) [of s0]] sextets) simp
qed simp

interpretation base64: codec ngx_encode_base64 ngx_decode_base64
proof
  show "ngx_decode_base64 (ngx_encode_base64 x) = Some x" for x
    using base64_roundtrip [of x] by (auto simp: ngx_decode_base64_def ngx_decode_base64_internal_def)
qed

lemma encode_base64_length: "length (ngx_encode_base64 s) = (length s + 2) div 3 * 4"
  by (induction s rule: ngx_encode_base64.induct) (simp_all, presburger)

lemma base64_len_le: "base64_len basis s = Some len \<Longrightarrow> len \<le> length s"
  by (induction s arbitrary: len) (auto split: if_splits)

lemma base64_bytes_length: "length (base64_bytes basis s) = length s * 3 div 4"
  by (induction basis s rule: base64_bytes.induct) simp_all

text \<open>
  C33. Decoding the Base64 encoding of any string gives the string back, so that two strings with the same
  encoding are equal.  The encoding has four characters for each started group of three bytes, which is the
  size the macro \<open>ngx_base64_encoded_length\<close> reserves, and a decoded text never needs more than the
  \<open>ngx_base64_decoded_length\<close> of its source.
\<close>

theorem base64_correct:
  "ngx_decode_base64 (ngx_encode_base64 s) = Some s \<and>
   (ngx_encode_base64 s = ngx_encode_base64 t \<longleftrightarrow> s = t) \<and>
   length (ngx_encode_base64 s) = (length s + 2) div 3 * 4 \<and>
   (case ngx_decode_base64 src of None \<Rightarrow> True | Some dst \<Rightarrow> length dst \<le> (length src + 3) div 4 * 3)"
proof -
  have "length dst \<le> (length src + 3) div 4 * 3" if d: "ngx_decode_base64 src = Some dst" for dst
  proof -
    obtain len where "base64_len basis64_std src = Some len" "dst = base64_bytes basis64_std (take len src)"
      using d by (auto simp: ngx_decode_base64_def ngx_decode_base64_internal_def split: option.splits if_splits)
    then have "length dst = len * 3 div 4" "len \<le> length src"
      using base64_len_le [of basis64_std src len] by (simp_all add: base64_bytes_length min_def)
    then have "length dst \<le> length src * 3 div 4" by (simp add: div_le_mono)
    then show ?thesis by linarith
  qed
  then show ?thesis using base64.dec_enc base64.enc_inj encode_base64_length by (simp split: option.split)
qed

end
