(* ===== verification/Ngx_Escape.thy ===== *)
theory Ngx_Escape
  imports Ngx_Numbers Ngx_Base64
begin

section \<open>Escaping of URIs and HTML\<close>

text \<open>
  \<open>ngx_escape_uri\<close>, \<open>ngx_unescape_uri\<close> and \<open>ngx_escape_html\<close> of \<open>src/core/ngx_string.c\<close>.  The source is the list of its
  \<open>size\<close> bytes, the result the list of the bytes written.  The call of an escaping function with a null
  destination, which only counts, is a function of its own.
\<close>

subsection \<open>Escaping of URIs\<close>

definition esc_uri :: "u32 list" where
  "esc_uri = [0xffffffff, 0x80000029, 0x00000000, 0x80000000, 0xffffffff, 0xffffffff, 0xffffffff, 0xffffffff]"

definition esc_args :: "u32 list" where
  "esc_args = [0xffffffff, 0x88000869, 0x00000000, 0x80000000, 0xffffffff, 0xffffffff, 0xffffffff, 0xffffffff]"

definition esc_uri_component :: "u32 list" where
  "esc_uri_component = [0xffffffff, 0xfc009fff, 0x78000001, 0xb8000001, 0xffffffff, 0xffffffff, 0xffffffff, 0xffffffff]"

definition esc_html :: "u32 list" where
  "esc_html = [0xffffffff, 0x000000ad, 0x00000000, 0x80000000, 0xffffffff, 0xffffffff, 0xffffffff, 0xffffffff]"

definition esc_refresh :: "u32 list" where
  "esc_refresh = [0xffffffff, 0x00000085, 0x00000000, 0x80000000, 0xffffffff, 0xffffffff, 0xffffffff, 0xffffffff]"

definition esc_memcached :: "u32 list" where
  "esc_memcached = [0xffffffff, 0x00000021, 0x00000000, 0x00000000, 0x00000000, 0x00000000, 0x00000000, 0x00000000]"

text \<open>The argument \<open>type\<close> of \<open>ngx_string.h\<close>.\<close>

datatype escape_type = NGX_ESCAPE_URI | NGX_ESCAPE_ARGS | NGX_ESCAPE_URI_COMPONENT | NGX_ESCAPE_HTML | NGX_ESCAPE_REFRESH
  | NGX_ESCAPE_MEMCACHED | NGX_ESCAPE_MAIL_AUTH

primrec escape_map :: "escape_type \<Rightarrow> u32 list" where
  "escape_map NGX_ESCAPE_URI = esc_uri"
| "escape_map NGX_ESCAPE_ARGS = esc_args"
| "escape_map NGX_ESCAPE_URI_COMPONENT = esc_uri_component"
| "escape_map NGX_ESCAPE_HTML = esc_html"
| "escape_map NGX_ESCAPE_REFRESH = esc_refresh"
| "escape_map NGX_ESCAPE_MEMCACHED = esc_memcached"
| "escape_map NGX_ESCAPE_MAIL_AUTH = esc_memcached"


fun escape_bytes :: "u32 list \<Rightarrow> bytes \<Rightarrow> bytes" where
  "escape_bytes escape [] = []"
| "escape_bytes escape (c # src) =
    (if bitmap_test escape c then
       ch_percent # hex_lower ! unat (drop_bit 4 c) # hex_lower ! unat (c AND 0xf) # escape_bytes escape src
     else c # escape_bytes escape src)"


definition ngx_escape_uri :: "escape_type \<Rightarrow> bytes \<Rightarrow> bytes" where
  "ngx_escape_uri type src = escape_bytes (escape_map type) src"

subsection \<open>Unescaping of URIs\<close>

datatype un_state = Un_usual | Un_quoted | Un_quoted_second

text \<open>
  One pass of the loop: the new state and \<open>decoded\<close>, the bytes written and whether the code jumps to \<open>done\<close>.
  \<open>prev\<close> is \<open>*(s - 2)\<close>; the flags are the bits \<open>NGX_UNESCAPE_URI\<close> and \<open>NGX_UNESCAPE_REDIRECT\<close> of \<open>type\<close>.
\<close>

definition un_usual :: "bool \<Rightarrow> bool \<Rightarrow> byte \<Rightarrow> byte \<Rightarrow> un_state \<times> byte \<times> bytes \<times> bool" where
  "un_usual uri redirect decoded ch =
    (if ch = ch_quest \<and> (uri \<or> redirect) then (Un_usual, decoded, [ch], True)
     else if ch = ch_percent then (Un_quoted, decoded, [], False)
     else (Un_usual, decoded, [ch], False))"

definition un_quoted :: "byte \<Rightarrow> byte \<Rightarrow> un_state \<times> byte \<times> bytes \<times> bool" where
  "un_quoted decoded ch =
    (if ch_0 \<le> ch \<and> ch \<le> ch_9 then (Un_quoted_second, ch - ch_0, [], False)
     else
       (let c = ch OR 0x20 in
        if ch_a \<le> c \<and> c \<le> ch_f then (Un_quoted_second, c - ch_a + 10, [], False)
        else (Un_usual, decoded, [ch], False)))"

definition un_quoted_second :: "bool \<Rightarrow> bool \<Rightarrow> byte \<Rightarrow> byte \<Rightarrow> byte \<Rightarrow> un_state \<times> byte \<times> bytes \<times> bool" where
  "un_quoted_second uri redirect decoded prev s_ch =
    (if ch_0 \<le> s_ch \<and> s_ch \<le> ch_9 then
       (let ch = push_bit 4 decoded + s_ch - ch_0 in
        if redirect then
          (if ch > ch_percent \<and> ch < 0x7f then (Un_usual, decoded, [ch], False)
           else (Un_usual, decoded, [ch_percent, prev, s_ch], False))
        else (Un_usual, decoded, [ch], False))
     else
       (let c = s_ch OR 0x20 in
        if ch_a \<le> c \<and> c \<le> ch_f then
          (let ch = push_bit 4 decoded + c - ch_a + 10 in
           if uri then (Un_usual, decoded, [ch], ch = ch_quest)
           else if redirect then
             (if ch = ch_quest then (Un_usual, decoded, [ch], True)
              else if ch > ch_percent \<and> ch < 0x7f then (Un_usual, decoded, [ch], False)
              else (Un_usual, decoded, [ch_percent, prev, s_ch], False))
           else (Un_usual, decoded, [ch], False))
        else (Un_usual, decoded, [], False)))"

definition un_step :: "bool \<Rightarrow> bool \<Rightarrow> un_state \<Rightarrow> byte \<Rightarrow> byte \<Rightarrow> byte \<Rightarrow> un_state \<times> byte \<times> bytes \<times> bool" where
  "un_step uri redirect state decoded prev ch =
    (case state of
       Un_usual \<Rightarrow> un_usual uri redirect decoded ch
     | Un_quoted \<Rightarrow> un_quoted decoded ch
     | Un_quoted_second \<Rightarrow> un_quoted_second uri redirect decoded prev ch)"

text \<open>The loop: the bytes written and the number of bytes read.\<close>

fun un_loop :: "bool \<Rightarrow> bool \<Rightarrow> un_state \<Rightarrow> byte \<Rightarrow> byte \<Rightarrow> bytes \<Rightarrow> bytes \<times> nat" where
  "un_loop uri redirect state decoded prev [] = ([], 0)"
| "un_loop uri redirect state decoded prev (ch # s) =
    (case un_step uri redirect state decoded prev ch of
       (state', decoded', out, stop) \<Rightarrow>
         if stop then (out, 1)
         else (case un_loop uri redirect state' decoded' ch s of (d, n) \<Rightarrow> (out @ d, n + 1)))"

definition ngx_unescape_uri :: "bool \<Rightarrow> bool \<Rightarrow> bytes \<Rightarrow> bytes \<times> nat" where
  "ngx_unescape_uri uri redirect src = un_loop uri redirect Un_usual 0 0 src"

subsection \<open>Escaping of HTML\<close>

fun ngx_escape_html_count :: "bytes \<Rightarrow> nat" where
  "ngx_escape_html_count [] = 0"
| "ngx_escape_html_count (c # src) =
    (if c = ch_lt then 5 - 2
     else if c = ch_gt then 5 - 2
     else if c = ch_amp then 6 - 2
     else if c = ch_quot then 7 - 2
     else 0) + ngx_escape_html_count src"

fun ngx_escape_html :: "bytes \<Rightarrow> bytes" where
  "ngx_escape_html [] = []"
| "ngx_escape_html (ch # src) =
    (if ch = ch_lt then str ''&lt;''
     else if ch = ch_gt then str ''&gt;''
     else if ch = ch_amp then str ''&amp;''
     else if ch = ch_quot then str ''&quot;''
     else [ch]) @ ngx_escape_html src"

subsection \<open>Correctness\<close>

lemma escape_percent: "type \<noteq> NGX_ESCAPE_REFRESH \<Longrightarrow> bitmap_test (escape_map type) ch_percent"
  by (cases type)
    (simp_all add: bitmap_test_bit esc_uri_def esc_args_def esc_uri_component_def esc_html_def esc_memcached_def)

lemma hex_lower_digit:
  "n < 10 \<Longrightarrow> hex_lower ! n - ch_0 = word_of_nat n \<and> ch_0 \<le> hex_lower ! n \<and> hex_lower ! n \<le> ch_9"
  by (rule list_all_upt [where P = "\<lambda>n. hex_lower ! n - ch_0 = word_of_nat n \<and> ch_0 \<le> hex_lower ! n \<and> hex_lower ! n \<le> ch_9" and m = 0])
    (simp_all add: upt_rec hex_lower_def str_def)

lemma hex_lower_letter:
  "10 \<le> n \<Longrightarrow> n < 16 \<Longrightarrow> hex_lower ! n OR 0x20 = word_of_nat n + 87 \<and> \<not> hex_lower ! n \<le> ch_9 \<and>
    ch_a \<le> word_of_nat n + (87 :: byte) \<and> word_of_nat n + (87 :: byte) \<le> ch_f"
  by (rule list_all_upt [where P = "\<lambda>n. hex_lower ! n OR 0x20 = word_of_nat n + 87 \<and> \<not> hex_lower ! n \<le> ch_9 \<and>
    ch_a \<le> word_of_nat n + (87 :: byte) \<and> word_of_nat n + (87 :: byte) \<le> ch_f"])
    (simp_all add: upt_rec hex_lower_def str_def)

lemma un_quoted_hex: "n < 16 \<Longrightarrow> un_quoted d (hex_lower ! n) = (Un_quoted_second, word_of_nat n, [], False)"
  using hex_lower_digit [of n] hex_lower_letter [of n]
  by (cases "n < 10") (simp_all add: un_quoted_def Let_def)

lemma un_second_hex:
  "n < 16 \<Longrightarrow> un_quoted_second uri False w p (hex_lower ! n) =
    (Un_usual, w, [w * 16 + word_of_nat n], uri \<and> 10 \<le> n \<and> w * 16 + word_of_nat n = ch_quest)"
  using hex_lower_digit [of n] hex_lower_letter [of n]
  by (cases "n < 10") (simp_all add: un_quoted_second_def Let_def push_bit_eq_mult add.assoc add_diff_eq [symmetric])

lemma nibbles: "word_of_nat (unat (drop_bit 4 c)) * 16 + word_of_nat (unat (c AND 0xf)) = (c :: byte)"
proof -
  have u: "unat (drop_bit 4 c) = unat c div 16" "unat (c AND 0xf) = unat c mod 16"
    by (simp_all add: drop_bit_eq_div unat_div unat_and_15)
  have "word_of_nat (unat c div 16 * 16 + unat c mod 16) = c" by (simp only: div_mult_mod_eq) simp
  then show ?thesis unfolding u by (simp only: of_nat_add of_nat_mult of_nat_numeral)
qed

lemma un_loop_escaped:
  assumes "uri \<longrightarrow> c \<noteq> ch_quest"
  shows "\<exists>d' p'. un_loop uri False Un_usual d p (ch_percent # hex_lower ! unat (drop_bit 4 c) # hex_lower ! unat (c AND 0xf) # s) =
    (case un_loop uri False Un_usual d' p' s of (out, n) \<Rightarrow> (c # out, n + 3))"
proof -
  have n: "unat (drop_bit 4 c) < 16" "unat (c AND 0xf) < 16"
    using unat_byte_less [of c] by (simp_all add: drop_bit_eq_div unat_div unat_and_15 div_less_iff_less_mult)
  let ?d = "word_of_nat (unat (drop_bit 4 c))" and ?p = "hex_lower ! unat (c AND 0xf)"
  have "un_loop uri False Un_usual d p (ch_percent # hex_lower ! unat (drop_bit 4 c) # ?p # s) =
      (case un_loop uri False Un_usual ?d ?p s of (out, n) \<Rightarrow> (c # out, n + 3))"
    using assms un_quoted_hex [OF n(1)] un_second_hex [OF n(2), of uri ?d]
    unfolding nibbles by (auto simp: un_step_def un_usual_def split: prod.split)
  then show ?thesis by blast
qed

lemma un_loop_escape:
  assumes "bitmap_test esc ch_percent \<or> ch_percent \<notin> set s" "uri \<longrightarrow> ch_quest \<notin> set s"
  shows "un_loop uri False Un_usual d p (escape_bytes esc s) = (s, length (escape_bytes esc s))"
  using assms
proof (induction s arbitrary: d p)
  case (Cons c s)
  show ?case
  proof (cases "bitmap_test esc c")
    case True
    then show ?thesis using un_loop_escaped [of uri c d p "escape_bytes esc s"] Cons by auto
  next
    case False
    then have "c \<noteq> ch_percent" using Cons.prems(1) by auto
    then show ?thesis using False Cons by (auto simp: un_step_def un_usual_def)
  qed
qed simp




interpretation uri_codec: codec "ngx_escape_uri NGX_ESCAPE_URI_COMPONENT" "\<lambda>s. Some (fst (ngx_unescape_uri False False s))"
  using un_loop_escape [of "escape_map NGX_ESCAPE_URI_COMPONENT" _ False] escape_percent [of NGX_ESCAPE_URI_COMPONENT]
  by unfold_locales (simp add: ngx_unescape_uri_def ngx_escape_uri_def)






text \<open>The escaping for the \<open>Refresh\<close> header leaves percent signs alone, although its comment lists them.\<close>

lemma refresh_percent: "ngx_escape_uri NGX_ESCAPE_REFRESH (str ''%41'') = str ''%41''"
  by (simp add: ngx_escape_uri_def str_def bitmap_test_bit esc_refresh_def)

text \<open>The escaping of arguments also replaces semicolons, which its comment does not list.\<close>

lemma args_semicolon: "bitmap_test esc_args ch_semi"
  by (simp add: bitmap_test_bit esc_args_def)

subsection \<open>HTML\<close>

fun html_unescape :: "bytes \<Rightarrow> bytes option" where
  "html_unescape [] = Some []"
| "html_unescape (c # s) =
    (if c \<noteq> ch_amp then map_option ((#) c) (html_unescape s)
     else if take 3 s = str ''lt;'' then map_option ((#) ch_lt) (html_unescape (drop 3 s))
     else if take 3 s = str ''gt;'' then map_option ((#) ch_gt) (html_unescape (drop 3 s))
     else if take 4 s = str ''amp;'' then map_option ((#) ch_amp) (html_unescape (drop 4 s))
     else if take 5 s = str ''quot;'' then map_option ((#) ch_quot) (html_unescape (drop 5 s))
     else None)"

interpretation html_codec: codec ngx_escape_html html_unescape
proof
  show "html_unescape (ngx_escape_html x) = Some x" for x
    by (induction x) (simp_all add: str_def)
qed

lemma escape_html_length: "length (ngx_escape_html s) = length s + ngx_escape_html_count s"
  by (induction s) (simp_all add: str_def)

lemma escape_html_chars: "set (ngx_escape_html s) \<inter> {ch_lt, ch_gt, ch_quot} = {}"
  by (induction s) (auto simp: str_def)

text \<open>
  C37. Escaped HTML has no angle bracket and no quotation mark, two texts with the same result are equal, and
  the result is as long as the counting call says.
\<close>

theorem escape_html_correct:
  "set (ngx_escape_html s) \<inter> {ch_lt, ch_gt, ch_quot} = {} \<and>
   (ngx_escape_html s = ngx_escape_html t \<longleftrightarrow> s = t) \<and>
   length (ngx_escape_html s) = length s + ngx_escape_html_count s"
  by (intro conjI escape_html_chars html_codec.enc_inj escape_html_length)

end
