(* ===== verification/Ngx_Sort.thy ===== *)
theory Ngx_Sort
  imports Ngx_Strings_Correct "HOL-Library.Multiset"
begin

section \<open>Sorting\<close>

text \<open>
  \<open>ngx_sort\<close> of \<open>src/core/ngx_string.c\<close>: an insertion sort on an array of \<open>n\<close> elements, here a list that is
  updated in place.  The comparison function is a parameter; its contract is the locale \<open>sort_order\<close>.  The
  failure of the allocation of the temporary element, after which nothing is sorted, is the flag \<open>alloc\<close>.  The
  comparison functions of the addresses to listen on are here, that of the servers of an upstream is in \<open>Ngx_Round_Robin\<close>.
\<close>

text \<open>The inner loop: \<open>p2\<close> runs down while the element in front of it is greater than \<open>p\<close>.\<close>

fun sort_shift :: "('a \<Rightarrow> 'a \<Rightarrow> int) \<Rightarrow> 'a list \<Rightarrow> 'a \<Rightarrow> nat \<Rightarrow> 'a list \<times> nat" where
  "sort_shift cmp base p 0 = (base, 0)"
| "sort_shift cmp base p (Suc p2) =
    (if cmp (base ! p2) p > 0 then sort_shift cmp (base[Suc p2 := base ! p2]) p p2 else (base, Suc p2))"

definition sort_pass :: "('a \<Rightarrow> 'a \<Rightarrow> int) \<Rightarrow> 'a list \<Rightarrow> nat \<Rightarrow> 'a list" where
  "sort_pass cmp base p1 =
    (let p = base ! p1; (base, p2) = sort_shift cmp base p p1 in base[p2 := p])"

function sort_loop :: "('a \<Rightarrow> 'a \<Rightarrow> int) \<Rightarrow> 'a list \<Rightarrow> nat \<Rightarrow> nat \<Rightarrow> 'a list" where
  "sort_loop cmp base n p1 = (if p1 < n then sort_loop cmp (sort_pass cmp base p1) n (p1 + 1) else base)"
  by auto
termination by (relation "measure (\<lambda>(cmp, base, n, p1). n - p1)") auto

definition ngx_sort :: "bool \<Rightarrow> ('a \<Rightarrow> 'a \<Rightarrow> int) \<Rightarrow> 'a list \<Rightarrow> nat \<Rightarrow> 'a list" where
  "ngx_sort alloc cmp base n = (if alloc then sort_loop cmp base n 1 else base)"

declare sort_loop.simps [simp del]

text \<open>
  An address to listen on: \<open>ngx_http_conf_addr_t\<close> and \<open>ngx_mail_conf_addr_t\<close>, with the fields that matter for the order and the
  address itself.  The two comparison functions are the same code.
\<close>

record conf_addr =
  opt_sockaddr :: bytes
  opt_bind :: bool
  opt_wildcard :: bool

definition ngx_http_cmp_conf_addrs :: "conf_addr \<Rightarrow> conf_addr \<Rightarrow> int" where
  "ngx_http_cmp_conf_addrs first second =
    (if opt_wildcard first then 1
     else if opt_bind first \<and> \<not> opt_bind second then -1
     else if \<not> opt_bind first \<and> opt_bind second then 1
     else 0)"

definition ngx_mail_cmp_conf_addrs :: "conf_addr \<Rightarrow> conf_addr \<Rightarrow> int" where
  "ngx_mail_cmp_conf_addrs first second =
    (if opt_wildcard first then 1
     else if opt_bind first \<and> \<not> opt_bind second then -1
     else if \<not> opt_bind first \<and> opt_bind second then 1
     else 0)"

subsection \<open>Insertion from the right\<close>

definition ins_right :: "('a \<Rightarrow> 'a \<Rightarrow> int) \<Rightarrow> 'a list \<Rightarrow> 'a \<Rightarrow> 'a list" where
  "ins_right cmp ys p =
    rev (dropWhile (\<lambda>y. cmp y p > 0) (rev ys)) @ p # rev (takeWhile (\<lambda>y. cmp y p > 0) (rev ys))"

lemma ins_right_Nil [simp]: "ins_right cmp [] p = [p]"
  by (simp add: ins_right_def)

lemma ins_right_snoc:
  "ins_right cmp (ys @ [y]) p = (if cmp y p > 0 then ins_right cmp ys p @ [y] else ys @ [y, p])"
  by (simp add: ins_right_def)

lemma sort_shift_ins:
  assumes "j < length base"
  shows "(case sort_shift cmp base p j of (base', k) \<Rightarrow> base'[k := p]) = ins_right cmp (take j base) p @ drop (Suc j) base"
  using assms
proof (induction j arbitrary: base)
  case 0
  then show ?case by (cases base) auto
next
  case (Suc j)
  let ?b = "base[Suc j := base ! j]"
  have t: "take (Suc j) base = take j base @ [base ! j]" using Suc.prems by (simp add: take_Suc_conv_app_nth)
  have d: "drop (Suc j) ?b = base ! j # drop (Suc (Suc j)) base"
    using Suc.prems by (subst Cons_nth_drop_Suc [symmetric]) auto
  show ?case
  proof (cases "cmp (base ! j) p > 0")
    case True
    then show ?thesis using Suc.IH [of ?b] Suc.prems d by (simp add: t ins_right_snoc)
  next
    case False
    then show ?thesis using Suc.prems by (simp add: t ins_right_snoc upd_conv_take_nth_drop)
  qed
qed

lemma sort_pass_ins:
  "j < length base \<Longrightarrow> sort_pass cmp base j = ins_right cmp (take j base) (base ! j) @ drop (Suc j) base"
  using sort_shift_ins [of j base "base ! j" cmp] by (simp add: sort_pass_def Let_def)

lemma length_ins_right [simp]: "length (ins_right cmp ys p) = Suc (length ys)"
proof -
  have "length (rev (dropWhile P xs)) + length (rev (takeWhile P xs)) = length xs" for P and xs :: "'a list"
    by (metis add.commute length_append length_rev takeWhile_dropWhile_id)
  from this [of "\<lambda>y. cmp y p > 0" "rev ys"] show ?thesis by (simp add: ins_right_def)
qed

lemma foldl_ins_length [simp]: "length (foldl (ins_right cmp) ys xs) = length ys + length xs"
  by (induction xs arbitrary: ys) auto

lemma sort_loop_foldl:
  "sort_loop cmp (ys @ zs @ rest) (length ys + length zs) (length ys) = foldl (ins_right cmp) ys zs @ rest"
proof (induction zs arbitrary: ys)
  case Nil
  then show ?case by (simp add: sort_loop.simps)
next
  case (Cons z zs)
  have "sort_loop cmp (ys @ (z # zs) @ rest) (length ys + length (z # zs)) (length ys) =
      sort_loop cmp (ins_right cmp ys z @ zs @ rest) (length ys + length (z # zs)) (length ys + 1)"
    by (subst sort_loop.simps) (simp add: sort_pass_ins)
  then show ?case using Cons.IH [of "ins_right cmp ys z"] by simp
qed

lemma ngx_sort_foldl: "ngx_sort True cmp (xs @ rest) (length xs) = foldl (ins_right cmp) [] xs @ rest"
proof (cases xs)
  case Nil
  then show ?thesis by (simp add: ngx_sort_def sort_loop.simps)
next
  case (Cons z zs)
  then show ?thesis using sort_loop_foldl [of cmp "[z]" zs rest] by (simp add: ngx_sort_def)
qed

lemma mset_ins_right: "mset (ins_right cmp ys p) = add_mset p (mset ys)"
proof -
  have "mset (dropWhile P xs) + mset (takeWhile P xs) = mset xs" for P and xs :: "'a list"
    by (metis add.commute mset_append takeWhile_dropWhile_id)
  from this [of "\<lambda>y. cmp y p > 0" "rev ys"] show ?thesis by (simp add: ins_right_def)
qed

lemma mset_foldl_ins: "mset (foldl (ins_right cmp) ys xs) = mset ys + mset xs"
  by (induction xs arbitrary: ys) (auto simp: mset_ins_right)

lemma set_ins_right [simp]: "set (ins_right cmp ys p) = insert p (set ys)"
  using mset_ins_right [of cmp ys p] by (metis set_mset_add_mset_insert set_mset_mset)

lemma set_foldl_ins [simp]: "set (foldl (ins_right cmp) ys xs) = set ys \<union> set xs"
  by (induction xs arbitrary: ys) auto

text \<open>Only the sign of the results for elements of the array, at different places, matters.\<close>

lemma ins_right_cong:
  "(\<And>y. y \<in> set ys \<Longrightarrow> (cmp y p > 0) = (cmp' y p > 0)) \<Longrightarrow> ins_right cmp ys p = ins_right cmp' ys p"
  by (induction ys rule: rev_induct) (auto simp: ins_right_snoc)

lemma foldl_ins_cong:
  assumes "distinct (ys @ xs)" "\<And>x y. x \<in> set (ys @ xs) \<Longrightarrow> y \<in> set (ys @ xs) \<Longrightarrow> x \<noteq> y \<Longrightarrow> (cmp x y > 0) = (cmp' x y > 0)"
  shows "foldl (ins_right cmp) ys xs = foldl (ins_right cmp') ys xs"
  using assms
proof (induction xs arbitrary: ys)
  case (Cons z xs)
  have "ins_right cmp ys z = ins_right cmp' ys z" using Cons.prems by (intro ins_right_cong) auto
  moreover have "mset (ins_right cmp' ys z @ xs) = mset (ys @ z # xs)" by (simp add: mset_ins_right)
  then have "distinct (ins_right cmp' ys z @ xs)" using Cons.prems(1) mset_eq_imp_distinct_iff by blast
  ultimately show ?case using Cons.IH [of "ins_right cmp' ys z"] Cons.prems(2) by simp
qed simp

text \<open>
  What the sort relies on is less than an order of three outcomes: only the sign of a positive result counts, so a
  comparison function that returns a truth value, as \<open>ngx_http_upstream_cmp_servers\<close> does, fulfils the contract too.  The
  laws are needed for the elements of the array only, which are in \<open>S\<close>.
\<close>

locale sort_order =
  fixes cmp :: "'a \<Rightarrow> 'a \<Rightarrow> int" and S :: "'a set"
  assumes greater_asym: "x \<in> S \<Longrightarrow> y \<in> S \<Longrightarrow> 0 < cmp x y \<Longrightarrow> cmp y x \<le> 0"
    and le_trans: "x \<in> S \<Longrightarrow> y \<in> S \<Longrightarrow> z \<in> S \<Longrightarrow> cmp x y \<le> 0 \<Longrightarrow> cmp y z \<le> 0 \<Longrightarrow> cmp x z \<le> 0"
begin

lemma ins_right_sorted:
  "set ys \<subseteq> S \<Longrightarrow> p \<in> S \<Longrightarrow> sorted_wrt (\<lambda>x y. cmp x y \<le> 0) ys \<Longrightarrow> sorted_wrt (\<lambda>x y. cmp x y \<le> 0) (ins_right cmp ys p)"
proof (induction ys rule: rev_induct)
  case (snoc y ys)
  show ?case
  proof (cases "cmp y p > 0")
    case True
    then have "cmp p y \<le> 0" using snoc.prems by (auto intro: greater_asym)
    then show ?thesis using snoc True by (auto simp: ins_right_snoc sorted_wrt_append)
  next
    case False
    then have "cmp x p \<le> 0" if "x \<in> set ys" for x using that snoc.prems le_trans [of x y p] by (auto simp: sorted_wrt_append)
    then show ?thesis using snoc.prems False by (auto simp: ins_right_snoc sorted_wrt_append)
  qed
qed simp

lemma ins_right_stable:
  assumes "set ys \<subseteq> S" "p \<in> S" "x \<in> S"
  shows "filter (\<lambda>y. cmp x y \<le> 0 \<and> cmp y x \<le> 0) (ins_right cmp ys p) = filter (\<lambda>y. cmp x y \<le> 0 \<and> cmp y x \<le> 0) (ys @ [p])"
  using assms
proof (induction ys rule: rev_induct)
  case (snoc y ys)
  have "\<not> cmp y x \<le> 0" if "cmp y p > 0" "cmp x p \<le> 0"
    using that snoc.prems le_trans [of y x p] by auto
  then show ?case using snoc by (auto simp: ins_right_snoc)
qed simp

lemma foldl_ins_sorted_stable:
  "set ys \<subseteq> S \<Longrightarrow> set xs \<subseteq> S \<Longrightarrow> sorted_wrt (\<lambda>x y. cmp x y \<le> 0) ys \<Longrightarrow>
    sorted_wrt (\<lambda>x y. cmp x y \<le> 0) (foldl (ins_right cmp) ys xs) \<and>
    (\<forall>x \<in> S. filter (\<lambda>y. cmp x y \<le> 0 \<and> cmp y x \<le> 0) (foldl (ins_right cmp) ys xs) =
      filter (\<lambda>y. cmp x y \<le> 0 \<and> cmp y x \<le> 0) (ys @ xs))"
proof (induction xs arbitrary: ys)
  case (Cons z xs)
  then show ?case using ins_right_sorted [of ys z] ins_right_stable [of ys z] by simp
qed simp

text \<open>The sorting contract, for any comparison function that keeps its own.\<close>

lemma sort_contract:
  assumes "set xs \<subseteq> S"
  shows "sorted_wrt (\<lambda>x y. cmp x y \<le> 0) (foldl (ins_right cmp) [] xs)"
    and "x \<in> S \<Longrightarrow> filter (\<lambda>y. cmp x y \<le> 0 \<and> cmp y x \<le> 0) (foldl (ins_right cmp) [] xs) = filter (\<lambda>y. cmp x y \<le> 0 \<and> cmp y x \<le> 0) xs"
  using foldl_ins_sorted_stable [of "[]" xs] assms by simp_all

end

text \<open>A comparison with three outcomes gives the contract of the sort.\<close>

sublocale cmp_order \<subseteq> sort_order cmp UNIV
proof
  show "0 < cmp x y \<Longrightarrow> cmp y x \<le> 0" for x y using cmp_less_iff [of y x] by simp
  show "cmp x y \<le> 0 \<Longrightarrow> cmp y z \<le> 0 \<Longrightarrow> cmp x z \<le> 0" for x y z by (rule cmp_trans)
qed

subsection \<open>The order of the addresses to listen on\<close>

text \<open>Explicit bindings first, then the implicit ones, then the wildcard: the order that \<open>ngx_http_init_listening\<close> expects.\<close>

definition addr_rank :: "conf_addr \<Rightarrow> int" where
  "addr_rank a = (if opt_wildcard a then 2 else if opt_bind a then 0 else 1)"

interpretation addr_order: sort_order "\<lambda>x y. addr_rank x - addr_rank y" UNIV
  by unfold_locales auto

interpretation conf_addrs: sort_order ngx_http_cmp_conf_addrs "{a. \<not> opt_wildcard a}"
  by unfold_locales (auto simp: ngx_http_cmp_conf_addrs_def split: if_splits)

lemma conf_addrs_sorted:
  assumes "distinct xs" "\<And>x. x \<in> set xs \<Longrightarrow> opt_wildcard x \<Longrightarrow> \<not> opt_bind x"
    "\<And>x y. x \<in> set xs \<Longrightarrow> y \<in> set xs \<Longrightarrow> opt_wildcard x \<Longrightarrow> opt_wildcard y \<Longrightarrow> x = y"
  shows "sorted (map addr_rank (ngx_sort True ngx_http_cmp_conf_addrs xs (length xs)))"
proof -
  have "(ngx_http_cmp_conf_addrs x y > 0) = (addr_rank x - addr_rank y > 0)" if "x \<in> set xs" "y \<in> set xs" "x \<noteq> y" for x y
    using that assms(2) [of y] assms(3) [of x y] by (auto simp: ngx_http_cmp_conf_addrs_def addr_rank_def)
  then have "foldl (ins_right ngx_http_cmp_conf_addrs) [] xs = foldl (ins_right (\<lambda>x y. addr_rank x - addr_rank y)) [] xs"
    using assms(1) by (intro foldl_ins_cong) auto
  then show ?thesis using addr_order.sort_contract(1) [of xs] ngx_sort_foldl [of _ xs "[]"] by (simp add: sorted_wrt_map)
qed

text \<open>
  The wildcard with an explicit binding is not moved to the end: in front of an implicit binding it stays or gets there,
  because its flag \<open>wildcard\<close> is looked at only where it is the first argument.
\<close>

lemma conf_addrs_wildcard_first:
  "ngx_sort True ngx_http_cmp_conf_addrs
     [\<lparr>opt_sockaddr = [10, 0, 0, 1], opt_bind = False, opt_wildcard = False\<rparr>, \<lparr>opt_sockaddr = [0, 0, 0, 0], opt_bind = True, opt_wildcard = True\<rparr>] 2 =
   [\<lparr>opt_sockaddr = [0, 0, 0, 0], opt_bind = True, opt_wildcard = True\<rparr>, \<lparr>opt_sockaddr = [10, 0, 0, 1], opt_bind = False, opt_wildcard = False\<rparr>]"
  by code_simp

text \<open>
  C38. \<open>ngx_sort\<close> with any comparison function.  If the function never says of two elements of the array that each is greater
  than the other, and \<open>not greater\<close> is transitive on them, the first \<open>n\<close> elements become a sorted permutation of what they were,
  in which elements that are not greater than each other keep their order, and the others stay as they are.  If the
  temporary element cannot be allocated nothing changes.
\<close>

theorem sort_correct:
  assumes "n \<le> length base"
    and asym: "\<And>x y. x \<in> set (take n base) \<Longrightarrow> y \<in> set (take n base) \<Longrightarrow> 0 < cmp x y \<Longrightarrow> cmp y x \<le> 0"
    and trans: "\<And>x y z. x \<in> set (take n base) \<Longrightarrow> y \<in> set (take n base) \<Longrightarrow> z \<in> set (take n base) \<Longrightarrow>
      cmp x y \<le> 0 \<Longrightarrow> cmp y z \<le> 0 \<Longrightarrow> cmp x z \<le> 0"
  shows "(\<exists>s. ngx_sort True cmp base n = s @ drop n base \<and> sorted_wrt (\<lambda>x y. cmp x y \<le> 0) s \<and> mset s = mset (take n base) \<and>
      (\<forall>x \<in> set s. filter (\<lambda>y. cmp x y \<le> 0 \<and> cmp y x \<le> 0) s = filter (\<lambda>y. cmp x y \<le> 0 \<and> cmp y x \<le> 0) (take n base))) \<and>
    ngx_sort False cmp base n = base"
proof (intro conjI exI ballI)
  let ?xs = "take n base" and ?s = "foldl (ins_right cmp) [] (take n base)"
  have order: "sort_order cmp (set ?xs)" using asym trans by unfold_locales blast+
  show "ngx_sort True cmp base n = ?s @ drop n base" using ngx_sort_foldl [of cmp ?xs "drop n base"] assms(1) by simp
  show "sorted_wrt (\<lambda>x y. cmp x y \<le> 0) ?s" by (rule sort_order.sort_contract(1) [OF order]) simp
  show "mset ?s = mset ?xs" using mset_foldl_ins [of cmp "[]" ?xs] by simp
  show "filter (\<lambda>y. cmp x y \<le> 0 \<and> cmp y x \<le> 0) ?s = filter (\<lambda>y. cmp x y \<le> 0 \<and> cmp y x \<le> 0) ?xs" if "x \<in> set ?s" for x
    using that by (intro sort_order.sort_contract(2) [OF order]) auto
  show "ngx_sort False cmp base n = base" by (simp add: ngx_sort_def)
qed

definition listen_addrs :: "conf_addr list" where
  "listen_addrs =
    [\<lparr>opt_sockaddr = [10, 0, 0, 1], opt_bind = False, opt_wildcard = False\<rparr>, \<lparr>opt_sockaddr = [10, 0, 0, 2], opt_bind = True, opt_wildcard = False\<rparr>,
     \<lparr>opt_sockaddr = [10, 0, 0, 3], opt_bind = False, opt_wildcard = False\<rparr>, \<lparr>opt_sockaddr = [10, 0, 0, 4], opt_bind = True, opt_wildcard = False\<rparr>]"

theorem sort_correct_witness:
  "sorted_wrt (\<lambda>x y. ngx_http_cmp_conf_addrs x y \<le> 0) (ngx_sort True ngx_http_cmp_conf_addrs listen_addrs 4) \<and>
   mset (ngx_sort True ngx_http_cmp_conf_addrs listen_addrs 4) = mset listen_addrs"
proof -
  have w: "x \<in> {a. \<not> opt_wildcard a}" if "x \<in> set (take 4 listen_addrs)" for x using that by (auto simp: listen_addrs_def)
  have n: "4 \<le> length listen_addrs" "take 4 listen_addrs = listen_addrs" "drop 4 listen_addrs = []" by (simp_all add: listen_addrs_def)
  have "(\<exists>s. ngx_sort True ngx_http_cmp_conf_addrs listen_addrs 4 = s @ drop 4 listen_addrs \<and>
      sorted_wrt (\<lambda>x y. ngx_http_cmp_conf_addrs x y \<le> 0) s \<and> mset s = mset (take 4 listen_addrs) \<and>
      (\<forall>x \<in> set s. filter (\<lambda>y. ngx_http_cmp_conf_addrs x y \<le> 0 \<and> ngx_http_cmp_conf_addrs y x \<le> 0) s =
        filter (\<lambda>y. ngx_http_cmp_conf_addrs x y \<le> 0 \<and> ngx_http_cmp_conf_addrs y x \<le> 0) (take 4 listen_addrs))) \<and>
    ngx_sort False ngx_http_cmp_conf_addrs listen_addrs 4 = listen_addrs"
    using n(1) by (rule sort_correct) (erule (2) conf_addrs.greater_asym [OF w w] conf_addrs.le_trans [OF w w w]; assumption)+
  then show ?thesis unfolding n by auto
qed

end
