(* ===== verification/Ngx_Sprintf.thy ===== *)
theory Ngx_Sprintf
  imports Ngx_Numbers "HOL-Library.Monad_Syntax"
begin

section \<open>Formatted output\<close>

text \<open>
  \<open>ngx_vslprintf\<close>, \<open>ngx_sprintf\<close>, \<open>ngx_snprintf\<close> and \<open>ngx_slprintf\<close> of \<open>src/core/ngx_string.c\<close>.  The format is the memory of a C
  string with its terminator, \<open>room\<close> is \<open>last - buf\<close>, and the result is the list of the bytes written.  \<open>None\<close> stands
  for undefined behaviour: a read behind the format or a string argument, or a variable argument of another type
  than the format asks for.
\<close>

subsection \<open>Arguments\<close>

text \<open>
  The variable arguments: 64-bit and 32-bit integers, the address of a counted string (\<open>ngx_str_t\<close> or
  \<open>ngx_variable_value_t\<close>), of a C string, and a \<open>double\<close>.  Of a \<open>double\<close> the code uses whether it is negative, the
  integral part of its absolute value, and its fraction scaled to a given number of digits.
\<close>

datatype vararg =
    Arg_long u64
  | Arg_int u32
  | Arg_str bytes
  | Arg_cstr bytes
  | Arg_double bool u64 "nat \<Rightarrow> u64"

record fmt_spec =
  sp_zero :: byte
  sp_width :: u64
  sp_sign :: bool
  sp_hex :: nat
  sp_max_width :: bool
  sp_frac_width :: u64
  sp_slen :: u64

definition spec_init :: "byte \<Rightarrow> fmt_spec" where
  "spec_init c =
    \<lparr>sp_zero = (if c = ch_0 then ch_0 else ch_space), sp_width = 0, sp_sign = True, sp_hex = 0, sp_max_width = False,
     sp_frac_width = 0, sp_slen = -1\<rparr>"

text \<open>\<open>while (*fmt >= '0' && *fmt <= '9') width = width * 10 + *fmt++ - '0'\<close>\<close>

fun fmt_digits :: "u64 \<Rightarrow> bytes \<Rightarrow> (u64 \<times> bytes) option" where
  "fmt_digits width [] = None"
| "fmt_digits width (c # fmt) =
    (if ch_0 \<le> c \<and> c \<le> ch_9 then fmt_digits (width * 10 + ucast (c - ch_0)) fmt else Some (width, c # fmt))"

text \<open>The loop over the flags.\<close>

fun fmt_flags :: "fmt_spec \<Rightarrow> bytes \<Rightarrow> vararg list \<Rightarrow> (fmt_spec \<times> bytes \<times> vararg list) option" where
  "fmt_flags sp [] args = None"
| "fmt_flags sp (c # fmt) args =
    (if c = 0x75 then fmt_flags (sp\<lparr>sp_sign := False\<rparr>) fmt args
     else if c = 0x6D then fmt_flags (sp\<lparr>sp_max_width := True\<rparr>) fmt args
     else if c = 0x58 then fmt_flags (sp\<lparr>sp_hex := 2, sp_sign := False\<rparr>) fmt args
     else if c = 0x78 then fmt_flags (sp\<lparr>sp_hex := 1, sp_sign := False\<rparr>) fmt args
     else if c = ch_dot then
       do { (w, fmt') \<leftarrow> fmt_digits (sp_frac_width sp) fmt; Some (sp\<lparr>sp_frac_width := w\<rparr>, fmt', args) }
     else if c = 0x2A then
       (case args of Arg_long n # args' \<Rightarrow> fmt_flags (sp\<lparr>sp_slen := n\<rparr>) fmt args' | _ \<Rightarrow> None)
     else Some (sp, c # fmt, args))"

subsection \<open>Conversions\<close>

text \<open>
  The second \<open>switch\<close>: either the bytes written (the cases that end in \<open>continue\<close>), or a number to be written behind
  the \<open>switch\<close>, with its specification.
\<close>

datatype conv = Conv_bytes bytes | Conv_num fmt_spec u64

text \<open>\<open>while (*p && buf < last) *buf++ = *p++\<close>\<close>

fun copy_cstr :: "bytes \<Rightarrow> nat \<Rightarrow> bytes option" where
  "copy_cstr p 0 = (if p = [] then None else Some [])"
| "copy_cstr [] (Suc room) = None"
| "copy_cstr (c # p) (Suc room) = (if c = NUL then Some [] else map_option ((#) c) (copy_cstr p room))"

definition conv_string :: "nat \<Rightarrow> fmt_spec \<Rightarrow> bytes \<Rightarrow> conv option" where
  "conv_string room sp p =
    (if sp_slen sp = -1 then map_option Conv_bytes (copy_cstr p room)
     else
       (let len = min room (unat (sp_slen sp)) in
        if len \<le> length p then Some (Conv_bytes (take len p)) else None))"

text \<open>A 64-bit argument, and a 32-bit one that is extended with or without its sign.\<close>

definition conv_long :: "fmt_spec \<Rightarrow> vararg list \<Rightarrow> (conv \<times> vararg list) option" where
  "conv_long sp args = (case args of Arg_long n # args' \<Rightarrow> Some (Conv_num sp n, args') | _ \<Rightarrow> None)"

definition conv_int :: "fmt_spec \<Rightarrow> vararg list \<Rightarrow> (conv \<times> vararg list) option" where
  "conv_int sp args =
    (case args of Arg_int n # args' \<Rightarrow> Some (Conv_num sp (if sp_sign sp then scast n else ucast n), args') | _ \<Rightarrow> None)"

definition conv_double :: "nat \<Rightarrow> fmt_spec \<Rightarrow> bool \<Rightarrow> u64 \<Rightarrow> (nat \<Rightarrow> u64) \<Rightarrow> bytes" where
  "conv_double room sp neg whole frac =
    (let out = (if neg then [ch_dash] else []);
         out = out @ ngx_sprintf_num (room - length out) whole (sp_zero sp) 0 (unat (sp_width sp))
     in if sp_frac_width sp = 0 then out
        else
          (let out = (if length out < room then out @ [ch_dot] else out)
           in out @ ngx_sprintf_num (room - length out) (frac (unat (sp_frac_width sp))) ch_0 0 (unat (sp_frac_width sp))))"

definition fmt_conv :: "nat \<Rightarrow> fmt_spec \<Rightarrow> byte \<Rightarrow> vararg list \<Rightarrow> (conv \<times> vararg list) option" where
  "fmt_conv room sp c args =
    (if c = ch_V \<or> c = 0x76 then
       (case args of Arg_str s # args' \<Rightarrow> Some (Conv_bytes (take (min room (length s)) s), args') | _ \<Rightarrow> None)
     else if c = 0x73 then
       (case args of Arg_cstr p # args' \<Rightarrow> map_option (\<lambda>r. (r, args')) (conv_string room sp p) | _ \<Rightarrow> None)
     else if c = ch_O \<or> c = ch_T \<or> c = 0x72 then conv_long (sp\<lparr>sp_sign := True\<rparr>) args
     else if c = ch_P then conv_int (sp\<lparr>sp_sign := True\<rparr>) args
     else if c = ch_M then
       (case args of
          Arg_long ms # args' \<Rightarrow> Some (Conv_num (sp\<lparr>sp_sign := (ms = -1)\<rparr>) ms, args')
        | _ \<Rightarrow> None)
     else if c = 0x7A \<or> c = 0x6C \<or> c = ch_L then conv_long sp args
     else if c = 0x69 \<or> c = ch_A then conv_long (if sp_max_width sp then sp\<lparr>sp_width := 20\<rparr> else sp) args
     else if c = 0x64 \<or> c = ch_D then conv_int sp args
     else if c = ch_f then
       (case args of
          Arg_double neg whole frac # args' \<Rightarrow> Some (Conv_bytes (conv_double room sp neg whole frac), args')
        | _ \<Rightarrow> None)
     else if c = 0x70 then conv_long (sp\<lparr>sp_hex := 2, sp_sign := False, sp_zero := ch_0, sp_width := 16\<rparr>) args
     else if c = 0x63 then
       (case args of Arg_int n # args' \<Rightarrow> Some (Conv_bytes [ucast (n AND 0xff)], args') | _ \<Rightarrow> None)
     else if c = ch_Z then Some (Conv_bytes [NUL], args)
     else if c = ch_N then Some (Conv_bytes [LF], args)
     else Some (Conv_bytes [c], args))"

text \<open>The code behind the \<open>switch\<close>: a minus sign and the number.\<close>

definition fmt_number :: "nat \<Rightarrow> fmt_spec \<Rightarrow> u64 \<Rightarrow> bytes" where
  "fmt_number room sp n =
    (if sp_sign sp \<and> n <s 0 then
       ch_dash # ngx_sprintf_num (room - 1) (- n) (sp_zero sp) (sp_hex sp) (unat (sp_width sp))
     else ngx_sprintf_num room n (sp_zero sp) (sp_hex sp) (unat (sp_width sp)))"

definition conv_bytes :: "nat \<Rightarrow> conv \<Rightarrow> bytes" where
  "conv_bytes room r = (case r of Conv_bytes out \<Rightarrow> out | Conv_num sp n \<Rightarrow> fmt_number room sp n)"

text \<open>One directive, \<open>fmt\<close> pointing behind the percent sign: the bytes written, the rest of the format and of the arguments.\<close>

definition fmt_directive :: "nat \<Rightarrow> bytes \<Rightarrow> vararg list \<Rightarrow> (bytes \<times> bytes \<times> vararg list) option" where
  "fmt_directive room fmt args =
    (case fmt of
       [] \<Rightarrow> None
     | c # _ \<Rightarrow> do {
         (w, fmt1) \<leftarrow> fmt_digits 0 fmt;
         (sp, fmt2, args1) \<leftarrow> fmt_flags ((spec_init c)\<lparr>sp_width := w\<rparr>) fmt1 args;
         case fmt2 of
           [] \<Rightarrow> None
         | d # fmt3 \<Rightarrow> do { (r, args2) \<leftarrow> fmt_conv room sp d args1; Some (conv_bytes room r, fmt3, args2) } })"

lemma fmt_digits_shorter: "fmt_digits w fmt = Some (w', fmt') \<Longrightarrow> length fmt' \<le> length fmt"
  by (induction w fmt rule: fmt_digits.induct) (auto split: if_splits)

lemma fmt_flags_shorter: "fmt_flags sp fmt args = Some (sp', fmt', args') \<Longrightarrow> length fmt' \<le> length fmt"
  by (induction sp fmt args rule: fmt_flags.induct)
    (auto dest: fmt_digits_shorter split: if_splits list.splits vararg.splits bind_splits)

lemma fmt_directive_shorter: "fmt_directive room fmt args = Some (out, fmt', args') \<Longrightarrow> length fmt' < length fmt"
  by (auto simp: fmt_directive_def simp del: fmt_digits.simps fmt_flags.simps dest!: fmt_digits_shorter fmt_flags_shorter
      split: list.splits bind_splits)

function ngx_vslprintf :: "nat \<Rightarrow> bytes \<Rightarrow> vararg list \<Rightarrow> bytes option" where
  "ngx_vslprintf room fmt args =
    (case fmt of
       [] \<Rightarrow> None
     | c # fmt' \<Rightarrow>
         if c = NUL \<or> room = 0 then Some []
         else if c = ch_percent then
           (case fmt_directive room fmt' args of
              None \<Rightarrow> None
            | Some (out, fmt2, args2) \<Rightarrow> map_option ((@) out) (ngx_vslprintf (room - length out) fmt2 args2))
         else map_option ((#) c) (ngx_vslprintf (room - 1) fmt' args))"
  by auto
termination
  by (relation "measure (\<lambda>(room, fmt, args). length fmt)") (auto dest: fmt_directive_shorter)

declare ngx_vslprintf.simps [simp del]

text \<open>\<open>ngx_sprintf\<close> passes \<open>(void *) -1\<close> for \<open>last\<close>.\<close>

definition ngx_sprintf :: "bytes \<Rightarrow> vararg list \<Rightarrow> bytes option" where
  "ngx_sprintf fmt args = ngx_vslprintf (2 ^ 64 - 1) fmt args"

definition ngx_snprintf :: "nat \<Rightarrow> bytes \<Rightarrow> vararg list \<Rightarrow> bytes option" where
  "ngx_snprintf mx fmt args = ngx_vslprintf mx fmt args"

definition ngx_slprintf :: "nat \<Rightarrow> bytes \<Rightarrow> vararg list \<Rightarrow> bytes option" where
  "ngx_slprintf room fmt args = ngx_vslprintf room fmt args"

subsection \<open>Bounds\<close>

lemma sprintf_num_room: "length (ngx_sprintf_num room w zero h width) \<le> room"
  by (auto simp: ngx_sprintf_num_def num_pad_length Let_def min_def)

lemma copy_cstr_room: "copy_cstr p room = Some out \<Longrightarrow> length out \<le> room"
  by (induction p room arbitrary: out rule: copy_cstr.induct) (auto split: if_splits)

lemma conv_double_room:
  assumes "0 < room"
  shows "length (conv_double room sp neg whole frac) \<le> room"
proof -
  have fit: "length (out @ ngx_sprintf_num (room - length out) w zero 0 width) \<le> room" if "length out \<le> room" for out w zero width
    using that sprintf_num_room [of "room - length out" w zero 0 width] by simp
  define o1 :: bytes where "o1 = (if neg then [ch_dash] else [])"
  define o2 where "o2 = o1 @ ngx_sprintf_num (room - length o1) whole (sp_zero sp) 0 (unat (sp_width sp))"
  define o3 where "o3 = (if length o2 < room then o2 @ [ch_dot] else o2)"
  have "length o1 \<le> room" using assms by (simp add: o1_def)
  then have "length o2 \<le> room" unfolding o2_def by (rule fit)
  moreover have "conv_double room sp neg whole frac = (if sp_frac_width sp = 0 then o2
      else o3 @ ngx_sprintf_num (room - length o3) (frac (unat (sp_frac_width sp))) ch_0 0 (unat (sp_frac_width sp)))"
    by (simp only: conv_double_def Let_def o1_def o2_def o3_def)
  moreover have "length o3 \<le> room" using \<open>length o2 \<le> room\<close> by (simp add: o3_def)
  ultimately show ?thesis using fit [of o3] by simp
qed

lemma fmt_conv_room:
  assumes "0 < room" "fmt_conv room sp c args = Some (r, args')"
  shows "length (conv_bytes room r) \<le> room"
proof -
  have num: "length (fmt_number room sp n) \<le> room" for sp n
    using assms(1) sprintf_num_room [of "room - 1"] sprintf_num_room [of room]
    by (auto simp: fmt_number_def) (metis One_nat_def Suc_le_eq Suc_pred less_Suc_eq_le)
  have "case r of Conv_bytes out \<Rightarrow> length out \<le> room | Conv_num sp n \<Rightarrow> True"
    using assms conv_double_room [OF assms(1)]
    by (auto simp: fmt_conv_def conv_string_def conv_long_def conv_int_def Let_def Suc_le_eq dest: copy_cstr_room
        split: if_splits list.splits vararg.splits)
  then show ?thesis using num by (cases r) (auto simp: conv_bytes_def)
qed

lemma fmt_directive_room:
  "0 < room \<Longrightarrow> fmt_directive room fmt args = Some (out, fmt', args') \<Longrightarrow> length out \<le> room"
  by (auto simp: fmt_directive_def simp del: fmt_digits.simps fmt_flags.simps split: list.splits bind_splits)
    (erule (1) fmt_conv_room)

lemma vslprintf_room: "ngx_vslprintf room fmt args = Some out \<Longrightarrow> length out \<le> room"
proof (induction room fmt args arbitrary: out rule: ngx_vslprintf.induct)
  case (1 room fmt args)
  obtain c fmt' where fmt: "fmt = c # fmt'" using 1(3) by (cases fmt) (auto simp: ngx_vslprintf.simps)
  show ?case
  proof (cases "c = NUL \<or> room = 0")
    case True
    then show ?thesis using 1(3) by (subst (asm) ngx_vslprintf.simps) (simp add: fmt)
  next
    case room: False
    show ?thesis
    proof (cases "c = ch_percent")
      case True
      then obtain o1 fmt2 args2 o2 where "fmt_directive room fmt' args = Some (o1, fmt2, args2)"
        "ngx_vslprintf (room - length o1) fmt2 args2 = Some o2" "out = o1 @ o2"
        using 1(3) room by (subst (asm) ngx_vslprintf.simps) (auto simp: fmt split: option.splits)
      then show ?thesis using 1(1) [OF fmt _ True] fmt_directive_room [of room fmt' args o1 fmt2 args2] room by fastforce
    next
      case False
      then obtain o2 where "ngx_vslprintf (room - 1) fmt' args = Some o2" "out = c # o2"
        using 1(3) room by (subst (asm) ngx_vslprintf.simps) (auto simp: fmt)
      then show ?thesis using 1(2) [OF fmt _ False] room by fastforce
    qed
  qed
qed

subsection \<open>Truncation\<close>

text \<open>With less room each conversion writes a prefix of what it writes with more.\<close>

lemma sprintf_num_prefix:
  "ngx_sprintf_num room w zero h width =
    take room (replicate (width - length (sprintf_digits w h)) zero @ sprintf_digits w h)"
  by (cases "width - length (sprintf_digits w h) \<le> room")
    (simp_all add: ngx_sprintf_num_def num_pad_length Let_def take_replicate min_absorb1 min_absorb2)

lemma sprintf_num_take:
  assumes "room \<le> big"
  shows "ngx_sprintf_num room w zero h width = take room (ngx_sprintf_num big w zero h width)"
  unfolding sprintf_num_prefix using assms by (simp only: take_take min_absorb1)

lemma append_num_take:
  assumes "room \<le> big" "out' = take room out"
  shows "out' @ ngx_sprintf_num (room - length out') w zero h width =
    take room (out @ ngx_sprintf_num (big - length out) w zero h width)"
proof (cases "length out \<le> room")
  case True
  then show ?thesis using assms sprintf_num_take [of "room - length out" "big - length out" w zero h width] by simp
next
  case False
  then show ?thesis using assms sprintf_num_room [of 0 w zero h width] by simp
qed

lemma copy_cstr_take:
  "copy_cstr p big = Some out \<Longrightarrow> room \<le> big \<Longrightarrow> copy_cstr p room = Some (take room out)"
proof (induction p big arbitrary: out room rule: copy_cstr.induct)
  case (3 c p big)
  then show ?case by (cases room) (auto split: if_splits)
qed (auto split: if_splits)

lemma conv_double_take:
  assumes "0 < room" "room \<le> big"
  shows "conv_double room sp neg whole frac = take room (conv_double big sp neg whole frac)"
proof -
  define o1 :: bytes where "o1 = (if neg then [ch_dash] else [])"
  define o2 where "o2 r = o1 @ ngx_sprintf_num (r - length o1) whole (sp_zero sp) 0 (unat (sp_width sp))" for r
  define o3 where "o3 r = (if length (o2 r) < r then o2 r @ [ch_dot] else o2 r)" for r
  have d: "conv_double r sp neg whole frac = (if sp_frac_width sp = 0 then o2 r
      else o3 r @ ngx_sprintf_num (r - length (o3 r)) (frac (unat (sp_frac_width sp))) ch_0 0 (unat (sp_frac_width sp)))" for r
    by (simp only: conv_double_def Let_def o1_def o2_def o3_def)
  have "o1 = take room o1" using assms(1) by (simp add: o1_def)
  then have o2: "o2 room = take room (o2 big)" unfolding o2_def by (rule append_num_take [OF assms(2)])
  have "length o1 \<le> big" using assms by (simp add: o1_def)
  then have "length (o2 big) \<le> big"
    using sprintf_num_room [of "big - length o1" whole "sp_zero sp" 0 "unat (sp_width sp)"] by (simp add: o2_def)
  then have "o3 room = take room (o3 big)" using assms(2) by (cases "length (o2 big) < room") (simp_all add: o3_def o2)
  from append_num_take [OF assms(2) this] show ?thesis by (simp add: d o2)
qed

lemma fmt_number_take:
  assumes "0 < room" "room \<le> big"
  shows "fmt_number room sp n = take room (fmt_number big sp n)"
  using assms sprintf_num_take [of "room - 1" "big - 1"] sprintf_num_take [of room big]
  by (cases room) (auto simp: fmt_number_def)

definition conv_short :: "nat \<Rightarrow> conv \<Rightarrow> conv" where
  "conv_short room r = (case r of Conv_bytes out \<Rightarrow> Conv_bytes (take room out) | Conv_num sp n \<Rightarrow> Conv_num sp n)"

lemma conv_string_take:
  assumes "room \<le> big" "conv_string big sp p = Some r"
  shows "conv_string room sp p = Some (conv_short room r)"
proof (cases "sp_slen sp = -1")
  case True
  then show ?thesis using assms copy_cstr_take [of p big _ room] by (auto simp: conv_string_def conv_short_def)
next
  case False
  then show ?thesis using assms by (auto simp: conv_string_def conv_short_def Let_def min_def split: if_splits)
qed

definition shortens :: "nat \<Rightarrow> (conv \<times> vararg list) option \<Rightarrow> (conv \<times> vararg list) option \<Rightarrow> bool" where
  "shortens room f g \<longleftrightarrow> (\<forall>r args. f = Some (r, args) \<longrightarrow> g = Some (conv_short room r, args))"

lemma shortens_if:
  assumes "shortens room f1 g1" "shortens room f2 g2"
  shows "shortens room (if b then f1 else f2) (if b then g1 else g2)"
  using assms by simp

lemma shortens_conv:
  "shortens room (conv_long sp args) (conv_long sp args)"
  "shortens room (conv_int sp args) (conv_int sp args)"
  by (auto simp: shortens_def conv_short_def conv_long_def conv_int_def split: list.splits vararg.splits)

lemma fmt_conv_shortens:
  assumes "0 < room" "room \<le> big"
  shows "shortens room (fmt_conv big sp c args) (fmt_conv room sp c args)"
  unfolding fmt_conv_def
proof (intro shortens_if shortens_conv)
  show "shortens room (case args of Arg_str s # args' \<Rightarrow> Some (Conv_bytes (take (min big (length s)) s), args') | _ \<Rightarrow> None)
      (case args of Arg_str s # args' \<Rightarrow> Some (Conv_bytes (take (min room (length s)) s), args') | _ \<Rightarrow> None)"
    using assms by (auto simp: shortens_def conv_short_def min_def split: list.splits vararg.splits)
  show "shortens room (case args of Arg_cstr p # args' \<Rightarrow> map_option (\<lambda>r. (r, args')) (conv_string big sp p) | _ \<Rightarrow> None)
      (case args of Arg_cstr p # args' \<Rightarrow> map_option (\<lambda>r. (r, args')) (conv_string room sp p) | _ \<Rightarrow> None)"
    using conv_string_take [OF assms(2)] by (auto simp: shortens_def split: list.splits vararg.splits)
  show "shortens room (case args of Arg_double neg whole frac # args' \<Rightarrow> Some (Conv_bytes (conv_double big sp neg whole frac), args') | _ \<Rightarrow> None)
      (case args of Arg_double neg whole frac # args' \<Rightarrow> Some (Conv_bytes (conv_double room sp neg whole frac), args') | _ \<Rightarrow> None)"
    using conv_double_take [OF assms] by (auto simp: shortens_def conv_short_def split: list.splits vararg.splits)
qed (use assms(1) in \<open>auto simp: shortens_def conv_short_def split: list.splits vararg.splits\<close>)

lemma conv_bytes_take:
  assumes "0 < room" "room \<le> big"
  shows "conv_bytes room (conv_short room r) = take room (conv_bytes big r)"
  using fmt_number_take [OF assms] by (cases r) (simp_all add: conv_bytes_def conv_short_def)

lemma fmt_directive_take:
  assumes "0 < room" "room \<le> big" "fmt_directive big fmt args = Some (out, fmt', args')"
  shows "fmt_directive room fmt args = Some (take room out, fmt', args')"
proof -
  obtain c f w f1 sp a1 d r where d: "fmt = c # f" "fmt_digits 0 fmt = Some (w, f1)"
    "fmt_flags ((spec_init c)\<lparr>sp_width := w\<rparr>) f1 args = Some (sp, d # fmt', a1)"
    "fmt_conv big sp d a1 = Some (r, args')" "out = conv_bytes big r"
    using assms(3) by (auto simp: fmt_directive_def simp del: fmt_digits.simps fmt_flags.simps split: list.splits bind_splits)
  then show ?thesis using fmt_conv_shortens [OF assms(1,2), of sp d a1] conv_bytes_take [OF assms(1,2), of r]
    by (simp add: shortens_def fmt_directive_def del: fmt_digits.simps fmt_flags.simps)
qed

lemma vslprintf_0: "ngx_vslprintf big fmt args = Some out \<Longrightarrow> ngx_vslprintf 0 fmt args = Some []"
  by (cases fmt) (simp_all add: ngx_vslprintf.simps)

lemma vslprintf_take:
  "ngx_vslprintf big fmt args = Some out \<Longrightarrow> room \<le> big \<Longrightarrow> ngx_vslprintf room fmt args = Some (take room out)"
proof (induction big fmt args arbitrary: out room rule: ngx_vslprintf.induct)
  case (1 big fmt args)
  show ?case
  proof (cases "room = 0")
    case True
    then show ?thesis using 1(3) vslprintf_0 by simp
  next
    case room: False
    obtain c f where fmt: "fmt = c # f" using 1(3) by (cases fmt) (auto simp: ngx_vslprintf.simps)
    consider "c = NUL" | "c \<noteq> NUL" "c = ch_percent" | "c \<noteq> NUL" "c \<noteq> ch_percent" by blast
    then show ?thesis
    proof cases
      case 1
      with "1.prems" show ?thesis by (simp add: fmt ngx_vslprintf.simps)
    next
      case 2
      then obtain o1 f2 a2 o2 where d: "fmt_directive big f args = Some (o1, f2, a2)"
        "ngx_vslprintf (big - length o1) f2 a2 = Some o2" "out = o1 @ o2"
        using "1.prems" room by (subst (asm) ngx_vslprintf.simps) (auto simp: fmt split: option.splits)
      have "ngx_vslprintf (room - length (take room o1)) f2 a2 = Some (take (room - length (take room o1)) o2)"
        using "1.IH"(1) [OF fmt _ 2(2) d(1) refl refl d(2)] 2 room "1.prems"(2) by (simp add: min_def)
      then show ?thesis using 2 room fmt_directive_take [OF _ "1.prems"(2) d(1)] d(3)
        by (subst ngx_vslprintf.simps) (simp add: fmt min_def split: if_splits)
    next
      case 3
      then obtain o2 where d: "ngx_vslprintf (big - 1) f args = Some o2" "out = c # o2"
        using "1.prems" room by (subst (asm) ngx_vslprintf.simps) (auto simp: fmt)
      have "ngx_vslprintf (room - 1) f args = Some (take (room - 1) o2)"
        using "1.IH"(2) [OF fmt _ 3(2) d(1)] 3 room "1.prems"(2) by simp
      then show ?thesis using 3 room d(2) by (subst ngx_vslprintf.simps) (cases room; simp add: fmt)
    qed
  qed
qed

text \<open>
  C18. Whatever the format and the arguments are, the output of \<open>ngx_vslprintf\<close> never exceeds the room it was given,
  and with less room it is the beginning of the output with more: a short buffer only cuts the text.
\<close>

theorem vslprintf_correct:
  assumes "ngx_vslprintf big fmt args = Some out" "room \<le> big"
  shows "length out \<le> big \<and> ngx_vslprintf room fmt args = Some (take room out)"
  using vslprintf_room [OF assms(1)] vslprintf_take [OF assms] by simp

lemmas fmt_eval = ngx_vslprintf.simps fmt_directive_def fmt_conv_def conv_bytes_def spec_init_def

theorem vslprintf_correct_witness:
  "ngx_vslprintf 3 (str ''a%V!'' @ [NUL]) [Arg_str (str ''xyzuv'')] = Some (str ''axy'')"
proof -
  have "ngx_vslprintf 9 (str ''a%V!'' @ [NUL]) [Arg_str (str ''xyzuv'')] = Some (str ''axyzuv!'')"
    by (simp add: fmt_eval str_def)
  from vslprintf_correct [OF this, of 3] show ?thesis by (simp add: str_def)
qed

end
