(* ===== verification/Ngx_Times.thy ===== *)
theory Ngx_Times
  imports Ngx_Sprintf
begin

section \<open>Dates\<close>

text \<open>
  \<open>ngx_gmtime\<close>, \<open>ngx_http_time\<close> and \<open>ngx_http_cookie_time\<close> of \<open>src/core/ngx_times.c\<close> and \<open>ngx_http_parse_time\<close> of
  \<open>src/http/ngx_http_parse_time.c\<close>.  A time is the number of seconds since 1970 as a natural number below \<open>2\<^sup>6\<^sup>4\<close>; none
  of the intermediate results of \<open>ngx_gmtime\<close> overflows for it.
\<close>

subsection \<open>From seconds to dates\<close>

record ngx_tm =
  tm_sec :: nat
  tm_min :: nat
  tm_hour :: nat
  tm_mday :: nat
  tm_mon :: nat
  tm_year :: int
  tm_wday :: nat

text \<open>Gauss' formula: the days before March 1 of a year.\<close>

definition year_days :: "nat \<Rightarrow> nat" where
  "year_days year = 365 * year + year div 4 - year div 100 + year div 400"

definition leap_year :: "nat \<Rightarrow> nat" where
  "leap_year year = (if year mod 4 = 0 \<and> (year mod 100 \<noteq> 0 \<or> year mod 400 = 0) then 1 else 0)"

text \<open>The year that starts in March and the day in it; \<open>days\<close> counts from March 1, 1 BC.\<close>

definition gm_year :: "nat \<Rightarrow> nat \<times> int" where
  "gm_year days =
    (let year = (days + 2) * 400 div (365 * 400 + 100 - 4 + 1);
         yday = int days - int (year_days year)
     in if yday < 0 then (year - 1, 365 + int (leap_year year) + yday) else (year, yday))"

definition gm_month :: "int \<Rightarrow> nat" where
  "gm_month yday = nat ((yday + 31) * 10 div 306)"

definition gm_mday :: "int \<Rightarrow> nat \<Rightarrow> nat" where
  "gm_mday yday mon = nat (yday - (int (367 * mon div 12) - 30) + 1)"

text \<open>The year is stored in an \<open>int\<close> of 32 bits.\<close>

definition ngx_gmtime :: "nat \<Rightarrow> ngx_tm" where
  "ngx_gmtime t =
    (let n = t; days = n div 86400; wday = (4 + days) mod 7;
         n = n mod 86400; hour = n div 3600; n = n mod 3600; mi = n div 60; sec = n mod 60;
         (year, yday) = gm_year (days + 719527 - (31 + 28));
         mon = gm_month yday; mday = gm_mday yday mon;
         (year, mon) = (if yday \<ge> 306 then (year + 1, mon - 10) else (year, mon + 2))
     in \<lparr>tm_sec = sec, tm_min = mi, tm_hour = hour, tm_mday = mday, tm_mon = mon,
         tm_year = signed_take_bit 31 (int year), tm_wday = wday\<rparr>)"

definition week :: "bytes list" where
  "week = map str [''Sun'', ''Mon'', ''Tue'', ''Wed'', ''Thu'', ''Fri'', ''Sat'']"

definition months :: "bytes list" where
  "months = map str [''Jan'', ''Feb'', ''Mar'', ''Apr'', ''May'', ''Jun'', ''Jul'', ''Aug'', ''Sep'', ''Oct'', ''Nov'', ''Dec'']"

definition ngx_http_time :: "nat \<Rightarrow> bytes option" where
  "ngx_http_time t =
    (let tm = ngx_gmtime t in
     ngx_sprintf (str ''%s, %02d %s %4d %02d:%02d:%02d GMT'' @ [NUL])
       [Arg_cstr (week ! tm_wday tm @ [NUL]), Arg_int (word_of_nat (tm_mday tm)), Arg_cstr (months ! (tm_mon tm - 1) @ [NUL]),
        Arg_int (word_of_int (tm_year tm)), Arg_int (word_of_nat (tm_hour tm)), Arg_int (word_of_nat (tm_min tm)),
        Arg_int (word_of_nat (tm_sec tm))])"

definition ngx_http_cookie_time :: "nat \<Rightarrow> bytes option" where
  "ngx_http_cookie_time t =
    (let tm = ngx_gmtime t in
     ngx_sprintf
       ((if tm_year tm > 2037 then str ''%s, %02d-%s-%d %02d:%02d:%02d GMT''
         else str ''%s, %02d-%s-%02d %02d:%02d:%02d GMT'') @ [NUL])
       [Arg_cstr (week ! tm_wday tm @ [NUL]), Arg_int (word_of_nat (tm_mday tm)), Arg_cstr (months ! (tm_mon tm - 1) @ [NUL]),
        Arg_int (word_of_int (if tm_year tm > 2037 then tm_year tm else tm_year tm mod 100)),
        Arg_int (word_of_nat (tm_hour tm)), Arg_int (word_of_nat (tm_min tm)), Arg_int (word_of_nat (tm_sec tm))])"

subsection \<open>From text to seconds\<close>

text \<open>
  The parser reads the memory \<open>d\<close> of the value through positions; a result is \<open>None\<close> for a read behind the memory,
  and \<open>Some\<close> of the value returned otherwise.  The parts of the function follow each other as continuations.
\<close>

datatype date_fmt = Fmt_rfc822 | Fmt_rfc850 | Fmt_isoc

definition rd :: "bytes \<Rightarrow> nat \<Rightarrow> (byte \<Rightarrow> u64 option) \<Rightarrow> u64 option" where
  "rd d p k = (case peek d p of None \<Rightarrow> None | Some c \<Rightarrow> k c)"

definition rd_digit :: "bytes \<Rightarrow> nat \<Rightarrow> (nat \<Rightarrow> u64 option) \<Rightarrow> u64 option" where
  "rd_digit d p k = rd d p (\<lambda>c. if c < ch_0 \<or> c > ch_9 then Some NGX_ERR else k (unat c - 48))"

definition rd_num2 :: "bytes \<Rightarrow> nat \<Rightarrow> (nat \<Rightarrow> u64 option) \<Rightarrow> u64 option" where
  "rd_num2 d p k = rd_digit d p (\<lambda>a. rd_digit d (p + 1) (\<lambda>b. k (a * 10 + b)))"

definition rd_num4 :: "bytes \<Rightarrow> nat \<Rightarrow> (nat \<Rightarrow> u64 option) \<Rightarrow> u64 option" where
  "rd_num4 d p k = rd_digit d p (\<lambda>a. rd_digit d (p + 1) (\<lambda>b. rd_digit d (p + 2) (\<lambda>c. rd_digit d (p + 3) (\<lambda>e.
    k (a * 1000 + b * 100 + c * 10 + e)))))"

text \<open>The first loop: up to a comma or a space, and whether it was a space; \<open>n\<close> is \<open>end - p\<close>.\<close>

fun date_prefix :: "bytes \<Rightarrow> nat \<Rightarrow> nat \<Rightarrow> (nat \<times> bool) option" where
  "date_prefix d p 0 = Some (p, False)"
| "date_prefix d p (Suc n) =
    (case peek d p of
       None \<Rightarrow> None
     | Some c \<Rightarrow> if c = ch_comma then Some (p, False) else if c = ch_space then Some (p, True) else date_prefix d (p + 1) n)"

fun date_blanks :: "bytes \<Rightarrow> nat \<Rightarrow> nat \<Rightarrow> nat option" where
  "date_blanks d p 0 = Some p"
| "date_blanks d p (Suc n) =
    (case peek d p of None \<Rightarrow> None | Some c \<Rightarrow> if c \<noteq> ch_space then Some p else date_blanks d (p + 1) n)"

text \<open>The month, from 0, by its letters.\<close>

definition rd_month :: "bytes \<Rightarrow> nat \<Rightarrow> (nat \<Rightarrow> u64 option) \<Rightarrow> u64 option" where
  "rd_month d p k = rd d p (\<lambda>c.
     if c = 0x4A then rd d (p + 1) (\<lambda>c1. if c1 = ch_a then k 0 else rd d (p + 2) (\<lambda>c2. if c2 = 0x6E then k 5 else k 6))
     else if c = ch_F then k 1
     else if c = ch_M then rd d (p + 2) (\<lambda>c2. if c2 = 0x72 then k 2 else k 4)
     else if c = ch_A then rd d (p + 1) (\<lambda>c1. if c1 = 0x70 then k 3 else k 7)
     else if c = ch_S then k 8
     else if c = ch_O then k 9
     else if c = ch_N then k 10
     else if c = ch_D then k 11
     else Some NGX_ERR)"

definition mday :: "nat list" where
  "mday = [31, 28, 31, 30, 31, 30, 31, 31, 30, 31, 30, 31]"

text \<open>The checks of the fields and Gauss' formula, in unsigned 64-bit arithmetic.\<close>

definition date_value :: "nat \<Rightarrow> nat \<Rightarrow> u64 \<Rightarrow> nat \<Rightarrow> nat \<Rightarrow> nat \<Rightarrow> u64" where
  "date_value day month year hour mi sec =
    (if hour > 23 \<or> mi > 59 \<or> sec > 59 then NGX_ERR
     else if day = 29 \<and> month = 1 \<and> (year AND 3 \<noteq> 0 \<or> year mod 100 = 0 \<and> year mod 400 \<noteq> 0) then NGX_ERR
     else if \<not> (day = 29 \<and> month = 1) \<and> day > mday ! month then NGX_ERR
     else
       (let (month, year) = (if month \<le> 1 then (month + 11, year - 1) else (month - 1, year)) in
        (365 * year + year div 4 - year div 100 + year div 400 + word_of_nat (367 * month div 12) - 30 +
         word_of_nat day - 1 - 719527 + 31 + 28) * 86400 +
        word_of_nat hour * 3600 + word_of_nat mi * 60 + word_of_nat sec))"

definition rd_clock :: "bytes \<Rightarrow> date_fmt \<Rightarrow> nat \<Rightarrow> nat \<Rightarrow> nat \<Rightarrow> nat \<Rightarrow> u64 option" where
  "rd_clock d fmt day month year p =
    rd d p (\<lambda>c. if c \<noteq> ch_space then Some NGX_ERR else
    rd_num2 d (p + 1) (\<lambda>hour.
    rd d (p + 3) (\<lambda>c. if c \<noteq> ch_colon then Some NGX_ERR else
    rd_num2 d (p + 4) (\<lambda>mi.
    rd d (p + 6) (\<lambda>c. if c \<noteq> ch_colon then Some NGX_ERR else
    rd_num2 d (p + 7) (\<lambda>sec.
    if fmt = Fmt_isoc then
      rd d (p + 9) (\<lambda>c. if c \<noteq> ch_space then Some NGX_ERR else
      rd_num4 d (p + 10) (\<lambda>year. Some (date_value day month (word_of_nat year) hour mi sec)))
    else Some (date_value day month (word_of_nat year) hour mi sec)))))))"

definition rd_iso_day :: "bytes \<Rightarrow> nat \<Rightarrow> nat \<Rightarrow> nat \<Rightarrow> u64 option" where
  "rd_iso_day d len month p = rd d p (\<lambda>c.
     let p = (if c = ch_space then p + 1 else p) in
     rd_digit d p (\<lambda>day. rd d (p + 1) (\<lambda>c.
       if c \<noteq> ch_space then
         rd_digit d (p + 1) (\<lambda>e.
           if int len - int (p + 2) < 14 then Some NGX_ERR else rd_clock d Fmt_isoc (day * 10 + e) month 0 (p + 2))
       else if int len - int (p + 1) < 14 then Some NGX_ERR else rd_clock d Fmt_isoc day month 0 (p + 1))))"

definition rd_date :: "bytes \<Rightarrow> nat \<Rightarrow> date_fmt \<Rightarrow> nat \<Rightarrow> nat \<Rightarrow> u64 option" where
  "rd_date d len fmt day p = rd_month d p (\<lambda>month.
     (case fmt of
        Fmt_rfc822 \<Rightarrow> rd d (p + 3) (\<lambda>c. if c \<noteq> ch_space then Some NGX_ERR else
          rd_num4 d (p + 4) (\<lambda>year. rd_clock d fmt day month year (p + 8)))
      | Fmt_rfc850 \<Rightarrow> rd d (p + 3) (\<lambda>c. if c \<noteq> ch_dash then Some NGX_ERR else
          rd_num2 d (p + 4) (\<lambda>year. rd_clock d fmt day month (year + (if year < 70 then 2000 else 1900)) (p + 6)))
      | Fmt_isoc \<Rightarrow> rd_iso_day d len month (p + 4)))"

definition ngx_http_parse_time :: "bytes \<Rightarrow> nat \<Rightarrow> u64 option" where
  "ngx_http_parse_time d len =
    (case date_prefix d 0 len of
       None \<Rightarrow> None
     | Some (p, is_isoc) \<Rightarrow>
         (case date_blanks d (p + 1) (len - (p + 1)) of
            None \<Rightarrow> None
          | Some p \<Rightarrow>
              if int len - int p < 18 then Some NGX_ERR
              else if is_isoc then rd_date d len Fmt_isoc 0 p
              else
                rd_num2 d p (\<lambda>day. rd d (p + 2) (\<lambda>c.
                  if c = ch_space then
                    (if int len - int (p + 2) < 18 then Some NGX_ERR else rd_date d len Fmt_rfc822 day (p + 3))
                  else if c = ch_dash then rd_date d len Fmt_rfc850 day (p + 3)
                  else Some NGX_ERR))))"

subsection \<open>The calendar\<close>

lemma mod_400_100: "(n :: nat) mod 400 = 0 \<Longrightarrow> n mod 100 = 0" and mod_100_4: "n mod 100 = 0 \<Longrightarrow> n mod 4 = 0"
  using dvd_trans [of 100 400 n] dvd_trans [of 4 100 n] by (simp_all add: mod_eq_0_iff_dvd)

lemma int_year_days: "int (year_days y) = 365 * int y + int (y div 4) - int (y div 100) + int (y div 400)"
proof -
  have "y div 100 \<le> 365 * y + y div 4" by (simp add: div_le_mono2 trans_le_add2)
  then show ?thesis by (simp add: year_days_def of_nat_diff)
qed

lemma year_days_Suc: "year_days (Suc y) = year_days y + 365 + leap_year (Suc y)"
proof -
  have "int (year_days (Suc y)) = int (year_days y) + 365 + int (leap_year (Suc y))"
    using mod_400_100 [of "Suc y"] mod_100_4 [of "Suc y"]
    by (cases "Suc y mod 4 = 0"; cases "Suc y mod 100 = 0"; cases "Suc y mod 400 = 0")
      (simp_all add: int_year_days leap_year_def div_Suc)
  then show ?thesis by linarith
qed

text \<open>The days before a year are \<open>365.2425\<close> times the year, up to two days.\<close>

lemma year_days_bounds: "146097 * y \<le> 400 * year_days y + 591" "400 * year_days y \<le> 146097 * y + 300"
proof -
  define Z r where "Z = y div 100" and "r = y mod 100"
  define q c a b where "q = Z div 4" and "c = Z mod 4" and "a = r div 4" and "b = r mod 4"
  have y: "y = 100 * Z + r" "r < 100" and Z: "Z = 4 * q + c" "c < 4" and r: "r = 4 * a + b" "b < 4"
    by (simp_all add: Z_def r_def q_def c_def a_def b_def)
  have "y div 400 = q" unfolding q_def Z_def by (simp flip: div_mult2_eq)
  moreover have "y div 4 = 25 * Z + a"
    using div_mult_self3 [of 4 "25 * Z" r] unfolding y(1) a_def by (simp add: mult.assoc)
  ultimately have "int (year_days y) = 365 * int y + 25 * int Z + int a - int Z + int q" by (simp add: int_year_days Z_def)
  then show "146097 * y \<le> 400 * year_days y + 591" "400 * year_days y \<le> 146097 * y + 300"
    using y Z r by linarith+
qed

lemma gm_year_correct:
  assumes "gm_year days = (y, yd)"
  shows "0 \<le> yd" "int days = int (year_days y) + yd" "yd < 365 + int (leap_year (Suc y))"
proof -
  define Y where "Y = (days + 2) * 400 div (365 * 400 + 100 - 4 + 1)"
  have "Y * 146097 \<le> (days + 2) * 400" unfolding Y_def by simp
  moreover have "(days + 2) * 400 < (Y + 1) * 146097" unfolding Y_def using dividend_less_div_times [of 146097 "(days + 2) * 400"] by simp
  ultimately have b: "year_days Y \<le> days + 365 + leap_year Y \<and> days < year_days (Suc Y)"
    using year_days_bounds(2) [of Y] year_days_bounds(1) [of "Suc Y"] by simp
  note g = assms(1) [unfolded gm_year_def Y_def [symmetric] Let_def]
  show "0 \<le> yd" "int days = int (year_days y) + yd" "yd < 365 + int (leap_year (Suc y))"
  proof (atomize (full), cases "days < year_days Y")
    case True
    then obtain y' where "Y = Suc y'" by (cases Y) (auto simp: year_days_def)
    then show "0 \<le> yd \<and> int days = int (year_days y) + yd \<and> yd < 365 + int (leap_year (Suc y))"
      using g b True year_days_Suc [of y'] by auto
  next
    case False
    then show "0 \<le> yd \<and> int days = int (year_days y) + yd \<and> yd < 365 + int (leap_year (Suc y))"
      using g b year_days_Suc [of Y] by auto
  qed
qed

lemma gm_month_cases:
  assumes "0 \<le> yd" "yd < 366"
  shows "gm_month yd \<in> {1..12} \<and> 306 * int (gm_month yd) \<le> 10 * yd + 310 \<and> 10 * yd + 310 < 306 * int (gm_month yd) + 306"
proof -
  define q where "q = (yd + 31) * 10 div 306"
  have "306 * q + (yd + 31) * 10 mod 306 = 10 * yd + 310" unfolding q_def by simp
  moreover have "0 \<le> (yd + 31) * 10 mod 306" "(yd + 31) * 10 mod 306 < 306" by simp_all
  ultimately have b: "306 * q \<le> 10 * yd + 310" "10 * yd + 310 < 306 * q + 306" by linarith+
  moreover from b have "1 \<le> q" "q \<le> 12" using assms by linarith+
  ultimately show ?thesis unfolding gm_month_def q_def [symmetric] by auto
qed

text \<open>The day of the month, the length of the month, and the months of the next year.\<close>

lemma gm_mday_correct:
  assumes "0 \<le> yd" "yd < 366" "mon = gm_month yd" "day = gm_mday yd mon"
  shows "1 \<le> mon \<and> mon \<le> 12 \<and> (306 \<le> yd \<longleftrightarrow> 11 \<le> mon) \<and> 1 \<le> day \<and>
    yd + 31 = int (367 * mon div 12) + int day \<and>
    (yd = 365 \<and> day = 29 \<or> yd < 365 \<and> day \<le> mday ! (if 306 \<le> yd then mon - 11 else mon + 1))"
proof -
  have m13: "mon < 13" "mon \<noteq> 0" and b: "306 * int mon \<le> 10 * yd + 310" "10 * yd + 310 < 306 * int mon + 306"
    using gm_month_cases [OF assms(1,2)] assms(3) by auto
  from m13 have m: "mon = 1 \<or> mon = 2 \<or> mon = 3 \<or> mon = 4 \<or> mon = 5 \<or> mon = 6 \<or>
      mon = 7 \<or> mon = 8 \<or> mon = 9 \<or> mon = 10 \<or> mon = 11 \<or> mon = 12" by presburger
  then have "1 \<le> yd + 31 - int (367 * mon div 12)" using b assms(1) by (elim disjE; simp)
  then have d: "int day = yd + 31 - int (367 * mon div 12)" and "1 \<le> day" unfolding assms(4) gm_mday_def by linarith+
  have i: "306 \<le> yd \<longleftrightarrow> 11 \<le> mon" using b by linarith
  show ?thesis
  proof (cases "yd = 365")
    case True
    then have "mon = 12" using b by linarith
    then show ?thesis using d True by simp
  next
    case False
    have "yd + 31 - int (367 * mon div 12) \<le> int (mday ! (if 11 \<le> mon then mon - 11 else mon + 1))"
      using m b assms(2) False by (elim disjE; simp add: mday_def)
    then show ?thesis using d \<open>1 \<le> day\<close> m13 i assms(2) False by simp
  qed
qed

subsection \<open>The text of a date\<close>

lemma sprintf_num_2:
  assumes "n < 100" "20 \<le> room"
  shows "ngx_sprintf_num room (word_of_nat n) ch_0 0 2 = [word_of_nat (n div 10 + 48), word_of_nat (n mod 10 + 48)]"
proof -
  have "unat (word_of_nat n :: u64) = n" using assms(1) by (simp add: unat_of_nat take_bit_nat_eq_self)
  moreover have "n div 10 < 10" using assms(1) by simp
  ultimately show ?thesis using assms
    by (cases "n < 10") (simp_all add: sprintf_num_prefix sprintf_digits_dec dec_digits.simps [of n] dec_digits.simps [of "n div 10"] del: of_nat_add)
qed

lemma sprintf_num_4:
  assumes "1000 \<le> n" "n < 10000" "20 \<le> room"
  shows "ngx_sprintf_num room (word_of_nat n) ch_space 0 4 =
    [word_of_nat (n div 1000 + 48), word_of_nat (n div 100 mod 10 + 48), word_of_nat (n div 10 mod 10 + 48), word_of_nat (n mod 10 + 48)]"
proof -
  have "unat (word_of_nat n :: u64) = n" using assms(2) by (simp add: unat_of_nat take_bit_nat_eq_self)
  moreover have "n div 1000 < 10" "10 \<le> n div 100" "10 \<le> n div 10" using assms by linarith+
  moreover have "n div 10 div 10 = n div 100" "n div 100 div 10 = n div 1000" by (simp_all flip: div_mult2_eq)
  ultimately show ?thesis using assms
    by (simp add: sprintf_num_prefix sprintf_digits_dec dec_digits.simps [of n] dec_digits.simps [of "n div 10"]
        dec_digits.simps [of "n div 100"] dec_digits.simps [of "n div 1000"] del: of_nat_add)
qed

lemma fmt_int_nat:
  assumes "n < 2 ^ 31" "sp_sign sp"
  shows "fmt_number room sp (scast (word_of_nat n :: u32)) = ngx_sprintf_num room (word_of_nat n) (sp_zero sp) (sp_hex sp) (unat (sp_width sp))"
proof -
  have "sint (word_of_nat n :: u32) = int n"
    using assms(1) by (simp add: signed_of_nat signed_take_bit_int_eq_self)
  then have s: "(scast (word_of_nat n :: u32) :: u64) = word_of_nat n" by (simp add: scast_eq)
  have "sint (word_of_nat n :: u64) = int n"
    using assms(1) by (simp add: signed_of_nat signed_take_bit_int_eq_self)
  then have "\<not> (word_of_nat n :: u64) <s 0" by (simp add: word_sless_alt)
  then show ?thesis using assms(2) by (simp add: fmt_number_def s)
qed

lemma directive_02d:
  assumes "n < 100" "20 \<le> room"
  shows "fmt_directive room (ch_0 # 0x32 # 0x64 # fmt) (Arg_int (word_of_nat n) # args) =
    Some ([word_of_nat (n div 10 + 48), word_of_nat (n mod 10 + 48)], fmt, args)"
  using assms by (simp add: fmt_directive_def spec_init_def fmt_conv_def conv_int_def conv_bytes_def fmt_int_nat sprintf_num_2 del: of_nat_add)

lemma directive_4d:
  assumes "1000 \<le> n" "n < 10000" "20 \<le> room"
  shows "fmt_directive room (0x34 # 0x64 # fmt) (Arg_int (word_of_nat n) # args) =
    Some ([word_of_nat (n div 1000 + 48), word_of_nat (n div 100 mod 10 + 48), word_of_nat (n div 10 mod 10 + 48),
      word_of_nat (n mod 10 + 48)], fmt, args)"
  using assms by (simp add: fmt_directive_def spec_init_def fmt_conv_def conv_int_def conv_bytes_def fmt_int_nat sprintf_num_4 del: of_nat_add)

lemma directive_s3:
  assumes "a \<noteq> NUL" "b \<noteq> NUL" "c \<noteq> NUL" "20 \<le> room"
  shows "fmt_directive room (0x73 # fmt) (Arg_cstr [a, b, c, NUL] # args) = Some ([a, b, c], fmt, args)"
proof -
  obtain r where "room = Suc (Suc (Suc (Suc r)))" using assms(4) by (intro that [of "room - 4"]) linarith
  then show ?thesis using assms
    by (simp add: fmt_directive_def spec_init_def fmt_conv_def conv_string_def conv_bytes_def)
qed

lemma vslprintf_percent:
  "fmt_directive room fmt args = Some (out, fmt2, args2) \<Longrightarrow> 0 < room \<Longrightarrow>
    ngx_vslprintf room (ch_percent # fmt) args = map_option ((@) out) (ngx_vslprintf (room - length out) fmt2 args2)"
  by (subst ngx_vslprintf.simps) simp

lemma vslprintf_char:
  "c \<noteq> NUL \<Longrightarrow> c \<noteq> ch_percent \<Longrightarrow> 0 < room \<Longrightarrow>
    ngx_vslprintf room (c # fmt) args = map_option ((#) c) (ngx_vslprintf (room - 1) fmt args)"
  by (subst ngx_vslprintf.simps) simp

lemma vslprintf_end: "ngx_vslprintf room (NUL # fmt) args = Some []"
  by (subst ngx_vslprintf.simps) simp

lemmas fmt_steps = vslprintf_percent [OF directive_02d] vslprintf_percent [OF directive_4d] vslprintf_percent [OF directive_s3]
  vslprintf_char vslprintf_end

lemma http_time_text:
  assumes "tm = ngx_gmtime t" "week ! tm_wday tm = [w1, w2, w3]" "NUL \<notin> {w1, w2, w3}"
    "months ! (tm_mon tm - 1) = [m1, m2, m3]" "NUL \<notin> {m1, m2, m3}" "tm_mday tm < 100"
    "tm_year tm = int y" "1000 \<le> y" "y < 10000" "tm_hour tm < 100" "tm_min tm < 100" "tm_sec tm < 100"
  shows "ngx_http_time t = Some [w1, w2, w3, ch_comma, ch_space,
    word_of_nat (tm_mday tm div 10 + 48), word_of_nat (tm_mday tm mod 10 + 48), ch_space, m1, m2, m3, ch_space,
    word_of_nat (y div 1000 + 48), word_of_nat (y div 100 mod 10 + 48), word_of_nat (y div 10 mod 10 + 48),
    word_of_nat (y mod 10 + 48), ch_space, word_of_nat (tm_hour tm div 10 + 48), word_of_nat (tm_hour tm mod 10 + 48), ch_colon,
    word_of_nat (tm_min tm div 10 + 48), word_of_nat (tm_min tm mod 10 + 48), ch_colon,
    word_of_nat (tm_sec tm div 10 + 48), word_of_nat (tm_sec tm mod 10 + 48), ch_space, ch_G, ch_M, ch_T]"
proof -
  have fmt: "str ''%s, %02d %s %4d %02d:%02d:%02d GMT'' @ [NUL] =
    [0x25, 0x73, 0x2C, 0x20, 0x25, 0x30, 0x32, 0x64, 0x20, 0x25, 0x73, 0x20, 0x25, 0x34, 0x64, 0x20, 0x25, 0x30, 0x32, 0x64, 0x3A,
     0x25, 0x30, 0x32, 0x64, 0x3A, 0x25, 0x30, 0x32, 0x64, 0x20, 0x47, 0x4D, 0x54, 0]"
    by (simp add: str_def)
  show ?thesis unfolding ngx_http_time_def Let_def assms(1) [symmetric] fmt ngx_sprintf_def
    using assms by (simp add: fmt_steps del: of_nat_add)
qed

subsection \<open>Reading the text of a date\<close>

lemma rd_digit_dec:
  assumes "peek d p = Some (word_of_nat (n + 48))" "n < 10"
  shows "rd_digit d p k = k n"
proof -
  have "unat (word_of_nat (n + 48) :: byte) = n + 48" using assms(2) by (simp add: unat_of_nat take_bit_nat_eq_self del: of_nat_add)
  then show ?thesis using assms by (simp add: rd_digit_def rd_def word_less_nat_alt del: of_nat_add)
qed

lemma rd_num2_dec:
  assumes "peek d p = Some (word_of_nat (n div 10 + 48))" "peek d (p + 1) = Some (word_of_nat (n mod 10 + 48))" "n < 100"
  shows "rd_num2 d p k = k n"
  using rd_digit_dec [OF assms(1)] rd_digit_dec [OF assms(2)] assms(3) unfolding rd_num2_def by simp

lemma rd_num4_dec:
  assumes "peek d p = Some (word_of_nat (n div 1000 + 48))" "peek d (p + 1) = Some (word_of_nat (n div 100 mod 10 + 48))"
    "peek d (p + 2) = Some (word_of_nat (n div 10 mod 10 + 48))" "peek d (p + 3) = Some (word_of_nat (n mod 10 + 48))" "n < 10000"
  shows "rd_num4 d p k = k n"
proof -
  have "n div 1000 < 10" using assms(5) by simp
  moreover have "n div 1000 * 1000 + n div 100 mod 10 * 100 + n div 10 mod 10 * 10 + n mod 10 = n"
  proof -
    have "n div 10 div 10 = n div 100" "n div 100 div 10 = n div 1000" by (simp_all flip: div_mult2_eq)
    then show ?thesis
      using div_mult_mod_eq [of n 10] div_mult_mod_eq [of "n div 10" 10] div_mult_mod_eq [of "n div 100" 10] by linarith
  qed
  ultimately show ?thesis
    using rd_digit_dec [OF assms(1)] rd_digit_dec [OF assms(2)] rd_digit_dec [OF assms(3)] rd_digit_dec [OF assms(4)]
    unfolding rd_num4_def by simp
qed

lemma rd_month_correct:
  assumes "mo < 12" "peek d p = Some (months ! mo ! 0)" "peek d (p + 1) = Some (months ! mo ! 1)" "peek d (p + 2) = Some (months ! mo ! 2)"
  shows "rd_month d p k = k mo"
proof -
  have "mo = 0 \<or> mo = 1 \<or> mo = 2 \<or> mo = 3 \<or> mo = 4 \<or> mo = 5 \<or> mo = 6 \<or> mo = 7 \<or> mo = 8 \<or> mo = 9 \<or> mo = 10 \<or> mo = 11"
    using assms(1) by presburger
  then show ?thesis using assms(2-) unfolding rd_month_def rd_def by (elim disjE; simp add: months_def str_def)
qed

lemma names_3:
  assumes "ns = week \<or> ns = months" "n < length ns"
  obtains a b c where "ns ! n = [a, b, c]" "{NUL, ch_comma, ch_space} \<inter> {a, b, c} = {}"
proof -
  have "list_all (\<lambda>s. length s = 3 \<and> list_all (\<lambda>c. c \<notin> {NUL, ch_comma, ch_space}) s) (week @ months)"
    by (simp add: week_def months_def str_def)
  then have "length (ns ! n) = 3 \<and> list_all (\<lambda>c. c \<notin> {NUL, ch_comma, ch_space}) (ns ! n)"
    using assms by (auto simp: list_all_iff dest: nth_mem)
  then show ?thesis using that by (auto simp: length_Suc_conv numeral_3_eq_3)
qed

lemma date_prefix_step:
  "0 < n \<Longrightarrow> date_prefix d p n =
    (case peek d p of
       None \<Rightarrow> None
     | Some c \<Rightarrow> if c = ch_comma then Some (p, False) else if c = ch_space then Some (p, True) else date_prefix d (p + 1) (n - 1))"
  by (cases n) (simp_all split: option.split)

lemma date_blanks_step:
  "0 < n \<Longrightarrow> date_blanks d p n =
    (case peek d p of None \<Rightarrow> None | Some c \<Rightarrow> if c \<noteq> ch_space then Some p else date_blanks d (p + 1) (n - 1))"
  by (cases n) (simp_all split: option.split)

lemma parse_time_text:
  assumes w: "{NUL, ch_comma, ch_space} \<inter> {w1, w2, w3} = {}" and m: "months ! mo = [m1, m2, m3]" "mo < 12"
    and n: "day < 100" "y < 10000" "hour < 100" "mi < 100" "sec < 100"
    and d: "d = [w1, w2, w3, ch_comma, ch_space,
    word_of_nat (day div 10 + 48), word_of_nat (day mod 10 + 48), ch_space, m1, m2, m3, ch_space,
    word_of_nat (y div 1000 + 48), word_of_nat (y div 100 mod 10 + 48), word_of_nat (y div 10 mod 10 + 48),
    word_of_nat (y mod 10 + 48), ch_space, word_of_nat (hour div 10 + 48), word_of_nat (hour mod 10 + 48), ch_colon,
    word_of_nat (mi div 10 + 48), word_of_nat (mi mod 10 + 48), ch_colon,
    word_of_nat (sec div 10 + 48), word_of_nat (sec mod 10 + 48), ch_space, ch_G, ch_M, ch_T]"
  shows "ngx_http_parse_time d 29 = Some (date_value day mo (word_of_nat y) hour mi sec)"
proof -
  note pk = peek_def d nth_Cons_numeral
  have p: "date_prefix d 0 29 = Some (3, False)"
    using w by (simp add: date_prefix_step peek_def d del: of_nat_add)
  have "unat (word_of_nat (day div 10 + 48) :: byte) = day div 10 + 48"
    using n(1) by (simp add: unat_of_nat take_bit_nat_eq_self del: of_nat_add)
  then have "(word_of_nat (day div 10 + 48) :: byte) \<noteq> ch_space" by (auto simp del: of_nat_add)
  then have b: "date_blanks d 4 25 = Some 5"
    by (simp add: date_blanks_step peek_def d del: of_nat_add)
  have r: "rd_num2 d 5 k = k day" "rd_month d 8 k = k mo" "rd_num4 d 12 k = k y"
    "rd_num2 d 17 k = k hour" "rd_num2 d 20 k = k mi" "rd_num2 d 23 k = k sec" for k
    using n m by (auto intro!: rd_num2_dec rd_num4_dec rd_month_correct simp: pk simp del: of_nat_add)
  have c: "rd d 7 k = k ch_space" "rd d 11 k = k ch_space" "rd d 16 k = k ch_space" "rd d 19 k = k ch_colon" "rd d 22 k = k ch_colon" for k
    by (simp_all add: rd_def pk del: of_nat_add)
  show ?thesis unfolding ngx_http_parse_time_def rd_date_def rd_clock_def by (simp add: p b r c)
qed

subsection \<open>The value of a date\<close>

lemma word_year:
  fixes y :: nat
  assumes "y < 2 ^ 63"
  shows "(word_of_nat y :: u64) div 4 = word_of_nat (y div 4)" "(word_of_nat y :: u64) div 100 = word_of_nat (y div 100)"
    "(word_of_nat y :: u64) div 400 = word_of_nat (y div 400)" "(word_of_nat y :: u64) mod 100 = word_of_nat (y mod 100)"
    "(word_of_nat y :: u64) mod 400 = word_of_nat (y mod 400)" "(word_of_nat y :: u64) AND 3 = word_of_nat (y mod 4)"
proof -
  have u: "unat (word_of_nat n :: u64) = n" if "n \<le> y" for n
    using that assms by (simp add: unat_of_nat take_bit_nat_eq_self)
  show "(word_of_nat y :: u64) div 4 = word_of_nat (y div 4)" "(word_of_nat y :: u64) div 100 = word_of_nat (y div 100)"
    "(word_of_nat y :: u64) div 400 = word_of_nat (y div 400)" "(word_of_nat y :: u64) mod 100 = word_of_nat (y mod 100)"
    "(word_of_nat y :: u64) mod 400 = word_of_nat (y mod 400)"
    by (simp_all add: word_unat_eq_iff u unat_div unat_mod)
  have "(word_of_nat y :: u64) AND 3 = word_of_nat y mod 4"
    using take_bit_eq_mask [of 2 "word_of_nat y :: u64"] by (simp add: mask_eq_exp_minus_1 take_bit_eq_mod)
  then show "(word_of_nat y :: u64) AND 3 = word_of_nat (y mod 4)"
    by (simp add: word_unat_eq_iff u unat_mod)
qed

lemma gauss_word:
  assumes "y < 2 ^ 63"
  shows "365 * word_of_nat y + word_of_nat y div 4 - word_of_nat y div 100 + word_of_nat y div 400 = (word_of_nat (year_days y) :: u64)"
proof -
  have "y div 100 \<le> 365 * y + y div 4" by (simp add: div_le_mono2 trans_le_add2)
  then show ?thesis unfolding word_year [OF assms] by (simp add: year_days_def of_nat_diff)
qed

lemma year_days_mono: "a \<le> b \<Longrightarrow> year_days a \<le> year_days b"
  by (rule lift_Suc_mono_le [of year_days]) (simp_all add: year_days_Suc)

text \<open>
  The fields of \<open>ngx_gmtime\<close> for a time before the year 10000, by the year \<open>y\<close> that starts in March, the day \<open>yd\<close> of it
  and the month \<open>mon\<close> counted from March.
\<close>

lemma gmtime_fields:
  assumes t: "t < 253402300800" and tm: "tm = ngx_gmtime t"
  obtains y yd mon where "0 \<le> yd" "yd < 365 + int (leap_year (Suc y))"
    "int (t div 86400) + 719468 = int (year_days y) + yd" "mon = gm_month yd" "1000 \<le> y" "y < 10000"
    "tm_wday tm < 7" "tm_hour tm < 24" "tm_min tm < 60" "tm_sec tm < 60"
    "t = t div 86400 * 86400 + tm_hour tm * 3600 + tm_min tm * 60 + tm_sec tm" "tm_mday tm = gm_mday yd mon"
    "306 \<le> yd \<and> tm_mon tm = mon - 10 \<and> tm_year tm = int (Suc y) \<and> Suc y < 10000 \<or>
     yd < 306 \<and> tm_mon tm = mon + 2 \<and> tm_year tm = int y"
proof -
  obtain y yd where g: "gm_year (t div 86400 + 719527 - (31 + 28)) = (y, yd)" by fastforce
  have days: "int (t div 86400) + 719468 = int (year_days y) + yd" and yd: "0 \<le> yd" "yd < 365 + int (leap_year (Suc y))"
    using gm_year_correct [OF g] by simp_all
  have D: "t div 86400 < 2932897" using t by (simp add: less_mult_imp_div_less)
  have "year_days 10000 = 3652425" "year_days 9999 = 3652059" "year_days 1000 = 365242" by (simp_all add: year_days_def)
  then have y: "1000 \<le> y" "y < 10000" "306 \<le> yd \<Longrightarrow> Suc y < 10000"
    using year_days_mono [of "Suc y" 1000] year_days_mono [of 10000 y] year_days_mono [of 9999 y] year_days_Suc [of y] days yd D
    by linarith+
  have s: "signed_take_bit 31 (int n) = int n" if "n < 10001" for n
    using that by (simp add: signed_take_bit_int_eq_self)
  define n where "n = t mod 86400"
  have "n < 86400" by (simp add: n_def)
  then have "n div 3600 < 24" by (simp add: less_mult_imp_div_less)
  moreover have "n mod 3600 div 60 < 60" using less_mult_imp_div_less [of "n mod 3600" 60 60] by simp
  moreover have "t = t div 86400 * 86400 + n div 3600 * 3600 + n mod 3600 div 60 * 60 + n mod 3600 mod 60"
    using div_mult_mod_eq [of t 86400, folded n_def] div_mult_mod_eq [of n 3600] div_mult_mod_eq [of "n mod 3600" 60] by linarith
  moreover have "tm = \<lparr>tm_sec = n mod 3600 mod 60, tm_min = n mod 3600 div 60, tm_hour = n div 3600, tm_mday = gm_mday yd (gm_month yd),
      tm_mon = if 306 \<le> yd then gm_month yd - 10 else gm_month yd + 2, tm_year = if 306 \<le> yd then int (Suc y) else int y,
      tm_wday = (4 + t div 86400) mod 7\<rparr>"
    using s [of y] s [of "Suc y"] y unfolding tm ngx_gmtime_def Let_def g prod.case n_def by simp
  ultimately show thesis
    using yd days y by (intro that [of yd y "gm_month yd"]) simp_all
qed

lemma date_value_days:
  assumes "y < 10000" "hour < 24" "mi < 60" "sec < 60" "1 \<le> mon" "mon \<le> 12"
    "D + 719468 + 31 = year_days y + 367 * mon div 12 + day"
    "day = 29 \<and> mon = 12 \<and> leap_year (Suc y) = 1 \<or> day \<le> mday ! (if 11 \<le> mon then mon - 11 else mon + 1)"
  shows "date_value day (if 11 \<le> mon then mon - 11 else mon + 1) (word_of_nat (if 11 \<le> mon then Suc y else y)) hour mi sec =
    word_of_nat (D * 86400 + hour * 3600 + mi * 60 + sec)"
proof -
  define mo Y where "mo = (if 11 \<le> mon then mon - 11 else mon + 1)" and "Y = (if 11 \<le> mon then Suc y else y)"
  have Y: "Y < 10001" using assms(1) by (simp add: Y_def)
  have my: "(if mo \<le> 1 then (mo + 11, (word_of_nat Y :: u64) - 1) else (mo - 1, word_of_nat Y)) = (mon, word_of_nat y)"
    using assms(5,6) by (auto simp: mo_def Y_def)
  have Y63: "Y < 2 ^ 63" using Y by simp
  have small: "(word_of_nat n :: u64) = 0 \<longleftrightarrow> n = 0" if "n < 10001" for n
    using that by (simp add: word_unat_eq_iff unat_of_nat take_bit_nat_eq_self)
  have g: "\<not> (day = 29 \<and> mo = 1 \<and> ((word_of_nat Y :: u64) AND 3 \<noteq> 0 \<or> word_of_nat Y mod 100 = (0 :: u64) \<and> word_of_nat Y mod 400 \<noteq> (0 :: u64)))
      \<and> \<not> (\<not> (day = 29 \<and> mo = 1) \<and> day > mday ! mo)"
  proof (cases "day = 29 \<and> mo = 1")
    case True
    then have "mon = 12" using assms(5,6) unfolding mo_def by (cases "11 \<le> mon") auto
    then have "leap_year Y = 1" using assms(8) True by (simp add: mday_def Y_def)
    then have "Y mod 4 = 0 \<and> (Y mod 100 \<noteq> 0 \<or> Y mod 400 = 0)" unfolding leap_year_def by (simp split: if_splits)
    moreover have "(word_of_nat Y :: u64) AND 3 = 0 \<longleftrightarrow> Y mod 4 = 0" "(word_of_nat Y :: u64) mod 100 = 0 \<longleftrightarrow> Y mod 100 = 0"
      "(word_of_nat Y :: u64) mod 400 = 0 \<longleftrightarrow> Y mod 400 = 0"
      unfolding word_year [OF Y63] by (rule small, use Y in \<open>simp add: le_less_trans [OF mod_less_eq_dividend]\<close>)+
    ultimately show ?thesis using True by simp
  next
    case False
    then show ?thesis using assms(8) by (auto simp: mo_def)
  qed
  have v: "(word_of_nat (year_days y) :: u64) + word_of_nat (367 * mon div 12) - 30 + word_of_nat day - 1 - 719527 + 31 + 28 = word_of_nat D"
    using arg_cong [OF assms(7), of "word_of_nat :: nat \<Rightarrow> u64"] by (simp add: algebra_simps)
  have h: "\<not> (hour > 23 \<or> mi > 59 \<or> sec > 59)" using assms(2-4) by simp
  have y: "y < 2 ^ 63" using assms(1) by simp
  show ?thesis
    unfolding mo_def [symmetric] Y_def [symmetric] date_value_def if_not_P [OF h] if_not_P [OF conjunct1 [OF g]] if_not_P [OF conjunct2 [OF g]]
      Let_def my prod.case gauss_word [OF y] v by simp
qed

lemma mday_31: "i < 12 \<Longrightarrow> mday ! i \<le> 31"
proof -
  have "list_all (\<lambda>d. d \<le> 31) mday" "length mday = 12" by (simp_all add: mday_def)
  then show "i < 12 \<Longrightarrow> mday ! i \<le> 31" by (simp add: list_all_length)
qed

lemma gmtime_date:
  assumes "t < 253402300800" "tm = ngx_gmtime t"
  obtains y where "tm_year tm = int y" "1000 \<le> y" "y < 10000" "tm_mon tm - 1 < 12" "tm_mday tm < 100"
    "date_value (tm_mday tm) (tm_mon tm - 1) (word_of_nat y) (tm_hour tm) (tm_min tm) (tm_sec tm) = word_of_nat t"
proof -
  obtain y yd mon where f: "0 \<le> yd" "yd < 365 + int (leap_year (Suc y))"
    "int (t div 86400) + 719468 = int (year_days y) + yd" "mon = gm_month yd" "1000 \<le> y" "y < 10000"
    "tm_wday tm < 7" "tm_hour tm < 24" "tm_min tm < 60" "tm_sec tm < 60"
    "t = t div 86400 * 86400 + tm_hour tm * 3600 + tm_min tm * 60 + tm_sec tm" "tm_mday tm = gm_mday yd mon"
    "306 \<le> yd \<and> tm_mon tm = mon - 10 \<and> tm_year tm = int (Suc y) \<and> Suc y < 10000 \<or>
     yd < 306 \<and> tm_mon tm = mon + 2 \<and> tm_year tm = int y"
    by (rule gmtime_fields [OF assms])
  have leap: "leap_year (Suc y) \<le> 1" by (simp add: leap_year_def)
  then have "yd < 366" using f(2) by linarith
  note m = gm_mday_correct [OF f(1) this f(4,12)]
  have D: "t div 86400 + 719468 + 31 = year_days y + 367 * mon div 12 + tm_mday tm" using f(3) m by linarith
  have feb: "tm_mday tm = 29 \<and> mon = 12 \<and> leap_year (Suc y) = 1 \<or> tm_mday tm \<le> mday ! (if 11 \<le> mon then mon - 11 else mon + 1)"
  proof (cases "yd = 365")
    case True
    then have "mon = 12" using f(4) by (simp add: gm_month_def)
    moreover have "leap_year (Suc y) = 1" using leap f(2) True by linarith
    ultimately show ?thesis using m True by simp
  next
    case False
    then show ?thesis using m by auto
  qed
  have v: "date_value (tm_mday tm) (if 11 \<le> mon then mon - 11 else mon + 1) (word_of_nat (if 11 \<le> mon then Suc y else y))
      (tm_hour tm) (tm_min tm) (tm_sec tm) = word_of_nat t"
    using date_value_days [OF f(6,8,9,10) _ _ D feb] m f(11) by simp
  show thesis
  proof (rule that [of "if 11 \<le> mon then Suc y else y"])
    have "tm_mon tm - 1 = (if 11 \<le> mon then mon - 11 else mon + 1)" using f(13) m by auto
    then show "date_value (tm_mday tm) (tm_mon tm - 1) (word_of_nat (if 11 \<le> mon then Suc y else y)) (tm_hour tm) (tm_min tm) (tm_sec tm) =
        word_of_nat t" "tm_mon tm - 1 < 12" using v m by auto
    show "tm_mday tm < 100" using feb m mday_31 [of "if 11 \<le> mon then mon - 11 else mon + 1"] by auto
  qed (use f m in auto)
qed

text \<open>
  C14. The date that \<open>ngx_http_time\<close> writes into a header is read back by \<open>ngx_http_parse_time\<close> as the same time, for every
  second from 1970 to the end of the year 9999: the conversion to the Gregorian calendar, the formatted output, the
  lexical analysis and Gauss' formula fit together.  The text has 29 bytes.
\<close>

theorem http_time_roundtrip:
  assumes "t < 253402300800"
  shows "\<exists>d. ngx_http_time t = Some d \<and> length d = 29 \<and> ngx_http_parse_time d (length d) = Some (word_of_nat t)"
proof -
  define tm where "tm = ngx_gmtime t"
  obtain y where d: "tm_year tm = int y" "1000 \<le> y" "y < 10000" "tm_mon tm - 1 < 12" "tm_mday tm < 100"
    "date_value (tm_mday tm) (tm_mon tm - 1) (word_of_nat y) (tm_hour tm) (tm_min tm) (tm_sec tm) = word_of_nat t"
    by (rule gmtime_date [OF assms tm_def])
  have l: "length months = 12" "length week = 7" by (simp_all add: months_def week_def)
  obtain m1 m2 m3 where m: "months ! (tm_mon tm - 1) = [m1, m2, m3]" "{NUL, ch_comma, ch_space} \<inter> {m1, m2, m3} = {}"
    using names_3 [of months "tm_mon tm - 1"] d(4) l by auto
  have c: "tm_wday tm < 7" "tm_hour tm < 100" "tm_min tm < 100" "tm_sec tm < 100"
    by (rule gmtime_fields [OF assms tm_def]; simp)+
  obtain w1 w2 w3 where w: "week ! tm_wday tm = [w1, w2, w3]" "{NUL, ch_comma, ch_space} \<inter> {w1, w2, w3} = {}"
    using names_3 [of week "tm_wday tm"] c(1) l by auto
  note out = http_time_text [OF tm_def w(1) _ m(1) _ d(5,1,2,3) c(2-4)]
  note inp = parse_time_text [OF w(2) m(1) d(4,5,3) c(2-4) refl]
  have "\<exists>d. ngx_http_time t = Some d \<and> length d = 29 \<and> ngx_http_parse_time d 29 = Some (word_of_nat t)"
    using out inp d(6) m(2) w(2) by simp
  then show ?thesis by auto
qed

theorem http_time_roundtrip_witness:
  "\<exists>d. ngx_http_time 951782400 = Some d \<and> length d = 29 \<and> ngx_http_parse_time d (length d) = Some 951782400"
  using http_time_roundtrip [of 951782400] by simp

end
