(* ===== verification/Ngx_Round_Robin.thy ===== *)
theory Ngx_Round_Robin
  imports Ngx_Sort "HOL-Library.Monad_Syntax"
begin

section \<open>Choosing an upstream server\<close>

text \<open>
  \<open>src/http/ngx_http_upstream_round_robin.c\<close> and \<open>src/http/modules/ngx_http_upstream_ip_hash_module.c\<close>.  The peers of an
  upstream are a chain of at most two groups, the servers and the backup servers, which all requests share; a request
  has its own record with the group it uses, the position in it and the bitmap of the peers it has tried.  Weights are
  mathematical integers: the code multiplies them by 1000 in 64 bits, so they stand for weights below \<open>2\<^sup>6\<^sup>3 div 1000\<close>.
  \<open>None\<close> stands for an access outside an array or a division by zero.
\<close>

subsection \<open>Peers\<close>

record rr_peer =
  sockaddr :: bytes
  peer_name :: bytes
  current_weight :: int
  weight :: int
  fails :: u64
  accessed :: int
  max_fails :: u64
  fail_timeout :: int
  down :: bool

record rr_peers =
  single :: bool
  last_cached :: nat
  cached :: "nat list"
  peers_name :: bytes
  peer :: "rr_peer list"

abbreviation number :: "rr_peers \<Rightarrow> nat" where
  "number ps \<equiv> length (peer ps)"

text \<open>The servers of the configuration.\<close>

record rr_server =
  addrs :: "(bytes \<times> bytes) list"
  server_weight :: nat
  server_max_fails :: u64
  server_fail_timeout :: int
  server_down :: bool
  backup :: bool

definition ngx_http_upstream_cmp_servers :: "rr_peer \<Rightarrow> rr_peer \<Rightarrow> int" where
  "ngx_http_upstream_cmp_servers first second = (if weight first < weight second then 1 else 0)"

definition server_peers :: "rr_server \<Rightarrow> rr_peer list" where
  "server_peers s =
    map (\<lambda>(a, n).
      let w = (if server_down s then 0 else int (server_weight s)) in
      \<lparr>sockaddr = a, peer_name = n, current_weight = w, weight = w, fails = 0, accessed = 0,
       max_fails = server_max_fails s, fail_timeout = server_fail_timeout s, down = server_down s\<rparr>) (addrs s)"

text \<open>A backup server keeps its weight even if it is down.\<close>

definition backup_peers :: "rr_server \<Rightarrow> rr_peer list" where
  "backup_peers s =
    map (\<lambda>(a, n).
      \<lparr>sockaddr = a, peer_name = n, current_weight = int (server_weight s), weight = int (server_weight s), fails = 0,
       accessed = 0, max_fails = server_max_fails s, fail_timeout = server_fail_timeout s, down = server_down s\<rparr>) (addrs s)"

definition rr_group :: "bytes \<Rightarrow> bool \<Rightarrow> rr_peer list \<Rightarrow> rr_peers" where
  "rr_group host sng ps = \<lparr>single = sng, last_cached = 0, cached = [], peers_name = host, peer = ps\<rparr>"

text \<open>
  The flags tell whether the two allocations of peers and the one of the sort succeed.  For an upstream without a
  \<open>server\<close> directive \<open>resolved\<close> is the result of \<open>ngx_inet_resolve_host\<close>.
\<close>

definition implicit_peer :: "bytes \<times> bytes \<Rightarrow> rr_peer" where
  "implicit_peer an =
    \<lparr>sockaddr = fst an, peer_name = snd an, current_weight = 1, weight = 1, fails = 0, accessed = 0, max_fails = 1,
     fail_timeout = 10, down = False\<rparr>"

definition ngx_http_upstream_init_round_robin ::
  "bool \<Rightarrow> bool \<Rightarrow> bool \<Rightarrow> bytes \<Rightarrow> u16 \<Rightarrow> u16 \<Rightarrow> (bytes \<times> bytes) list option \<Rightarrow> rr_server list option \<Rightarrow> rr_peers list option" where
  "ngx_http_upstream_init_round_robin alloc1 alloc2 alloc_sort host port default_port resolved servers =
    (case servers of
       Some ss \<Rightarrow>
         (let ps = concat (map server_peers (filter (\<lambda>s. \<not> backup s) ss));
              n = sum_list (map (\<lambda>s. length (addrs s)) (filter (\<lambda>s. \<not> backup s) ss));
              bs = concat (map backup_peers (filter backup ss));
              nb = sum_list (map (\<lambda>s. length (addrs s)) (filter backup ss));
              srt = (\<lambda>l k. ngx_sort alloc_sort ngx_http_upstream_cmp_servers l k)
          in if \<not> alloc1 then None
             else if nb = 0 then Some [rr_group host (n = 1) (srt ps n)]
             else if \<not> alloc2 then None
             else Some [rr_group host False (srt ps n), rr_group host False (srt bs nb)])
     | None \<Rightarrow>
         if port = 0 \<and> default_port = 0 then None
         else
           (case resolved of
              None \<Rightarrow> None
            | Some as \<Rightarrow> if \<not> alloc1 then None else Some [rr_group host (length as = 1) (map implicit_peer as)]))"

subsection \<open>The next peer by weight\<close>

definition rr_ratio :: "int \<Rightarrow> int \<Rightarrow> int option" where
  "rr_ratio a b = (if b = 0 then None else Some (a * 1000 div b))"

text \<open>The inner \<open>while\<close> loop, \<open>k\<close> being \<open>peers->number - 1 - i\<close>.\<close>

fun get_peer_while :: "rr_peer list \<Rightarrow> nat \<Rightarrow> nat \<Rightarrow> nat \<Rightarrow> nat option" where
  "get_peer_while ps 0 i n = Some (if current_weight (ps ! i) > 0 then i else n)"
| "get_peer_while ps (Suc k) i n =
    (if current_weight (ps ! (i + 1)) \<le> 0 then get_peer_while ps k (i + 1) n
     else
       (case (rr_ratio (current_weight (ps ! n)) (current_weight (ps ! (i + 1))), rr_ratio (weight (ps ! n)) (weight (ps ! (i + 1)))) of
          (Some a, Some b) \<Rightarrow> if a > b then Some n else get_peer_while ps k (i + 1) (i + 1)
        | _ \<Rightarrow> None))"

text \<open>The outer loop, \<open>k\<close> being \<open>peers->number - i\<close>; the inner \<open>None\<close> if no peer has weight left.\<close>

fun get_peer_for :: "rr_peer list \<Rightarrow> nat \<Rightarrow> nat \<Rightarrow> nat option option" where
  "get_peer_for ps 0 i = Some None"
| "get_peer_for ps (Suc k) i =
    (if current_weight (ps ! i) \<le> 0 then get_peer_for ps k (i + 1) else map_option Some (get_peer_while ps k i i))"

definition ngx_http_upstream_get_peer :: "rr_peer list \<Rightarrow> (nat \<times> rr_peer list) option" where
  "ngx_http_upstream_get_peer ps =
    (case get_peer_for ps (length ps) 0 of
       None \<Rightarrow> None
     | Some (Some n) \<Rightarrow> Some (n, ps)
     | Some None \<Rightarrow>
         (let ps' = map (\<lambda>p. p\<lparr>current_weight := weight p\<rparr>) ps in
          case get_peer_for ps' (length ps') 0 of
            None \<Rightarrow> None
          | Some (Some n) \<Rightarrow> Some (n, ps')
          | Some None \<Rightarrow> Some (0, ps')))"

subsection \<open>The peers of a request\<close>

text \<open>
  The record of a request joins \<open>ngx_http_upstream_rr_peer_data_t\<close> and the fields of \<open>ngx_peer_connection_t\<close>; \<open>level\<close> is
  the group \<open>rrp->peers\<close> points to.
\<close>

record rr_request =
  level :: nat
  current :: nat
  tried :: "u64 list"
  tries :: u64
  pc_cached :: bool
  pc_connection :: "nat option"
  pc_sockaddr :: "bytes option"
  pc_name :: "bytes option"

definition tried_words :: "nat \<Rightarrow> nat" where
  "tried_words n = (if n \<le> 64 then 1 else (n + 63) div 64)"

definition ngx_http_upstream_init_round_robin_peer :: "bool \<Rightarrow> bool \<Rightarrow> rr_peers list \<Rightarrow> rr_request option" where
  "ngx_http_upstream_init_round_robin_peer alloc_rrp alloc chain =
    (case chain of
       [] \<Rightarrow> None
     | ps # nxt \<Rightarrow>
         (let n = number ps; n = (case nxt of [] \<Rightarrow> n | b # _ \<Rightarrow> if number b > n then number b else n) in
          if \<not> alloc_rrp \<or> n > 64 \<and> \<not> alloc then None
          else
            Some \<lparr>level = 0, current = 0, tried = replicate (tried_words n) 0, tries = word_of_nat (number ps), pc_cached = False,
                  pc_connection = None, pc_sockaddr = None, pc_name = None\<rparr>))"

text \<open>The bit of a peer in the bitmap.\<close>

definition tried_bit :: "nat \<Rightarrow> u64" where
  "tried_bit cur = push_bit (cur mod 64) 1"

definition is_tried :: "u64 list \<Rightarrow> nat \<Rightarrow> bool option" where
  "is_tried tr cur = (if cur div 64 < length tr then Some (tr ! (cur div 64) AND tried_bit cur \<noteq> 0) else None)"

definition set_tried :: "u64 list \<Rightarrow> nat \<Rightarrow> u64 list" where
  "set_tried tr cur = tr[cur div 64 := tr ! (cur div 64) OR tried_bit cur]"

definition clear_tried :: "nat \<Rightarrow> u64 list \<Rightarrow> u64 list option" where
  "clear_tried k tr = (let n = k div 64 + 1 in if n \<le> length tr then Some (replicate n 0 @ drop n tr) else None)"

text \<open>The part the two loops share: the peer is taken (\<open>Inl\<close>) or passed over (\<open>Inr\<close>).\<close>

definition rr_try :: "int \<Rightarrow> rr_peer list \<Rightarrow> rr_request \<Rightarrow> (rr_peer list + rr_peer list \<times> rr_request) option" where
  "rr_try now ps d =
    (let cur = current d in
     case is_tried (tried d) cur of
       None \<Rightarrow> None
     | Some True \<Rightarrow> Some (Inr (ps, d))
     | Some False \<Rightarrow>
         if cur \<ge> length ps then None
         else
           (let p = ps ! cur in
            if \<not> down p then
              (if max_fails p = 0 \<or> fails p < max_fails p then Some (Inl ps)
               else if now - accessed p > fail_timeout p then Some (Inl (ps[cur := p\<lparr>fails := 0\<rparr>]))
               else Some (Inr (ps[cur := p\<lparr>current_weight := 0\<rparr>], d\<lparr>tries := tries d - 1\<rparr>)))
            else Some (Inr (ps, d\<lparr>tried := set_tried (tried d) cur, tries := tries d - 1\<rparr>))))"

text \<open>The loops: the peers and the request, and whether a peer was found.  The counter \<open>i\<close> bounds them.\<close>

function rr_first :: "int \<Rightarrow> u64 \<Rightarrow> rr_peer list \<Rightarrow> rr_request \<Rightarrow> (bool \<times> rr_peer list \<times> rr_request) option" where
  "rr_first now i ps d =
    (case ngx_http_upstream_get_peer ps of
       None \<Rightarrow> None
     | Some (n, ps) \<Rightarrow>
         (let d = d\<lparr>current := n\<rparr> in
          case rr_try now ps d of
            None \<Rightarrow> None
          | Some (Inl ps) \<Rightarrow> Some (True, ps, d)
          | Some (Inr (ps, d)) \<Rightarrow>
              if tries d = 0 \<or> i - 1 = 0 then Some (False, ps, d) else rr_first now (i - 1) ps d))"
  by auto
termination
proof (relation "measure (\<lambda>(now, i, ps, d). unat (i - 1))")
  show "((now, i - 1, ps', d'), (now, i, ps, d)) \<in> measure (\<lambda>(now, i, ps, d). unat (i - 1))"
    if "\<not> (tries d2 = 0 \<or> i - 1 = 0)" for now i ps' d' ps d and d2 :: rr_request
    using that unat_minus_one [of "i - 1"] by (simp add: unat_gt_0)
qed auto

definition rr_next :: "nat \<Rightarrow> rr_request \<Rightarrow> rr_request" where
  "rr_next n d = d\<lparr>current := (if current d + 1 \<ge> n then 0 else current d + 1)\<rparr>"

function rr_again :: "int \<Rightarrow> u64 \<Rightarrow> rr_peer list \<Rightarrow> rr_request \<Rightarrow> (bool \<times> rr_peer list \<times> rr_request) option" where
  "rr_again now i ps d =
    (case rr_try now ps d of
       None \<Rightarrow> None
     | Some (Inl ps) \<Rightarrow> Some (True, ps, d)
     | Some (Inr (ps, d)) \<Rightarrow>
         (let d = rr_next (length ps) d in
          if tries d = 0 \<or> i - 1 = 0 then Some (False, ps, d) else rr_again now (i - 1) ps d))"
  by auto
termination
proof (relation "measure (\<lambda>(now, i, ps, d). unat (i - 1))")
  show "((now, i - 1, ps', d'), (now, i, ps, d)) \<in> measure (\<lambda>(now, i, ps, d). unat (i - 1))"
    if "\<not> (tries d2 = 0 \<or> i - 1 = 0)" for now i ps' d' ps d and d2 :: rr_request
    using that unat_minus_one [of "i - 1"] by (simp add: unat_gt_0)
qed auto

declare rr_first.simps [simp del] rr_again.simps [simp del]

datatype rr_rc = RR_ok | RR_busy

text \<open>
  One group: the peer taken and the peers and request behind it, \<open>None\<close> for the peer after \<open>goto failed\<close>.  The label
  \<open>failed\<close> itself is in the function below.
\<close>

definition rr_pick :: "int \<Rightarrow> rr_peers \<Rightarrow> rr_request \<Rightarrow> (rr_peer option \<times> rr_peers \<times> rr_request) option" where
  "rr_pick now g d =
    (if single g then (if number g = 0 then None else Some (Some (peer g ! 0), g, d))
     else
       (case (if tries d = word_of_nat (number g) then rr_first now (tries d) (peer g) d else rr_again now (tries d) (peer g) d) of
          None \<Rightarrow> None
        | Some (False, ps, d) \<Rightarrow> Some (None, g\<lparr>peer := ps\<rparr>, d)
        | Some (True, ps, d) \<Rightarrow>
            (let cur = current d; p = (ps ! cur)\<lparr>current_weight := current_weight (ps ! cur) - 1\<rparr>
             in Some (Some p, g\<lparr>peer := ps[cur := p]\<rparr>, d\<lparr>tried := set_tried (tried d) cur\<rparr>))))"

text \<open>The end of the function for a peer: the address, and the bitmap is cleared for the backup servers before the last try.\<close>

definition rr_connect :: "rr_peers list \<Rightarrow> nat \<Rightarrow> rr_peer \<Rightarrow> rr_request \<Rightarrow> (rr_rc \<times> rr_peers list \<times> rr_request) option" where
  "rr_connect chain lv p d =
    (let d = d\<lparr>pc_sockaddr := Some (sockaddr p), pc_name := Some (peer_name p)\<rparr> in
     if tries d = 1 \<and> lv + 1 < length chain then
       map_option (\<lambda>tr. (RR_ok, chain, d\<lparr>tries := tries d + word_of_nat (number (chain ! (lv + 1))), tried := tr\<rparr>))
         (clear_tried (number (chain ! (lv + 1))) (tried d))
     else Some (RR_ok, chain, d))"

text \<open>The label \<open>failed\<close>: the request for the backup servers, and the end, which marks all peers as live.\<close>

definition rr_backup :: "rr_peers list \<Rightarrow> nat \<Rightarrow> rr_request \<Rightarrow> rr_request option" where
  "rr_backup chain lv d =
    map_option (\<lambda>tr. d\<lparr>level := lv + 1, tries := word_of_nat (number (chain ! (lv + 1))), tried := tr\<rparr>)
      (clear_tried (number (chain ! (lv + 1))) (tried d))"

definition rr_busy :: "nat \<Rightarrow> rr_peers list \<Rightarrow> rr_request \<Rightarrow> rr_rc \<times> rr_peers list \<times> rr_request" where
  "rr_busy lv chain d =
    (RR_busy, chain[lv := (chain ! lv)\<lparr>peer := map (\<lambda>p. p\<lparr>fails := 0\<rparr>) (peer (chain ! lv))\<rparr>],
     d\<lparr>pc_name := Some (peers_name (chain ! lv))\<rparr>)"

function ngx_http_upstream_get_round_robin_peer ::
  "int \<Rightarrow> rr_peers list \<Rightarrow> rr_request \<Rightarrow> (rr_rc \<times> rr_peers list \<times> rr_request) option" where
  "ngx_http_upstream_get_round_robin_peer now chain d =
    (let lv = level d; g = chain ! lv in
     if lv \<ge> length chain then None
     else if last_cached g \<noteq> 0 then
       (if last_cached g < length (cached g) then
          Some (RR_ok, chain[lv := g\<lparr>last_cached := last_cached g - 1\<rparr>],
            d\<lparr>pc_connection := Some (cached g ! last_cached g), pc_cached := True\<rparr>)
        else None)
     else
       (case rr_pick now g (d\<lparr>pc_cached := False, pc_connection := None\<rparr>) of
          None \<Rightarrow> None
        | Some (Some p, g, d) \<Rightarrow> rr_connect (chain[lv := g]) lv p d
        | Some (None, g, d) \<Rightarrow>
            (let chain = chain[lv := g] in
             if lv + 1 < length chain then
               (case rr_backup chain lv d of
                  None \<Rightarrow> None
                | Some d \<Rightarrow>
                    (case ngx_http_upstream_get_round_robin_peer now chain d of
                       None \<Rightarrow> None
                     | Some (rc, chain, d) \<Rightarrow> Some (if rc \<noteq> RR_busy then (rc, chain, d) else rr_busy lv chain d)))
             else Some (rr_busy lv chain d))))"
  by auto
termination
  by (relation "measure (\<lambda>(now, chain, d). length chain - level d)") (auto simp: rr_backup_def)

declare ngx_http_upstream_get_round_robin_peer.simps [simp del]

definition NGX_PEER_FAILED :: u64 where
  "NGX_PEER_FAILED = 4"

definition ngx_http_upstream_free_round_robin_peer ::
  "int \<Rightarrow> rr_peers list \<Rightarrow> rr_request \<Rightarrow> u64 \<Rightarrow> (rr_peers list \<times> rr_request) option" where
  "ngx_http_upstream_free_round_robin_peer now chain d state =
    (if state = 0 \<and> tries d = 0 then Some (chain, d)
     else if level d \<ge> length chain then None
     else
       (let g = chain ! level d in
        if single g then Some (chain, d\<lparr>tries := 0\<rparr>)
        else
          (let failed = (state AND NGX_PEER_FAILED \<noteq> 0) in
           if failed \<and> current d \<ge> number g then None
           else
             (let p = peer g ! current d;
                  w = (if max_fails p \<noteq> 0 then current_weight p - weight p div uint (max_fails p) else current_weight p);
                  p = p\<lparr>fails := fails p + 1, accessed := now, current_weight := (if w < 0 then 0 else w)\<rparr>;
                  chain = (if failed then chain[level d := g\<lparr>peer := (peer g)[current d := p]\<rparr>] else chain);
                  d = rr_next (number g) d
              in Some (chain, if tries d \<noteq> 0 then d\<lparr>tries := tries d - 1\<rparr> else d)))))"

subsection \<open>The peer by the address of the client\<close>

record ip_hash_request =
  iph_rrp :: rr_request
  iph_hash :: nat
  iph_addr :: bytes
  iph_tries :: nat

text \<open>The address is \<open>None\<close> for a client that is not \<open>AF_INET\<close>.\<close>

definition ngx_http_upstream_init_ip_hash_peer ::
  "bool \<Rightarrow> bool \<Rightarrow> rr_peers list \<Rightarrow> (byte \<times> byte \<times> byte) option \<Rightarrow> ip_hash_request option" where
  "ngx_http_upstream_init_ip_hash_peer alloc_iphp alloc chain a =
    (if \<not> alloc_iphp then None
     else
       map_option
         (\<lambda>d. \<lparr>iph_rrp = d, iph_hash = 89, iph_addr = (case a of Some (a0, a1, a2) \<Rightarrow> [a0, a1, a2] | None \<Rightarrow> [0, 0, 0]), iph_tries = 0\<rparr>)
         (ngx_http_upstream_init_round_robin_peer True alloc chain))"

definition iph_step :: "bytes \<Rightarrow> nat \<Rightarrow> nat" where
  "iph_step addr hash = foldl (\<lambda>h a. (h * 113 + unat a) mod 6271) hash addr"

definition iph_fallback :: "int \<Rightarrow> rr_peers list \<Rightarrow> ip_hash_request \<Rightarrow> (rr_rc \<times> rr_peers list \<times> ip_hash_request) option" where
  "iph_fallback now chain q =
    map_option (\<lambda>(rc, chain, d). (rc, chain, q\<lparr>iph_rrp := d\<rparr>)) (ngx_http_upstream_get_round_robin_peer now chain (iph_rrp q))"

text \<open>The loop; \<open>None\<close> also for a group without peers, where the code divides by zero.\<close>

function iph_loop :: "int \<Rightarrow> rr_peers list \<Rightarrow> ip_hash_request \<Rightarrow> nat \<Rightarrow> (rr_rc \<times> rr_peers list \<times> ip_hash_request) option" where
  "iph_loop now chain q hash =
    (let d = iph_rrp q; lv = level d; g = chain ! lv; hash = iph_step (iph_addr q) hash; p = hash mod number g;
         found = (\<lambda>pr. Some (RR_ok, chain[lv := g\<lparr>peer := (peer g)[p := pr]\<rparr>],
           q\<lparr>iph_rrp := d\<lparr>current := p, pc_sockaddr := Some (sockaddr pr), pc_name := Some (peer_name pr), tried := set_tried (tried d) p\<rparr>,
             iph_hash := hash\<rparr>));
         again = (\<lambda>d. let q = q\<lparr>iph_rrp := d, iph_tries := iph_tries q + 1\<rparr> in
           if iph_tries q \<ge> 20 then iph_fallback now chain q else iph_loop now chain q hash)
     in if lv \<ge> length chain \<or> number g = 0 then None
        else
          (case is_tried (tried d) p of
             None \<Rightarrow> None
           | Some True \<Rightarrow> again d
           | Some False \<Rightarrow>
               (let pr = peer g ! p in
                if \<not> down pr \<and> (max_fails pr = 0 \<or> fails pr < max_fails pr) then found pr
                else if \<not> down pr \<and> now - accessed pr > fail_timeout pr then found (pr\<lparr>fails := 0\<rparr>)
                else again (d\<lparr>tried := set_tried (tried d) p, tries := tries d - 1\<rparr>))))"
  by auto
termination
  by (relation "measure (\<lambda>(now, chain, q, hash). 20 - iph_tries q)") auto

declare iph_loop.simps [simp del]

definition ngx_http_upstream_get_ip_hash_peer ::
  "int \<Rightarrow> rr_peers list \<Rightarrow> ip_hash_request \<Rightarrow> (rr_rc \<times> rr_peers list \<times> ip_hash_request) option" where
  "ngx_http_upstream_get_ip_hash_peer now chain q =
    (let d = iph_rrp q in
     if level d \<ge> length chain then None
     else if iph_tries q > 20 \<or> single (chain ! level d) then iph_fallback now chain q
     else iph_loop now chain (q\<lparr>iph_rrp := d\<lparr>pc_cached := False, pc_connection := None\<rparr>\<rparr>) (iph_hash q))"

subsection \<open>Weights\<close>

definition rr_peer_inv :: "rr_peer \<Rightarrow> bool" where
  "rr_peer_inv p \<longleftrightarrow> 0 \<le> weight p \<and> current_weight p \<le> weight p"

lemma get_peer_while_pos:
  assumes inv: "list_all rr_peer_inv ps"
  shows "i + k < length ps \<Longrightarrow> n < length ps \<Longrightarrow> 0 < current_weight (ps ! n) \<Longrightarrow>
    \<exists>n'. get_peer_while ps k i n = Some n' \<and> n' < length ps \<and> 0 < current_weight (ps ! n')"
proof (induction k arbitrary: i n)
  case (Suc k)
  show ?case
  proof (cases "current_weight (ps ! (i + 1)) \<le> 0")
    case True
    then show ?thesis using Suc.IH [of "i + 1" n] Suc.prems by simp
  next
    case False
    have "rr_peer_inv (ps ! (i + 1))" using inv Suc.prems(1) by (simp add: list_all_length)
    then have "rr_ratio a (current_weight (ps ! (i + 1))) \<noteq> None" "rr_ratio a (weight (ps ! (i + 1))) \<noteq> None" for a
      using False by (simp_all add: rr_ratio_def rr_peer_inv_def)
    then obtain a b where "rr_ratio (current_weight (ps ! n)) (current_weight (ps ! (i + 1))) = Some a"
      "rr_ratio (weight (ps ! n)) (weight (ps ! (i + 1))) = Some b" by blast
    then show ?thesis using False Suc.IH [of "i + 1" "i + 1"] Suc.prems by (cases "a > b") simp_all
  qed
qed simp

lemma get_peer_for_pos:
  "list_all rr_peer_inv ps \<Longrightarrow> i + k = length ps \<Longrightarrow>
    (\<exists>n. get_peer_for ps k i = Some (Some n) \<and> n < length ps \<and> 0 < current_weight (ps ! n)) \<or>
    get_peer_for ps k i = Some None \<and> list_all (\<lambda>p. current_weight p \<le> 0) (drop i ps)"
proof (induction ps k i rule: get_peer_for.induct)
  case (2 ps k i)
  have d: "drop i ps = ps ! i # drop (Suc i) ps" using 2(3) by (simp add: Cons_nth_drop_Suc)
  show ?case
  proof (cases "current_weight (ps ! i) \<le> 0")
    case True
    then show ?thesis using 2 d by simp
  next
    case False
    then show ?thesis using get_peer_while_pos [of ps i k i] 2(2,3) by auto
  qed
qed simp

text \<open>A peer with weight left is chosen if there is one; otherwise every peer gets its weight back.\<close>

definition rr_reset :: "rr_peer list \<Rightarrow> rr_peer list" where
  "rr_reset ps = (if list_all (\<lambda>p. current_weight p \<le> 0) ps then map (\<lambda>p. p\<lparr>current_weight := weight p\<rparr>) ps else ps)"

lemma rr_reset_inv: "list_all rr_peer_inv ps \<Longrightarrow> list_all rr_peer_inv (rr_reset ps)"
  by (auto simp: rr_reset_def rr_peer_inv_def list_all_iff)

lemma length_rr_reset [simp]: "length (rr_reset ps) = length ps"
  by (simp add: rr_reset_def)

lemma get_peer_reset:
  assumes "list_all rr_peer_inv ps" "ps \<noteq> []"
  shows "\<exists>n. ngx_http_upstream_get_peer ps = Some (n, rr_reset ps) \<and> n < length ps \<and>
    (0 < current_weight (rr_reset ps ! n) \<or> list_all (\<lambda>p. weight p \<le> 0) ps)"
proof -
  let ?r = "map (\<lambda>p. p\<lparr>current_weight := weight p\<rparr>) ps"
  have r: "list_all rr_peer_inv ?r" using assms(1) by (auto simp: rr_peer_inv_def list_all_iff)
  show ?thesis
  proof (cases "\<exists>n. get_peer_for ps (length ps) 0 = Some (Some n) \<and> n < length ps \<and> 0 < current_weight (ps ! n)")
    case True
    then obtain n where n: "get_peer_for ps (length ps) 0 = Some (Some n)" "n < length ps" "0 < current_weight (ps ! n)" by blast
    then have "rr_reset ps = ps" by (auto simp: rr_reset_def list_all_length)
    then show ?thesis using n by (simp add: ngx_http_upstream_get_peer_def)
  next
    case False
    then have f: "get_peer_for ps (length ps) 0 = Some None" "rr_reset ps = ?r"
      using get_peer_for_pos [OF assms(1), of 0 "length ps"] by (auto simp: rr_reset_def)
    show ?thesis
      using get_peer_for_pos [OF r, of 0 "length ps"] f assms(2)
      by (auto simp: ngx_http_upstream_get_peer_def Let_def list_all_iff)
  qed
qed

subsection \<open>The invariant\<close>

lemma is_tried_set: "is_tried (set_tried tr a) c = Some False \<Longrightarrow> is_tried tr c = Some False"
proof -
  have or: "x AND m = 0" if "(x OR y) AND m = 0" for x y m :: u64
  proof -
    have "x AND m = ((x OR y) AND m) AND x" by (simp add: bit_eq_iff bit_and_iff bit_or_iff) blast
    then show ?thesis using that by simp
  qed
  show "is_tried (set_tried tr a) c = Some False \<Longrightarrow> is_tried tr c = Some False"
    using or [of "tr ! (c div 64)" "tried_bit a" "tried_bit c"]
    by (cases "a div 64 = c div 64") (auto simp: is_tried_def set_tried_def split: if_splits)
qed

lemma is_tried_own: "is_tried (set_tried tr c) c \<noteq> Some False"
proof -
  have "(x OR tried_bit c) AND tried_bit c = tried_bit c" for x :: u64 by (simp add: bit_eq_iff bit_and_iff bit_or_iff)
  moreover have "tried_bit c \<noteq> 0" by (simp add: tried_bit_def push_bit_eq_mult)
  ultimately show ?thesis by (simp add: is_tried_def set_tried_def)
qed

lemma length_set_tried [simp]: "length (set_tried tr a) = length tr"
  by (simp add: set_tried_def)

text \<open>A peer that may be taken: it is up, and it has not failed too often.\<close>

definition rr_alive :: "rr_peer \<Rightarrow> bool" where
  "rr_alive p \<longleftrightarrow> \<not> down p \<and> (max_fails p = 0 \<or> fails p < max_fails p)"

text \<open>What the loops do to the peers and the request, whether they find a peer or not.\<close>

definition rr_step_ok :: "rr_peer list \<Rightarrow> rr_request \<Rightarrow> rr_peer list \<Rightarrow> rr_request \<Rightarrow> bool" where
  "rr_step_ok ps d ps' d' \<longleftrightarrow>
    length ps' = length ps \<and> list_all rr_peer_inv ps' \<and> level d' = level d \<and> length (tried d') = length (tried d) \<and>
    (\<forall>c. is_tried (tried d') c = Some False \<longrightarrow> is_tried (tried d) c = Some False)"

lemma rr_step_ok_trans: "rr_step_ok ps d ps1 d1 \<Longrightarrow> rr_step_ok ps1 d1 ps2 d2 \<Longrightarrow> rr_step_ok ps d ps2 d2"
  by (auto simp: rr_step_ok_def)

lemma rr_try_ok:
  assumes "list_all rr_peer_inv ps" "current d < length ps" "(length ps - 1) div 64 < length (tried d)"
  shows "(\<exists>ps'. rr_try now ps d = Some (Inl ps') \<and> rr_step_ok ps d ps' d \<and> rr_alive (ps' ! current d) \<and>
      is_tried (tried d) (current d) = Some False) \<or>
    (\<exists>ps' d'. rr_try now ps d = Some (Inr (ps', d')) \<and> rr_step_ok ps d ps' d' \<and> current d' = current d)"
proof -
  have "current d div 64 \<le> (length ps - 1) div 64" using assms(2) by (simp add: div_le_mono)
  then obtain b where b: "is_tried (tried d) (current d) = Some b" using assms(3) by (simp add: is_tried_def)
  have inv: "rr_peer_inv (ps ! current d)" using assms(1,2) by (simp add: list_all_length)
  have upd: "list_all rr_peer_inv (ps[current d := p])" if "rr_peer_inv p" for p
    using assms(1) that by (auto simp: list_all_iff dest: set_update_subset_insert [THEN subsetD])
  show ?thesis
  proof (cases b)
    case True
    then show ?thesis using b assms(1) by (simp add: rr_try_def rr_step_ok_def)
  next
    case False
    let ?p = "ps ! current d"
    have z: "\<not> (max_fails ?p = 0 \<or> fails ?p < max_fails ?p) \<Longrightarrow> 0 < max_fails ?p" by (simp add: word_gt_0)
    have u: "list_all rr_peer_inv (ps[current d := ?p\<lparr>fails := 0\<rparr>])" "list_all rr_peer_inv (ps[current d := ?p\<lparr>current_weight := 0\<rparr>])"
      using inv by (auto intro!: upd simp: rr_peer_inv_def)
    show ?thesis using b False assms(1,2) u z is_tried_set
      by (auto simp: rr_try_def rr_step_ok_def rr_alive_def Let_def)
  qed
qed

lemma rr_first_ok:
  assumes "list_all rr_peer_inv ps" "ps \<noteq> []" "(length ps - 1) div 64 < length (tried d)"
  shows "\<exists>b ps' d'. rr_first now i ps d = Some (b, ps', d') \<and> rr_step_ok ps d ps' d' \<and> current d' < length ps \<and>
    (b \<longrightarrow> rr_alive (ps' ! current d') \<and> is_tried (tried d) (current d') = Some False)"
  using assms
proof (induction now i ps d rule: rr_first.induct)
  case (1 now i ps d)
  obtain n where n: "ngx_http_upstream_get_peer ps = Some (n, rr_reset ps)" "n < length ps"
    using get_peer_reset [OF 1(2,3)] by blast
  let ?d = "d\<lparr>current := n\<rparr>"
  have s: "rr_step_ok ps d (rr_reset ps) ?d" using rr_reset_inv [OF 1(2)] by (simp add: rr_step_ok_def)
  consider (take) ps' where "rr_try now (rr_reset ps) ?d = Some (Inl ps')" "rr_step_ok (rr_reset ps) ?d ps' ?d" "rr_alive (ps' ! n)"
      "is_tried (tried d) n = Some False"
    | (pass) ps' d' where "rr_try now (rr_reset ps) ?d = Some (Inr (ps', d'))" "rr_step_ok (rr_reset ps) ?d ps' d'" "current d' = n"
    using rr_try_ok [OF rr_reset_inv [OF 1(2)], of ?d now] 1(4) n(2) by auto
  then show ?case
  proof cases
    case take
    then show ?thesis using n rr_step_ok_trans [OF s take(2)] by (subst rr_first.simps) (auto simp: rr_step_ok_def)
  next
    case pass
    note st = rr_step_ok_trans [OF s pass(2)]
    show ?thesis
    proof (cases "tries d' = 0 \<or> i - 1 = 0")
      case True
      then show ?thesis using n pass st by (subst rr_first.simps) (auto simp: Let_def)
    next
      case False
      have "ps' \<noteq> []" "(length ps' - 1) div 64 < length (tried d')" "list_all rr_peer_inv ps'"
        using st 1(3,4) by (auto simp: rr_step_ok_def)
      from 1(1) [OF n(1) refl refl pass(1) refl refl False this(3,1,2)] obtain b ps2 d2 where
        r: "rr_first now (i - 1) ps' d' = Some (b, ps2, d2)" "rr_step_ok ps' d' ps2 d2" "current d2 < length ps'"
        "b \<longrightarrow> rr_alive (ps2 ! current d2) \<and> is_tried (tried d') (current d2) = Some False" by blast
      then show ?thesis using n pass False rr_step_ok_trans [OF st r(2)] st
        by (subst rr_first.simps) (auto simp: Let_def rr_step_ok_def)
    qed
  qed
qed

lemma rr_again_ok:
  assumes "list_all rr_peer_inv ps" "current d < length ps" "(length ps - 1) div 64 < length (tried d)"
  shows "\<exists>b ps' d'. rr_again now i ps d = Some (b, ps', d') \<and> rr_step_ok ps d ps' d' \<and> current d' < length ps \<and>
    (b \<longrightarrow> rr_alive (ps' ! current d') \<and> is_tried (tried d) (current d') = Some False)"
  using assms
proof (induction now i ps d rule: rr_again.induct)
  case (1 now i ps d)
  consider (take) ps' where "rr_try now ps d = Some (Inl ps')" "rr_step_ok ps d ps' d" "rr_alive (ps' ! current d)"
      "is_tried (tried d) (current d) = Some False"
    | (pass) ps' d' where "rr_try now ps d = Some (Inr (ps', d'))" "rr_step_ok ps d ps' d'" "current d' = current d"
    using rr_try_ok [OF 1(2,3,4), of now] by auto
  then show ?case
  proof cases
    case take
    then show ?thesis using 1(3) by (subst rr_again.simps) (auto simp: rr_step_ok_def)
  next
    case pass
    let ?d = "rr_next (length ps') d'"
    have st: "rr_step_ok ps d ps' ?d" using pass(2) by (simp add: rr_step_ok_def rr_next_def)
    have c: "current ?d < length ps'" using pass(2) 1(3) by (auto simp: rr_next_def rr_step_ok_def)
    show ?thesis
    proof (cases "tries ?d = 0 \<or> i - 1 = 0")
      case True
      then show ?thesis using pass st c by (subst rr_again.simps) (auto simp: Let_def rr_step_ok_def)
    next
      case False
      have "(length ps' - 1) div 64 < length (tried ?d)" "list_all rr_peer_inv ps'"
        using st 1(4) by (auto simp: rr_step_ok_def)
      from 1(1) [OF pass(1) refl refl refl False this(2) c this(1)] obtain b ps2 d2 where
        r: "rr_again now (i - 1) ps' ?d = Some (b, ps2, d2)" "rr_step_ok ps' ?d ps2 d2" "current d2 < length ps'"
        "b \<longrightarrow> rr_alive (ps2 ! current d2) \<and> is_tried (tried ?d) (current d2) = Some False" by blast
      then show ?thesis using pass False rr_step_ok_trans [OF st r(2)] st
        by (subst rr_again.simps) (auto simp: Let_def rr_step_ok_def)
    qed
  qed
qed

text \<open>Groups of peers: there is a peer, no connections are cached, and the bitmap of a request has a bit for every peer.\<close>

definition rr_group_inv :: "rr_peers \<Rightarrow> bool" where
  "rr_group_inv g \<longleftrightarrow> list_all rr_peer_inv (peer g) \<and> 0 < number g \<and> last_cached g = 0"

lemma rr_pick_ok:
  assumes "rr_group_inv g" "current d < number g \<or> \<not> single g \<and> tries d = word_of_nat (number g)"
    "(number g - 1) div 64 < length (tried d)"
  shows "\<exists>p g' d'. rr_pick now g d = Some (p, g', d') \<and> rr_group_inv g' \<and> number g' = number g \<and> single g' = single g \<and>
    level d' = level d \<and> current d' < number g \<and> length (tried d') = length (tried d) \<and>
    (\<forall>pr. p = Some pr \<longrightarrow> \<not> single g \<longrightarrow> pr = peer g' ! current d' \<and> rr_alive pr \<and> is_tried (tried d) (current d') = Some False \<and>
      is_tried (tried d') (current d') \<noteq> Some False) \<and>
    (\<forall>c. is_tried (tried d') c = Some False \<longrightarrow> is_tried (tried d) c = Some False)"
proof (cases "single g")
  case True
  then show ?thesis using assms by (simp add: rr_pick_def rr_group_inv_def)
next
  case False
  have g: "list_all rr_peer_inv (peer g)" "peer g \<noteq> []" using assms(1) by (auto simp: rr_group_inv_def)
  let ?r = "if tries d = word_of_nat (number g) then rr_first now (tries d) (peer g) d else rr_again now (tries d) (peer g) d"
  obtain b ps d' where r: "?r = Some (b, ps, d')" "rr_step_ok (peer g) d ps d'" "current d' < number g"
    "b \<longrightarrow> rr_alive (ps ! current d') \<and> is_tried (tried d) (current d') = Some False"
    using rr_first_ok [OF g assms(3), of now "tries d"] rr_again_ok [OF g(1) _ assms(3), of now "tries d"] assms(2) False
    by (cases "tries d = word_of_nat (number g)") auto
  define pr where "pr = (ps ! current d')\<lparr>current_weight := current_weight (ps ! current d') - 1\<rparr>"
  have "rr_peer_inv (ps ! current d')" using r(2,3) by (simp add: rr_step_ok_def list_all_length)
  then have "list_all rr_peer_inv (ps[current d' := pr])"
    using r(2) by (auto simp: rr_step_ok_def list_all_iff rr_peer_inv_def pr_def dest!: set_update_subset_insert [THEN subsetD])
  moreover have "rr_alive (ps ! current d') \<Longrightarrow> rr_alive pr" by (simp add: rr_alive_def pr_def)
  moreover have "rr_pick now g d = Some (if b then (Some pr, g\<lparr>peer := ps[current d' := pr]\<rparr>, d'\<lparr>tried := set_tried (tried d') (current d')\<rparr>)
      else (None, g\<lparr>peer := ps\<rparr>, d'))"
    using False by (cases b) (simp_all add: rr_pick_def r(1) pr_def Let_def)
  ultimately show ?thesis using r(2,3,4) assms(1) is_tried_own [of "tried d'" "current d'"] is_tried_set [of "tried d'" "current d'"]
    by (auto simp: rr_step_ok_def rr_group_inv_def)
qed

definition rr_chain_inv :: "nat \<Rightarrow> rr_peers list \<Rightarrow> bool" where
  "rr_chain_inv k chain \<longleftrightarrow>
    list_all (\<lambda>g. rr_group_inv g \<and> (number g - 1) div 64 < k) chain \<and>
    list_all (\<lambda>g. \<not> single g \<and> number g div 64 < k) (tl chain)"

lemma rr_chain_inv_nth:
  "rr_chain_inv k chain \<longleftrightarrow>
    (\<forall>i < length chain. rr_group_inv (chain ! i) \<and> (number (chain ! i) - 1) div 64 < k \<and>
      (0 < i \<longrightarrow> \<not> single (chain ! i) \<and> number (chain ! i) div 64 < k))"
  by (cases chain) (auto simp: rr_chain_inv_def list_all_length nth_Cons split: nat.splits)

lemma rr_chain_inv_update:
  assumes "rr_chain_inv k chain" "rr_group_inv g" "number g = number (chain ! i)" "single g = single (chain ! i)"
  shows "rr_chain_inv k (chain[i := g])"
  unfolding rr_chain_inv_nth
proof (intro allI impI)
  fix j assume "j < length (chain[i := g])"
  then show "rr_group_inv (chain[i := g] ! j) \<and> (number (chain[i := g] ! j) - 1) div 64 < k \<and>
      (0 < j \<longrightarrow> \<not> single (chain[i := g] ! j) \<and> number (chain[i := g] ! j) div 64 < k)"
    using assms(2-4) assms(1) [unfolded rr_chain_inv_nth, rule_format, of j] by (cases "i = j") auto
qed

lemma clear_tried_ok: "k div 64 < length tr \<Longrightarrow> \<exists>tr'. clear_tried k tr = Some tr' \<and> length tr' = length tr"
  by (simp add: clear_tried_def Let_def)

definition rr_wf :: "rr_peers list \<Rightarrow> rr_request \<Rightarrow> bool" where
  "rr_wf chain d \<longleftrightarrow> rr_chain_inv (length (tried d)) chain \<and> level d < length chain \<and> current d < number (chain ! level d)"

text \<open>The peer a request gets: it is alive, and the address of the connection is its own.\<close>

definition rr_chosen :: "rr_peers list \<Rightarrow> rr_request \<Rightarrow> bool" where
  "rr_chosen chain d \<longleftrightarrow>
    (let g = chain ! level d; p = peer g ! current d in
     single g \<or> rr_alive p \<and> pc_sockaddr d = Some (sockaddr p) \<and> pc_name d = Some (peer_name p))"

lemma rr_connect_ok:
  assumes "rr_chain_inv (length (tried d)) chain"
  shows "\<exists>d'. rr_connect chain lv p d = Some (RR_ok, chain, d') \<and> level d' = level d \<and> current d' = current d \<and>
    length (tried d') = length (tried d) \<and> pc_sockaddr d' = Some (sockaddr p) \<and> pc_name d' = Some (peer_name p) \<and>
    (lv + 1 = length chain \<longrightarrow> tried d' = tried d)"
proof (cases "tries d = 1 \<and> lv + 1 < length chain")
  case True
  then have "number (chain ! (lv + 1)) div 64 < length (tried d)" using assms by (simp add: rr_chain_inv_nth)
  from clear_tried_ok [OF this] show ?thesis using True by (auto simp: rr_connect_def Let_def)
next
  case False
  then show ?thesis by (auto simp: rr_connect_def Let_def)
qed

lemma rr_backup_ok:
  assumes "rr_chain_inv (length (tried d)) chain" "lv + 1 < length chain"
  shows "\<exists>d'. rr_backup chain lv d = Some d' \<and> level d' = lv + 1 \<and> tries d' = word_of_nat (number (chain ! (lv + 1))) \<and>
    \<not> single (chain ! (lv + 1)) \<and> length (tried d') = length (tried d)"
proof -
  have "number (chain ! (lv + 1)) div 64 < length (tried d)" "\<not> single (chain ! (lv + 1))" using assms by (auto simp: rr_chain_inv_nth)
  with clear_tried_ok [OF this(1)] show ?thesis by (auto simp: rr_backup_def)
qed

lemma rr_busy_ok:
  assumes "rr_wf chain d" "lv < length chain"
  shows "\<exists>chain' d'. rr_busy lv chain d = (RR_busy, chain', d') \<and> rr_wf chain' d' \<and> tried d' = tried d \<and> level d' = level d \<and>
    map number chain' = map number chain \<and> map single chain' = map single chain"
proof -
  let ?g = "(chain ! lv)\<lparr>peer := map (\<lambda>p. p\<lparr>fails := 0\<rparr>) (peer (chain ! lv))\<rparr>"
  have "rr_group_inv (chain ! lv)" using assms by (simp add: rr_wf_def rr_chain_inv_nth)
  then have "rr_group_inv ?g" by (auto simp: rr_group_inv_def list_all_iff rr_peer_inv_def)
  then have "rr_chain_inv (length (tried d)) (chain[lv := ?g])"
    using assms(1) by (intro rr_chain_inv_update) (simp_all add: rr_wf_def)
  moreover have "number (chain[lv := ?g] ! i) = number (chain ! i)" for i using assms(2) by (cases "i = lv") simp_all
  moreover have "map number (chain[lv := ?g]) = map number chain" "map single (chain[lv := ?g]) = map single chain"
    using assms(2) by (simp_all add: map_update list_update_same_conv)
  ultimately show ?thesis using assms(1) by (simp add: rr_busy_def rr_wf_def)
qed

text \<open>In the last group of the chain the bitmap is never cleared, and a peer that is taken is marked.\<close>

definition rr_marked :: "rr_peers list \<Rightarrow> rr_rc \<Rightarrow> rr_request \<Rightarrow> rr_request \<Rightarrow> bool" where
  "rr_marked chain rc d d' \<longleftrightarrow>
    (level d' + 1 = length chain \<and> \<not> single (chain ! level d') \<longrightarrow>
      (level d = level d' \<longrightarrow> (\<forall>c. is_tried (tried d') c = Some False \<longrightarrow> is_tried (tried d) c = Some False)) \<and>
      (rc = RR_ok \<longrightarrow> is_tried (tried d') (current d') \<noteq> Some False))"

lemma rr_marked_cong:
  assumes "map single chain' = map single chain" "level d' < length chain"
  shows "rr_marked chain' rc d d' = rr_marked chain rc d d'"
proof -
  have "length chain' = length chain" using assms(1) by (metis length_map)
  moreover have "single (chain' ! level d') = single (chain ! level d')" using assms calculation by (metis nth_map)
  ultimately show ?thesis by (simp add: rr_marked_def)
qed

lemma get_round_robin_ok:
  assumes "rr_chain_inv (length (tried d)) chain" "level d < length chain"
    "current d < number (chain ! level d) \<or> \<not> single (chain ! level d) \<and> tries d = word_of_nat (number (chain ! level d))"
  shows "\<exists>rc chain' d'. ngx_http_upstream_get_round_robin_peer now chain d = Some (rc, chain', d') \<and> rr_wf chain' d' \<and>
    length (tried d') = length (tried d) \<and> map number chain' = map number chain \<and> map single chain' = map single chain \<and>
    (rc = RR_ok \<longrightarrow> rr_chosen chain' d' \<and>
      (level d' = level d \<longrightarrow> single (chain ! level d) \<or> is_tried (tried d) (current d') = Some False)) \<and> level d \<le> level d' \<and> rr_marked chain rc d d'"
  using assms
proof (induction now chain d rule: ngx_http_upstream_get_round_robin_peer.induct)
  case (1 now chain d)
  let ?lv = "level d" and ?d = "d\<lparr>pc_cached := False, pc_connection := None\<rparr>"
  let ?g = "chain ! ?lv"
  have g: "rr_group_inv ?g" "(number ?g - 1) div 64 < length (tried d)" using 1(2,3) by (auto simp: rr_chain_inv_nth)
  obtain p g' d' where r: "rr_pick now ?g ?d = Some (p, g', d')" "rr_group_inv g'" "number g' = number ?g" "single g' = single ?g"
    "level d' = ?lv" "current d' < number ?g" "length (tried d') = length (tried d)"
    "\<And>pr. p = Some pr \<Longrightarrow> \<not> single ?g \<Longrightarrow> pr = peer g' ! current d' \<and> rr_alive pr \<and> is_tried (tried d) (current d') = Some False \<and>
      is_tried (tried d') (current d') \<noteq> Some False"
    "\<And>c. is_tried (tried d') c = Some False \<Longrightarrow> is_tried (tried d) c = Some False"
    using rr_pick_ok [of ?g ?d now] g 1(4) by auto
  let ?c = "chain[?lv := g']"
  have c: "rr_chain_inv (length (tried d)) ?c" by (rule rr_chain_inv_update [OF 1(2) r(2-4)])
  have n: "map number ?c = map number chain" "map single ?c = map single chain"
    using r(3,4) by (simp_all add: map_update list_update_same_conv 1(3))
  have cached: "last_cached ?g = 0" using g(1) by (simp add: rr_group_inv_def)
  note eq = ngx_http_upstream_get_round_robin_peer.simps [of now chain d]
  show ?case
  proof (cases p)
    case (Some pr)
    have "ngx_http_upstream_get_round_robin_peer now chain d = rr_connect ?c ?lv pr d'"
      using 1(3) cached r(1) Some by (subst eq) (simp add: Let_def)
    then show ?thesis using rr_connect_ok [of d' ?c ?lv pr] c n r(3-7,9) r(8) [OF Some] 1(3)
      by (auto simp: rr_wf_def rr_chosen_def rr_marked_def Let_def)
  next
    case None
    show ?thesis
    proof (cases "?lv + 1 < length chain")
      case True
      obtain d2 where d2: "rr_backup ?c ?lv d' = Some d2" "level d2 = ?lv + 1" "tries d2 = word_of_nat (number (?c ! (?lv + 1)))"
        "\<not> single (?c ! (?lv + 1))" "length (tried d2) = length (tried d)"
        using rr_backup_ok [of d' ?c ?lv] c r(7) True by auto
      obtain rc chain3 d3 where q: "ngx_http_upstream_get_round_robin_peer now ?c d2 = Some (rc, chain3, d3)" "rr_wf chain3 d3"
        "length (tried d3) = length (tried d)" "map number chain3 = map number chain" "map single chain3 = map single chain"
        "rc = RR_ok \<longrightarrow> rr_chosen chain3 d3" "?lv + 1 \<le> level d3" "rr_marked ?c rc d2 d3"
        using 1(1) [OF refl refl _ _ r(1) refl None refl refl _ d2(1)] 1(3) cached True c d2 n by auto
      have len: "length chain3 = length chain" using q(4) by (metis length_map)
      have "ngx_http_upstream_get_round_robin_peer now chain d = Some (if rc \<noteq> RR_busy then (rc, chain3, d3) else rr_busy ?lv chain3 d3)"
        using 1(3) cached r(1) None True d2(1) q(1) by (subst eq) (simp add: Let_def)
      moreover obtain chain4 d4 where "rr_busy ?lv chain3 d3 = (RR_busy, chain4, d4)" "rr_wf chain4 d4" "tried d4 = tried d3"
        "level d4 = level d3" "map number chain4 = map number chain3" "map single chain4 = map single chain3"
        using rr_busy_ok [OF q(2), of ?lv] 1(3) len by auto
      moreover have "rr_marked chain rc d d3"
        using q(2,7,8) rr_marked_cong [OF n(2), of d3] len by (auto simp: rr_marked_def rr_wf_def)
      ultimately show ?thesis using q(2-7) by (cases rc) (simp_all add: rr_marked_def)
    next
      case False
      have "rr_wf ?c d'" using c r(3,5,6,7) 1(3) by (simp add: rr_wf_def)
      moreover have "ngx_http_upstream_get_round_robin_peer now chain d = Some (rr_busy ?lv ?c d')"
        using 1(3) cached r(1) None False by (subst eq) (simp add: Let_def)
      moreover obtain chain4 d4 where "rr_busy ?lv ?c d' = (RR_busy, chain4, d4)" "rr_wf chain4 d4" "tried d4 = tried d'"
        "level d4 = level d'" "map number chain4 = map number ?c" "map single chain4 = map single ?c"
        using rr_busy_ok [of ?c d' ?lv] calculation(1) 1(3) by auto
      ultimately show ?thesis using r(5,7,9) n by (simp add: rr_marked_def)
    qed
  qed
qed

lemma free_round_robin_ok:
  assumes "rr_wf chain d"
  shows "\<exists>chain' d'. ngx_http_upstream_free_round_robin_peer now chain d state = Some (chain', d') \<and> rr_wf chain' d' \<and>
    tried d' = tried d \<and> level d' = level d \<and> map number chain' = map number chain \<and> map single chain' = map single chain"
proof -
  let ?g = "chain ! level d" and ?n = "rr_next (number (chain ! level d)) d"
  have lv: "level d < length chain" "current d < number ?g" and inv: "rr_chain_inv (length (tried d)) chain"
    using assms by (auto simp: rr_wf_def)
  have nx: "rr_wf chain ?n" "rr_wf chain (?n\<lparr>tries := t\<rparr>)" "rr_wf chain (d\<lparr>tries := t\<rparr>)" for t
    using assms lv(2) by (auto simp: rr_wf_def rr_next_def)
  define p where "p = peer ?g ! current d"
  define w where "w = (if max_fails p \<noteq> 0 then current_weight p - weight p div uint (max_fails p) else current_weight p)"
  define p' where "p' = p\<lparr>fails := fails p + 1, accessed := now, current_weight := (if w < 0 then 0 else w)\<rparr>"
  let ?g' = "?g\<lparr>peer := (peer ?g)[current d := p']\<rparr>"
  have g: "rr_group_inv ?g" using inv lv(1) by (simp add: rr_chain_inv_nth)
  then have "rr_peer_inv p" using lv(2) by (simp add: rr_group_inv_def list_all_length p_def)
  then have "0 \<le> weight p div uint (max_fails p)" by (simp add: div_int_pos_iff rr_peer_inv_def)
  then have "rr_peer_inv p'" using \<open>rr_peer_inv p\<close> by (auto simp: rr_peer_inv_def p'_def w_def)
  then have "rr_group_inv ?g'"
    using g by (auto simp: rr_group_inv_def list_all_iff dest: set_update_subset_insert [THEN subsetD])
  then have c: "rr_chain_inv (length (tried d)) (chain[level d := ?g'])" by (intro rr_chain_inv_update [OF inv]) simp_all
  have n: "map number (chain[level d := ?g']) = map number chain" "map single (chain[level d := ?g']) = map single chain"
    using lv(1) by (simp_all add: map_update list_update_same_conv)
  have upd: "rr_wf (chain[level d := ?g']) ?n" "rr_wf (chain[level d := ?g']) (?n\<lparr>tries := t\<rparr>)" for t
    using nx(1) c lv by (auto simp: rr_wf_def rr_next_def)
  show ?thesis
    using lv assms nx upd n unfolding ngx_http_upstream_free_round_robin_peer_def Let_def p_def [symmetric] w_def [symmetric] p'_def [symmetric]
    by (auto simp: rr_next_def)
qed

subsection \<open>Requests that share the peers\<close>

text \<open>
  A worker serves many requests at once: their calls interleave in any order on the shared chain.  \<open>None\<close>, an access
  outside an array, would be a step of its own; the theorem below shows that no such step is possible.
\<close>

text \<open>
  \<open>sys_given\<close> records for every request which peers it was given, as pairs of the group and the number in it.
\<close>

record rr_system =
  sys_chain :: "rr_peers list"
  sys_requests :: "rr_request list"
  sys_given :: "(nat \<times> nat) list list"

inductive rr_sys_step :: "rr_system \<Rightarrow> rr_system \<Rightarrow> bool" where
  rr_new: "ngx_http_upstream_init_round_robin_peer a1 a2 (sys_chain s) = Some d \<Longrightarrow>
    rr_sys_step s (s\<lparr>sys_requests := sys_requests s @ [d], sys_given := sys_given s @ [[]]\<rparr>)"
| rr_get: "i < length (sys_requests s) \<Longrightarrow>
    ngx_http_upstream_get_round_robin_peer now (sys_chain s) (sys_requests s ! i) = Some (rc, chain, d) \<Longrightarrow>
    rr_sys_step s \<lparr>sys_chain = chain, sys_requests = (sys_requests s)[i := d],
      sys_given = (if rc = RR_ok then (sys_given s)[i := (level d, current d) # sys_given s ! i] else sys_given s)\<rparr>"
| rr_free: "i < length (sys_requests s) \<Longrightarrow>
    ngx_http_upstream_free_round_robin_peer now (sys_chain s) (sys_requests s ! i) state = Some (chain, d) \<Longrightarrow>
    rr_sys_step s \<lparr>sys_chain = chain, sys_requests = (sys_requests s)[i := d], sys_given = sys_given s\<rparr>"

inductive rr_reachable :: "rr_peers list \<Rightarrow> rr_system \<Rightarrow> bool" for chain :: "rr_peers list" where
  rr_start: "rr_reachable chain \<lparr>sys_chain = chain, sys_requests = [], sys_given = []\<rparr>"
| rr_step: "rr_reachable chain s \<Longrightarrow> rr_sys_step s t \<Longrightarrow> rr_reachable chain t"

text \<open>The words of a bitmap, by the group with the most peers.\<close>

definition rr_words :: "rr_peers list \<Rightarrow> nat" where
  "rr_words chain = tried_words (case chain of [] \<Rightarrow> 0 | [g] \<Rightarrow> number g | g # b # _ \<Rightarrow> max (number g) (number b))"

text \<open>A request was given peers of the groups up to its own, and if that is the last one they are marked.\<close>

definition rr_given_ok :: "rr_peers list \<Rightarrow> rr_request \<Rightarrow> (nat \<times> nat) list \<Rightarrow> bool" where
  "rr_given_ok chain d gs \<longleftrightarrow>
    (\<forall>(lv, c) \<in> set gs. lv \<le> level d) \<and>
    (level d + 1 = length chain \<and> \<not> single (chain ! level d) \<longrightarrow> (\<forall>c. (level d, c) \<in> set gs \<longrightarrow> is_tried (tried d) c \<noteq> Some False))"

lemma rr_given_ok_cong:
  assumes "map single chain' = map single chain" "level d < length chain"
  shows "rr_given_ok chain' d gs = rr_given_ok chain d gs"
proof -
  have "length chain' = length chain" using assms(1) by (metis length_map)
  moreover have "single (chain' ! level d) = single (chain ! level d)" using assms calculation by (metis nth_map)
  ultimately show ?thesis by (simp add: rr_given_ok_def)
qed

lemma rr_given_ok_get:
  assumes "rr_given_ok chain d gs" "rr_marked chain rc d d'" "level d \<le> level d'"
  shows "rr_given_ok chain d' (if rc = RR_ok then (level d', current d') # gs else gs)"
  using assms by (cases "level d = level d'") (fastforce simp: rr_given_ok_def rr_marked_def)+

definition rr_sys_inv :: "nat \<Rightarrow> rr_system \<Rightarrow> bool" where
  "rr_sys_inv k s \<longleftrightarrow>
    rr_chain_inv k (sys_chain s) \<and> rr_words (sys_chain s) = k \<and>
    list_all (\<lambda>d. rr_wf (sys_chain s) d \<and> length (tried d) = k) (sys_requests s) \<and>
    list_all2 (rr_given_ok (sys_chain s)) (sys_requests s) (sys_given s)"

lemma rr_words_number:
  assumes "map number chain' = map number chain"
  shows "rr_words chain' = rr_words chain"
proof (cases chain)
  case (Cons g c)
  then obtain g' c' where "chain' = g' # c'" "number g' = number g" "map number c' = map number c" using assms by auto
  then show ?thesis using Cons by (cases c) (auto simp: rr_words_def split: list.splits)
qed (use assms in \<open>simp add: rr_words_def\<close>)

lemma init_peer_wf:
  assumes "ngx_http_upstream_init_round_robin_peer a1 a2 chain = Some d" "rr_chain_inv (rr_words chain) chain"
  shows "rr_wf chain d \<and> length (tried d) = rr_words chain"
proof -
  obtain g c where c: "chain = g # c" using assms(1) by (cases chain) (auto simp: ngx_http_upstream_init_round_robin_peer_def)
  then have "level d = 0" "current d = 0" "length (tried d) = rr_words chain"
    using assms(1) by (auto simp: ngx_http_upstream_init_round_robin_peer_def rr_words_def Let_def max_def split: list.splits if_splits)
  moreover have "0 < number g" using assms(2) c by (simp add: rr_chain_inv_def rr_group_inv_def)
  ultimately show ?thesis using assms(2) c by (simp add: rr_wf_def)
qed

lemma rr_wf_frame:
  assumes "rr_wf chain d" "rr_chain_inv (length (tried d)) chain'" "map number chain' = map number chain"
  shows "rr_wf chain' d"
proof -
  have "length chain' = length chain" using assms(3) by (metis length_map)
  moreover have "number (chain' ! level d) = number (chain ! level d)"
    using assms(1,3) calculation by (metis nth_map rr_wf_def)
  ultimately show ?thesis using assms(1,2) by (simp add: rr_wf_def)
qed

lemma rr_sys_inv_update:
  assumes "rr_sys_inv k s" "rr_wf chain d" "length (tried d) = k" "map number chain = map number (sys_chain s)"
    "map single chain = map single (sys_chain s)" "rr_given_ok (sys_chain s) d gs"
  shows "rr_sys_inv k \<lparr>sys_chain = chain, sys_requests = (sys_requests s)[i := d], sys_given = (sys_given s)[i := gs]\<rparr>"
proof -
  have "rr_chain_inv k chain" "rr_words chain = k"
    using assms rr_words_number [OF assms(4)] by (simp_all add: rr_sys_inv_def rr_wf_def)
  moreover from this have "list_all (\<lambda>d. rr_wf chain d \<and> length (tried d) = k) (sys_requests s)"
    using assms(1,4) rr_wf_frame [of "sys_chain s" _ chain] by (auto simp: rr_sys_inv_def list_all_iff)
  then have "list_all (\<lambda>d. rr_wf chain d \<and> length (tried d) = k) ((sys_requests s)[i := d])"
    using assms(2,3) by (auto simp: list_all_iff dest: set_update_subset_insert [THEN subsetD])
  moreover have "list_all2 (rr_given_ok (sys_chain s)) ((sys_requests s)[i := d]) ((sys_given s)[i := gs])"
    using assms(1,6) by (auto simp: rr_sys_inv_def intro: list_all2_update_cong)
  then have "list_all2 (rr_given_ok chain) ((sys_requests s)[i := d]) ((sys_given s)[i := gs])"
    using calculation(3) rr_given_ok_cong [OF assms(5)] assms(5) by (auto simp: list_all2_conv_all_nth list_all_length rr_wf_def dest: map_eq_imp_length_eq)
  ultimately show ?thesis by (simp add: rr_sys_inv_def)
qed

lemma rr_sys_inv_nth:
  assumes "rr_sys_inv k s" "i < length (sys_requests s)"
  shows "rr_wf (sys_chain s) (sys_requests s ! i)" "length (tried (sys_requests s ! i)) = k"
    "rr_given_ok (sys_chain s) (sys_requests s ! i) (sys_given s ! i)"
  using assms by (auto simp: rr_sys_inv_def list_all_length list_all2_conv_all_nth)

lemma rr_sys_step_inv: "rr_sys_step s t \<Longrightarrow> rr_sys_inv k s \<Longrightarrow> rr_sys_inv k t"
proof (induction rule: rr_sys_step.induct)
  case (rr_new a1 a2 s d)
  then show ?case using init_peer_wf [of a1 a2 "sys_chain s" d]
    by (auto simp: rr_sys_inv_def rr_given_ok_def intro: list_all2_appendI)
next
  case (rr_get i s now rc chain d)
  note nth = rr_sys_inv_nth [OF rr_get(3,1)]
  have r: "rr_wf chain d" "length (tried d) = k" "map number chain = map number (sys_chain s)" "map single chain = map single (sys_chain s)"
    "rr_marked (sys_chain s) rc (sys_requests s ! i) d" "level (sys_requests s ! i) \<le> level d"
    using get_round_robin_ok [of "sys_requests s ! i" "sys_chain s" now] rr_get(2) nth(1,2) by (auto simp: rr_wf_def)
  then show ?case using rr_sys_inv_update [OF rr_get(3) r(1-4) rr_given_ok_get [OF nth(3) r(5,6)], of i] by (auto split: if_splits)
next
  case (rr_free i s now state chain d)
  note nth = rr_sys_inv_nth [OF rr_free(3,1)]
  have r: "rr_wf chain d" "length (tried d) = k" "map number chain = map number (sys_chain s)" "map single chain = map single (sys_chain s)"
    "rr_given_ok (sys_chain s) d (sys_given s ! i)"
    using free_round_robin_ok [OF nth(1), of now state] rr_free(2) nth(2,3) by (auto simp: rr_given_ok_def)
  then show ?case using rr_sys_inv_update [OF rr_free(3) r, of i] by simp
qed

lemma rr_reachable_inv:
  assumes "rr_reachable chain s" "rr_chain_inv (rr_words chain) chain"
  shows "rr_sys_inv (rr_words chain) s"
  using assms
proof (induction rule: rr_reachable.induct)
  case rr_start
  then show ?case by (simp add: rr_sys_inv_def)
next
  case (rr_step s t)
  then show ?case by (blast intro: rr_sys_step_inv)
qed

subsection \<open>The peers of a configuration\<close>

interpretation servers: sort_order ngx_http_upstream_cmp_servers UNIV
  by unfold_locales (auto simp: ngx_http_upstream_cmp_servers_def split: if_splits)

lemma mset_sort_servers: "mset (ngx_sort a ngx_http_upstream_cmp_servers xs (length xs)) = mset xs"
  using ngx_sort_foldl [of _ xs "[]"] mset_foldl_ins [of _ "[]" xs] by (cases a) (simp_all add: ngx_sort_def)

lemma sort_servers [simp]:
  "length (ngx_sort a ngx_http_upstream_cmp_servers xs (length xs)) = length xs"
  "list_all P (ngx_sort a ngx_http_upstream_cmp_servers xs (length xs)) = list_all P xs"
  using mset_sort_servers [of a xs] mset_eq_length mset_eq_setD by (metis, metis list_all_iff)

lemma length_server_peers:
  "length (concat (map server_peers ss)) = sum_list (map (\<lambda>s. length (addrs s)) ss)"
  "length (concat (map backup_peers ss)) = sum_list (map (\<lambda>s. length (addrs s)) ss)"
  by (induction ss) (simp_all add: server_peers_def backup_peers_def)

text \<open>A fresh peer: its weight is whole, and it is alive unless the configuration says that it is down.\<close>

definition rr_fresh :: "rr_peer \<Rightarrow> bool" where
  "rr_fresh p \<longleftrightarrow> current_weight p = weight p \<and> 0 \<le> weight p \<and> (0 < weight p \<longrightarrow> rr_alive p)"

lemma server_peers_fresh: "list_all rr_fresh (server_peers s)"
  by (auto simp: server_peers_def rr_fresh_def rr_alive_def Let_def list_all_iff word_gt_0)

lemma backup_peers_inv: "list_all rr_peer_inv (backup_peers s)"
  by (auto simp: backup_peers_def rr_peer_inv_def list_all_iff)

definition server_count :: "bool \<Rightarrow> rr_server list \<Rightarrow> nat" where
  "server_count b ss = sum_list (map (\<lambda>s. length (addrs s)) (filter (\<lambda>s. backup s = b) ss))"

lemma tried_words_ok: "n - 1 < 64 * tried_words n" "0 < n mod 64 \<Longrightarrow> n div 64 < tried_words n"
proof -
  show "n - 1 < 64 * tried_words n" by (auto simp: tried_words_def)
  assume "0 < n mod 64"
  then have "n div 64 * 64 + 64 \<le> n + 63" using div_mult_mod_eq [of n 64] by linarith
  then have "n div 64 + 1 \<le> (n + 63) div 64" by (simp add: less_eq_div_iff_mult_less_eq)
  moreover have "n \<le> 64 \<Longrightarrow> n < 64" using \<open>0 < n mod 64\<close> by (cases "n = 64") auto
  ultimately show "n div 64 < tried_words n" by (auto simp: tried_words_def)
qed

lemma tried_words_mono: "m \<le> n \<Longrightarrow> tried_words m \<le> tried_words n"
  by (auto simp: tried_words_def div_le_mono)

lemma init_round_robin_chain:
  assumes "ngx_http_upstream_init_round_robin a1 a2 a3 host port dport res (Some ss) = Some chain"
    "0 < server_count False ss" "0 < server_count True ss mod 64 \<or> server_count True ss = 0"
  shows "\<exists>g c. chain = g # c \<and> rr_chain_inv (rr_words chain) chain \<and> list_all rr_fresh (peer g) \<and> single g = (number g = 1 \<and> c = [])"
proof -
  let ?ps = "concat (map server_peers (filter (\<lambda>s. \<not> backup s) ss))" and ?bs = "concat (map backup_peers (filter backup ss))"
  let ?S = "\<lambda>l. ngx_sort a3 ngx_http_upstream_cmp_servers l (length l)"
  have n: "length ?ps = server_count False ss" "length ?bs = server_count True ss"
    by (simp_all add: length_server_peers server_count_def)
  have f: "list_all rr_fresh ?ps" "list_all rr_peer_inv ?bs" using server_peers_fresh backup_peers_inv by (auto simp: list_all_iff)
  then have i: "list_all rr_peer_inv ?ps" by (auto simp: list_all_iff rr_fresh_def rr_peer_inv_def)
  define P B where "P = ?S ?ps" and "B = ?S ?bs"
  have PB: "length P = server_count False ss" "length B = server_count True ss" "list_all rr_fresh P" "list_all rr_peer_inv P"
    "list_all rr_peer_inv B"
    unfolding P_def B_def sort_servers by (rule n f i)+
  have c: "chain = (if server_count True ss = 0 then [rr_group host (server_count False ss = 1) P] else [rr_group host False P, rr_group host False B])"
    using assms(1) n unfolding ngx_http_upstream_init_round_robin_def Let_def server_count_def P_def B_def length_server_peers
    by (auto split: if_splits)
  let ?m = "max (server_count False ss) (server_count True ss)"
  have words: "(server_count b ss - 1) div 64 < tried_words ?m" "(server_count b ss - 1) div 64 < tried_words (server_count b ss)" for b
    using tried_words_ok(1) [of "server_count b ss"] tried_words_mono [of "server_count b ss" ?m] by (cases b; auto simp: div_less_iff_less_mult)+
  have "server_count True ss div 64 < tried_words ?m" if "server_count True ss \<noteq> 0"
    using tried_words_ok(2) [of "server_count True ss"] tried_words_mono [of "server_count True ss" ?m] assms(3) that by auto
  then have "rr_chain_inv (rr_words chain) chain"
    using PB words [of True] words [of False] assms(2) unfolding c
    by (auto simp: rr_chain_inv_def rr_group_inv_def rr_group_def rr_words_def)
  then show ?thesis unfolding c using PB by (auto simp: rr_group_def)
qed

text \<open>
  C11. For a configuration with at least one server that is not a backup, and a number of backup addresses that is not a
  multiple of 64, no interleaving of the calls of any number of requests leaves an array or divides by zero: in every
  state reachable from \<open>ngx_http_upstream_init_round_robin\<close> by starting requests, getting peers and freeing them, the
  invariant of the peers and the requests holds and the next call of each request succeeds.  A peer that is handed out
  is up and has not exceeded its failures, unless it is the only one, and its bit in the bitmap was clear if the group is
  still the same.  No request gets the same peer of the last group twice, that is, of the backup servers, or of the servers
  where there are no backups, unless that group has a single peer.
\<close>

theorem round_robin_safe:
  assumes "ngx_http_upstream_init_round_robin a1 a2 a3 host port dport res (Some ss) = Some chain"
    "0 < server_count False ss" "0 < server_count True ss mod 64 \<or> server_count True ss = 0"
    "rr_reachable chain s" "i < length (sys_requests s)"
  shows "\<exists>rc chain' d' chain'' d''.
    ngx_http_upstream_get_round_robin_peer now (sys_chain s) (sys_requests s ! i) = Some (rc, chain', d') \<and>
    ngx_http_upstream_free_round_robin_peer now (sys_chain s) (sys_requests s ! i) state = Some (chain'', d'') \<and>
    rr_sys_inv (rr_words chain) s \<and>
    (rc = RR_ok \<longrightarrow> rr_chosen chain' d' \<and>
      (level d' = level (sys_requests s ! i) \<longrightarrow> single (sys_chain s ! level d') \<or>
        is_tried (tried (sys_requests s ! i)) (current d') = Some False) \<and>
      (level d' + 1 = length (sys_chain s) \<longrightarrow> single (sys_chain s ! level d') \<or> (level d', current d') \<notin> set (sys_given s ! i)))"
proof -
  let ?d = "sys_requests s ! i"
  have inv: "rr_sys_inv (rr_words chain) s"
    using rr_reachable_inv [OF assms(4)] init_round_robin_chain [OF assms(1-3)] by blast
  note nth = rr_sys_inv_nth [OF inv assms(5)]
  obtain rc chain' d' where r: "ngx_http_upstream_get_round_robin_peer now (sys_chain s) ?d = Some (rc, chain', d')" "level ?d \<le> level d'"
    "rc = RR_ok \<Longrightarrow> rr_chosen chain' d'"
    "rc = RR_ok \<Longrightarrow> level d' = level ?d \<Longrightarrow> single (sys_chain s ! level d') \<or> is_tried (tried ?d) (current d') = Some False"
    using get_round_robin_ok [of ?d "sys_chain s" now] nth(1) unfolding rr_wf_def by metis
  have "(level d', current d') \<notin> set (sys_given s ! i)"
    if "rc = RR_ok" "level d' + 1 = length (sys_chain s)" "\<not> single (sys_chain s ! level d')"
    using nth(3) r(2) r(4) [OF that(1)] that(2,3) by (cases "level d' = level ?d") (fastforce simp: rr_given_ok_def)+
  then show ?thesis using inv r free_round_robin_ok [OF nth(1), of now state] by blast
qed

subsection \<open>Fairness\<close>

text \<open>The requests one after the other, each with the peer it gets on its first try.\<close>

fun rr_serve :: "int list \<Rightarrow> rr_peers list \<Rightarrow> ((nat \<times> nat) list \<times> rr_peers list) option" where
  "rr_serve [] chain = Some ([], chain)"
| "rr_serve (now # nows) chain =
    (case ngx_http_upstream_init_round_robin_peer True True chain of
       None \<Rightarrow> None
     | Some d \<Rightarrow>
         (case ngx_http_upstream_get_round_robin_peer now chain d of
            Some (RR_ok, chain, d) \<Rightarrow> map_option (\<lambda>(cs, chain). ((level d, current d) # cs, chain)) (rr_serve nows chain)
          | _ \<Rightarrow> None))"

lemma rr_serve_append:
  "rr_serve (xs @ ys) chain =
    (case rr_serve xs chain of
       None \<Rightarrow> None
     | Some (cs, chain) \<Rightarrow> map_option (\<lambda>(cs', chain). (cs @ cs', chain)) (rr_serve ys chain))"
  by (induction xs chain rule: rr_serve.induct)
    (auto simp: option.map_id option.map_comp comp_def case_prod_beta split: option.splits rr_rc.splits)

text \<open>Peers whose weights are not negative, and which are alive unless their weight is zero.\<close>

definition rr_up :: "rr_peer \<Rightarrow> bool" where
  "rr_up p \<longleftrightarrow> 0 \<le> current_weight p \<and> current_weight p \<le> weight p \<and> (0 < weight p \<longrightarrow> rr_alive p)"

lemma rr_up_inv: "list_all rr_up ps \<Longrightarrow> list_all rr_peer_inv ps"
  by (auto simp: list_all_iff rr_up_def rr_peer_inv_def)

definition rr_dec :: "rr_peer list \<Rightarrow> nat \<Rightarrow> rr_peer list" where
  "rr_dec ps n = ps[n := (ps ! n)\<lparr>current_weight := current_weight (ps ! n) - 1\<rparr>]"

lemma length_rr_dec [simp]: "length (rr_dec ps n) = length ps"
  by (simp add: rr_dec_def)

lemma rr_dec_split:
  assumes "n < length ps"
  obtains xs p ys where "ps = xs @ p # ys" "ps ! n = p" "rr_dec ps n = xs @ p\<lparr>current_weight := current_weight p - 1\<rparr> # ys"
  using assms that [of "take n ps" "ps ! n" "drop (Suc n) ps"] by (simp add: rr_dec_def id_take_nth_drop [symmetric] upd_conv_take_nth_drop)

lemma rr_dec_inv: "list_all rr_peer_inv ps \<Longrightarrow> list_all rr_peer_inv (rr_dec ps n)"
proof (cases "n < length ps")
  case True
  then show "list_all rr_peer_inv ps \<Longrightarrow> list_all rr_peer_inv (rr_dec ps n)" by (rule rr_dec_split) (auto simp: rr_peer_inv_def)
qed (simp add: rr_dec_def not_less list_update_beyond)

lemma is_tried_zeros: "c div 64 < k \<Longrightarrow> is_tried (replicate k 0) c = Some False"
  by (simp add: is_tried_def)

lemma rr_serve_step:
  assumes "rr_chain_inv (rr_words (g # c)) (g # c)" "\<not> single g" "list_all rr_up (peer g)" "\<not> list_all (\<lambda>p. weight p \<le> 0) (peer g)"
  shows "\<exists>n. n < number g \<and> 0 < current_weight (rr_reset (peer g) ! n) \<and>
    rr_serve (now # nows) (g # c) =
      map_option (\<lambda>(cs, chain). ((0, n) # cs, chain)) (rr_serve nows (g\<lparr>peer := rr_dec (rr_reset (peer g)) n\<rparr> # c))"
proof -
  let ?R = "rr_reset (peer g)"
  have g: "peer g \<noteq> []" "last_cached g = 0" "(number g - 1) div 64 < rr_words (g # c)"
    using assms(1) by (auto simp: rr_chain_inv_def rr_group_inv_def)
  obtain d where d: "ngx_http_upstream_init_round_robin_peer True True (g # c) = Some d" "level d = 0" "tries d = word_of_nat (number g)"
    "tried d = replicate (rr_words (g # c)) 0"
    by (auto simp: ngx_http_upstream_init_round_robin_peer_def rr_words_def Let_def max_def split: list.splits)
  obtain n where n: "ngx_http_upstream_get_peer (peer g) = Some (n, ?R)" "n < number g" "0 < current_weight (?R ! n)"
    using get_peer_reset [OF rr_up_inv [OF assms(3)] g(1)] assms(4) by blast
  let ?d = "d\<lparr>pc_cached := False, pc_connection := None, current := n\<rparr>"
  have R: "rr_alive (?R ! n)" "length ?R = number g"
    using n assms(3) by (auto simp: rr_reset_def rr_up_def rr_alive_def list_all_length split: if_splits)
  have "n div 64 \<le> (number g - 1) div 64" using n(2) by (simp add: div_le_mono)
  then have t: "is_tried (tried ?d) n = Some False" using d(4) g(3) is_tried_zeros [of n "rr_words (g # c)"] by simp
  have "rr_try now ?R ?d = Some (Inl ?R)" using t n(2) R by (simp add: rr_try_def rr_alive_def Let_def)
  then have "rr_first now (tries d) (peer g) (d\<lparr>pc_cached := False, pc_connection := None\<rparr>) = Some (True, ?R, ?d)"
    using n(1) by (subst rr_first.simps) simp
  then have p: "rr_pick now g (d\<lparr>pc_cached := False, pc_connection := None\<rparr>) =
      Some (Some ((?R ! n)\<lparr>current_weight := current_weight (?R ! n) - 1\<rparr>), g\<lparr>peer := rr_dec ?R n\<rparr>,
        ?d\<lparr>tried := set_tried (tried ?d) n\<rparr>)"
    using assms(2) d(3) by (simp add: rr_pick_def rr_dec_def Let_def)
  let ?c = "g\<lparr>peer := rr_dec ?R n\<rparr> # c"
  have "rr_group_inv (g\<lparr>peer := rr_dec ?R n\<rparr>)"
    using g rr_dec_inv [OF rr_reset_inv [OF rr_up_inv [OF assms(3)]]] by (simp add: rr_group_inv_def)
  then have "rr_chain_inv (rr_words (g # c)) ?c" using rr_chain_inv_update [OF assms(1), of _ 0] by simp
  then obtain d' where "ngx_http_upstream_get_round_robin_peer now (g # c) d = Some (RR_ok, ?c, d')" "level d' = 0" "current d' = n"
    using p d(2) g(2) d(4) rr_connect_ok [of "?d\<lparr>tried := set_tried (tried ?d) n\<rparr>" ?c 0 "(?R ! n)\<lparr>current_weight := current_weight (?R ! n) - 1\<rparr>"]
    by (subst (asm) ngx_http_upstream_get_round_robin_peer.simps) (auto simp: Let_def)
  then show ?thesis using d(1) n(2,3) by auto
qed

text \<open>A whole round: every peer is chosen as often as its weight says, and no weight is left.\<close>

definition rr_spent :: "rr_peers \<Rightarrow> rr_peers" where
  "rr_spent g = g\<lparr>peer := map (\<lambda>p. p\<lparr>current_weight := 0\<rparr>) (peer g)\<rparr>"

definition rr_total :: "rr_peer list \<Rightarrow> nat" where
  "rr_total ps = sum_list (map (\<lambda>p. nat (current_weight p)) ps)"

lemma rr_total_dec:
  assumes "n < length ps" "0 < current_weight (ps ! n)"
  shows "rr_total ps = Suc (rr_total (rr_dec ps n))"
  using assms(2) by (rule_tac rr_dec_split [OF assms(1)]) (simp add: rr_total_def nat_diff_distrib')

lemma rr_up_dec: "rr_up p \<Longrightarrow> 0 < current_weight p \<Longrightarrow> rr_up (p\<lparr>current_weight := current_weight p - 1\<rparr>)"
  by (simp add: rr_up_def rr_alive_def)

lemma rr_dec_group:
  assumes "list_all rr_up (peer g)" "rr_chain_inv k (g # c)" "n < number g" "0 < current_weight (peer g ! n)"
  defines "g' \<equiv> g\<lparr>peer := rr_dec (peer g) n\<rparr>"
  shows "list_all rr_up (peer g')" "rr_chain_inv k (g' # c)" "rr_spent g' = rr_spent g" "rr_total (peer g) = Suc (rr_total (peer g'))"
proof -
  obtain xs p ys where ps: "peer g = xs @ p # ys" "peer g ! n = p" "rr_dec (peer g) n = xs @ p\<lparr>current_weight := current_weight p - 1\<rparr> # ys"
    by (rule rr_dec_split [OF assms(3)])
  then show up: "list_all rr_up (peer g')" using assms(1,4) rr_up_dec by (simp add: g'_def)
  show "rr_spent g' = rr_spent g" by (simp add: rr_spent_def g'_def ps(3)) (simp add: ps(1))
  have "rr_group_inv g'" using assms(2) rr_up_inv [OF up] by (simp add: rr_chain_inv_def rr_group_inv_def g'_def)
  then show "rr_chain_inv k (g' # c)" using rr_chain_inv_update [OF assms(2), of g' 0] by (simp add: g'_def)
  show "rr_total (peer g) = Suc (rr_total (peer g'))" using rr_total_dec [OF assms(3,4)] by (simp add: g'_def)
qed

lemma rr_serve_round:
  assumes "list_all rr_up (peer g)" "\<not> single g" "rr_chain_inv (rr_words (g # c)) (g # c)" "length nows = rr_total (peer g)"
  shows "\<exists>cs. rr_serve nows (g # c) = Some (cs, rr_spent g # c) \<and>
    (\<forall>i < number g. int (count_list cs (0, i)) = current_weight (peer g ! i))"
  using assms
proof (induction nows arbitrary: g)
  case Nil
  have z: "current_weight p = 0" if "p \<in> set (peer g)" for p
  proof -
    have "nat (current_weight p) = 0" using Nil(4) that by (simp add: rr_total_def)
    moreover have "0 \<le> current_weight p" using Nil(1) that by (simp add: list_all_iff rr_up_def)
    ultimately show ?thesis by simp
  qed
  then have "p\<lparr>current_weight := 0\<rparr> = p" if "p \<in> set (peer g)" for p
    using that by (metis rr_peer.surjective rr_peer.update_convs(3))
  then have "map (\<lambda>p. p\<lparr>current_weight := 0\<rparr>) (peer g) = peer g" by (simp add: map_idI)
  moreover have "current_weight (peer g ! i) = 0" if "i < number g" for i using that z by simp
  ultimately show ?case by (simp add: rr_spent_def)
next
  case (Cons now nows)
  have pos: "\<not> list_all (\<lambda>p. current_weight p \<le> 0) (peer g)"
  proof
    assume "list_all (\<lambda>p. current_weight p \<le> 0) (peer g)"
    then have "rr_total (peer g) = 0" by (auto simp: rr_total_def list_all_iff)
    then show False using Cons.prems(4) by simp
  qed
  then have R: "rr_reset (peer g) = peer g" by (simp add: rr_reset_def)
  have "\<not> list_all (\<lambda>p. weight p \<le> 0) (peer g)" using pos Cons.prems(1) by (force simp: list_all_iff rr_up_def)
  from rr_serve_step [OF Cons.prems(3,2,1) this, of now nows] obtain n where
    n: "n < number g" "0 < current_weight (peer g ! n)"
    "rr_serve (now # nows) (g # c) = map_option (\<lambda>(cs, chain). ((0, n) # cs, chain)) (rr_serve nows (g\<lparr>peer := rr_dec (peer g) n\<rparr> # c))"
    unfolding R by blast
  let ?g = "g\<lparr>peer := rr_dec (peer g) n\<rparr>"
  note d = rr_dec_group [OF Cons.prems(1,3) n(1,2)]
  have w: "rr_words (?g # c) = rr_words (g # c)" by (rule rr_words_number) simp
  from Cons.IH [OF d(1), unfolded w] d(2,4) Cons.prems(2,4) obtain cs where cs: "rr_serve nows (?g # c) = Some (cs, rr_spent ?g # c)"
    "\<forall>i < number g. int (count_list cs (0, i)) = current_weight (rr_dec (peer g) n ! i)"
    by auto
  then show ?case using n d(3) by (auto simp: rr_dec_def nth_list_update)
qed

definition rr_full :: "rr_peers \<Rightarrow> rr_peers" where
  "rr_full g = g\<lparr>peer := map (\<lambda>p. p\<lparr>current_weight := weight p\<rparr>) (peer g)\<rparr>"

lemma rr_full_simps [simp]:
  "number (rr_full g) = number g" "single (rr_full g) = single g" "rr_spent (rr_full g) = rr_spent g"
  "number (rr_spent g) = number g" "single (rr_spent g) = single g"
  by (simp_all add: rr_full_def rr_spent_def)

text \<open>The next round starts from spent weights and ends with them.\<close>

lemma rr_serve_next_round:
  assumes "list_all rr_up (peer (rr_full g))" "\<not> single g" "rr_chain_inv (rr_words (g # c)) (rr_spent g # c)"
    "length nows = rr_total (peer (rr_full g))"
  shows "\<exists>cs. rr_serve nows (rr_spent g # c) = Some (cs, rr_spent g # c) \<and>
    (\<forall>i < number g. int (count_list cs (0, i)) = weight (peer g ! i))"
proof (cases nows)
  case Nil
  then have "\<forall>p \<in> set (peer g). nat (weight p) = 0" using assms(4) by (auto simp: rr_total_def rr_full_def)
  moreover have "\<forall>p \<in> set (peer g). 0 \<le> weight p" using assms(1) by (auto simp: list_all_iff rr_up_def rr_full_def)
  ultimately have "weight (peer g ! i) = 0" if "i < number g" for i using that by (metis nat_0_iff nth_mem order_antisym)
  then show ?thesis using Nil by simp
next
  case (Cons now rest)
  let ?s = "rr_spent g" and ?f = "rr_full g"
  have w: "rr_words (?s # c) = rr_words (g # c)" "rr_words (?f # c) = rr_words (g # c)" by (rule rr_words_number; simp)+
  have R: "rr_reset (peer ?s) = peer ?f" by (simp add: rr_reset_def rr_spent_def rr_full_def list_all_iff)
  have up: "list_all rr_up (peer ?s)"
    using assms(1) by (auto simp: list_all_iff rr_up_def rr_spent_def rr_full_def rr_alive_def)
  have "\<not> list_all (\<lambda>p. weight p \<le> 0) (peer ?s)"
  proof
    assume "list_all (\<lambda>p. weight p \<le> 0) (peer ?s)"
    then have "rr_total (peer ?f) = 0" by (auto simp: rr_total_def list_all_iff rr_spent_def rr_full_def)
    then show False using assms(4) Cons by simp
  qed
  from rr_serve_step [OF _ _ up this, of c now rest] obtain n where n: "n < number g" "0 < current_weight (peer ?f ! n)"
    "rr_serve nows (?s # c) = map_option (\<lambda>(cs, chain). ((0, n) # cs, chain)) (rr_serve rest (?s\<lparr>peer := rr_dec (peer ?f) n\<rparr> # c))"
    using assms(2,3) w unfolding R Cons by auto
  let ?g = "?f\<lparr>peer := rr_dec (peer ?f) n\<rparr>"
  have g: "?s\<lparr>peer := rr_dec (peer ?f) n\<rparr> = ?g" by (simp add: rr_spent_def rr_full_def)
  have "list_all rr_peer_inv (peer ?f)" by (rule rr_up_inv [OF assms(1)])
  then have "rr_group_inv ?f" using assms(3) by (simp add: rr_chain_inv_def rr_group_inv_def rr_full_def rr_spent_def)
  then have "rr_chain_inv (rr_words (g # c)) (?f # c)" using rr_chain_inv_update [OF assms(3), of ?f 0] by simp
  note d = rr_dec_group [OF assms(1) this _ n(2)]
  have w': "rr_words (?g # c) = rr_words (g # c)" by (rule rr_words_number) simp
  from rr_serve_round [OF d(1), of c rest, unfolded w'] d(2,4) n(1) assms(2,4) Cons obtain cs where
    cs: "rr_serve rest (?g # c) = Some (cs, rr_spent ?g # c)"
    "\<forall>i < number g. int (count_list cs (0, i)) = current_weight (rr_dec (peer ?f) n ! i)" by auto
  have "rr_serve nows (?s # c) = Some ((0, n) # cs, ?s # c)" using n(1,3) cs(1) d(3) unfolding g by simp
  moreover have "\<forall>i < number g. int (count_list ((0, n) # cs) (0, i)) = weight (peer g ! i)"
    using cs(2) n(1) by (auto simp: rr_dec_def nth_list_update rr_full_def)
  ultimately show ?thesis by blast
qed

lemma rr_serve_rounds:
  assumes "list_all rr_up (peer (rr_full g))" "\<not> single g" "rr_chain_inv (rr_words (g # c)) (rr_spent g # c)"
  shows "length nows = k * rr_total (peer (rr_full g)) \<Longrightarrow>
    \<exists>cs. rr_serve nows (rr_spent g # c) = Some (cs, rr_spent g # c) \<and>
      (\<forall>i < number g. int (count_list cs (0, i)) = int k * weight (peer g ! i))"
proof (induction k arbitrary: nows)
  case (Suc k)
  let ?w = "rr_total (peer (rr_full g))"
  obtain cs where cs: "rr_serve (take ?w nows) (rr_spent g # c) = Some (cs, rr_spent g # c)"
    "\<forall>i < number g. int (count_list cs (0, i)) = weight (peer g ! i)"
    using rr_serve_next_round [OF assms, of "take ?w nows"] Suc.prems by auto
  obtain ds where "rr_serve (drop ?w nows) (rr_spent g # c) = Some (ds, rr_spent g # c)"
    "\<forall>i < number g. int (count_list ds (0, i)) = int k * weight (peer g ! i)"
    using Suc.IH [of "drop ?w nows"] Suc.prems by auto
  then show ?case using cs rr_serve_append [of "take ?w nows" "drop ?w nows" "rr_spent g # c"] by (auto simp: algebra_simps)
qed simp

lemma count_replicate: "count_list (replicate n x) x = n"
  by (induction n) simp_all

lemma rr_set_weight: "current_weight p = w \<Longrightarrow> p\<lparr>current_weight := w\<rparr> = p"
  by (metis rr_peer.surjective rr_peer.update_convs(3))

lemma rr_serve_single:
  assumes "single g" "rr_chain_inv (rr_words [g]) [g]"
  shows "rr_serve nows [g] = Some (replicate (length nows) (0, 0), [g])"
proof (induction nows)
  case (Cons now nows)
  obtain d where d: "ngx_http_upstream_init_round_robin_peer True True [g] = Some d" "level d = 0" "current d = 0"
    by (auto simp: ngx_http_upstream_init_round_robin_peer_def Let_def)
  have "last_cached g = 0" "peer g \<noteq> []" using assms(2) by (auto simp: rr_chain_inv_def rr_group_inv_def)
  then have "\<exists>d'. ngx_http_upstream_get_round_robin_peer now [g] d = Some (RR_ok, [g], d') \<and> level d' = 0 \<and> current d' = 0"
    using d(2,3) assms(1) by (subst ngx_http_upstream_get_round_robin_peer.simps) (auto simp: Let_def rr_pick_def rr_connect_def)
  then show ?case using d(1) Cons by auto
qed simp

text \<open>
  C3. Weighted round robin is fair: serve \<open>k\<close> rounds of requests, a round being as many requests as the weights of the
  servers add up to, from a fresh configuration and with every server responding.  Then each server has been chosen
  exactly \<open>k\<close> times its weight, so no server with a positive weight starves and none that is down is used.  The times
  at which the requests arrive do not matter.
\<close>

theorem round_robin_fair:
  assumes "ngx_http_upstream_init_round_robin a1 a2 a3 host port dport res (Some ss) = Some (g # c)"
    "0 < server_count False ss" "0 < server_count True ss mod 64 \<or> server_count True ss = 0"
    "int (length nows) = int k * sum_list (map weight (peer g))" "i < number g"
  shows "\<exists>cs chain. rr_serve nows (g # c) = Some (cs, chain) \<and> int (count_list cs (0, i)) = int k * weight (peer g ! i)"
proof -
  have inv: "rr_chain_inv (rr_words (g # c)) (g # c)" and fresh: "list_all rr_fresh (peer g)" and sgl: "single g = (number g = 1 \<and> c = [])"
    using init_round_robin_chain [OF assms(1-3)] by auto
  have "p\<lparr>current_weight := weight p\<rparr> = p" if "p \<in> set (peer g)" for p
    using fresh that rr_set_weight [of p "weight p"] by (auto simp: list_all_iff rr_fresh_def)
  then have full: "rr_full g = g" by (simp add: rr_full_def map_idI)
  have up: "list_all rr_up (peer g)" using fresh by (auto simp: list_all_iff rr_fresh_def rr_up_def)
  have "int (rr_total ps) = sum_list (map weight ps)" if "list_all rr_fresh ps" for ps
    using that by (induction ps) (auto simp: rr_total_def rr_fresh_def)
  from this [OF fresh] have len: "length nows = k * rr_total (peer g)" using assms(4) by (metis nat_int of_nat_mult)
  show ?thesis
  proof (cases "single g")
    case True
    then obtain p where "peer g = [p]" using sgl by (auto simp: length_Suc_conv)
    moreover have "i = 0" using sgl True assms(5) by simp
    ultimately have "sum_list (map weight (peer g)) = weight (peer g ! i)" by simp
    then show ?thesis using rr_serve_single [OF True, of nows] inv sgl True assms(4,5) by (simp add: count_replicate)
  next
    case False
    show ?thesis
    proof (cases k)
      case (Suc m)
      let ?w = "rr_total (peer g)"
      obtain cs where cs: "rr_serve (take ?w nows) (g # c) = Some (cs, rr_spent g # c)"
        "\<forall>i < number g. int (count_list cs (0, i)) = current_weight (peer g ! i)"
        using rr_serve_round [OF up False inv, of "take ?w nows"] len Suc by auto
      have "rr_group_inv (rr_spent g)"
        using inv up by (auto simp: rr_chain_inv_def rr_group_inv_def rr_spent_def list_all_iff rr_peer_inv_def rr_up_def)
      then have "rr_chain_inv (rr_words (g # c)) (rr_spent g # c)" using rr_chain_inv_update [OF inv, of "rr_spent g" 0] by simp
      then obtain ds where "rr_serve (drop ?w nows) (rr_spent g # c) = Some (ds, rr_spent g # c)"
        "\<forall>i < number g. int (count_list ds (0, i)) = int m * weight (peer g ! i)"
        using rr_serve_rounds [of g c "drop ?w nows" m] up False len Suc full by auto
      moreover have "current_weight (peer g ! i) = weight (peer g ! i)" using fresh assms(5) by (auto simp: list_all_length rr_fresh_def)
      ultimately show ?thesis
        using cs rr_serve_append [of "take ?w nows" "drop ?w nows" "g # c"] assms(5) Suc by (auto simp: algebra_simps)
    qed (use len in simp)
  qed
qed

text \<open>A configuration with three servers, of weights 2, 1 and 3, the last one down, and a backup server.\<close>

definition rr_example :: "rr_server list" where
  "rr_example =
    [\<lparr>addrs = [([1], [1])], server_weight = 2, server_max_fails = 1, server_fail_timeout = 10, server_down = False, backup = False\<rparr>,
     \<lparr>addrs = [([2], [2])], server_weight = 1, server_max_fails = 1, server_fail_timeout = 10, server_down = False, backup = False\<rparr>,
     \<lparr>addrs = [([3], [3])], server_weight = 3, server_max_fails = 1, server_fail_timeout = 10, server_down = True, backup = False\<rparr>,
     \<lparr>addrs = [([4], [4])], server_weight = 1, server_max_fails = 1, server_fail_timeout = 10, server_down = False, backup = True\<rparr>]"

definition rr_example_chain :: "rr_peers list" where
  "rr_example_chain = the (ngx_http_upstream_init_round_robin True True True [] 0 0 None (Some rr_example))"

lemma rr_example_chain:
  obtains g c where "ngx_http_upstream_init_round_robin True True True [] 0 0 None (Some rr_example) = Some (g # c)"
    "rr_example_chain = g # c" "number g = 3" "map weight (peer g) = [2, 1, 0]"
  using that [of "hd rr_example_chain" "tl rr_example_chain"]
  by (simp add: rr_example_chain_def ngx_http_upstream_init_round_robin_def rr_example_def server_peers_def backup_peers_def
      rr_group_def Let_def ngx_sort_def sort_loop.simps sort_pass_def ngx_http_upstream_cmp_servers_def)

lemma rr_example_count: "server_count False rr_example = 3" "server_count True rr_example = 1"
  by (simp_all add: server_count_def rr_example_def)

theorem round_robin_fair_witness:
  "\<exists>cs chain. rr_serve [10, 11, 12, 13, 14, 15] rr_example_chain = Some (cs, chain) \<and> int (count_list cs (0, 0)) = 4"
proof -
  obtain g c where g: "ngx_http_upstream_init_round_robin True True True [] 0 0 None (Some rr_example) = Some (g # c)"
    "rr_example_chain = g # c" "number g = 3" "map weight (peer g) = [2, 1, 0]" by (rule rr_example_chain)
  have w: "weight (peer g ! 0) = 2" using g(3,4) nth_map [of 0 "peer g" weight] by simp
  have "\<exists>cs chain. rr_serve [10, 11, 12, 13, 14, 15] (g # c) = Some (cs, chain) \<and> int (count_list cs (0, 0)) = int 2 * weight (peer g ! 0)"
    by (rule round_robin_fair [OF g(1)]) (simp_all add: rr_example_count g(3,4))
  then show ?thesis unfolding g(2) w by (simp del: rr_serve.simps)
qed

theorem round_robin_safe_witness:
  "\<exists>rc chain d. ngx_http_upstream_get_round_robin_peer 10 rr_example_chain
     (the (ngx_http_upstream_init_round_robin_peer True True rr_example_chain)) = Some (rc, chain, d)"
proof -
  obtain g c where g: "ngx_http_upstream_init_round_robin True True True [] 0 0 None (Some rr_example) = Some (g # c)"
    "rr_example_chain = g # c" "number g = 3" "map weight (peer g) = [2, 1, 0]" by (rule rr_example_chain)
  obtain d where d: "ngx_http_upstream_init_round_robin_peer True True (g # c) = Some d"
    by (simp add: ngx_http_upstream_init_round_robin_peer_def Let_def)
  have "rr_reachable (g # c) \<lparr>sys_chain = g # c, sys_requests = [d], sys_given = [[]]\<rparr>"
    using rr_step [OF rr_start rr_new, of True True "g # c" d] d by simp
  from round_robin_safe [OF g(1) _ _ this, of 0 10 0] rr_example_count d show ?thesis unfolding g(2) by auto
qed

text \<open>
  The bitmap is cleared by \<open>n / 64 + 1\<close> words but has \<open>(n + 63) / 64\<close>: with a multiple of 64 backup servers the code
  writes one word behind it.
\<close>

lemma tried_overflow:
  assumes "0 < k"
  shows "clear_tried (64 * k) (replicate (tried_words (64 * k)) 0) = None"
  using assms by (auto simp: clear_tried_def tried_words_def Let_def)

text \<open>
  In a group with backup servers behind it the bitmap is cleared before the last try, while the request stays in the group:
  with two servers and one backup, a request whose tries fail gets the second server, the first one, and the second one again.
\<close>

definition rr_pair :: "rr_server list" where
  "rr_pair =
    [\<lparr>addrs = [([1], [1])], server_weight = 1, server_max_fails = 0, server_fail_timeout = 10, server_down = False, backup = False\<rparr>,
     \<lparr>addrs = [([2], [2])], server_weight = 1, server_max_fails = 0, server_fail_timeout = 10, server_down = False, backup = False\<rparr>,
     \<lparr>addrs = [([3], [3])], server_weight = 1, server_max_fails = 0, server_fail_timeout = 10, server_down = False, backup = True\<rparr>]"

lemma rr_given_twice:
  "(do {
      chain \<leftarrow> ngx_http_upstream_init_round_robin True True True [] 0 0 None (Some rr_pair);
      d \<leftarrow> ngx_http_upstream_init_round_robin_peer True True chain;
      (rc1, chain, d1) \<leftarrow> ngx_http_upstream_get_round_robin_peer 10 chain d;
      (chain, d) \<leftarrow> ngx_http_upstream_free_round_robin_peer 10 chain d1 NGX_PEER_FAILED;
      (rc2, chain, d2) \<leftarrow> ngx_http_upstream_get_round_robin_peer 10 chain d;
      (chain, d) \<leftarrow> ngx_http_upstream_free_round_robin_peer 10 chain d2 NGX_PEER_FAILED;
      (rc3, chain, d3) \<leftarrow> ngx_http_upstream_get_round_robin_peer 10 chain d;
      Some [(rc1, level d1, current d1), (rc2, level d2, current d2), (rc3, level d3, current d3)]
    }) = Some [(RR_ok, 0, 1), (RR_ok, 0, 0), (RR_ok, 0, 1)]"
  by code_simp

text \<open>An upstream with backup servers only has no first group: the code reads the peer 0 of an empty array.\<close>

lemma only_backups:
  assumes "tries d = 0" "tried d = t # ts" "t = 0"
  shows "rr_pick now (rr_group host False []) d = None"
  using assms
  by (simp add: rr_pick_def rr_group_def, subst rr_first.simps)
    (simp add: ngx_http_upstream_get_peer_def rr_try_def is_tried_def Let_def)

text \<open>The heaviest servers come first.\<close>

lemma init_round_robin_sorted:
  assumes "ngx_http_upstream_init_round_robin a1 a2 True host port dport res (Some ss) = Some (g # c)"
  shows "sorted_wrt (\<lambda>p q. weight q \<le> weight p) (peer g) \<and>
    mset (peer g) = mset (concat (map server_peers (filter (\<lambda>s. \<not> backup s) ss)))"
proof -
  have le: "(ngx_http_upstream_cmp_servers p q \<le> 0) = (weight q \<le> weight p)" for p q
    by (auto simp: ngx_http_upstream_cmp_servers_def)
  have "peer g = ngx_sort True ngx_http_upstream_cmp_servers (concat (map server_peers (filter (\<lambda>s. \<not> backup s) ss)))
      (length (concat (map server_peers (filter (\<lambda>s. \<not> backup s) ss))))"
    using assms unfolding ngx_http_upstream_init_round_robin_def Let_def length_server_peers
    by (auto simp: rr_group_def split: if_splits)
  then show ?thesis
    using servers.sort_contract(1) [of "concat (map server_peers (filter (\<lambda>s. \<not> backup s) ss))"]
      ngx_sort_foldl [of _ "concat (map server_peers (filter (\<lambda>s. \<not> backup s) ss))" "[]"]
      mset_foldl_ins [of _ "[]" "concat (map server_peers (filter (\<lambda>s. \<not> backup s) ss))"] by (simp add: le)
qed

text \<open>The address of the client alone decides the peer, as long as that peer is alive.\<close>

lemma ip_hash_affinity:
  assumes "ngx_http_upstream_init_ip_hash_peer True True (g # c) a = Some q" "\<not> single g" "rr_chain_inv (rr_words (g # c)) (g # c)"
    "p = iph_step (iph_addr q) 89 mod number g" "rr_alive (peer g ! p)"
  shows "\<exists>q'. ngx_http_upstream_get_ip_hash_peer now (g # c) q = Some (RR_ok, g # c, q') \<and> current (iph_rrp q') = p"
proof -
  obtain d where d: "ngx_http_upstream_init_round_robin_peer True True (g # c) = Some d" "q = q\<lparr>iph_rrp := d, iph_hash := 89, iph_tries := 0\<rparr>"
    using assms(1) by (auto simp: ngx_http_upstream_init_ip_hash_peer_def)
  have t: "level d = 0" "tried d = replicate (rr_words (g # c)) 0"
    using d(1) by (auto simp: ngx_http_upstream_init_round_robin_peer_def rr_words_def Let_def max_def split: list.splits)
  have g: "0 < number g" "(number g - 1) div 64 < rr_words (g # c)" using assms(3) by (auto simp: rr_chain_inv_def rr_group_inv_def)
  have p: "p < number g" using g(1) assms(4) by simp
  then have "p div 64 \<le> (number g - 1) div 64" by (simp add: div_le_mono)
  then have z: "is_tried (tried d) p = Some False" using t(2) g(2) is_tried_zeros [of p "rr_words (g # c)"] by simp
  have q: "iph_rrp q = d" "iph_hash q = 89" "iph_tries q = 0" using d(2) by (metis ip_hash_request.select_convs ip_hash_request.surjective ip_hash_request.update_convs)+
  show ?thesis
    using q t(1) assms(2,4,5) g(1) z p unfolding ngx_http_upstream_get_ip_hash_peer_def
    by (subst iph_loop.simps) (simp add: Let_def rr_alive_def)
qed

end
