(* ===== verification/Ngx_Radix_Tree.thy ===== *)
theory Ngx_Radix_Tree
  imports Ngx_Prelude "HOL-Library.Multiset" "HOL-Library.Sublist"
begin

section \<open>The radix tree\<close>

text \<open>
  \<open>src/core/ngx_radix_tree.c\<close>: a binary tree over the bits of an address, which finds the value of the longest matching
  network.  The nodes are in a memory, a map from addresses to nodes, and are linked by pointers in both directions;
  deleted nodes are kept in a list linked through \<open>right\<close>.  \<open>None\<close> as a result stands for following a pointer to no node
  or for a loop that does not end.
\<close>

subsection \<open>The code\<close>

definition NGX_RADIX_NO_VALUE :: u64 where
  "NGX_RADIX_NO_VALUE = -1"

record radix_node =
  rn_right :: ptr
  rn_left :: ptr
  rn_parent :: ptr
  rn_value :: u64

text \<open>
  The tree with the memory of its nodes.  Of the pool it uses \<open>rt_brk\<close> is the address of the next page and \<open>rt_pages\<close> the
  number of pages that it can still give; \<open>rt_pagesize\<close> is \<open>ngx_pagesize\<close>.
\<close>

record radix_tree =
  rt_heap :: "nat \<rightharpoonup> radix_node"
  rt_root :: nat
  rt_free :: ptr
  rt_start :: nat
  rt_size :: nat
  rt_brk :: nat
  rt_pages :: nat
  rt_pagesize :: nat

datatype radix_rc = Radix_ok | Radix_busy | Radix_error

text \<open>The size of a node.\<close>

definition RADIX_NODE_SIZE :: nat where
  "RADIX_NODE_SIZE = 32"

definition ngx_radix_alloc :: "radix_tree \<Rightarrow> (ptr \<times> radix_tree) option" where
  "ngx_radix_alloc t =
    (case rt_free t of
       Some p \<Rightarrow> (case rt_heap t p of None \<Rightarrow> None | Some nd \<Rightarrow> Some (Some p, t\<lparr>rt_free := rn_right nd\<rparr>))
     | None \<Rightarrow>
         if rt_size t < RADIX_NODE_SIZE \<and> rt_pages t = 0 then Some (None, t\<lparr>rt_start := 0\<rparr>)
         else
           (let t = (if rt_size t < RADIX_NODE_SIZE
                then t\<lparr>rt_start := rt_brk t, rt_size := rt_pagesize t, rt_brk := rt_brk t + rt_pagesize t, rt_pages := rt_pages t - 1\<rparr>
                else t)
            in Some (Some (rt_start t), t\<lparr>rt_start := rt_start t + RADIX_NODE_SIZE, rt_size := rt_size t - RADIX_NODE_SIZE\<rparr>)))"

definition radix_set :: "nat \<Rightarrow> radix_node \<Rightarrow> radix_tree \<Rightarrow> radix_tree" where
  "radix_set p nd t = t\<lparr>rt_heap := (rt_heap t)(p \<mapsto> nd)\<rparr>"

text \<open>\<open>key & bit ? node->right : node->left\<close>\<close>

definition radix_child :: "u32 \<Rightarrow> u32 \<Rightarrow> radix_node \<Rightarrow> ptr" where
  "radix_child key b nd = (if key AND b \<noteq> 0 then rn_right nd else rn_left nd)"

definition radix_link :: "u32 \<Rightarrow> u32 \<Rightarrow> ptr \<Rightarrow> radix_node \<Rightarrow> radix_node" where
  "radix_link key b p nd = (if key AND b \<noteq> 0 then nd\<lparr>rn_right := p\<rparr> else nd\<lparr>rn_left := p\<rparr>)"

lemma drop_bit_less: "(b :: u32) AND msk \<noteq> 0 \<Longrightarrow> unat (drop_bit 1 b) < unat b"
proof -
  assume "b AND msk \<noteq> 0"
  then have "b \<noteq> 0" by auto
  then have "0 < unat b" by (simp add: unat_gt_0)
  moreover have "unat (b div 2) = unat b div 2" by (simp add: unat_div)
  ultimately show ?thesis by (simp add: drop_bit_eq_div)
qed

text \<open>The first loop of the insertion: the last node on the path, the pointer that ended the loop, and \<open>bit\<close>.\<close>

function radix_descend :: "(nat \<rightharpoonup> radix_node) \<Rightarrow> nat \<Rightarrow> ptr \<Rightarrow> u32 \<Rightarrow> u32 \<Rightarrow> u32 \<Rightarrow> (nat \<times> ptr \<times> u32) option" where
  "radix_descend h node nxt b key msk =
    (if b AND msk = 0 then Some (node, nxt, b)
     else
       (case h node of
          None \<Rightarrow> None
        | Some nd \<Rightarrow>
            (case radix_child key b nd of
               None \<Rightarrow> Some (node, None, b)
             | Some n \<Rightarrow> radix_descend h n (Some n) (drop_bit 1 b) key msk)))"
  by auto
termination
  by (relation "measure (\<lambda>(h, node, nxt, b, key, msk). unat b)") (use drop_bit_less in auto)

text \<open>The second loop: the node for the value, or \<open>None\<close> if there is no memory for it.\<close>

function radix_grow :: "radix_tree \<Rightarrow> nat \<Rightarrow> u32 \<Rightarrow> u32 \<Rightarrow> u32 \<Rightarrow> (ptr \<times> radix_tree) option" where
  "radix_grow t node b key msk =
    (if b AND msk = 0 then Some (Some node, t)
     else
       (case ngx_radix_alloc t of
          None \<Rightarrow> None
        | Some (None, t) \<Rightarrow> Some (None, t)
        | Some (Some n, t) \<Rightarrow>
            (let t = radix_set n \<lparr>rn_right = None, rn_left = None, rn_parent = Some node, rn_value = NGX_RADIX_NO_VALUE\<rparr> t in
             case rt_heap t node of
               None \<Rightarrow> None
             | Some nd \<Rightarrow> radix_grow (radix_set node (radix_link key b (Some n) nd) t) n (drop_bit 1 b) key msk)))"
  by auto
termination
  by (relation "measure (\<lambda>(t, node, b, key, msk). unat b)") (use drop_bit_less in auto)

declare radix_descend.simps [simp del] radix_grow.simps [simp del]

definition ngx_radix32tree_insert :: "radix_tree \<Rightarrow> u32 \<Rightarrow> u32 \<Rightarrow> u64 \<Rightarrow> (radix_rc \<times> radix_tree) option" where
  "ngx_radix32tree_insert t key msk val =
    (case radix_descend (rt_heap t) (rt_root t) (Some (rt_root t)) 0x80000000 key msk of
       None \<Rightarrow> None
     | Some (node, Some _, b) \<Rightarrow>
         (case rt_heap t node of
            None \<Rightarrow> None
          | Some nd \<Rightarrow>
              if rn_value nd \<noteq> NGX_RADIX_NO_VALUE then Some (Radix_busy, t)
              else Some (Radix_ok, radix_set node (nd\<lparr>rn_value := val\<rparr>) t))
     | Some (node, None, b) \<Rightarrow>
         (case radix_grow t node b key msk of
            None \<Rightarrow> None
          | Some (None, t) \<Rightarrow> Some (Radix_error, t)
          | Some (Some node, t) \<Rightarrow>
              (case rt_heap t node of None \<Rightarrow> None | Some nd \<Rightarrow> Some (Radix_ok, radix_set node (nd\<lparr>rn_value := val\<rparr>) t))))"

text \<open>The walk of the deletion.\<close>

function radix_lookup :: "(nat \<rightharpoonup> radix_node) \<Rightarrow> ptr \<Rightarrow> u32 \<Rightarrow> u32 \<Rightarrow> u32 \<Rightarrow> ptr option" where
  "radix_lookup h node b key msk =
    (case node of
       None \<Rightarrow> Some None
     | Some n \<Rightarrow>
         if b AND msk = 0 then Some (Some n)
         else (case h n of None \<Rightarrow> None | Some nd \<Rightarrow> radix_lookup h (radix_child key b nd) (drop_bit 1 b) key msk))"
  by auto
termination
  by (relation "measure (\<lambda>(h, node, b, key, msk). unat b)") (use drop_bit_less in auto)

declare radix_lookup.simps [simp del]

text \<open>The loop that frees a leaf and the empty nodes above it.  The root has no parent: for it the code reads \<open>NULL->right\<close>.\<close>

partial_function (option) radix_unlink :: "radix_tree \<Rightarrow> nat \<Rightarrow> radix_tree option" where
  "radix_unlink t node =
    (case rt_heap t node of
       None \<Rightarrow> None
     | Some nd \<Rightarrow>
         (case rn_parent nd of
            None \<Rightarrow> None
          | Some par \<Rightarrow>
              (case rt_heap t par of
                 None \<Rightarrow> None
               | Some pn \<Rightarrow>
                   let pn = (if rn_right pn = Some node then pn\<lparr>rn_right := None\<rparr> else pn\<lparr>rn_left := None\<rparr>);
                       t = radix_set par pn t;
                       t = radix_set node (nd\<lparr>rn_right := rt_free t\<rparr>) t;
                       t = t\<lparr>rt_free := Some node\<rparr>
                   in if rn_right pn \<noteq> None \<or> rn_left pn \<noteq> None \<or> rn_value pn \<noteq> NGX_RADIX_NO_VALUE \<or> rn_parent pn = None
                      then Some t else radix_unlink t par)))"

definition ngx_radix32tree_delete :: "radix_tree \<Rightarrow> u32 \<Rightarrow> u32 \<Rightarrow> (radix_rc \<times> radix_tree) option" where
  "ngx_radix32tree_delete t key msk =
    (case radix_lookup (rt_heap t) (Some (rt_root t)) 0x80000000 key msk of
       None \<Rightarrow> None
     | Some None \<Rightarrow> Some (Radix_error, t)
     | Some (Some node) \<Rightarrow>
         (case rt_heap t node of
            None \<Rightarrow> None
          | Some nd \<Rightarrow>
              if rn_right nd \<noteq> None \<or> rn_left nd \<noteq> None then
                (if rn_value nd \<noteq> NGX_RADIX_NO_VALUE
                 then Some (Radix_ok, radix_set node (nd\<lparr>rn_value := NGX_RADIX_NO_VALUE\<rparr>) t)
                 else Some (Radix_error, t))
              else map_option (\<lambda>t. (Radix_ok, t)) (radix_unlink t node)))"

partial_function (option) radix_search :: "(nat \<rightharpoonup> radix_node) \<Rightarrow> ptr \<Rightarrow> u32 \<Rightarrow> u32 \<Rightarrow> u64 \<Rightarrow> u64 option" where
  "radix_search h node b key val =
    (case node of
       None \<Rightarrow> Some val
     | Some n \<Rightarrow>
         (case h n of
            None \<Rightarrow> None
          | Some nd \<Rightarrow>
              radix_search h (radix_child key b nd) (drop_bit 1 b) key (if rn_value nd \<noteq> NGX_RADIX_NO_VALUE then rn_value nd else val)))"

definition ngx_radix32tree_find :: "radix_tree \<Rightarrow> u32 \<Rightarrow> u64 option" where
  "ngx_radix32tree_find t key = radix_search (rt_heap t) (Some (rt_root t)) 0x80000000 key NGX_RADIX_NO_VALUE"

text \<open>
  The creation.  The inner loop inserts the keys of one length, \<open>key\<close> running in steps of \<open>inc\<close> until it wraps around to 0;
  the outer result is \<open>None\<close> as above, the inner one if there is no memory.
\<close>

partial_function (option) radix_level :: "radix_tree \<Rightarrow> u32 \<Rightarrow> u32 \<Rightarrow> u32 \<Rightarrow> radix_tree option option" where
  "radix_level t key msk inc =
    (case ngx_radix32tree_insert t key msk NGX_RADIX_NO_VALUE of
       None \<Rightarrow> None
     | Some (rc, t) \<Rightarrow>
         if rc \<noteq> Radix_ok then Some None else if key + inc = 0 then Some (Some t) else radix_level t (key + inc) msk inc)"

fun radix_preallocate :: "nat \<Rightarrow> radix_tree \<Rightarrow> u32 \<Rightarrow> u32 \<Rightarrow> radix_tree option option" where
  "radix_preallocate 0 t msk inc = Some (Some t)"
| "radix_preallocate (Suc n) t msk inc =
    (let msk = drop_bit 1 msk OR 0x80000000 in
     case radix_level t 0 msk inc of
       Some (Some t) \<Rightarrow> radix_preallocate n t msk (drop_bit 1 inc)
     | r \<Rightarrow> r)"

text \<open>The size of \<open>ngx_radix_tree_t\<close>, by which the code divides the size of a page.\<close>

definition RADIX_TREE_SIZE :: nat where
  "RADIX_TREE_SIZE = 40"

definition radix_bits :: "nat \<Rightarrow> nat" where
  "radix_bits pagesize =
    (if pagesize div RADIX_TREE_SIZE = 128 then 6 else if pagesize div RADIX_TREE_SIZE = 256 then 7 else 8)"

definition ngx_radix_tree_create :: "bool \<Rightarrow> nat \<Rightarrow> nat \<Rightarrow> nat \<Rightarrow> int \<Rightarrow> radix_tree option option" where
  "ngx_radix_tree_create alloc pagesize pages brk preallocate =
    (if \<not> alloc then Some None
     else
       (case ngx_radix_alloc \<lparr>rt_heap = Map.empty, rt_root = 0, rt_free = None, rt_start = 0, rt_size = 0, rt_brk = brk, rt_pages = pages,
          rt_pagesize = pagesize\<rparr> of
          None \<Rightarrow> None
        | Some (None, t) \<Rightarrow> Some None
        | Some (Some r, t) \<Rightarrow>
            (let t = radix_set r \<lparr>rn_right = None, rn_left = None, rn_parent = None, rn_value = NGX_RADIX_NO_VALUE\<rparr> (t\<lparr>rt_root := r\<rparr>) in
             if preallocate = 0 then Some (Some t)
             else if preallocate = -1 then radix_preallocate (radix_bits pagesize) t 0 0x80000000
             else if preallocate < 0 then None
             else radix_preallocate (nat preallocate) t 0 0x80000000)))"

subsection \<open>Tries and their places in memory\<close>

text \<open>A trie whose nodes carry their addresses, and what it means that a memory holds it.\<close>

datatype rtrie = Lf | Nd nat rtrie u64 rtrie

fun tptr :: "rtrie \<Rightarrow> ptr" where
  "tptr Lf = None"
| "tptr (Nd a l v r) = Some a"

fun taddrs :: "rtrie \<Rightarrow> nat list" where
  "taddrs Lf = []"
| "taddrs (Nd a l v r) = a # taddrs l @ taddrs r"

fun theight :: "rtrie \<Rightarrow> nat" where
  "theight Lf = 0"
| "theight (Nd a l v r) = Suc (max (theight l) (theight r))"

fun rt_tree :: "(nat \<rightharpoonup> radix_node) \<Rightarrow> ptr \<Rightarrow> rtrie \<Rightarrow> bool" where
  "rt_tree h par Lf = True"
| "rt_tree h par (Nd a l v r) =
    (h a = Some \<lparr>rn_right = tptr r, rn_left = tptr l, rn_parent = par, rn_value = v\<rparr> \<and>
     rt_tree h (Some a) l \<and> rt_tree h (Some a) r)"

text \<open>
  The nodes above a node: for each, from the inside out, the side of the hole, the address, the other child and the value.
\<close>

type_synonym rframe = "bool \<times> nat \<times> rtrie \<times> u64"

definition rnode :: "bool \<Rightarrow> nat \<Rightarrow> rtrie \<Rightarrow> rtrie \<Rightarrow> u64 \<Rightarrow> rtrie" where
  "rnode d a t s v = (if d then Nd a s v t else Nd a t v s)"

lemma rnode_simps [simp]:
  "tptr (rnode d a t s v) = Some a" "theight (rnode d a t s v) = Suc (max (theight t) (theight s))"
  "mset (taddrs (rnode d a t s v)) = add_mset a (mset (taddrs t) + mset (taddrs s))" "rnode d a t s v \<noteq> Lf"
  by (auto simp: rnode_def max.commute)

fun plug :: "rframe list \<Rightarrow> rtrie \<Rightarrow> rtrie" where
  "plug [] t = t"
| "plug ((d, a, s, v) # c) t = plug c (rnode d a t s v)"

fun cpar :: "rframe list \<Rightarrow> ptr" where
  "cpar [] = None"
| "cpar ((d, a, s, v) # c) = Some a"

definition caddrs :: "rframe list \<Rightarrow> nat list" where
  "caddrs c = concat (map (\<lambda>(d, a, s, v). a # taddrs s) c)"

definition cpath :: "rframe list \<Rightarrow> bool list" where
  "cpath c = rev (map fst c)"

fun cheight :: "rframe list \<Rightarrow> nat" where
  "cheight [] = 0"
| "cheight ((d, a, s, v) # c) = max (Suc (length c + theight s)) (cheight c)"

fun rt_ctx :: "(nat \<rightharpoonup> radix_node) \<Rightarrow> rframe list \<Rightarrow> ptr \<Rightarrow> bool" where
  "rt_ctx h [] p = True"
| "rt_ctx h ((d, a, s, v) # c) p =
    (h a = Some \<lparr>rn_right = (if d then p else tptr s), rn_left = (if d then tptr s else p), rn_parent = cpar c, rn_value = v\<rparr> \<and>
     rt_tree h (Some a) s \<and> rt_ctx h c (Some a))"

lemma caddrs_simps [simp]: "caddrs [] = []" "caddrs ((d, a, s, v) # c) = a # taddrs s @ caddrs c"
  by (simp_all add: caddrs_def)

lemma cpath_simps [simp]: "cpath [] = []" "cpath ((d, a, s, v) # c) = cpath c @ [d]"
  by (simp_all add: cpath_def)

lemma rt_tree_rnode:
  "rt_tree h par (rnode d a t s v) \<longleftrightarrow>
    h a = Some \<lparr>rn_right = (if d then tptr t else tptr s), rn_left = (if d then tptr s else tptr t), rn_parent = par, rn_value = v\<rparr> \<and>
    rt_tree h (Some a) t \<and> rt_tree h (Some a) s"
  by (auto simp: rnode_def)

lemma rt_plug: "rt_tree h None (plug c t) \<longleftrightarrow> rt_ctx h c (tptr t) \<and> rt_tree h (cpar c) t"
  by (induction c t rule: plug.induct) (auto simp: rt_tree_rnode)

lemma taddrs_plug: "mset (taddrs (plug c t)) = mset (caddrs c) + mset (taddrs t)"
  by (induction c t rule: plug.induct) simp_all

lemma set_taddrs_plug: "set (taddrs (plug c t)) = set (caddrs c) \<union> set (taddrs t)"
  using arg_cong [OF taddrs_plug [of c t], of set_mset] by simp

lemma theight_plug: "theight (plug c t) \<le> m \<longleftrightarrow> cheight c \<le> m \<and> length c + theight t \<le> m"
  by (induction c t rule: plug.induct) auto

lemma plug_Lf [simp]: "t \<noteq> Lf \<Longrightarrow> plug c t \<noteq> Lf"
  by (induction c t rule: plug.induct) simp_all

lemma tptr_plug: "tptr t = tptr t' \<Longrightarrow> tptr (plug c t) = tptr (plug c t')"
  by (induction c arbitrary: t t') auto

text \<open>What holds a trie or the nodes above it does not depend on the rest of the memory.\<close>

lemma rt_tree_frame: "(\<And>a. a \<in> set (taddrs t) \<Longrightarrow> h' a = h a) \<Longrightarrow> rt_tree h' par t = rt_tree h par t"
  by (induction t arbitrary: par) auto

lemma rt_ctx_frame: "(\<And>a. a \<in> set (caddrs c) \<Longrightarrow> h' a = h a) \<Longrightarrow> rt_ctx h' c p = rt_ctx h c p"
proof (induction c arbitrary: p)
  case (Cons f c)
  obtain d a s v where "f = (d, a, s, v)" by (cases f)
  then show ?case using Cons rt_tree_frame [of s h' h "Some a"] by auto
qed simp

fun free_list :: "(nat \<rightharpoonup> radix_node) \<Rightarrow> ptr \<Rightarrow> nat list \<Rightarrow> bool" where
  "free_list h p [] = (p = None)"
| "free_list h p (a # as) = (p = Some a \<and> (case h a of None \<Rightarrow> False | Some nd \<Rightarrow> free_list h (rn_right nd) as))"

lemma free_list_frame: "(\<And>a. a \<in> set fl \<Longrightarrow> h' a = h a) \<Longrightarrow> free_list h' p fl = free_list h p fl"
  by (induction fl arbitrary: p) (auto split: option.splits)

subsection \<open>The invariant\<close>

text \<open>
  The memory holds a trie of at most 33 levels at the root and a list of free nodes; all of them are distinct nodes, and
  below the next page and, as long as a node fits there, below the rest of the last page.
\<close>

definition rt_inv :: "radix_tree \<Rightarrow> rtrie \<Rightarrow> nat list \<Rightarrow> bool" where
  "rt_inv t T fl \<longleftrightarrow>
    T \<noteq> Lf \<and> tptr T = Some (rt_root t) \<and> rt_tree (rt_heap t) None T \<and> free_list (rt_heap t) (rt_free t) fl \<and>
    distinct (taddrs T @ fl) \<and> (\<forall>a \<in> set (taddrs T @ fl). a < rt_brk t) \<and>
    (RADIX_NODE_SIZE \<le> rt_size t \<longrightarrow> rt_start t + rt_size t \<le> rt_brk t \<and> (\<forall>a \<in> set (taddrs T @ fl). a < rt_start t)) \<and>
    RADIX_NODE_SIZE \<le> rt_pagesize t \<and> theight T \<le> 33"

lemma radix_alloc_ok:
  assumes "rt_inv t T fl"
  shows "(\<exists>t'. ngx_radix_alloc t = Some (None, t') \<and> rt_inv t' T fl) \<or>
    (\<exists>n t' fl'. ngx_radix_alloc t = Some (Some n, t') \<and> rt_inv t' T fl' \<and> rt_heap t' = rt_heap t \<and>
      n \<notin> set (taddrs T @ fl') \<and> n < rt_brk t' \<and> (RADIX_NODE_SIZE \<le> rt_size t' \<longrightarrow> n < rt_start t'))"
proof (cases "rt_free t")
  case (Some p)
  then obtain nd fl' where "fl = p # fl'" "rt_heap t p = Some nd" "free_list (rt_heap t) (rn_right nd) fl'"
    using assms by (cases fl) (auto simp: rt_inv_def split: option.splits)
  then show ?thesis using assms Some by (intro disjI2) (auto simp: rt_inv_def ngx_radix_alloc_def)
next
  case None
  show ?thesis
  proof (cases "rt_size t < RADIX_NODE_SIZE \<and> rt_pages t = 0")
    case True
    then have "rt_inv (t\<lparr>rt_start := 0\<rparr>) T fl" using assms by (auto simp: rt_inv_def)
    then show ?thesis using None True by (simp add: ngx_radix_alloc_def)
  next
    case False
    define t1 where "t1 = (if rt_size t < RADIX_NODE_SIZE
      then t\<lparr>rt_start := rt_brk t, rt_size := rt_pagesize t, rt_brk := rt_brk t + rt_pagesize t, rt_pages := rt_pages t - 1\<rparr> else t)"
    let ?t = "t1\<lparr>rt_start := rt_start t1 + RADIX_NODE_SIZE, rt_size := rt_size t1 - RADIX_NODE_SIZE\<rparr>"
    have t1: "RADIX_NODE_SIZE \<le> rt_size t1" "rt_start t1 + rt_size t1 \<le> rt_brk t1"
      "rt_heap t1 = rt_heap t" "rt_root t1 = rt_root t" "rt_free t1 = rt_free t" "rt_pagesize t1 = rt_pagesize t"
      using assms by (auto simp: t1_def rt_inv_def)
    have fresh: "a < rt_start t1" if "a \<in> set (taddrs T @ fl)" for a
      using assms that unfolding rt_inv_def t1_def by auto
    have "rt_inv ?t T fl" using assms t1 fresh by (fastforce simp: rt_inv_def)
    moreover have "ngx_radix_alloc t = Some (Some (rt_start t1), ?t)"
      using None False by (simp add: ngx_radix_alloc_def t1_def Let_def)
    ultimately show ?thesis using t1(1-3) fresh by (intro disjI2) (fastforce simp: RADIX_NODE_SIZE_def)
  qed
qed

subsection \<open>The bits of a key\<close>

text \<open>The variable \<open>bit\<close> of the loops when \<open>n\<close> bits are left, and the bits of a key under the leading ones of a mask.\<close>

definition rt_bit :: "nat \<Rightarrow> u32" where
  "rt_bit n = (if n = 0 then 0 else push_bit (n - 1) 1)"

fun radix_path :: "u32 \<Rightarrow> u32 \<Rightarrow> nat \<Rightarrow> bool list" where
  "radix_path key msk 0 = []"
| "radix_path key msk (Suc n) = (if bit msk n then bit key n # radix_path key msk n else [])"

abbreviation radix_prefix :: "u32 \<Rightarrow> u32 \<Rightarrow> bool list" where
  "radix_prefix key msk \<equiv> radix_path key msk 32"

lemma rt_bit_0 [simp]: "rt_bit 0 = 0"
  by (simp add: rt_bit_def)

lemma rt_bit_32: "rt_bit 32 = 0x80000000"
  by (simp add: rt_bit_def push_bit_eq_mult)

lemma rt_bit_shift: "n < 32 \<Longrightarrow> drop_bit (Suc 0) (rt_bit (Suc n)) = rt_bit n"
  by (rule bit_word_eqI) (auto simp: rt_bit_def bit_simps)

lemma rt_bit_test: "n < 32 \<Longrightarrow> (w AND rt_bit (Suc n) = 0) = (\<not> bit w n)" "n < 32 \<Longrightarrow> (rt_bit (Suc n) AND w = 0) = (\<not> bit w n)"
proof -
  assume "n < 32"
  then have "w AND rt_bit (Suc n) = (if bit w n then push_bit n 1 else 0)" by (intro bit_word_eqI) (auto simp: rt_bit_def bit_simps)
  moreover have "push_bit n (1 :: u32) \<noteq> 0" using \<open>n < 32\<close> by (simp add: push_bit_eq_mult)
  ultimately show "(w AND rt_bit (Suc n) = 0) = (\<not> bit w n)" by auto
  then show "(rt_bit (Suc n) AND w = 0) = (\<not> bit w n)" by (simp add: and.commute)
qed

lemma radix_path_Nil: "n \<le> 32 \<Longrightarrow> radix_path key msk n = [] \<longleftrightarrow> rt_bit n AND msk = 0"
  by (cases n) (auto simp: rt_bit_test)

lemma radix_path_step:
  "n \<le> 32 \<Longrightarrow> radix_path key msk n = k # ks \<Longrightarrow>
    \<exists>m. n = Suc m \<and> rt_bit n AND msk \<noteq> 0 \<and> k = (key AND rt_bit n \<noteq> 0) \<and> ks = radix_path key msk m \<and> drop_bit (Suc 0) (rt_bit n) = rt_bit m"
  by (cases n) (auto simp: rt_bit_test rt_bit_shift split: if_splits)

lemma length_radix_path: "length (radix_path key msk n) \<le> n"
  by (induction n) auto

subsection \<open>The values of a trie\<close>

fun tget :: "rtrie \<Rightarrow> bool list \<Rightarrow> u64 option" where
  "tget Lf ks = None"
| "tget (Nd a l v r) [] = (if v = NGX_RADIX_NO_VALUE then None else Some v)"
| "tget (Nd a l v r) (k # ks) = tget (if k then r else l) ks"

lemma tget_rnode: "tget (rnode d a t s v) ks =
  (case ks of [] \<Rightarrow> (if v = NGX_RADIX_NO_VALUE then None else Some v) | k # ks \<Rightarrow> if k = d then tget t ks else tget s ks)"
  by (cases ks) (auto simp: rnode_def)

lemma tget_plug: "tget (plug c t) (cpath c @ ks) = tget t ks"
  by (induction c t arbitrary: ks rule: plug.induct) (simp_all add: tget_rnode)

lemmas tget_plug_self = tget_plug [of _ _ "[]", simplified]

lemma tget_plug_other: "\<not> prefix (cpath c) ks \<Longrightarrow> tget (plug c t) ks = tget (plug c t') ks"
proof (induction c arbitrary: t t' ks)
  case (Cons f c)
  obtain d a s v where f: "f = (d, a, s, v)" by (cases f)
  show ?case
  proof (cases "prefix (cpath c) ks")
    case True
    then obtain rs where rs: "ks = cpath c @ rs" by (auto simp: prefix_def)
    then show ?thesis using Cons.prems f by (cases rs) (auto simp: tget_plug tget_plug_self tget_rnode)
  qed (use Cons.IH f in simp)
qed simp

lemma tget_plug_cong: "(\<And>ks. tget t ks = tget t' ks) \<Longrightarrow> tget (plug c t) = tget (plug c t')"
proof
  fix ks
  assume eq: "\<And>ks. tget t ks = tget t' ks"
  show "tget (plug c t) ks = tget (plug c t') ks"
  proof (cases "prefix (cpath c) ks")
    case True
    then show ?thesis using eq by (auto simp: prefix_def tget_plug)
  qed (rule tget_plug_other)
qed

lemma tget_plug_upd:
  "(\<And>ks. ks \<noteq> [] \<Longrightarrow> tget t' ks = tget t ks) \<Longrightarrow> tget (plug c t') = (tget (plug c t))(cpath c := tget t' [])"
proof
  fix ks
  assume eq: "\<And>ks. ks \<noteq> [] \<Longrightarrow> tget t' ks = tget t ks"
  show "tget (plug c t') ks = ((tget (plug c t))(cpath c := tget t' [])) ks"
  proof (cases "prefix (cpath c) ks")
    case True
    then obtain rs where "ks = cpath c @ rs" by (auto simp: prefix_def)
    then show ?thesis using eq [of rs] tget_plug [of c t' "[]"] by (cases rs) (auto simp: tget_plug)
  next
    case False
    then show ?thesis using tget_plug_other by auto
  qed
qed

subsection \<open>Changing a node\<close>

lemma rt_inv_plug:
  "rt_inv t (plug c s) fl \<longleftrightarrow>
    plug c s \<noteq> Lf \<and> tptr (plug c s) = Some (rt_root t) \<and> rt_ctx (rt_heap t) c (tptr s) \<and> rt_tree (rt_heap t) (cpar c) s \<and>
    free_list (rt_heap t) (rt_free t) fl \<and> distinct (caddrs c @ taddrs s @ fl) \<and>
    (\<forall>a \<in> set (caddrs c @ taddrs s @ fl). a < rt_brk t) \<and>
    (RADIX_NODE_SIZE \<le> rt_size t \<longrightarrow> rt_start t + rt_size t \<le> rt_brk t \<and> (\<forall>a \<in> set (caddrs c @ taddrs s @ fl). a < rt_start t)) \<and>
    RADIX_NODE_SIZE \<le> rt_pagesize t \<and> cheight c \<le> 33 \<and> length c + theight s \<le> 33"
proof -
  have eq: "mset (taddrs (plug c s) @ fl) = mset (caddrs c @ taddrs s @ fl)" by (simp add: taddrs_plug)
  have "set (taddrs (plug c s) @ fl) = set (caddrs c @ taddrs s @ fl)" using eq by (metis set_mset_mset)
  moreover have "distinct (taddrs (plug c s) @ fl) = distinct (caddrs c @ taddrs s @ fl)" using eq by (metis mset_eq_imp_distinct_iff)
  ultimately show ?thesis unfolding rt_inv_def by (simp only: rt_plug theight_plug) blast
qed

lemma radix_set_simps [simp]:
  "rt_heap (radix_set p nd t) = (rt_heap t)(p \<mapsto> nd)" "rt_root (radix_set p nd t) = rt_root t" "rt_free (radix_set p nd t) = rt_free t"
  "rt_start (radix_set p nd t) = rt_start t" "rt_size (radix_set p nd t) = rt_size t" "rt_brk (radix_set p nd t) = rt_brk t"
  "rt_pagesize (radix_set p nd t) = rt_pagesize t"
  by (simp_all add: radix_set_def)

lemma rt_heap_focus:
  "rt_inv t (plug c (Nd a l v r)) fl \<Longrightarrow>
    rt_heap t a = Some \<lparr>rn_right = tptr r, rn_left = tptr l, rn_parent = cpar c, rn_value = v\<rparr>"
  by (simp add: rt_inv_plug)

lemma rt_set_value:
  assumes "rt_inv t (plug c (Nd a l v r)) fl"
  shows "rt_inv (radix_set a \<lparr>rn_right = tptr r, rn_left = tptr l, rn_parent = cpar c, rn_value = w\<rparr> t) (plug c (Nd a l w r)) fl"
    "tget (plug c (Nd a l w r)) = (tget (plug c (Nd a l v r)))(cpath c := if w = NGX_RADIX_NO_VALUE then None else Some w)"
proof -
  let ?t = "radix_set a \<lparr>rn_right = tptr r, rn_left = tptr l, rn_parent = cpar c, rn_value = w\<rparr> t"
  have "rt_ctx (rt_heap ?t) c p = rt_ctx (rt_heap t) c p" for p
    using assms by (intro rt_ctx_frame) (auto simp: rt_inv_plug)
  moreover have "rt_tree (rt_heap ?t) p l = rt_tree (rt_heap t) p l" "rt_tree (rt_heap ?t) p r = rt_tree (rt_heap t) p r" for p
    using assms by (auto simp: rt_inv_plug intro!: rt_tree_frame)
  moreover have "free_list (rt_heap ?t) p fl = free_list (rt_heap t) p fl" for p
    using assms by (intro free_list_frame) (auto simp: rt_inv_plug)
  moreover have "tptr (plug c (Nd a l w r)) = tptr (plug c (Nd a l v r))" by (rule tptr_plug) simp
  ultimately show "rt_inv ?t (plug c (Nd a l w r)) fl" using assms by (simp add: rt_inv_plug)
  show "tget (plug c (Nd a l w r)) = (tget (plug c (Nd a l v r)))(cpath c := if w = NGX_RADIX_NO_VALUE then None else Some w)"
  proof -
    have "tget (Nd a l w r) ks = tget (Nd a l v r) ks" if "ks \<noteq> []" for ks using that by (cases ks) simp_all
    from tget_plug_upd [OF this] show ?thesis by simp
  qed
qed

text \<open>The insertion hangs a new, empty node under a node that has no child on that side.\<close>

lemma rt_link:
  assumes "rt_inv t (plug c (rnode d a Lf s v)) fl" "n \<notin> set (taddrs (plug c (rnode d a Lf s v)) @ fl)" "n < rt_brk t"
    "RADIX_NODE_SIZE \<le> rt_size t \<longrightarrow> n < rt_start t" "length c \<le> 31"
  defines "t' \<equiv> radix_set a \<lparr>rn_right = (if d then Some n else tptr s), rn_left = (if d then tptr s else Some n), rn_parent = cpar c, rn_value = v\<rparr>
    (radix_set n \<lparr>rn_right = None, rn_left = None, rn_parent = Some a, rn_value = NGX_RADIX_NO_VALUE\<rparr> t)"
  shows "rt_inv t' (plug ((d, a, s, v) # c) (Nd n Lf NGX_RADIX_NO_VALUE Lf)) fl"
    "tget (plug ((d, a, s, v) # c) (Nd n Lf NGX_RADIX_NO_VALUE Lf)) = tget (plug c (rnode d a Lf s v))"
proof -
  have T: "plug c (rnode d a Lf s v) = plug ((d, a, s, v) # c) Lf" by simp
  have set: "set (taddrs (plug c (rnode d a Lf s v))) = set (caddrs c) \<union> {a} \<union> set (taddrs s)"
    unfolding set_mset_mset [symmetric] taddrs_plug by auto
  then have n: "n \<noteq> a" "n \<notin> set (caddrs c)" "n \<notin> set (taddrs s)" "n \<notin> set fl" using assms(2) by auto
  note inv = assms(1) [unfolded T rt_inv_plug]
  have "rt_ctx (rt_heap t') c p = rt_ctx (rt_heap t) c p" for p
    using inv n by (intro rt_ctx_frame) (auto simp: t'_def)
  moreover have "rt_tree (rt_heap t') p s = rt_tree (rt_heap t) p s" for p
    using inv n by (intro rt_tree_frame) (auto simp: t'_def)
  moreover have "free_list (rt_heap t') p fl = free_list (rt_heap t) p fl" for p
    using inv n by (intro free_list_frame) (auto simp: t'_def)
  moreover have "tptr (plug c (rnode d a (Nd n Lf NGX_RADIX_NO_VALUE Lf) s v)) = tptr (plug c (rnode d a Lf s v))"
    by (rule tptr_plug) simp
  ultimately show "rt_inv t' (plug ((d, a, s, v) # c) (Nd n Lf NGX_RADIX_NO_VALUE Lf)) fl"
    using inv n assms(3-5) unfolding rt_inv_plug by (auto simp: t'_def)
  have "tget (Nd n Lf NGX_RADIX_NO_VALUE Lf) ks = tget Lf ks" for ks by (cases ks) simp_all
  then show "tget (plug ((d, a, s, v) # c) (Nd n Lf NGX_RADIX_NO_VALUE Lf)) = tget (plug c (rnode d a Lf s v))"
    unfolding T by (rule tget_plug_cong)
qed

text \<open>The deletion takes a leaf from under its parent and puts it in front of the free list.\<close>

lemma rt_unlink:
  assumes "rt_inv t (plug ((d, a, s, v) # c) (Nd n Lf w Lf)) fl"
  defines "t' \<equiv> (radix_set n \<lparr>rn_right = rt_free t, rn_left = None, rn_parent = Some a, rn_value = w\<rparr>
    (radix_set a \<lparr>rn_right = (if d then None else tptr s), rn_left = (if d then tptr s else None), rn_parent = cpar c, rn_value = v\<rparr> t))
    \<lparr>rt_free := Some n\<rparr>"
  shows "rt_inv t' (plug c (rnode d a Lf s v)) (n # fl)"
    "tget (plug c (rnode d a Lf s v)) = (tget (plug ((d, a, s, v) # c) (Nd n Lf w Lf)))(cpath ((d, a, s, v) # c) := None)"
proof -
  have T: "plug c (rnode d a Lf s v) = plug ((d, a, s, v) # c) Lf" by simp
  note inv = assms(1) [unfolded rt_inv_plug]
  have "rt_ctx (rt_heap t') c p = rt_ctx (rt_heap t) c p" for p
    using inv by (intro rt_ctx_frame) (auto simp: t'_def)
  moreover have "rt_tree (rt_heap t') p s = rt_tree (rt_heap t) p s" for p
    using inv by (intro rt_tree_frame) (auto simp: t'_def)
  moreover have "free_list (rt_heap t') p fl = free_list (rt_heap t) p fl" for p
    using inv by (intro free_list_frame) (auto simp: t'_def)
  moreover have "tptr (plug c (rnode d a Lf s v)) = tptr (plug c (rnode d a (Nd n Lf w Lf) s v))" by (rule tptr_plug) simp
  ultimately show "rt_inv t' (plug c (rnode d a Lf s v)) (n # fl)"
    using inv unfolding T rt_inv_plug by (auto simp: t'_def)
  have "tget Lf ks = tget (Nd n Lf w Lf) ks" if "ks \<noteq> []" for ks using that by (cases ks) simp_all
  from tget_plug_upd [OF this, of "(d, a, s, v) # c"]
  show "tget (plug c (rnode d a Lf s v)) = (tget (plug ((d, a, s, v) # c) (Nd n Lf w Lf)))(cpath ((d, a, s, v) # c) := None)"
    unfolding T by simp
qed

subsection \<open>The operations on the trie\<close>

definition unlinked :: "radix_tree \<Rightarrow> nat \<Rightarrow> u64 \<Rightarrow> bool \<Rightarrow> nat \<Rightarrow> rtrie \<Rightarrow> u64 \<Rightarrow> ptr \<Rightarrow> radix_tree" where
  "unlinked t n w d a s v par = (radix_set n \<lparr>rn_right = rt_free t, rn_left = None, rn_parent = Some a, rn_value = w\<rparr>
    (radix_set a \<lparr>rn_right = (if d then None else tptr s), rn_left = (if d then tptr s else None), rn_parent = par, rn_value = v\<rparr> t))
    \<lparr>rt_free := Some n\<rparr>"

lemma radix_unlink_step:
  assumes "rt_inv t (plug ((d, a, s, v) # c) (Nd n Lf w Lf)) fl"
  shows "radix_unlink t n =
    (if s \<noteq> Lf \<or> v \<noteq> NGX_RADIX_NO_VALUE \<or> c = [] then Some (unlinked t n w d a s v (cpar c)) else radix_unlink (unlinked t n w d a s v (cpar c)) a)"
proof -
  have nd: "rt_heap t n = Some \<lparr>rn_right = None, rn_left = None, rn_parent = Some a, rn_value = w\<rparr>"
    "rt_heap t a = Some \<lparr>rn_right = (if d then Some n else tptr s), rn_left = (if d then tptr s else Some n), rn_parent = cpar c, rn_value = v\<rparr>"
    "tptr s \<noteq> Some n"
    using assms unfolding rt_inv_plug by (cases s, auto)+
  have "cpar c = None \<longleftrightarrow> c = []" "tptr s = None \<longleftrightarrow> s = Lf" by (cases c; auto) (cases s; auto)
  then show ?thesis using nd by (subst radix_unlink.simps) (auto simp: Let_def unlinked_def)
qed

lemma radix_unlink_ok:
  assumes "rt_inv t (plug ((d, a, s, v) # c) (Nd n Lf w Lf)) fl"
  shows "\<exists>t' T fl'. radix_unlink t n = Some t' \<and> rt_inv t' T fl' \<and>
    tget T = (tget (plug ((d, a, s, v) # c) (Nd n Lf w Lf)))(cpath ((d, a, s, v) # c) := None)"
  using assms
proof (induction c arbitrary: t d a s v n w fl)
  case (Nil t d a s v n w fl)
  have "radix_unlink t n = Some (unlinked t n w d a s v (cpar []))" using radix_unlink_step [OF Nil] by simp
  then show ?case using rt_unlink [OF Nil, folded unlinked_def] by blast
next
  case (Cons g c t d a s v n w fl)
  note step = rt_unlink [OF Cons.prems, folded unlinked_def] and run = radix_unlink_step [OF Cons.prems]
  show ?case
  proof (cases "s = Lf \<and> v = NGX_RADIX_NO_VALUE")
    case True
    obtain e b u x where g: "g = (e, b, u, x)" by (cases g)
    have leaf: "rnode d a Lf s v = Nd a Lf NGX_RADIX_NO_VALUE Lf" using True by (simp add: rnode_def)
    note step = step [unfolded leaf g]
    from Cons.IH [OF step(1)] obtain t' T fl' where rec: "radix_unlink (unlinked t n w d a s v (cpar (g # c))) a = Some t'" "rt_inv t' T fl'"
      "tget T = (tget (plug ((e, b, u, x) # c) (Nd a Lf NGX_RADIX_NO_VALUE Lf)))(cpath ((e, b, u, x) # c) := None)"
      unfolding g by blast
    have "tget (plug ((e, b, u, x) # c) (Nd a Lf NGX_RADIX_NO_VALUE Lf)) (cpath ((e, b, u, x) # c)) = None"
      unfolding tget_plug_self by simp
    then have "tget T = (tget (plug ((d, a, s, v) # (e, b, u, x) # c) (Nd n Lf w Lf)))(cpath ((d, a, s, v) # (e, b, u, x) # c) := None)"
      unfolding step(2) [symmetric] rec(3) by (rule fun_upd_idem)
    moreover have "radix_unlink t n = Some t'" using run rec(1) True by simp
    ultimately show ?thesis using rec(2) unfolding g by blast
  next
    case False
    then have "radix_unlink t n = Some (unlinked t n w d a s v (cpar (g # c)))" using run by auto
    then show ?thesis using step by blast
  qed
qed

text \<open>A path that leads to a node, or ends above it, splits the trie.\<close>

lemma radix_descend_ok:
  assumes "rt_inv t (plug c (Nd a l v r)) fl" "n \<le> 32" "length c + n = 32" "nxt \<noteq> None"
  shows "\<exists>c' a' l' v' r' p m. radix_descend (rt_heap t) a nxt (rt_bit n) key msk = Some (a', p, rt_bit m) \<and>
    plug c' (Nd a' l' v' r') = plug c (Nd a l v r) \<and> m \<le> 32 \<and> length c' + m = 32 \<and>
    cpath c' @ radix_path key msk m = cpath c @ radix_path key msk n \<and>
    (p \<noteq> None \<longrightarrow> radix_path key msk m = []) \<and>
    (p = None \<longrightarrow> radix_path key msk m \<noteq> [] \<and> (if hd (radix_path key msk m) then r' else l') = Lf)"
  using assms
proof (induction n arbitrary: c a l v r nxt)
  case 0
  then show ?case
    by (subst radix_descend.simps)
      (intro exI [of _ c] exI [of _ a] exI [of _ l] exI [of _ v] exI [of _ r] exI [of _ nxt] exI [of _ 0]; simp)
next
  case (Suc n)
  note nd = rt_heap_focus [OF Suc.prems(1)]
  show ?case
  proof (cases "bit msk n")
    case False
    then show ?thesis using Suc.prems 
      by (subst radix_descend.simps)
        (intro exI [of _ c] exI [of _ a] exI [of _ l] exI [of _ v] exI [of _ r] exI [of _ nxt] exI [of _ "Suc n"]; simp add: rt_bit_test)
  next
    case True
    let ?k = "bit key n"
    show ?thesis
    proof (cases "if ?k then r else l")
      case Lf
      then show ?thesis using Suc.prems True nd
        by (subst radix_descend.simps)
          (intro exI [of _ c] exI [of _ a] exI [of _ l] exI [of _ v] exI [of _ r] exI [of _ None] exI [of _ "Suc n"];
           auto simp: rt_bit_test radix_child_def split: if_splits)
    next
      case (Nd b l2 v2 r2)
      let ?c = "(?k, a, if ?k then l else r, v) # c"
      have pl: "plug ?c (Nd b l2 v2 r2) = plug c (Nd a l v r)" using Nd by (auto simp: rnode_def split: if_splits)
      have "radix_descend (rt_heap t) a nxt (rt_bit (Suc n)) key msk = radix_descend (rt_heap t) b (Some b) (rt_bit n) key msk"
        using Suc.prems True nd Nd by (subst radix_descend.simps) (auto simp: rt_bit_test radix_child_def rt_bit_shift split: if_splits)
      then show ?thesis using Suc.IH [of ?c b l2 v2 r2 "Some b"] Suc.prems True unfolding pl by (simp add: append_assoc)
    qed
  qed
qed

lemma radix_grow_ok:
  assumes "rt_inv t (plug c (Nd a l v r)) fl" "length c + n = 32"
    "radix_path key msk n \<noteq> [] \<longrightarrow> (if hd (radix_path key msk n) then r else l) = Lf"
  shows "(\<exists>t' T fl'. radix_grow t a (rt_bit n) key msk = Some (None, t') \<and> rt_inv t' T fl' \<and> tget T = tget (plug c (Nd a l v r))) \<or>
    (\<exists>t' c' a' l' v' r' fl'. radix_grow t a (rt_bit n) key msk = Some (Some a', t') \<and> rt_inv t' (plug c' (Nd a' l' v' r')) fl' \<and>
      cpath c' = cpath c @ radix_path key msk n \<and> tget (plug c' (Nd a' l' v' r')) = tget (plug c (Nd a l v r)))"
  using assms
proof (induction n arbitrary: t c a l v r fl)
  case 0
  have "radix_grow t a (rt_bit 0) key msk = Some (Some a, t)" by (subst radix_grow.simps) simp
  then show ?case using 0 by fastforce
next
  case (Suc n)
  show ?case
  proof (cases "bit msk n")
    case False
    then have "radix_grow t a (rt_bit (Suc n)) key msk = Some (Some a, t)" "radix_path key msk (Suc n) = []"
      using Suc.prems(2) by (simp_all add: radix_grow.simps [of t a "rt_bit (Suc n)"] rt_bit_test)
    then show ?thesis using Suc.prems(1) by fastforce
  next
    case True
    then have b: "rt_bit (Suc n) AND msk \<noteq> 0" "drop_bit 1 (rt_bit (Suc n)) = rt_bit n" "(key AND rt_bit (Suc n) \<noteq> 0) = bit key n"
      using Suc.prems(2) by (simp_all add: rt_bit_test rt_bit_shift)
    define d where "d = bit key n"
    define s where "s = (if d then l else r)"
    have N: "Nd a l v r = rnode d a Lf s v" using Suc.prems(3) True by (auto simp: d_def s_def rnode_def)
    note nd = rt_heap_focus [OF Suc.prems(1)] and inv = Suc.prems(1) [unfolded N]
    consider (fail) t1 where "ngx_radix_alloc t = Some (None, t1)" "rt_inv t1 (plug c (rnode d a Lf s v)) fl"
      | (node) m t1 fl1 where "ngx_radix_alloc t = Some (Some m, t1)" "rt_inv t1 (plug c (rnode d a Lf s v)) fl1" "rt_heap t1 = rt_heap t"
        "m \<notin> set (taddrs (plug c (rnode d a Lf s v)) @ fl1)" "m < rt_brk t1" "RADIX_NODE_SIZE \<le> rt_size t1 \<longrightarrow> m < rt_start t1"
      using radix_alloc_ok [OF inv] by blast
    then show ?thesis
    proof cases
      case fail
      then have "radix_grow t a (rt_bit (Suc n)) key msk = Some (None, t1)" using b by (subst radix_grow.simps) simp
      then show ?thesis using fail(2) unfolding N by blast
    next
      case node
      define t2 where "t2 = radix_set a \<lparr>rn_right = (if d then Some m else tptr s), rn_left = (if d then tptr s else Some m),
        rn_parent = cpar c, rn_value = v\<rparr> (radix_set m \<lparr>rn_right = None, rn_left = None, rn_parent = Some a, rn_value = NGX_RADIX_NO_VALUE\<rparr> t1)"
      have len: "length c \<le> 31" using Suc.prems(2) by simp
      note link = rt_link [OF node(2,4,5,6) len, folded t2_def]
      have "m \<noteq> a" using node(4) unfolding N [symmetric] by (auto simp: set_taddrs_plug)
      then have run: "radix_grow t a (rt_bit (Suc n)) key msk = radix_grow t2 m (rt_bit n) key msk"
        using b nd node(1,3) Suc.prems(3) True
        by (subst radix_grow.simps) (auto simp: Let_def radix_link_def t2_def d_def s_def)
      have "length ((d, a, s, v) # c) + n = 32" using Suc.prems(2) by simp
      from Suc.IH [OF link(1) this] show ?thesis unfolding run N link(2) using True by (simp add: d_def)
    qed
  qed
qed

lemma radix_lookup_ok:
  assumes "rt_inv t (plug c s) fl" "n \<le> 32" "length c + n = 32"
  shows "(radix_lookup (rt_heap t) (tptr s) (rt_bit n) key msk = Some None \<and> tget (plug c s) (cpath c @ radix_path key msk n) = None) \<or>
    (\<exists>c' a l v r. radix_lookup (rt_heap t) (tptr s) (rt_bit n) key msk = Some (Some a) \<and> plug c' (Nd a l v r) = plug c s \<and>
      cpath c' = cpath c @ radix_path key msk n)"
  using assms
proof (induction n arbitrary: c s)
  case 0
  then show ?case by (cases s) (auto simp: radix_lookup.simps tget_plug_self)
next
  case (Suc n)
  show ?case
  proof (cases s)
    case Lf
    then show ?thesis by (simp add: radix_lookup.simps tget_plug)
  next
    case (Nd a l v r)
    note nd = rt_heap_focus [OF Suc.prems(1) [unfolded Nd]]
    show ?thesis
    proof (cases "bit msk n")
      case False
      then have "radix_lookup (rt_heap t) (tptr s) (rt_bit (Suc n)) key msk = Some (Some a)"
        using Suc.prems Nd by (subst radix_lookup.simps) (simp add: rt_bit_test)
      then show ?thesis using False Nd by auto
    next
      case True
      let ?k = "bit key n"
      let ?s = "if ?k then r else l"
      have pl: "plug ((?k, a, if ?k then l else r, v) # c) ?s = plug c s" using Nd by (auto simp: rnode_def)
      have run: "radix_lookup (rt_heap t) (tptr s) (rt_bit (Suc n)) key msk = radix_lookup (rt_heap t) (tptr ?s) (rt_bit n) key msk"
        using Suc.prems True nd Nd by (subst radix_lookup.simps) (auto simp: rt_bit_test radix_child_def rt_bit_shift)
      show ?thesis using Suc.IH [of "(?k, a, if ?k then l else r, v) # c" ?s] Suc.prems True unfolding pl run by simp
    qed
  qed
qed

lemma rt_root_cases:
  assumes "rt_inv t T fl"
  obtains l v r where "T = Nd (rt_root t) l v r"
  using assms by (cases T) (auto simp: rt_inv_def)

lemma radix_insert_ok:
  assumes "rt_inv t T fl"
  shows "\<exists>rc t' T' fl'. ngx_radix32tree_insert t key msk val = Some (rc, t') \<and> rt_inv t' T' fl' \<and>
    (case rc of
       Radix_ok \<Rightarrow> tget T (radix_prefix key msk) = None \<and>
         tget T' = (tget T)(radix_prefix key msk := if val = NGX_RADIX_NO_VALUE then None else Some val)
     | Radix_busy \<Rightarrow> tget T (radix_prefix key msk) \<noteq> None \<and> t' = t \<and> T' = T
     | Radix_error \<Rightarrow> tget T (radix_prefix key msk) = None \<and> tget T' = tget T)"
proof -
  let ?p = "radix_prefix key msk"
  obtain l v r where T: "T = Nd (rt_root t) l v r" using assms by (rule rt_root_cases)
  obtain c a l1 v1 r1 p m where
    run: "radix_descend (rt_heap t) (rt_root t) (Some (rt_root t)) 0x80000000 key msk = Some (a, p, rt_bit m)" and
    pl: "plug c (Nd a l1 v1 r1) = T" and m: "m \<le> 32" "length c + m = 32" and path: "cpath c @ radix_path key msk m = ?p" and
    hit: "p \<noteq> None \<longrightarrow> radix_path key msk m = []" and
    miss: "p = None \<longrightarrow> radix_path key msk m \<noteq> [] \<and> (if hd (radix_path key msk m) then r1 else l1) = Lf"
    using radix_descend_ok [of t "[]" "rt_root t" l v r fl 32 "Some (rt_root t)" key msk] assms T by (auto simp: rt_bit_32)
  have inv: "rt_inv t (plug c (Nd a l1 v1 r1)) fl" using assms pl by simp
  show ?thesis
  proof (cases p)
    case (Some q)
    then have p: "?p = cpath c" using hit path by simp
    then have "tget T ?p = (if v1 = NGX_RADIX_NO_VALUE then None else Some v1)" using pl tget_plug_self [of c "Nd a l1 v1 r1"] by simp
    then show ?thesis using run Some rt_heap_focus [OF inv] rt_set_value [OF inv, of val] assms pl p
      by (cases "v1 = NGX_RADIX_NO_VALUE") (auto simp: ngx_radix32tree_insert_def)
  next
    case None
    then obtain k ks where ks: "radix_path key msk m = k # ks" "(if k then r1 else l1) = Lf" using miss by (cases "radix_path key msk m") auto
    then have free: "tget T ?p = None" using pl path tget_plug [of c "Nd a l1 v1 r1" "k # ks"] by simp
    consider (fail) t' T' fl' where "radix_grow t a (rt_bit m) key msk = Some (None, t')" "rt_inv t' T' fl'" "tget T' = tget T"
      | (node) t' c' a' l' v' r' fl' where "radix_grow t a (rt_bit m) key msk = Some (Some a', t')"
        "rt_inv t' (plug c' (Nd a' l' v' r')) fl'" "cpath c' = ?p" "tget (plug c' (Nd a' l' v' r')) = tget T"
      using radix_grow_ok [OF inv m(2), of key msk] ks pl path by auto
    then show ?thesis
    proof cases
      case fail
      then show ?thesis using run None free by (auto simp: ngx_radix32tree_insert_def)
    next
      case node
      then show ?thesis using run None free rt_heap_focus [OF node(2)] rt_set_value [OF node(2), of val]
        by (auto simp: ngx_radix32tree_insert_def)
    qed
  qed
qed

text \<open>The tree that has only its root, with or without a value.\<close>

definition radix_bare :: "radix_tree \<Rightarrow> bool" where
  "radix_bare t = (case rt_heap t (rt_root t) of None \<Rightarrow> True | Some nd \<Rightarrow> rn_right nd = None \<and> rn_left nd = None)"

lemma radix_bare_iff: "rt_inv t T fl \<Longrightarrow> radix_bare t \<longleftrightarrow> (\<exists>v. T = Nd (rt_root t) Lf v Lf)"
proof -
  assume inv: "rt_inv t T fl"
  then obtain l v r where T: "T = Nd (rt_root t) l v r" by (rule rt_root_cases)
  have "tptr s = None \<longleftrightarrow> s = Lf" for s by (cases s) simp_all
  then show ?thesis using rt_heap_focus [of t "[]" "rt_root t" l v r fl] inv T by (auto simp: radix_bare_def)
qed

lemma radix_delete_ok:
  assumes "rt_inv t T fl" "radix_prefix key msk \<noteq> [] \<or> \<not> radix_bare t"
  shows "\<exists>rc t' T' fl'. ngx_radix32tree_delete t key msk = Some (rc, t') \<and> rt_inv t' T' fl' \<and>
    tget T' = (tget T)(radix_prefix key msk := None) \<and> (tget T (radix_prefix key msk) \<noteq> None \<longrightarrow> rc = Radix_ok)"
proof -
  let ?p = "radix_prefix key msk"
  have root: "tptr T = Some (rt_root t)" using assms(1) by (simp add: rt_inv_def)
  consider (none) "radix_lookup (rt_heap t) (Some (rt_root t)) 0x80000000 key msk = Some None" "tget T ?p = None"
    | (node) c a l v r where "radix_lookup (rt_heap t) (Some (rt_root t)) 0x80000000 key msk = Some (Some a)" "plug c (Nd a l v r) = T" "cpath c = ?p"
    using radix_lookup_ok [of t "[]" T fl 32 key msk] assms(1) root by (auto simp: rt_bit_32)
  then show ?thesis
  proof cases
    case none
    then have "ngx_radix32tree_delete t key msk = Some (Radix_error, t)" "tget T = (tget T)(?p := None)"
      by (simp_all add: ngx_radix32tree_delete_def fun_upd_idem)
    then show ?thesis using assms(1) none(2) by blast
  next
    case node
    have inv: "rt_inv t (plug c (Nd a l v r)) fl" using assms(1) node(2) by simp
    have val: "tget T ?p = (if v = NGX_RADIX_NO_VALUE then None else Some v)" using node(2,3) tget_plug_self [of c "Nd a l v r"] by simp
    have tp: "tptr s = None \<longleftrightarrow> s = Lf" for s by (cases s) simp_all
    show ?thesis
    proof (cases "l = Lf \<and> r = Lf")
      case True
      have "c \<noteq> []" using assms(2) node(2,3) True radix_bare_iff [OF assms(1)] root by auto
      then obtain d b s w c' where c: "c = (d, b, s, w) # c'" by (cases c) auto
      have leaf: "rt_inv t (plug ((d, b, s, w) # c') (Nd a Lf v Lf)) fl" using inv c True by simp
      obtain t' T' fl' where "radix_unlink t a = Some t'" "rt_inv t' T' fl'" "tget T' = (tget T)(?p := None)"
        using radix_unlink_ok [OF leaf] node(2,3) c True by auto
      moreover have "ngx_radix32tree_delete t key msk = map_option (\<lambda>t. (Radix_ok, t)) (radix_unlink t a)"
        using node(1) rt_heap_focus [OF inv] True by (simp add: ngx_radix32tree_delete_def)
      ultimately show ?thesis by auto
    next
      case inner: False
      show ?thesis
      proof (cases "v = NGX_RADIX_NO_VALUE")
        case True
        then have "ngx_radix32tree_delete t key msk = Some (Radix_error, t)" "tget T = (tget T)(?p := None)"
          using node(1) rt_heap_focus [OF inv] inner tp val by (auto simp: ngx_radix32tree_delete_def fun_upd_idem)
        then show ?thesis using assms(1) val True by fastforce
      next
        case False
        let ?t = "radix_set a \<lparr>rn_right = tptr r, rn_left = tptr l, rn_parent = cpar c, rn_value = NGX_RADIX_NO_VALUE\<rparr> t"
        have "ngx_radix32tree_delete t key msk = Some (Radix_ok, ?t)"
          using node(1) rt_heap_focus [OF inv] inner tp False by (auto simp: ngx_radix32tree_delete_def)
        moreover have "tget (plug c (Nd a l NGX_RADIX_NO_VALUE r)) = (tget T)(?p := None)"
          using rt_set_value(2) [OF inv, of NGX_RADIX_NO_VALUE] node(2,3) by simp
        ultimately show ?thesis using rt_set_value(1) [OF inv, of NGX_RADIX_NO_VALUE] by blast
      qed
    qed
  qed
qed

subsection \<open>The longest match\<close>

text \<open>The abstract lookup: the value of the longest prefix of the key that has one.\<close>

fun longest_match :: "(bool list \<Rightarrow> 'v option) \<Rightarrow> bool list \<Rightarrow> 'v option" where
  "longest_match M [] = M []"
| "longest_match M (k # ks) = (case longest_match (\<lambda>p. M (k # p)) ks of None \<Rightarrow> M [] | Some v \<Rightarrow> Some v)"

lemma longest_match_None: "longest_match M ks = None \<Longrightarrow> prefix p ks \<Longrightarrow> M p = None"
proof (induction M ks arbitrary: p rule: longest_match.induct)
  case (2 M k ks)
  then show ?case by (cases p) (auto split: option.splits)
qed simp

lemma longest_match_Some:
  "longest_match M ks = Some v \<Longrightarrow> \<exists>p. prefix p ks \<and> M p = Some v \<and> (\<forall>q. prefix q ks \<and> length p < length q \<longrightarrow> M q = None)"
proof (induction M ks rule: longest_match.induct)
  case (2 M k ks)
  show ?case
  proof (cases "longest_match (\<lambda>p. M (k # p)) ks")
    case None
    then have "M q = None" if "prefix q (k # ks)" "q \<noteq> []" for q using that longest_match_None [OF None] by (cases q) auto
    then show ?thesis using 2 None by (intro exI [of _ "[]"]) auto
  next
    case (Some w)
    then obtain p where p: "prefix p ks" "M (k # p) = Some v" "\<And>q. prefix q ks \<Longrightarrow> length p < length q \<Longrightarrow> M (k # q) = None"
      using 2 by auto
    have "M q = None" if "prefix q (k # ks)" "Suc (length p) < length q" for q using that p(3) by (cases q) auto
    then show ?thesis using p(1,2) by (intro exI [of _ "k # p"]) auto
  qed
qed simp

lemma longest_match_Lf: "longest_match (tget Lf) ks = None"
  by (induction ks) auto

lemma radix_search_ok:
  assumes "rt_tree h par s" "theight s \<le> Suc n" "n \<le> 32"
  shows "radix_search h (tptr s) (rt_bit n) key val =
    Some (case longest_match (tget s) (radix_path key (-1) n) of None \<Rightarrow> val | Some v \<Rightarrow> v)"
  using assms
proof (induction n arbitrary: s par val)
  case 0
  show ?case
  proof (cases s)
    case (Nd a l v r)
    then have "theight l = 0" "theight r = 0" using 0 by simp_all
    moreover have "s = Lf" if "theight s = 0" for s using that by (cases s) simp_all
    ultimately have "l = Lf" "r = Lf" by auto
    then show ?thesis using 0 Nd by (simp add: radix_search.simps radix_child_def)
  qed (simp add: radix_search.simps)
next
  case (Suc n)
  show ?case
  proof (cases s)
    case Lf
    then show ?thesis by (simp only: longest_match_Lf) (simp add: radix_search.simps)
  next
    case (Nd a l v r)
    let ?s = "if bit key n then r else l"
    let ?val = "if v \<noteq> NGX_RADIX_NO_VALUE then v else val"
    have run: "radix_search h (tptr s) (rt_bit (Suc n)) key val = radix_search h (tptr ?s) (rt_bit n) key ?val"
      using Suc.prems Nd by (subst radix_search.simps) (auto simp: radix_child_def rt_bit_test rt_bit_shift)
    have "radix_search h (tptr ?s) (rt_bit n) key ?val =
      Some (case longest_match (tget ?s) (radix_path key (-1) n) of None \<Rightarrow> ?val | Some v \<Rightarrow> v)"
      using Suc.prems Nd by (intro Suc.IH [where par = "Some a"]) (auto simp: max_def split: if_splits)
    then show ?thesis using run Nd Suc.prems(3) by (auto simp: split: option.splits)
  qed
qed

lemma radix_find_ok:
  assumes "rt_inv t T fl"
  shows "ngx_radix32tree_find t key =
    Some (case longest_match (tget T) (radix_prefix key (-1)) of None \<Rightarrow> NGX_RADIX_NO_VALUE | Some v \<Rightarrow> v)"
  using radix_search_ok [of "rt_heap t" None T 32 key NGX_RADIX_NO_VALUE] assms
  by (simp add: ngx_radix32tree_find_def rt_inv_def rt_bit_32)

subsection \<open>The creation\<close>

text \<open>A tree holds a map of prefixes to values.\<close>

definition rt_abs :: "radix_tree \<Rightarrow> (bool list \<Rightarrow> u64 option) \<Rightarrow> bool" where
  "rt_abs t M \<longleftrightarrow> (\<exists>T fl. rt_inv t T fl \<and> tget T = M)"

lemma radix_insert_abs:
  assumes "rt_abs t M"
  shows "\<exists>rc t'. ngx_radix32tree_insert t key msk val = Some (rc, t') \<and>
    (case rc of
       Radix_ok \<Rightarrow> M (radix_prefix key msk) = None \<and>
         rt_abs t' (M(radix_prefix key msk := if val = NGX_RADIX_NO_VALUE then None else Some val))
     | Radix_busy \<Rightarrow> M (radix_prefix key msk) \<noteq> None \<and> t' = t
     | Radix_error \<Rightarrow> M (radix_prefix key msk) = None \<and> rt_abs t' M)"
proof -
  obtain T fl where "rt_inv t T fl" "tget T = M" using assms by (auto simp: rt_abs_def)
  then show ?thesis using radix_insert_ok [of t T fl key msk val] unfolding rt_abs_def
    by (fastforce split: radix_rc.splits)
qed

lemma rt_abs_None: "rt_abs t (M(p := None)) \<Longrightarrow> M p = None \<Longrightarrow> rt_abs t M"
  by (metis fun_upd_triv)

lemma radix_level_ok:
  assumes "rt_abs t Map.empty" "inc \<noteq> 0 \<longrightarrow> unat inc dvd 2 ^ 32" "unat inc dvd unat key" "inc = 0 \<longrightarrow> key = 0"
  shows "\<exists>r. radix_level t key msk inc = Some r \<and> (\<forall>t'. r = Some t' \<longrightarrow> rt_abs t' Map.empty)"
  using assms
proof (induction "2 ^ 32 - unat key" arbitrary: t key rule: less_induct)
  case less
  obtain rc t1 where ins: "ngx_radix32tree_insert t key msk NGX_RADIX_NO_VALUE = Some (rc, t1)" and
    abs: "rc = Radix_ok \<Longrightarrow> rt_abs t1 (Map.empty(radix_prefix key msk := None))"
    using radix_insert_abs [OF less.prems(1), of key msk NGX_RADIX_NO_VALUE] by fastforce
  show ?case
  proof (cases "rc = Radix_ok \<and> key + inc \<noteq> 0")
    case True
    have "inc \<noteq> 0" using True less.prems(4) by auto
    then obtain x where x: "2 ^ 32 = unat inc * x" using less.prems(2) unfolding dvd_def by blast
    obtain y where y: "unat key = unat inc * y" using less.prems(3) by (elim dvdE)
    have lt: "unat key < 2 ^ 32" using unsigned_less [of key, where 'a = nat] by simp
    have "y < x" using lt unfolding x y by simp
    then have "unat inc * Suc y \<le> unat inc * x" by (intro mult_le_mono2) simp
    then have le: "unat key + unat inc \<le> 2 ^ 32" using x y by simp
    have mod: "unat (key + inc) = (unat key + unat inc) mod 2 ^ 32" by (simp add: unat_word_ariths)
    have "unat key + unat inc \<noteq> 2 ^ 32" using True mod by (metis mod_self unsigned_eq_0_iff)
    then have sum: "unat (key + inc) = unat key + unat inc" using le mod by simp
    have "0 < unat inc" using \<open>inc \<noteq> 0\<close> by (simp add: unat_gt_0)
    then have "\<exists>r. radix_level t1 (key + inc) msk inc = Some r \<and> (\<forall>t'. r = Some t' \<longrightarrow> rt_abs t' Map.empty)"
      using less.prems(2,3) lt sum \<open>inc \<noteq> 0\<close> rt_abs_None [OF abs] True by (intro less.hyps) auto
    then show ?thesis using ins True by (subst radix_level.simps) simp
  next
    case False
    then show ?thesis using ins rt_abs_None [OF abs] by (subst radix_level.simps) auto
  qed
qed

lemma radix_preallocate_ok:
  assumes "rt_abs t Map.empty" "n \<le> 32"
  shows "\<exists>r. radix_preallocate k t msk (rt_bit n) = Some r \<and> (\<forall>t'. r = Some t' \<longrightarrow> rt_abs t' Map.empty)"
  using assms
proof (induction k arbitrary: t msk n)
  case (Suc k)
  have inc: "rt_bit n \<noteq> 0 \<longrightarrow> unat (rt_bit n) dvd 2 ^ 32"
  proof (cases n)
    case (Suc m)
    then have "m < 32" using Suc.prems(2) by simp
    then have "(2 :: nat) ^ m < 2 ^ 32" by (intro power_strict_increasing) simp_all
    then have "unat (word_of_nat (2 ^ m) :: u32) = 2 ^ m" using \<open>m < 32\<close> by (simp only: unsigned_of_nat) (simp add: take_bit_nat_eq_self)
    then have "unat (rt_bit n) = 2 ^ m" using Suc by (simp add: rt_bit_def push_bit_eq_mult)
    then show ?thesis using le_imp_power_dvd [of m 32 "2 :: nat"] \<open>m < 32\<close> by simp
  qed simp
  let ?m = "drop_bit 1 msk OR 0x80000000"
  obtain r where r: "radix_level t 0 ?m (rt_bit n) = Some r" "\<forall>t'. r = Some t' \<longrightarrow> rt_abs t' Map.empty"
    using radix_level_ok [OF Suc.prems(1) inc, of 0 ?m] by auto
  have "drop_bit 1 (rt_bit n) = rt_bit (n - 1)" using Suc.prems(2) by (cases n) (simp_all add: rt_bit_shift)
  then show ?case using r Suc.IH [of _ "n - 1" ?m] Suc.prems(2) by (cases r) (simp_all add: Let_def)
qed simp

text \<open>A new tree holds nothing, however many levels of nodes it has.\<close>

lemma radix_create_abs:
  assumes "RADIX_NODE_SIZE \<le> pagesize" "-1 \<le> pre"
  shows "\<exists>r. ngx_radix_tree_create alloc pagesize pages brk pre = Some r \<and> (\<forall>t. r = Some t \<longrightarrow> rt_abs t Map.empty) \<and>
    (pre = 0 \<and> alloc \<and> 0 < pages \<longrightarrow> r \<noteq> None)"
proof -
  define t where "t = \<lparr>rt_heap = [brk \<mapsto> \<lparr>rn_right = None, rn_left = None, rn_parent = None, rn_value = NGX_RADIX_NO_VALUE\<rparr>],
    rt_root = brk, rt_free = None, rt_start = brk + RADIX_NODE_SIZE, rt_size = pagesize - RADIX_NODE_SIZE,
    rt_brk = brk + pagesize, rt_pages = pages - 1, rt_pagesize = pagesize\<rparr>"
  have "tget (Nd brk Lf NGX_RADIX_NO_VALUE Lf) = Map.empty"
  proof
    fix ks
    show "tget (Nd brk Lf NGX_RADIX_NO_VALUE Lf) ks = None" by (cases ks) simp_all
  qed
  moreover have "rt_inv t (Nd brk Lf NGX_RADIX_NO_VALUE Lf) []"
    using assms(1) by (simp add: rt_inv_def t_def RADIX_NODE_SIZE_def)
  ultimately have abs: "rt_abs t Map.empty" unfolding rt_abs_def by blast
  have run: "ngx_radix_tree_create alloc pagesize pages brk pre =
    (if \<not> alloc \<or> pages = 0 then Some None
     else if pre = 0 then Some (Some t)
     else if pre = -1 then radix_preallocate (radix_bits pagesize) t 0 0x80000000
     else radix_preallocate (nat pre) t 0 0x80000000)"
    using assms(2) by (simp add: ngx_radix_tree_create_def ngx_radix_alloc_def Let_def radix_set_def t_def RADIX_NODE_SIZE_def)
  show ?thesis using abs radix_preallocate_ok [OF abs, of 32, unfolded rt_bit_32] unfolding run by auto
qed

lemma radix_delete_abs:
  assumes "rt_abs t M" "radix_prefix key msk \<noteq> [] \<or> \<not> radix_bare t"
  shows "\<exists>rc t'. ngx_radix32tree_delete t key msk = Some (rc, t') \<and> rt_abs t' (M(radix_prefix key msk := None)) \<and>
    (M (radix_prefix key msk) \<noteq> None \<longrightarrow> rc = Radix_ok)"
  using assms radix_delete_ok unfolding rt_abs_def by metis

lemma radix_find_abs:
  assumes "rt_abs t M"
  shows "(\<exists>q v. prefix q (radix_prefix key (-1)) \<and> M q = Some v \<and>
      (\<forall>q'. prefix q' (radix_prefix key (-1)) \<and> length q < length q' \<longrightarrow> M q' = None) \<and> ngx_radix32tree_find t key = Some v) \<or>
    (\<forall>q. prefix q (radix_prefix key (-1)) \<longrightarrow> M q = None) \<and> ngx_radix32tree_find t key = Some NGX_RADIX_NO_VALUE"
proof -
  obtain T fl where T: "rt_inv t T fl" "tget T = M" using assms by (auto simp: rt_abs_def)
  show ?thesis
    using radix_find_ok [OF T(1), of key] longest_match_None [of M "radix_prefix key (-1)"] longest_match_Some [of M "radix_prefix key (-1)"]
    unfolding T(2) by (cases "longest_match M (radix_prefix key (-1))") auto
qed

text \<open>The root has no parent: removing the value of the empty prefix from a tree that has only the root reads through \<open>NULL\<close>.\<close>

lemma radix_delete_root:
  assumes "rt_abs t M" "radix_bare t" "radix_prefix key msk = []"
  shows "ngx_radix32tree_delete t key msk = None"
proof -
  obtain v fl where inv: "rt_inv t (Nd (rt_root t) Lf v Lf) fl" using assms(1,2) radix_bare_iff by (fastforce simp: rt_abs_def)
  then have nd: "rt_heap t (rt_root t) = Some \<lparr>rn_right = None, rn_left = None, rn_parent = None, rn_value = v\<rparr>"
    by (auto simp: rt_inv_def)
  have "\<not> bit msk 31" using assms(3) by (simp add: eval_nat_numeral split: if_splits)
  then have "0x80000000 AND msk = 0" using rt_bit_test(2) [of 31 msk] rt_bit_32 by simp
  then show ?thesis using nd by (simp add: ngx_radix32tree_delete_def radix_lookup.simps radix_unlink.simps)
qed

text \<open>With pages of 4096 bytes, 8 levels are made in advance.\<close>

lemma radix_bits_4096: "radix_bits 4096 = 8"
  by (simp add: radix_bits_def RADIX_TREE_SIZE_def)

subsection \<open>Properties\<close>

text \<open>
  C4. The radix tree implements a map from prefixes to values.  With \<open>p\<close> the bits of the key under the leading ones of the
  mask, an insertion always returns: it reports \<open>NGX_BUSY\<close> and changes nothing if \<open>p\<close> has a value, and else sets that value
  alone, or runs out of memory and leaves all values as they are.  A deletion removes the value of \<open>p\<close> alone, and reports
  success if there was one; there is exactly one case in which it does not return but reads through a null pointer, the empty
  prefix in a tree that has only its root.  A lookup always returns, and gives the value of the longest
  prefix of the key that has one, or \<open>NGX_RADIX_NO_VALUE\<close> if none has.  The pointers of the tree stay consistent throughout.
\<close>

theorem radix_tree_refines:
  assumes "rt_abs t M"
  shows "(\<exists>rc t'. ngx_radix32tree_insert t key msk val = Some (rc, t') \<and>
      (case rc of
         Radix_ok \<Rightarrow> M (radix_prefix key msk) = None \<and>
           rt_abs t' (M(radix_prefix key msk := if val = NGX_RADIX_NO_VALUE then None else Some val))
       | Radix_busy \<Rightarrow> M (radix_prefix key msk) \<noteq> None \<and> t' = t
       | Radix_error \<Rightarrow> M (radix_prefix key msk) = None \<and> rt_abs t' M)) \<and>
    (if radix_prefix key msk = [] \<and> radix_bare t then ngx_radix32tree_delete t key msk = None
     else \<exists>rc t'. ngx_radix32tree_delete t key msk = Some (rc, t') \<and> rt_abs t' (M(radix_prefix key msk := None)) \<and>
       (M (radix_prefix key msk) \<noteq> None \<longrightarrow> rc = Radix_ok)) \<and>
    ((\<exists>q v. prefix q (radix_prefix key (-1)) \<and> M q = Some v \<and>
        (\<forall>q'. prefix q' (radix_prefix key (-1)) \<and> length q < length q' \<longrightarrow> M q' = None) \<and> ngx_radix32tree_find t key = Some v) \<or>
     (\<forall>q. prefix q (radix_prefix key (-1)) \<longrightarrow> M q = None) \<and> ngx_radix32tree_find t key = Some NGX_RADIX_NO_VALUE)"
proof (intro conjI)
  show "if radix_prefix key msk = [] \<and> radix_bare t then ngx_radix32tree_delete t key msk = None
    else \<exists>rc t'. ngx_radix32tree_delete t key msk = Some (rc, t') \<and> rt_abs t' (M(radix_prefix key msk := None)) \<and>
      (M (radix_prefix key msk) \<noteq> None \<longrightarrow> rc = Radix_ok)"
    using radix_delete_root [OF assms] radix_delete_abs [OF assms] by simp
qed (rule radix_insert_abs [OF assms] radix_find_abs [OF assms])+

theorem radix_tree_refines_witness:
  "\<exists>t. ngx_radix_tree_create True 4096 10 8192 0 = Some (Some t) \<and> rt_abs t Map.empty \<and>
    ngx_radix32tree_find t 0x0A000001 = Some NGX_RADIX_NO_VALUE \<and>
    (\<exists>rc t'. ngx_radix32tree_delete t 0x0A000000 0xFF000000 = Some (rc, t') \<and> rt_abs t' Map.empty)"
proof -
  obtain t where t: "ngx_radix_tree_create True 4096 10 8192 0 = Some (Some t)" "rt_abs t Map.empty"
    using radix_create_abs [of 4096 0 True 10 8192] by (auto simp: RADIX_NODE_SIZE_def)
  have "(0xFF000000 :: u32) AND rt_bit 32 \<noteq> 0" by (simp add: rt_bit_32)
  then have "bit (0xFF000000 :: u32) 31" using rt_bit_test(1) [of 31] by simp
  then have "radix_prefix 0x0A000000 0xFF000000 \<noteq> []" by (simp add: eval_nat_numeral)
  then show ?thesis
    using t radix_tree_refines [OF t(2), of "0x0A000000" "0xFF000000" 1] radix_tree_refines [OF t(2), of "0x0A000001" 0 1] by fastforce
qed

end
