(* ===== verification/Ngx_Mail_Parse.thy ===== *)
theory Ngx_Mail_Parse
  imports Ngx_Scan
begin

section \<open>The command parsers of the mail proxy\<close>

text \<open>
  \<open>src/mail/ngx_mail_parse.c\<close>: the POP3, IMAP and SMTP command parsers, built with SSL support.  As in the HTTP parsers the
  buffer from \<open>s->buffer->start\<close> to \<open>s->buffer->last\<close> is a list, \<open>s->buffer->pos\<close> and the pointers of the session are
  indices into it, and an argument is its index and its length.  A difference with \<open>NULL\<close>, or with a pointer behind the
  minuend, is the result \<open>M_FAULT\<close>; the theorems show where it cannot happen.
\<close>

subsection \<open>Sessions and results\<close>

datatype mail_rc =
    M_OK
  | M_ERROR
  | M_AGAIN
  | M_DONE
  | M_IMAP_NEXT
  | M_INVALID_COMMAND
  | M_FAULT

datatype mail_label = ML_done | ML_invalid | ML_reject | ML_next

text \<open>
  The part of \<open>ngx_mail_session_t\<close> that the parsers use.  Of the pool only \<open>ms_pool\<close> is kept, the number of allocations that
  will still succeed; \<open>ms_nalloc\<close> is \<open>s->args.nalloc\<close>.  An IMAP literal that needs no answer stores \<open>s->buffer->pos\<close> in the
  middle of the loop; \<open>ms_lpos\<close> is the last value stored there, or 0.  The tag of a command is its length; it starts the buffer
  unless \<open>ms_tag_star\<close> says that it is the constant \<open>imap_star\<close>.
\<close>

record 'st mail_parse =
  ms_state :: 'st
  ms_command :: nat
  ms_args :: "(nat \<times> nat) list"
  ms_nalloc :: nat
  ms_pool :: nat
  ms_tag :: nat
  ms_tag_star :: bool
  ms_cmd_start :: ptr
  ms_arg_start :: ptr
  ms_arg_end :: ptr
  ms_literal_len :: u64
  ms_quoted :: bool
  ms_backslash :: bool
  ms_no_sync_literal :: bool
  ms_lpos :: nat

text \<open>\<open>ngx_array_push\<close> on \<open>s->args\<close>.\<close>

definition mail_push :: "nat \<times> nat \<Rightarrow> ('st, 'z) mail_parse_scheme \<Rightarrow> ('st, 'z) mail_parse_scheme option" where
  "mail_push arg s =
    (if length (ms_args s) \<noteq> ms_nalloc s then Some (s\<lparr>ms_args := ms_args s @ [arg]\<rparr>)
     else if ms_pool s = 0 then None
     else Some (s\<lparr>ms_args := ms_args s @ [arg], ms_nalloc := 2 * ms_nalloc s, ms_pool := ms_pool s - 1\<rparr>))"

text \<open>The end of an argument at \<open>e\<close>.\<close>

definition mail_arg :: "nat \<Rightarrow> ('st, 'z) mail_parse_scheme \<Rightarrow> mail_rc + ('st, 'z) mail_parse_scheme" where
  "mail_arg e s =
    (case ms_arg_start s of
       None \<Rightarrow> Inl M_FAULT
     | Some a \<Rightarrow>
         if e < a then Inl M_FAULT
         else (case mail_push (a, e - a) s of None \<Rightarrow> Inl M_ERROR | Some s \<Rightarrow> Inr (s\<lparr>ms_arg_start := None\<rparr>)))"

text \<open>The switch on the character that ended a word: a space, \<open>CR\<close> or \<open>LF\<close>.\<close>

definition mail_after :: "byte \<Rightarrow> 'st \<Rightarrow> 'st \<Rightarrow> 'r \<Rightarrow> ('st, 'r, mail_label, mail_rc) step" where
  "mail_after ch spaces almost_done s =
    (if ch = ch_space then Next spaces s else if ch = CR then Next almost_done s else Goto ML_done s)"

abbreviation word_end :: "byte \<Rightarrow> bool" where
  "word_end ch \<equiv> ch = ch_space \<or> ch = CR \<or> ch = LF"

definition mail_letter :: "byte \<Rightarrow> bool" where
  "mail_letter ch = (\<not> ((ch < ch_A \<or> ch > ch_Z) \<and> (ch < ch_a \<or> ch > ch_z)))"

subsection \<open>POP3 and SMTP\<close>

datatype line_state = LS_start | LS_spaces_before_argument | LS_argument | LS_almost_done

type_synonym 'z line_session = "(line_state, 'z) mail_parse_scheme"
type_synonym 'z line_step = "(line_state, 'z line_session, mail_label, mail_rc) step"

definition line_spaces_before_argument :: "nat \<Rightarrow> nat \<Rightarrow> byte \<Rightarrow> 'z line_session \<Rightarrow> 'z line_step" where
  "line_spaces_before_argument n p ch s =
    (if ch = ch_space then Next LS_spaces_before_argument s
     else if ch = CR then Next LS_almost_done (s\<lparr>ms_arg_end := Some p\<rparr>)
     else if ch = LF then Goto ML_done (s\<lparr>ms_arg_end := Some p\<rparr>)
     else if length (ms_args s) \<le> n then Next LS_argument (s\<lparr>ms_arg_start := Some p\<rparr>)
     else Goto ML_invalid s)"

definition line_argument :: "nat \<Rightarrow> byte \<Rightarrow> 'z line_session \<Rightarrow> 'z line_step" where
  "line_argument p ch s =
    (if word_end ch then
       (case mail_arg p s of Inl rc \<Rightarrow> Return rc s | Inr s \<Rightarrow> mail_after ch LS_spaces_before_argument LS_almost_done s)
     else Next LS_argument s)"

definition line_almost_done :: "byte \<Rightarrow> 'z line_session \<Rightarrow> 'z line_step" where
  "line_almost_done ch s = (if ch = LF then Goto ML_done s else Goto ML_invalid s)"

text \<open>The label \<open>done\<close>; \<open>auth\<close> is the command after which the next line is an argument.\<close>

definition line_done :: "nat \<Rightarrow> nat \<Rightarrow> 'z line_session \<Rightarrow> mail_rc \<times> nat \<times> 'z line_session" where
  "line_done auth p s =
    (let fin = (\<lambda>s. (M_OK, p + 1, s\<lparr>ms_state := if ms_command s \<noteq> auth then LS_start else LS_argument\<rparr>)) in
     case ms_arg_start s of
       None \<Rightarrow> fin s
     | Some _ \<Rightarrow>
         (case ms_arg_end s of
            None \<Rightarrow> (M_FAULT, p + 1, s)
          | Some e \<Rightarrow> (case mail_arg e s of Inl rc \<Rightarrow> (rc, p + 1, s) | Inr s \<Rightarrow> fin s)))"

definition line_invalid :: "nat \<Rightarrow> 'z line_session \<Rightarrow> mail_rc \<times> nat \<times> 'z line_session" where
  "line_invalid pos s = (M_INVALID_COMMAND, pos, s\<lparr>ms_state := LS_start, ms_arg_start := None\<rparr>)"

definition line_parse :: "(line_state, 'z line_session, mail_label, mail_rc) stepper \<Rightarrow> nat \<Rightarrow> 'z line_session \<Rightarrow> bytes \<Rightarrow> nat \<Rightarrow>
    mail_rc \<times> nat \<times> 'z line_session" where
  "line_parse step auth s buf pos =
    (case scan step buf pos (ms_state s) s of
       Exhausted p st s' \<Rightarrow> (M_AGAIN, p, s'\<lparr>ms_state := st\<rparr>)
     | Jumped l p s' \<Rightarrow> if l = ML_done then line_done auth p s' else line_invalid pos s'
     | Returned rc s' \<Rightarrow> (rc, pos, s'))"

subsubsection \<open>POP3\<close>

abbreviation (input) "NGX_POP3_USER \<equiv> (1 :: nat)"
abbreviation (input) "NGX_POP3_PASS \<equiv> (2 :: nat)"
abbreviation (input) "NGX_POP3_CAPA \<equiv> (3 :: nat)"
abbreviation (input) "NGX_POP3_QUIT \<equiv> (4 :: nat)"
abbreviation (input) "NGX_POP3_NOOP \<equiv> (5 :: nat)"
abbreviation (input) "NGX_POP3_STLS \<equiv> (6 :: nat)"
abbreviation (input) "NGX_POP3_APOP \<equiv> (7 :: nat)"
abbreviation (input) "NGX_POP3_AUTH \<equiv> (8 :: nat)"

definition pop3_command :: "bytes \<Rightarrow> nat option" where
  "pop3_command c =
    (if c = str ''USER'' then Some NGX_POP3_USER
     else if c = str ''PASS'' then Some NGX_POP3_PASS
     else if c = str ''APOP'' then Some NGX_POP3_APOP
     else if c = str ''QUIT'' then Some NGX_POP3_QUIT
     else if c = str ''CAPA'' then Some NGX_POP3_CAPA
     else if c = str ''AUTH'' then Some NGX_POP3_AUTH
     else if c = str ''NOOP'' then Some NGX_POP3_NOOP
     else if c = str ''STLS'' then Some NGX_POP3_STLS
     else None)"

definition pop3_start :: "bytes \<Rightarrow> nat \<Rightarrow> byte \<Rightarrow> 'z line_session \<Rightarrow> 'z line_step" where
  "pop3_start b p ch s =
    (if word_end ch then
       (if p = 4 then
          (case pop3_command (map ngx_toupper (take 4 b)) of
             None \<Rightarrow> Goto ML_invalid s
           | Some c \<Rightarrow> mail_after ch LS_spaces_before_argument LS_almost_done (s\<lparr>ms_command := c\<rparr>))
        else Goto ML_invalid s)
     else if \<not> mail_letter ch then Goto ML_invalid s
     else Next LS_start s)"

definition pop3_argument :: "nat \<Rightarrow> byte \<Rightarrow> 'z line_session \<Rightarrow> 'z line_step" where
  "pop3_argument p ch s =
    (if ch = ch_space \<and> (ms_command s = NGX_POP3_USER \<or> ms_command s = NGX_POP3_PASS) then Next LS_argument s
     else line_argument p ch s)"

fun pop3_step :: "bytes \<Rightarrow> nat \<Rightarrow> byte \<Rightarrow> line_state \<Rightarrow> 'z line_session \<Rightarrow> 'z line_step" where
  "pop3_step b p ch LS_start s = pop3_start b p ch s"
| "pop3_step b p ch LS_spaces_before_argument s = line_spaces_before_argument 2 p ch s"
| "pop3_step b p ch LS_argument s = pop3_argument p ch s"
| "pop3_step b p ch LS_almost_done s = line_almost_done ch s"

definition ngx_mail_pop3_parse_command :: "'z line_session \<Rightarrow> bytes \<Rightarrow> nat \<Rightarrow> mail_rc \<times> nat \<times> 'z line_session" where
  "ngx_mail_pop3_parse_command = line_parse pop3_step NGX_POP3_AUTH"

subsubsection \<open>SMTP\<close>

abbreviation (input) "NGX_SMTP_HELO \<equiv> (1 :: nat)"
abbreviation (input) "NGX_SMTP_EHLO \<equiv> (2 :: nat)"
abbreviation (input) "NGX_SMTP_AUTH \<equiv> (3 :: nat)"
abbreviation (input) "NGX_SMTP_QUIT \<equiv> (4 :: nat)"
abbreviation (input) "NGX_SMTP_NOOP \<equiv> (5 :: nat)"
abbreviation (input) "NGX_SMTP_MAIL \<equiv> (6 :: nat)"
abbreviation (input) "NGX_SMTP_RSET \<equiv> (7 :: nat)"
abbreviation (input) "NGX_SMTP_RCPT \<equiv> (8 :: nat)"
abbreviation (input) "NGX_SMTP_VRFY \<equiv> (10 :: nat)"
abbreviation (input) "NGX_SMTP_EXPN \<equiv> (11 :: nat)"
abbreviation (input) "NGX_SMTP_HELP \<equiv> (12 :: nat)"
abbreviation (input) "NGX_SMTP_STARTTLS \<equiv> (13 :: nat)"

definition smtp_command :: "bytes \<Rightarrow> nat option" where
  "smtp_command c =
    (if c = str ''HELO'' then Some NGX_SMTP_HELO
     else if c = str ''EHLO'' then Some NGX_SMTP_EHLO
     else if c = str ''QUIT'' then Some NGX_SMTP_QUIT
     else if c = str ''AUTH'' then Some NGX_SMTP_AUTH
     else if c = str ''NOOP'' then Some NGX_SMTP_NOOP
     else if c = str ''MAIL'' then Some NGX_SMTP_MAIL
     else if c = str ''RSET'' then Some NGX_SMTP_RSET
     else if c = str ''RCPT'' then Some NGX_SMTP_RCPT
     else if c = str ''VRFY'' then Some NGX_SMTP_VRFY
     else if c = str ''EXPN'' then Some NGX_SMTP_EXPN
     else if c = str ''HELP'' then Some NGX_SMTP_HELP
     else None)"

text \<open>\<open>(c[0] == 'S' || c[0] == 's') && ...\<close>: comparison with a word in upper and lower case.\<close>

definition either_case :: "string \<Rightarrow> bytes \<Rightarrow> bool" where
  "either_case w c = list_all2 (\<lambda>u b. b = of_char u \<or> b = of_char u + 32) w c"

definition smtp_start :: "bytes \<Rightarrow> nat \<Rightarrow> byte \<Rightarrow> 'z line_session \<Rightarrow> 'z line_step" where
  "smtp_start b p ch s =
    (if word_end ch then
       (if p = 4 then
          (case smtp_command (map ngx_toupper (take 4 b)) of
             None \<Rightarrow> Goto ML_invalid s
           | Some c \<Rightarrow> mail_after ch LS_spaces_before_argument LS_almost_done (s\<lparr>ms_command := c\<rparr>))
        else if p = 8 then
          (if either_case ''STARTTLS'' (take 8 b)
           then mail_after ch LS_spaces_before_argument LS_almost_done (s\<lparr>ms_command := NGX_SMTP_STARTTLS\<rparr>)
           else Goto ML_invalid s)
        else Goto ML_invalid s)
     else if \<not> mail_letter ch then Goto ML_invalid s
     else Next LS_start s)"

fun smtp_step :: "bytes \<Rightarrow> nat \<Rightarrow> byte \<Rightarrow> line_state \<Rightarrow> 'z line_session \<Rightarrow> 'z line_step" where
  "smtp_step b p ch LS_start s = smtp_start b p ch s"
| "smtp_step b p ch LS_spaces_before_argument s = line_spaces_before_argument 10 p ch s"
| "smtp_step b p ch LS_argument s = line_argument p ch s"
| "smtp_step b p ch LS_almost_done s = line_almost_done ch s"

definition ngx_mail_smtp_parse_command :: "'z line_session \<Rightarrow> bytes \<Rightarrow> nat \<Rightarrow> mail_rc \<times> nat \<times> 'z line_session" where
  "ngx_mail_smtp_parse_command = line_parse smtp_step NGX_SMTP_AUTH"

subsection \<open>IMAP\<close>

datatype imap_state =
    IS_start
  | IS_spaces_before_command
  | IS_command
  | IS_spaces_before_argument
  | IS_argument
  | IS_backslash
  | IS_literal
  | IS_no_sync_literal_argument
  | IS_start_literal_argument
  | IS_literal_argument
  | IS_end_literal_argument
  | IS_almost_done

type_synonym 'z imap_session = "(imap_state, 'z) mail_parse_scheme"
type_synonym 'z imap_step = "(imap_state, 'z imap_session, mail_label, mail_rc) step"

abbreviation (input) "NGX_IMAP_LOGIN \<equiv> (1 :: nat)"
abbreviation (input) "NGX_IMAP_LOGOUT \<equiv> (2 :: nat)"
abbreviation (input) "NGX_IMAP_CAPABILITY \<equiv> (3 :: nat)"
abbreviation (input) "NGX_IMAP_NOOP \<equiv> (4 :: nat)"
abbreviation (input) "NGX_IMAP_STARTTLS \<equiv> (5 :: nat)"
abbreviation (input) "NGX_IMAP_AUTHENTICATE \<equiv> (7 :: nat)"

definition imap_start :: "nat \<Rightarrow> byte \<Rightarrow> 'z imap_session \<Rightarrow> 'z imap_step" where
  "imap_start p ch s =
    (if ch = ch_space then Next IS_spaces_before_command (s\<lparr>ms_tag := p + 1, ms_tag_star := False\<rparr>)
     else if ch = CR then Goto ML_reject s
     else if ch = LF then Goto ML_reject s
     else Next IS_start s)"

definition imap_spaces_before_command :: "nat \<Rightarrow> byte \<Rightarrow> 'z imap_session \<Rightarrow> 'z imap_step" where
  "imap_spaces_before_command p ch s =
    (if ch = ch_space then Next IS_spaces_before_command s
     else if ch = CR then Goto ML_reject s
     else if ch = LF then Goto ML_reject s
     else Next IS_command (s\<lparr>ms_cmd_start := Some p\<rparr>))"

definition imap_command_code :: "bytes \<Rightarrow> nat option" where
  "imap_command_code c =
    (if length c = 4 then (if either_case ''NOOP'' c then Some NGX_IMAP_NOOP else None)
     else if length c = 5 then (if either_case ''LOGIN'' c then Some NGX_IMAP_LOGIN else None)
     else if length c = 6 then (if either_case ''LOGOUT'' c then Some NGX_IMAP_LOGOUT else None)
     else if length c = 8 then (if either_case ''STARTTLS'' c then Some NGX_IMAP_STARTTLS else None)
     else if length c = 10 then (if either_case ''CAPABILITY'' c then Some NGX_IMAP_CAPABILITY else None)
     else if length c = 12 then (if either_case ''AUTHENTICATE'' c then Some NGX_IMAP_AUTHENTICATE else None)
     else None)"

definition imap_command :: "bytes \<Rightarrow> nat \<Rightarrow> byte \<Rightarrow> 'z imap_session \<Rightarrow> 'z imap_step" where
  "imap_command b p ch s =
    (if word_end ch then
       (case ms_cmd_start s of
          None \<Rightarrow> Return M_FAULT s
        | Some a \<Rightarrow>
            if p < a then Return M_FAULT s
            else
              (case imap_command_code (bslice a p b) of
                 None \<Rightarrow> Goto ML_invalid s
               | Some c \<Rightarrow> mail_after ch IS_spaces_before_argument IS_almost_done (s\<lparr>ms_command := c\<rparr>)))
     else if \<not> mail_letter ch then Goto ML_invalid s
     else Next IS_command s)"

abbreviation (input) ch_lbrace :: byte where "ch_lbrace \<equiv> 0x7B"
abbreviation (input) ch_rbrace :: byte where "ch_rbrace \<equiv> 0x7D"
abbreviation (input) ch_backslash :: byte where "ch_backslash \<equiv> 0x5C"

definition imap_spaces_before_argument :: "nat \<Rightarrow> byte \<Rightarrow> 'z imap_session \<Rightarrow> 'z imap_step" where
  "imap_spaces_before_argument p ch s =
    (if ch = ch_space then Next IS_spaces_before_argument s
     else if ch = CR then Next IS_almost_done (s\<lparr>ms_arg_end := Some p\<rparr>)
     else if ch = LF then Goto ML_done (s\<lparr>ms_arg_end := Some p\<rparr>)
     else if ch = ch_quot then
       (if length (ms_args s) \<le> 2 then Next IS_argument (s\<lparr>ms_quoted := True, ms_arg_start := Some (p + 1)\<rparr>) else Goto ML_invalid s)
     else if ch = ch_lbrace then
       (if length (ms_args s) \<le> 2 then Next IS_literal s else Goto ML_invalid s)
     else if length (ms_args s) \<le> 2 then Next IS_argument (s\<lparr>ms_arg_start := Some p\<rparr>)
     else Goto ML_invalid s)"

definition imap_argument :: "nat \<Rightarrow> byte \<Rightarrow> 'z imap_session \<Rightarrow> 'z imap_step" where
  "imap_argument p ch s =
    (if ch = ch_space \<and> ms_quoted s then Next IS_argument s
     else if ch = ch_quot \<and> \<not> ms_quoted s then Next IS_argument s
     else if ch = ch_quot \<or> word_end ch then
       (let s = (if ch = ch_quot then s\<lparr>ms_quoted := False\<rparr> else s) in
        case mail_arg p s of
          Inl rc \<Rightarrow> Return rc s
        | Inr s \<Rightarrow>
            if ch = ch_quot \<or> ch = ch_space then Next IS_spaces_before_argument s
            else if ch = CR then Next IS_almost_done s
            else Goto ML_done s)
     else if ch = ch_backslash then
       (if ms_quoted s then Next IS_backslash (s\<lparr>ms_backslash := True\<rparr>) else Next IS_argument s)
     else Next IS_argument s)"

definition imap_backslash :: "byte \<Rightarrow> 'z imap_session \<Rightarrow> 'z imap_step" where
  "imap_backslash ch s = (if ch = CR \<or> ch = LF then Goto ML_invalid s else Next IS_argument s)"

definition imap_literal :: "byte \<Rightarrow> 'z imap_session \<Rightarrow> 'z imap_step" where
  "imap_literal ch s =
    (if ch \<ge> ch_0 \<and> ch \<le> ch_9 then Next IS_literal (s\<lparr>ms_literal_len := ms_literal_len s * 10 + ucast (ch - ch_0)\<rparr>)
     else if ch = ch_rbrace then Next IS_start_literal_argument s
     else if ch = ch_plus then Next IS_no_sync_literal_argument s
     else Goto ML_invalid s)"

definition imap_no_sync_literal_argument :: "byte \<Rightarrow> 'z imap_session \<Rightarrow> 'z imap_step" where
  "imap_no_sync_literal_argument ch s =
    (if ch = ch_rbrace then Next IS_start_literal_argument (s\<lparr>ms_no_sync_literal := True\<rparr>) else Goto ML_invalid s)"

definition imap_start_literal_argument :: "nat \<Rightarrow> byte \<Rightarrow> 'z imap_session \<Rightarrow> 'z imap_step" where
  "imap_start_literal_argument p ch s =
    (if ch = CR then Next IS_start_literal_argument s
     else if ch = LF then
       (let s = s\<lparr>ms_lpos := p + 1, ms_arg_start := Some (p + 1)\<rparr> in
        if \<not> ms_no_sync_literal s then Goto ML_next s
        else Next IS_literal_argument (s\<lparr>ms_no_sync_literal := False\<rparr>))
     else Goto ML_invalid s)"

definition imap_literal_argument :: "nat \<Rightarrow> 'z imap_session \<Rightarrow> 'z imap_step" where
  "imap_literal_argument p s =
    (let s = (if ms_literal_len s \<noteq> 0 then s\<lparr>ms_literal_len := ms_literal_len s - 1\<rparr> else s) in
     if ms_literal_len s \<noteq> 0 then Next IS_literal_argument s
     else (case mail_arg (p + 1) s of Inl rc \<Rightarrow> Return rc s | Inr s \<Rightarrow> Next IS_end_literal_argument s))"

definition imap_end_literal_argument :: "byte \<Rightarrow> 'z imap_session \<Rightarrow> 'z imap_step" where
  "imap_end_literal_argument ch s =
    (if ch = ch_lbrace then (if length (ms_args s) \<le> 2 then Next IS_literal s else Goto ML_invalid s)
     else if ch = CR then Next IS_almost_done s
     else if ch = LF then Goto ML_done s
     else Next IS_spaces_before_argument s)"

definition imap_almost_done :: "byte \<Rightarrow> 'z imap_session \<Rightarrow> 'z imap_step" where
  "imap_almost_done ch s = (if ch = LF then Goto ML_done s else Goto ML_invalid s)"

fun imap_step :: "bytes \<Rightarrow> nat \<Rightarrow> byte \<Rightarrow> imap_state \<Rightarrow> 'z imap_session \<Rightarrow> 'z imap_step" where
  "imap_step b p ch IS_start s = imap_start p ch s"
| "imap_step b p ch IS_spaces_before_command s = imap_spaces_before_command p ch s"
| "imap_step b p ch IS_command s = imap_command b p ch s"
| "imap_step b p ch IS_spaces_before_argument s = imap_spaces_before_argument p ch s"
| "imap_step b p ch IS_argument s = imap_argument p ch s"
| "imap_step b p ch IS_backslash s = imap_backslash ch s"
| "imap_step b p ch IS_literal s = imap_literal ch s"
| "imap_step b p ch IS_no_sync_literal_argument s = imap_no_sync_literal_argument ch s"
| "imap_step b p ch IS_start_literal_argument s = imap_start_literal_argument p ch s"
| "imap_step b p ch IS_literal_argument s = imap_literal_argument p s"
| "imap_step b p ch IS_end_literal_argument s = imap_end_literal_argument ch s"
| "imap_step b p ch IS_almost_done s = imap_almost_done ch s"

definition imap_done :: "nat \<Rightarrow> 'z imap_session \<Rightarrow> mail_rc \<times> nat \<times> 'z imap_session" where
  "imap_done p s =
    (let fin = (\<lambda>s. (M_OK, p + 1, s\<lparr>ms_state := if ms_command s \<noteq> NGX_IMAP_AUTHENTICATE then IS_start else IS_argument\<rparr>)) in
     case ms_arg_start s of
       None \<Rightarrow> fin s
     | Some _ \<Rightarrow>
         (case ms_arg_end s of
            None \<Rightarrow> (M_FAULT, p + 1, s)
          | Some e \<Rightarrow>
              (case mail_arg e s of
                 Inl rc \<Rightarrow> (rc, p + 1, s)
               | Inr s \<Rightarrow> fin (s\<lparr>ms_cmd_start := None, ms_quoted := False, ms_no_sync_literal := False, ms_literal_len := 0\<rparr>))))"

definition imap_invalid :: "nat \<Rightarrow> 'z imap_session \<Rightarrow> mail_rc \<times> nat \<times> 'z imap_session" where
  "imap_invalid pos s =
    (M_INVALID_COMMAND, max pos (ms_lpos s), s\<lparr>ms_state := IS_start, ms_quoted := False, ms_no_sync_literal := False, ms_literal_len := 0\<rparr>)"

definition ngx_mail_imap_parse_command :: "'z imap_session \<Rightarrow> bytes \<Rightarrow> nat \<Rightarrow> mail_rc \<times> nat \<times> 'z imap_session" where
  "ngx_mail_imap_parse_command s buf pos =
    (case scan imap_step buf pos (ms_state s) s of
       Exhausted p st s' \<Rightarrow> (M_AGAIN, p, s'\<lparr>ms_state := st\<rparr>)
     | Jumped ML_done p s' \<Rightarrow> imap_done p s'
     | Jumped ML_invalid p s' \<Rightarrow> imap_invalid pos s'
     | Jumped ML_reject p s' \<Rightarrow> (M_INVALID_COMMAND, max pos (ms_lpos s'), s'\<lparr>ms_state := IS_start\<rparr>)
     | Jumped ML_next p s' \<Rightarrow> (M_IMAP_NEXT, p + 1, s'\<lparr>ms_state := IS_literal_argument\<rparr>)
     | Returned rc s' \<Rightarrow> (rc, max pos (ms_lpos s'), s'))"

end
