(* ===== verification/Ngx_Mail_Session.thy ===== *)
theory Ngx_Mail_Session
  imports Ngx_Mail_Parse Ngx_Base64 Ngx_Strings
begin

section \<open>Sessions of the mail proxy\<close>

text \<open>
  \<open>src/mail/ngx_mail_handler.c\<close> and the handlers of the protocols, \<open>ngx_mail_pop3_handler.c\<close>, \<open>ngx_mail_imap_handler.c\<close> and
  \<open>ngx_mail_smtp_handler.c\<close>: from the command lines of a client to the login and password that are handed to the
  authentication server.  A session is a state machine driven by events of its connection; what \<open>recv\<close> and \<open>send\<close>
  return is part of the event.  A handler that ends by calling the read handler again is followed by a further event.
\<close>

subsection \<open>State\<close>

datatype starttls = NGX_MAIL_STARTTLS_OFF | NGX_MAIL_STARTTLS_ON | NGX_MAIL_STARTTLS_ONLY

text \<open>
  The configuration: the bits of \<open>auth_methods\<close> that the handlers test, the texts, whether there is a delay before the greeting of
  SMTP, and the size of the buffer.
\<close>

record mail_conf =
  mc_starttls :: starttls
  mc_auth_apop :: bool
  mc_auth_cram_md5 :: bool
  mc_auth_none :: bool
  mc_greeting :: bytes
  mc_greeting_delay :: bool
  mc_server_name :: bytes
  mc_capability :: bytes
  mc_starttls_capability :: bytes
  mc_starttls_only_capability :: bytes
  mc_auth_capability :: bytes
  mc_internal_server_error :: bytes
  mc_salt :: bytes
  mc_buffer_size :: nat

datatype mail_state =
    MS_start
  | MS_user
  | MS_passwd
  | MS_auth_login_username
  | MS_auth_login_password
  | MS_auth_plain
  | MS_auth_cram_md5

datatype auth_method =
    NGX_MAIL_AUTH_PLAIN
  | NGX_MAIL_AUTH_LOGIN
  | NGX_MAIL_AUTH_LOGIN_USERNAME
  | NGX_MAIL_AUTH_APOP
  | NGX_MAIL_AUTH_CRAM_MD5
  | NGX_MAIL_AUTH_NONE

text \<open>The read handler of the connection: \<open>H_auth\<close> is the authentication server's, \<open>H_fault\<close> stands for an invalid access.\<close>

datatype mail_handler = H_none | H_invalid_pipelining | H_init_protocol | H_auth_state | H_starttls | H_auth | H_closed | H_fault

text \<open>
  A string of the session: its bytes, or only its length when its memory was not written or could not be allocated.
\<close>

datatype mail_str = Bytes bytes | Undef nat

fun mail_len :: "mail_str \<Rightarrow> nat" where
  "mail_len (Bytes b) = length b"
| "mail_len (Undef n) = n"

text \<open>The rest of \<open>ngx_mail_session_t\<close>, and \<open>c->ssl\<close>.\<close>

record 'st mail_session = "'st mail_parse" +
  ss_handler :: mail_handler
  ss_mail_state :: mail_state
  ss_buffer :: "nat option"
  ss_buf :: bytes
  ss_pos :: nat
  ss_out :: bytes
  ss_text :: bytes
  ss_tagged_line :: nat
  ss_login :: mail_str
  ss_passwd :: mail_str
  ss_salt :: "bytes option"
  ss_auth_method :: auth_method
  ss_login_attempt :: nat
  ss_quit :: bool
  ss_blocked :: bool
  ss_ssl :: bool
  ss_starttls :: bool
  ss_esmtp :: bool
  ss_smtp_helo :: mail_str
  ss_smtp_from :: mail_str
  ss_smtp_to :: mail_str

abbreviation crlf :: bytes where
  "crlf \<equiv> [CR, LF]"

subsection \<open>Connections\<close>

text \<open>
  What the connection answers to a call of \<open>recv\<close> or \<open>send\<close>; \<open>R_again_error\<close> and \<open>S_again_error\<close> are failures of
  \<open>ngx_handle_read_event\<close> and \<open>ngx_handle_write_event\<close> afterwards, \<open>S_timedout\<close> an expired timer of the write event.
\<close>

datatype mail_recv = R_data bytes | R_again | R_again_error | R_closed
datatype mail_sent = S_sent nat | S_again | S_again_error | S_error | S_timedout

definition ngx_mail_close_connection :: "('st, 'z) mail_session_scheme \<Rightarrow> ('st, 'z) mail_session_scheme" where
  "ngx_mail_close_connection s = s\<lparr>ss_handler := H_closed\<rparr>"

text \<open>
  The length of the output shrinks, but its start stays: what is left is its beginning.  The call of the read handler of a blocked
  session is with the event \<open>Ev_write\<close>, since only there \<open>s->blocked\<close> can be set.
\<close>

definition ngx_mail_send :: "mail_sent \<Rightarrow> ('st, 'z) mail_session_scheme \<Rightarrow> ('st, 'z) mail_session_scheme" where
  "ngx_mail_send snt s =
    (if snt = S_timedout then ngx_mail_close_connection s
     else if ss_out s = [] then (if snt = S_again_error then ngx_mail_close_connection s else s)
     else
       (case snt of
          S_sent n \<Rightarrow>
            if n > 0 then
              (let s = s\<lparr>ss_out := take (length (ss_out s) - n) (ss_out s)\<rparr>
               in if ss_quit s then ngx_mail_close_connection s else s)
            else s
        | S_again \<Rightarrow> s
        | _ \<Rightarrow> ngx_mail_close_connection s))"

definition ngx_mail_session_internal_server_error ::
  "mail_conf \<Rightarrow> mail_sent \<Rightarrow> ('st, 'z) mail_session_scheme \<Rightarrow> ('st, 'z) mail_session_scheme" where
  "ngx_mail_session_internal_server_error c snt s =
    ngx_mail_send snt (s\<lparr>ss_out := mc_internal_server_error c, ss_quit := True\<rparr>)"

definition ngx_mail_auth :: "'st \<Rightarrow> ('st, 'z) mail_session_scheme \<Rightarrow> ('st, 'z) mail_session_scheme" where
  "ngx_mail_auth start s =
    s\<lparr>ms_args := [], ss_pos := 0, ss_buf := [], ms_lpos := 0, ms_state := start, ss_login_attempt := ss_login_attempt s + 1,
      ss_handler := H_auth\<rparr>"

definition ngx_mail_read_command ::
  "mail_conf \<Rightarrow> (('st, 'z) mail_session_scheme \<Rightarrow> bytes \<Rightarrow> nat \<Rightarrow> mail_rc \<times> nat \<times> ('st, 'z) mail_session_scheme) \<Rightarrow>
    mail_recv \<Rightarrow> mail_sent \<Rightarrow> ('st, 'z) mail_session_scheme \<Rightarrow> mail_rc \<times> ('st, 'z) mail_session_scheme" where
  "ngx_mail_read_command c parse rcv snt s =
    (case ss_buffer s of
       None \<Rightarrow> (M_FAULT, s)
     | Some sz \<Rightarrow>
         (case rcv of
            R_closed \<Rightarrow> (M_ERROR, ngx_mail_close_connection s)
          | R_again \<Rightarrow> (M_AGAIN, s)
          | R_again_error \<Rightarrow> (M_ERROR, ngx_mail_session_internal_server_error c snt s)
          | R_data d \<Rightarrow>
              (let d = take (sz - length (ss_buf s)) d in
               if d = [] then (M_ERROR, ngx_mail_close_connection s)
               else
                 (let s = s\<lparr>ss_buf := ss_buf s @ d\<rparr>; (rc, pos, s) = parse s (ss_buf s) (ss_pos s); s = s\<lparr>ss_pos := pos\<rparr> in
                  if rc = M_AGAIN then
                    (if length (ss_buf s) < sz then (rc, s) else (M_INVALID_COMMAND, s\<lparr>ss_quit := True\<rparr>))
                  else if rc = M_IMAP_NEXT \<or> rc = M_INVALID_COMMAND then (rc, s)
                  else if rc = M_ERROR then (M_ERROR, ngx_mail_close_connection s)
                  else if rc = M_FAULT then (M_FAULT, s)
                  else (M_OK, s)))))"

subsection \<open>Authentication\<close>

text \<open>\<open>arg[n]\<close>, if there is one and its bytes are in the buffer.\<close>

definition mail_get :: "nat \<Rightarrow> ('st, 'z) mail_session_scheme \<Rightarrow> bytes option" where
  "mail_get n s =
    (if n < length (ms_args s)
     then (let (a, l) = ms_args s ! n in if a + l \<le> length (ss_buf s) then Some (bslice a (a + l) (ss_buf s)) else None)
     else None)"

definition mail_alloc :: "('st, 'z) mail_session_scheme \<Rightarrow> ('st, 'z) mail_session_scheme option" where
  "mail_alloc s = (if ms_pool s = 0 then None else Some (s\<lparr>ms_pool := ms_pool s - 1\<rparr>))"

definition ngx_mail_starttls_only :: "mail_conf \<Rightarrow> ('st, 'z) mail_session_scheme \<Rightarrow> bool" where
  "ngx_mail_starttls_only c s = (\<not> ss_ssl s \<and> mc_starttls c = NGX_MAIL_STARTTLS_ONLY)"

text \<open>\<open>while (p < last && *p++) { }\<close>\<close>

fun after_nul :: "bytes \<Rightarrow> bytes" where
  "after_nul [] = []"
| "after_nul (ch # p) = (if ch = 0 then p else after_nul p)"

definition ngx_mail_auth_plain :: "nat \<Rightarrow> ('st, 'z) mail_session_scheme \<Rightarrow> mail_rc \<times> ('st, 'z) mail_session_scheme" where
  "ngx_mail_auth_plain n s =
    (case mail_get n s of
       None \<Rightarrow> (M_FAULT, s)
     | Some arg \<Rightarrow>
         (case mail_alloc s of
            None \<Rightarrow> (M_ERROR, s)
          | Some s \<Rightarrow>
              (case ngx_decode_base64 arg of
                 None \<Rightarrow> (M_INVALID_COMMAND, s)
               | Some plain \<Rightarrow>
                   (let p = after_nul plain in
                    if p = [] then (M_INVALID_COMMAND, s)
                    else
                      (let login = takeWhile (\<lambda>ch. ch \<noteq> 0) p; p = dropWhile (\<lambda>ch. ch \<noteq> 0) p in
                       if p = [] then (M_INVALID_COMMAND, s\<lparr>ss_login := Undef (mail_len (ss_login s))\<rparr>)
                       else (M_DONE, s\<lparr>ss_login := Bytes login, ss_passwd := Bytes (tl p)\<rparr>))))))"

definition ngx_mail_auth_login_username :: "nat \<Rightarrow> ('st, 'z) mail_session_scheme \<Rightarrow> mail_rc \<times> ('st, 'z) mail_session_scheme" where
  "ngx_mail_auth_login_username n s =
    (case mail_get n s of
       None \<Rightarrow> (M_FAULT, s)
     | Some arg \<Rightarrow>
         (case mail_alloc s of
            None \<Rightarrow> (M_ERROR, s\<lparr>ss_login := Undef (mail_len (ss_login s))\<rparr>)
          | Some s \<Rightarrow>
              (case ngx_decode_base64 arg of
                 None \<Rightarrow> (M_INVALID_COMMAND, s\<lparr>ss_login := Undef (mail_len (ss_login s))\<rparr>)
               | Some login \<Rightarrow> (M_OK, s\<lparr>ss_login := Bytes login\<rparr>))))"

definition ngx_mail_auth_login_password :: "('st, 'z) mail_session_scheme \<Rightarrow> mail_rc \<times> ('st, 'z) mail_session_scheme" where
  "ngx_mail_auth_login_password s =
    (case mail_get 0 s of
       None \<Rightarrow> (M_FAULT, s)
     | Some arg \<Rightarrow>
         (case mail_alloc s of
            None \<Rightarrow> (M_ERROR, s\<lparr>ss_passwd := Undef (mail_len (ss_passwd s))\<rparr>)
          | Some s \<Rightarrow>
              (case ngx_decode_base64 arg of
                 None \<Rightarrow> (M_INVALID_COMMAND, s\<lparr>ss_passwd := Undef (mail_len (ss_passwd s))\<rparr>)
               | Some passwd \<Rightarrow> (M_DONE, s\<lparr>ss_passwd := Bytes passwd\<rparr>))))"

definition ngx_mail_auth_cram_md5_salt :: "bytes \<Rightarrow> ('st, 'z) mail_session_scheme \<Rightarrow> mail_rc \<times> ('st, 'z) mail_session_scheme" where
  "ngx_mail_auth_cram_md5_salt pre s =
    (case ss_salt s of
       None \<Rightarrow> (M_FAULT, s)
     | Some salt \<Rightarrow>
         (case mail_alloc s of
            None \<Rightarrow> (M_ERROR, s)
          | Some s \<Rightarrow> (M_OK, s\<lparr>ss_out := pre @ ngx_encode_base64 (take (length salt - 2) salt) @ crlf\<rparr>)))"

text \<open>Without a space the login is the whole answer and the password stays what it was.\<close>

definition ngx_mail_auth_cram_md5 :: "('st, 'z) mail_session_scheme \<Rightarrow> mail_rc \<times> ('st, 'z) mail_session_scheme" where
  "ngx_mail_auth_cram_md5 s =
    (case mail_get 0 s of
       None \<Rightarrow> (M_FAULT, s)
     | Some arg \<Rightarrow>
         (case mail_alloc s of
            None \<Rightarrow> (M_ERROR, s\<lparr>ss_login := Undef (mail_len (ss_login s))\<rparr>)
          | Some s \<Rightarrow>
              (case ngx_decode_base64 arg of
                 None \<Rightarrow> (M_INVALID_COMMAND, s\<lparr>ss_login := Undef (mail_len (ss_login s))\<rparr>)
               | Some answer \<Rightarrow>
                   (let s = s\<lparr>ss_login := Bytes (takeWhile (\<lambda>ch. ch \<noteq> ch_space) answer)\<rparr>;
                        s = (case dropWhile (\<lambda>ch. ch \<noteq> ch_space) answer of [] \<Rightarrow> s | _ # passwd \<Rightarrow> s\<lparr>ss_passwd := Bytes passwd\<rparr>)
                    in if mail_len (ss_passwd s) \<noteq> 32 then (M_INVALID_COMMAND, s)
                       else (M_DONE, s\<lparr>ss_auth_method := NGX_MAIL_AUTH_CRAM_MD5\<rparr>)))))"

datatype auth_rc = Auth auth_method | Auth_rc mail_rc

definition ngx_mail_auth_parse :: "mail_conf \<Rightarrow> ('st, 'z) mail_session_scheme \<Rightarrow> auth_rc \<times> ('st, 'z) mail_session_scheme" where
  "ngx_mail_auth_parse c s =
    (if ngx_mail_starttls_only c s then (Auth_rc M_INVALID_COMMAND, s)
     else
       (case mail_get 0 s of
          None \<Rightarrow> (Auth_rc M_FAULT, s)
        | Some arg \<Rightarrow>
            if length arg = 5 then
              (if ngx_strncasecmp arg (str ''LOGIN'') 5 = Some 0 then
                 (if length (ms_args s) = 1 then (Auth NGX_MAIL_AUTH_LOGIN, s)
                  else if length (ms_args s) = 2 then (Auth NGX_MAIL_AUTH_LOGIN_USERNAME, s)
                  else (Auth_rc M_INVALID_COMMAND, s))
               else if ngx_strncasecmp arg (str ''PLAIN'') 5 = Some 0 then
                 (if length (ms_args s) = 1 then (Auth NGX_MAIL_AUTH_PLAIN, s)
                  else if length (ms_args s) = 2 then (let (rc, s) = ngx_mail_auth_plain 1 s in (Auth_rc rc, s))
                  else (Auth_rc M_INVALID_COMMAND, s))
               else (Auth_rc M_INVALID_COMMAND, s))
            else if length arg = 8 then
              (if length (ms_args s) \<noteq> 1 then (Auth_rc M_INVALID_COMMAND, s)
               else if ngx_strncasecmp arg (str ''CRAM-MD5'') 8 = Some 0 then (Auth NGX_MAIL_AUTH_CRAM_MD5, s)
               else (Auth_rc M_INVALID_COMMAND, s))
            else (Auth_rc M_INVALID_COMMAND, s)))"

definition arg_len :: "nat \<Rightarrow> ('st, 'z) mail_session_scheme \<Rightarrow> nat" where
  "arg_len n s = snd (ms_args s ! n)"

text \<open>A copy of an argument to memory of the pool.\<close>

definition mail_copy :: "nat \<Rightarrow> ('st, 'z) mail_session_scheme \<Rightarrow> (mail_rc, bytes \<times> ('st, 'z) mail_session_scheme) sum" where
  "mail_copy n s =
    (case mail_get n s of
       None \<Rightarrow> Inl M_FAULT
     | Some arg \<Rightarrow> (case mail_alloc s of None \<Rightarrow> Inl M_ERROR | Some s \<Rightarrow> Inr (arg, s)))"

subsection \<open>POP3\<close>

type_synonym pop3_session = "line_state mail_session"

definition ngx_mail_pop3_user :: "mail_conf \<Rightarrow> pop3_session \<Rightarrow> mail_rc \<times> pop3_session" where
  "ngx_mail_pop3_user c s =
    (if ngx_mail_starttls_only c s then (M_INVALID_COMMAND, s)
     else if length (ms_args s) \<noteq> 1 then (M_INVALID_COMMAND, s)
     else
       (case mail_copy 0 s of
          Inl rc \<Rightarrow> (rc, s\<lparr>ss_login := Undef (arg_len 0 s)\<rparr>)
        | Inr (login, s) \<Rightarrow> (M_OK, s\<lparr>ss_login := Bytes login, ss_mail_state := MS_user\<rparr>)))"

definition ngx_mail_pop3_pass :: "pop3_session \<Rightarrow> mail_rc \<times> pop3_session" where
  "ngx_mail_pop3_pass s =
    (if length (ms_args s) \<noteq> 1 then (M_INVALID_COMMAND, s)
     else 
       (case mail_copy 0 s of
          Inl rc \<Rightarrow> (rc, s\<lparr>ss_passwd := Undef (arg_len 0 s)\<rparr>)
        | Inr (passwd, s) \<Rightarrow> (M_DONE, s\<lparr>ss_passwd := Bytes passwd\<rparr>)))"

definition ngx_mail_pop3_capa :: "mail_conf \<Rightarrow> bool \<Rightarrow> pop3_session \<Rightarrow> mail_rc \<times> pop3_session" where
  "ngx_mail_pop3_capa c stls s =
    (if stls \<and> \<not> ss_ssl s \<and> mc_starttls c = NGX_MAIL_STARTTLS_ON then (M_OK, s\<lparr>ss_out := mc_starttls_capability c\<rparr>)
     else if stls \<and> \<not> ss_ssl s \<and> mc_starttls c = NGX_MAIL_STARTTLS_ONLY then (M_OK, s\<lparr>ss_out := mc_starttls_only_capability c\<rparr>)
     else (M_OK, s\<lparr>ss_out := mc_capability c\<rparr>))"

definition ngx_mail_pop3_stls :: "mail_conf \<Rightarrow> pop3_session \<Rightarrow> mail_rc \<times> pop3_session" where
  "ngx_mail_pop3_stls c s =
    (if \<not> ss_ssl s \<and> mc_starttls c \<noteq> NGX_MAIL_STARTTLS_OFF then (M_OK, s\<lparr>ss_handler := H_starttls\<rparr>) else (M_INVALID_COMMAND, s))"

definition ngx_mail_pop3_apop :: "mail_conf \<Rightarrow> pop3_session \<Rightarrow> mail_rc \<times> pop3_session" where
  "ngx_mail_pop3_apop c s =
    (if ngx_mail_starttls_only c s then (M_INVALID_COMMAND, s)
     else if length (ms_args s) \<noteq> 2 then (M_INVALID_COMMAND, s)
     else if \<not> mc_auth_apop c then (M_INVALID_COMMAND, s)
     else
       (case mail_copy 0 s of
          Inl rc \<Rightarrow> (rc, s\<lparr>ss_login := Undef (arg_len 0 s)\<rparr>)
        | Inr (login, s) \<Rightarrow>
            (case mail_copy 1 s of
               Inl rc \<Rightarrow> (rc, s\<lparr>ss_login := Bytes login, ss_passwd := Undef (arg_len 1 s)\<rparr>)
             | Inr (passwd, s) \<Rightarrow>
                 (M_DONE, s\<lparr>ss_login := Bytes login, ss_passwd := Bytes passwd, ss_auth_method := NGX_MAIL_AUTH_APOP\<rparr>))))"

definition ngx_mail_pop3_auth :: "mail_conf \<Rightarrow> pop3_session \<Rightarrow> mail_rc \<times> pop3_session" where
  "ngx_mail_pop3_auth c s =
    (if ngx_mail_starttls_only c s then (M_INVALID_COMMAND, s)
     else if ms_args s = [] then (M_OK, s\<lparr>ss_out := mc_auth_capability c, ms_state := LS_start\<rparr>)
     else
       (case ngx_mail_auth_parse c s of
          (Auth NGX_MAIL_AUTH_LOGIN, s) \<Rightarrow>
            (M_OK, s\<lparr>ss_out := str ''+ VXNlcm5hbWU6'' @ crlf, ss_mail_state := MS_auth_login_username\<rparr>)
        | (Auth NGX_MAIL_AUTH_LOGIN_USERNAME, s) \<Rightarrow>
            ngx_mail_auth_login_username 1 (s\<lparr>ss_out := str ''+ UGFzc3dvcmQ6'' @ crlf, ss_mail_state := MS_auth_login_password\<rparr>)
        | (Auth NGX_MAIL_AUTH_PLAIN, s) \<Rightarrow> (M_OK, s\<lparr>ss_out := str ''+ '' @ crlf, ss_mail_state := MS_auth_plain\<rparr>)
        | (Auth NGX_MAIL_AUTH_CRAM_MD5, s) \<Rightarrow>
            if \<not> mc_auth_cram_md5 c then (M_INVALID_COMMAND, s)
            else
              (case ngx_mail_auth_cram_md5_salt (str ''+ '') s of
                 (M_OK, s) \<Rightarrow> (M_OK, s\<lparr>ss_mail_state := MS_auth_cram_md5\<rparr>)
               | (M_FAULT, s) \<Rightarrow> (M_FAULT, s)
               | (rc, s) \<Rightarrow> (M_ERROR, s))
        | (Auth _, s) \<Rightarrow> (M_INVALID_COMMAND, s)
        | (Auth_rc rc, s) \<Rightarrow> (rc, s)))"

text \<open>The switch on the state and the command.\<close>

definition pop3_dispatch :: "mail_conf \<Rightarrow> pop3_session \<Rightarrow> mail_rc \<times> pop3_session" where
  "pop3_dispatch c s =
    (case ss_mail_state s of
       MS_start \<Rightarrow>
         if ms_command s = NGX_POP3_USER then ngx_mail_pop3_user c s
         else if ms_command s = NGX_POP3_CAPA then ngx_mail_pop3_capa c True s
         else if ms_command s = NGX_POP3_APOP then ngx_mail_pop3_apop c s
         else if ms_command s = NGX_POP3_AUTH then ngx_mail_pop3_auth c s
         else if ms_command s = NGX_POP3_QUIT then (M_OK, s\<lparr>ss_quit := True\<rparr>)
         else if ms_command s = NGX_POP3_NOOP then (M_OK, s)
         else if ms_command s = NGX_POP3_STLS then ngx_mail_pop3_stls c s
         else (M_INVALID_COMMAND, s)
     | MS_user \<Rightarrow>
         if ms_command s = NGX_POP3_PASS then ngx_mail_pop3_pass s
         else if ms_command s = NGX_POP3_CAPA then ngx_mail_pop3_capa c False s
         else if ms_command s = NGX_POP3_QUIT then (M_OK, s\<lparr>ss_quit := True\<rparr>)
         else if ms_command s = NGX_POP3_NOOP then (M_OK, s)
         else (M_INVALID_COMMAND, s)
     | MS_passwd \<Rightarrow> (M_OK, s)
     | MS_auth_login_username \<Rightarrow>
         (let (rc, s) = ngx_mail_auth_login_username 0 s
          in (rc, s\<lparr>ss_out := str ''+ UGFzc3dvcmQ6'' @ crlf, ss_mail_state := MS_auth_login_password\<rparr>))
     | MS_auth_login_password \<Rightarrow> ngx_mail_auth_login_password s
     | MS_auth_plain \<Rightarrow> ngx_mail_auth_plain 0 s
     | MS_auth_cram_md5 \<Rightarrow> ngx_mail_auth_cram_md5 s)"

text \<open>The rest of \<open>ngx_mail_pop3_auth_state\<close>, and of \<open>ngx_mail_smtp_auth_state\<close>.\<close>

definition line_answer :: "mail_conf \<Rightarrow> mail_sent \<Rightarrow> bytes \<Rightarrow> mail_rc \<times> pop3_session \<Rightarrow> pop3_session" where
  "line_answer c snt invalid = (\<lambda>(rc, s).
    let reset = (\<lambda>s. ngx_mail_send snt
      (let s = s\<lparr>ms_args := [], ss_pos := 0, ss_buf := []\<rparr> in if ms_state s \<noteq> LS_start then s\<lparr>ms_arg_start := Some 0\<rparr> else s))
    in case rc of
         M_DONE \<Rightarrow> ngx_mail_auth LS_start s
       | M_ERROR \<Rightarrow> ngx_mail_session_internal_server_error c snt s
       | M_INVALID_COMMAND \<Rightarrow> reset (s\<lparr>ss_mail_state := MS_start, ms_state := LS_start, ss_out := invalid\<rparr>)
       | M_OK \<Rightarrow> reset s
       | M_FAULT \<Rightarrow> s\<lparr>ss_handler := H_fault\<rparr>
       | _ \<Rightarrow> s)"

definition ngx_mail_pop3_auth_state :: "mail_conf \<Rightarrow> mail_recv \<Rightarrow> mail_sent \<Rightarrow> pop3_session \<Rightarrow> pop3_session" where
  "ngx_mail_pop3_auth_state c rcv snt s =
    (if ss_out s \<noteq> [] then s\<lparr>ss_blocked := True\<rparr>
     else
       (case ngx_mail_read_command c ngx_mail_pop3_parse_command rcv snt (s\<lparr>ss_blocked := False\<rparr>) of
          (M_AGAIN, s) \<Rightarrow> s
        | (M_ERROR, s) \<Rightarrow> s
        | (rc, s) \<Rightarrow>
            (let s = s\<lparr>ss_out := str ''+OK'' @ crlf\<rparr>
             in line_answer c snt (str ''-ERR invalid command'' @ crlf) (if rc = M_OK then pop3_dispatch c s else (rc, s)))))"

subsection \<open>SMTP\<close>

type_synonym smtp_session = "line_state mail_session"

definition ngx_mail_smtp_helo :: "mail_conf \<Rightarrow> smtp_session \<Rightarrow> mail_rc \<times> smtp_session" where
  "ngx_mail_smtp_helo c s =
    (if length (ms_args s) \<noteq> 1 then (M_OK, s\<lparr>ss_out := str ''501 5.5.4 Invalid argument'' @ crlf, ms_state := LS_start\<rparr>)
     else
       (case mail_copy 0 s of
          Inl rc \<Rightarrow> (rc, s\<lparr>ss_smtp_helo := Undef (arg_len 0 s)\<rparr>)
        | Inr (helo, s) \<Rightarrow>
            (let s = s\<lparr>ss_smtp_helo := Bytes helo, ss_smtp_from := Bytes [], ss_smtp_to := Bytes []\<rparr> in
             if ms_command s = NGX_SMTP_HELO then (M_OK, s\<lparr>ss_out := mc_server_name c\<rparr>)
             else
               (let s = s\<lparr>ss_esmtp := True\<rparr> in
                if \<not> ss_ssl s \<and> mc_starttls c = NGX_MAIL_STARTTLS_ON then (M_OK, s\<lparr>ss_out := mc_starttls_capability c\<rparr>)
                else if \<not> ss_ssl s \<and> mc_starttls c = NGX_MAIL_STARTTLS_ONLY then (M_OK, s\<lparr>ss_out := mc_starttls_only_capability c\<rparr>)
                else (M_OK, s\<lparr>ss_out := mc_capability c\<rparr>)))))"

text \<open>\<open>ngx_mail_salt\<close>, where the text with the random number and the time is \<open>mc_salt\<close>.\<close>

definition ngx_mail_salt :: "mail_conf \<Rightarrow> ('st, 'z) mail_session_scheme \<Rightarrow> ('st, 'z) mail_session_scheme option" where
  "ngx_mail_salt c s = map_option (\<lambda>s. s\<lparr>ss_salt := Some (mc_salt c)\<rparr>) (mail_alloc s)"

definition mail_cram_md5 :: "mail_conf \<Rightarrow> bytes \<Rightarrow> ('st, 'z) mail_session_scheme \<Rightarrow> mail_rc \<times> ('st, 'z) mail_session_scheme" where
  "mail_cram_md5 c pre s =
    (if \<not> mc_auth_cram_md5 c then (M_INVALID_COMMAND, s)
     else
       (case (if ss_salt s = None then ngx_mail_salt c s else Some s) of
          None \<Rightarrow> (M_ERROR, s)
        | Some s \<Rightarrow>
            (case ngx_mail_auth_cram_md5_salt pre s of
               (M_OK, s) \<Rightarrow> (M_OK, s\<lparr>ss_mail_state := MS_auth_cram_md5\<rparr>)
             | (M_FAULT, s) \<Rightarrow> (M_FAULT, s)
             | (rc, s) \<Rightarrow> (M_ERROR, s))))"

definition ngx_mail_smtp_auth :: "mail_conf \<Rightarrow> smtp_session \<Rightarrow> mail_rc \<times> smtp_session" where
  "ngx_mail_smtp_auth c s =
    (if ngx_mail_starttls_only c s then (M_INVALID_COMMAND, s)
     else if ms_args s = [] then (M_OK, s\<lparr>ss_out := str ''501 5.5.4 Invalid argument'' @ crlf, ms_state := LS_start\<rparr>)
     else
       (case ngx_mail_auth_parse c s of
          (Auth NGX_MAIL_AUTH_LOGIN, s) \<Rightarrow>
            (M_OK, s\<lparr>ss_out := str ''334 VXNlcm5hbWU6'' @ crlf, ss_mail_state := MS_auth_login_username\<rparr>)
        | (Auth NGX_MAIL_AUTH_LOGIN_USERNAME, s) \<Rightarrow>
            ngx_mail_auth_login_username 1 (s\<lparr>ss_out := str ''334 UGFzc3dvcmQ6'' @ crlf, ss_mail_state := MS_auth_login_password\<rparr>)
        | (Auth NGX_MAIL_AUTH_PLAIN, s) \<Rightarrow> (M_OK, s\<lparr>ss_out := str ''334 '' @ crlf, ss_mail_state := MS_auth_plain\<rparr>)
        | (Auth NGX_MAIL_AUTH_CRAM_MD5, s) \<Rightarrow> mail_cram_md5 c (str ''334 '') s
        | (Auth _, s) \<Rightarrow> (M_INVALID_COMMAND, s)
        | (Auth_rc rc, s) \<Rightarrow> (rc, s)))"

text \<open>
  The line of the command: line ends become spaces, and spaces at the end are dropped.  The code does this in the buffer, which is
  emptied behind the command.
\<close>

definition smtp_text :: "bytes \<Rightarrow> bytes" where
  "smtp_text b = rev (dropWhile (\<lambda>ch. ch = ch_space) (rev (map (\<lambda>ch. if ch \<noteq> CR \<and> ch \<noteq> LF then ch else ch_space) b)))"

definition ngx_mail_smtp_mail :: "mail_conf \<Rightarrow> smtp_session \<Rightarrow> mail_rc \<times> smtp_session" where
  "ngx_mail_smtp_mail c s =
    (if \<not> mc_auth_none c then (M_OK, s\<lparr>ss_out := str ''530 5.7.1 Authentication required'' @ crlf\<rparr>)
     else if mail_len (ss_smtp_from s) \<noteq> 0 then (M_OK, s\<lparr>ss_out := str ''503 5.5.1 Bad sequence of commands'' @ crlf\<rparr>)
     else
       (case mail_alloc s of
          None \<Rightarrow> (M_ERROR, s\<lparr>ss_smtp_from := Undef (length (smtp_text (ss_buf s)))\<rparr>)
        | Some s \<Rightarrow> (M_OK, s\<lparr>ss_smtp_from := Bytes (smtp_text (ss_buf s)), ss_out := str ''250 2.0.0 OK'' @ crlf\<rparr>)))"

definition ngx_mail_smtp_rcpt :: "smtp_session \<Rightarrow> mail_rc \<times> smtp_session" where
  "ngx_mail_smtp_rcpt s =
    (if mail_len (ss_smtp_from s) = 0 then (M_OK, s\<lparr>ss_out := str ''503 5.5.1 Bad sequence of commands'' @ crlf\<rparr>)
     else
       (case mail_alloc s of
          None \<Rightarrow> (M_ERROR, s\<lparr>ss_smtp_to := Undef (length (smtp_text (ss_buf s)))\<rparr>)
        | Some s \<Rightarrow> (M_DONE, s\<lparr>ss_smtp_to := Bytes (smtp_text (ss_buf s)), ss_auth_method := NGX_MAIL_AUTH_NONE\<rparr>)))"

definition ngx_mail_smtp_rset :: "smtp_session \<Rightarrow> mail_rc \<times> smtp_session" where
  "ngx_mail_smtp_rset s = (M_OK, s\<lparr>ss_smtp_from := Bytes [], ss_smtp_to := Bytes [], ss_out := str ''250 2.0.0 OK'' @ crlf\<rparr>)"

definition ngx_mail_smtp_starttls :: "mail_conf \<Rightarrow> smtp_session \<Rightarrow> mail_rc \<times> smtp_session" where
  "ngx_mail_smtp_starttls c s =
    (if \<not> ss_ssl s \<and> mc_starttls c \<noteq> NGX_MAIL_STARTTLS_OFF
     then (M_OK, s\<lparr>ss_smtp_helo := Bytes [], ss_smtp_from := Bytes [], ss_smtp_to := Bytes [], ss_handler := H_starttls\<rparr>)
     else (M_INVALID_COMMAND, s))"

definition smtp_dispatch :: "mail_conf \<Rightarrow> smtp_session \<Rightarrow> mail_rc \<times> smtp_session" where
  "smtp_dispatch c s =
    (case ss_mail_state s of
       MS_start \<Rightarrow>
         if ms_command s = NGX_SMTP_HELO \<or> ms_command s = NGX_SMTP_EHLO then ngx_mail_smtp_helo c s
         else if ms_command s = NGX_SMTP_AUTH then ngx_mail_smtp_auth c s
         else if ms_command s = NGX_SMTP_QUIT then (M_OK, s\<lparr>ss_quit := True, ss_out := str ''221 2.0.0 Bye'' @ crlf\<rparr>)
         else if ms_command s = NGX_SMTP_MAIL then ngx_mail_smtp_mail c s
         else if ms_command s = NGX_SMTP_RCPT then ngx_mail_smtp_rcpt s
         else if ms_command s = NGX_SMTP_RSET then ngx_mail_smtp_rset s
         else if ms_command s = NGX_SMTP_NOOP then (M_OK, s)
         else if ms_command s = NGX_SMTP_STARTTLS then
           (let (rc, s) = ngx_mail_smtp_starttls c s in (rc, s\<lparr>ss_out := str ''220 2.0.0 Start TLS'' @ crlf\<rparr>))
         else (M_INVALID_COMMAND, s)
     | MS_auth_login_username \<Rightarrow>
         (let (rc, s) = ngx_mail_auth_login_username 0 s
          in (rc, s\<lparr>ss_out := str ''334 UGFzc3dvcmQ6'' @ crlf, ss_mail_state := MS_auth_login_password\<rparr>))
     | MS_auth_login_password \<Rightarrow> ngx_mail_auth_login_password s
     | MS_auth_plain \<Rightarrow> ngx_mail_auth_plain 0 s
     | MS_auth_cram_md5 \<Rightarrow> ngx_mail_auth_cram_md5 s
     | _ \<Rightarrow> (M_OK, s))"

definition ngx_mail_smtp_auth_state :: "mail_conf \<Rightarrow> mail_recv \<Rightarrow> mail_sent \<Rightarrow> smtp_session \<Rightarrow> smtp_session" where
  "ngx_mail_smtp_auth_state c rcv snt s =
    (if ss_out s \<noteq> [] then s\<lparr>ss_blocked := True\<rparr>
     else
       (case ngx_mail_read_command c ngx_mail_smtp_parse_command rcv snt (s\<lparr>ss_blocked := False\<rparr>) of
          (M_AGAIN, s) \<Rightarrow> s
        | (M_ERROR, s) \<Rightarrow> s
        | (rc, s) \<Rightarrow>
            (let s = s\<lparr>ss_out := str ''250 2.0.0 OK'' @ crlf\<rparr>
             in line_answer c snt (str ''500 5.5.1 Invalid command'' @ crlf) (if rc = M_OK then smtp_dispatch c s else (rc, s)))))"

subsection \<open>IMAP\<close>

type_synonym imap_msession = "imap_state mail_session"

text \<open>The loop that removes the backslashes of one argument: the buffer, and where the argument ends now.\<close>

function imap_unescape :: "bytes \<Rightarrow> nat \<Rightarrow> nat \<Rightarrow> nat \<Rightarrow> (bytes \<times> nat) option" where
  "imap_unescape b dst src e =
    (if src < e then
       (if src < length b then
          (let ch = b ! src; b = b[dst := ch] in
           if ch = ch_backslash then
             (if src + 1 < length b then imap_unescape (b[dst := b ! (src + 1)]) (dst + 1) (src + 2) e else None)
           else imap_unescape b (dst + 1) (src + 1) e)
        else None)
     else Some (b, dst))"
  by auto
termination
  by (relation "measure (\<lambda>(b, dst, src, e). e - src)") auto

declare imap_unescape.simps [simp del]

fun imap_unescape_args :: "bytes \<Rightarrow> (nat \<times> nat) list \<Rightarrow> (bytes \<times> (nat \<times> nat) list) option" where
  "imap_unescape_args b [] = Some (b, [])"
| "imap_unescape_args b ((a, l) # args) =
    (case imap_unescape b a a (a + l) of
       None \<Rightarrow> None
     | Some (b, e) \<Rightarrow> map_option (\<lambda>(b, args). (b, (a, e - a) # args)) (imap_unescape_args b args))"

definition ngx_mail_imap_login :: "mail_conf \<Rightarrow> imap_msession \<Rightarrow> mail_rc \<times> imap_msession" where
  "ngx_mail_imap_login c s =
    (if ngx_mail_starttls_only c s then (M_INVALID_COMMAND, s)
     else if length (ms_args s) \<noteq> 2 \<or> arg_len 0 s = 0 then (M_INVALID_COMMAND, s)
     else
       (case mail_copy 0 s of
          Inl rc \<Rightarrow> (rc, s\<lparr>ss_login := Undef (arg_len 0 s)\<rparr>)
        | Inr (login, s) \<Rightarrow>
            (case mail_copy 1 s of
               Inl rc \<Rightarrow> (rc, s\<lparr>ss_login := Bytes login, ss_passwd := Undef (arg_len 1 s)\<rparr>)
             | Inr (passwd, s) \<Rightarrow> (M_DONE, s\<lparr>ss_login := Bytes login, ss_passwd := Bytes passwd\<rparr>))))"

definition ngx_mail_imap_authenticate :: "mail_conf \<Rightarrow> imap_msession \<Rightarrow> mail_rc \<times> imap_msession" where
  "ngx_mail_imap_authenticate c s =
    (if ngx_mail_starttls_only c s then (M_INVALID_COMMAND, s)
     else
       (case ngx_mail_auth_parse c s of
          (Auth NGX_MAIL_AUTH_LOGIN, s) \<Rightarrow>
            (M_OK, s\<lparr>ss_out := str ''+ VXNlcm5hbWU6'' @ crlf, ss_mail_state := MS_auth_login_username\<rparr>)
        | (Auth NGX_MAIL_AUTH_LOGIN_USERNAME, s) \<Rightarrow>
            ngx_mail_auth_login_username 1 (s\<lparr>ss_out := str ''+ UGFzc3dvcmQ6'' @ crlf, ss_mail_state := MS_auth_login_password\<rparr>)
        | (Auth NGX_MAIL_AUTH_PLAIN, s) \<Rightarrow> (M_OK, s\<lparr>ss_out := str ''+ '' @ crlf, ss_mail_state := MS_auth_plain\<rparr>)
        | (Auth NGX_MAIL_AUTH_CRAM_MD5, s) \<Rightarrow> mail_cram_md5 c (str ''+ '') s
        | (Auth _, s) \<Rightarrow> (M_INVALID_COMMAND, s)
        | (Auth_rc rc, s) \<Rightarrow> (rc, s)))"

definition ngx_mail_imap_capability :: "mail_conf \<Rightarrow> imap_msession \<Rightarrow> mail_rc \<times> imap_msession" where
  "ngx_mail_imap_capability c s =
    (if \<not> ss_ssl s \<and> mc_starttls c = NGX_MAIL_STARTTLS_ON then (M_OK, s\<lparr>ss_text := mc_starttls_capability c\<rparr>)
     else if \<not> ss_ssl s \<and> mc_starttls c = NGX_MAIL_STARTTLS_ONLY then (M_OK, s\<lparr>ss_text := mc_starttls_only_capability c\<rparr>)
     else (M_OK, s\<lparr>ss_text := mc_capability c\<rparr>))"

definition ngx_mail_imap_starttls :: "mail_conf \<Rightarrow> imap_msession \<Rightarrow> mail_rc \<times> imap_msession" where
  "ngx_mail_imap_starttls c s =
    (if \<not> ss_ssl s \<and> mc_starttls c \<noteq> NGX_MAIL_STARTTLS_OFF then (M_OK, s\<lparr>ss_handler := H_starttls\<rparr>) else (M_INVALID_COMMAND, s))"

text \<open>The switch on the state and the command: the result, whether the answer has the tag, and the session.\<close>

definition imap_dispatch :: "mail_conf \<Rightarrow> imap_msession \<Rightarrow> mail_rc \<times> bool \<times> imap_msession" where
  "imap_dispatch c s =
    (let tagged = (\<lambda>(rc, s). (rc, True, s)) in
     case ss_mail_state s of
       MS_start \<Rightarrow>
         if ms_command s = NGX_IMAP_LOGIN then tagged (ngx_mail_imap_login c s)
         else if ms_command s = NGX_IMAP_AUTHENTICATE then (let (rc, s) = ngx_mail_imap_authenticate c s in (rc, rc \<noteq> M_OK, s))
         else if ms_command s = NGX_IMAP_CAPABILITY then tagged (ngx_mail_imap_capability c s)
         else if ms_command s = NGX_IMAP_LOGOUT then (M_OK, True, s\<lparr>ss_quit := True, ss_text := str ''* BYE'' @ crlf\<rparr>)
         else if ms_command s = NGX_IMAP_NOOP then (M_OK, True, s)
         else if ms_command s = NGX_IMAP_STARTTLS then tagged (ngx_mail_imap_starttls c s)
         else (M_INVALID_COMMAND, True, s)
     | MS_auth_login_username \<Rightarrow>
         (let (rc, s) = ngx_mail_auth_login_username 0 s
          in (rc, False, s\<lparr>ss_out := str ''+ UGFzc3dvcmQ6'' @ crlf, ss_mail_state := MS_auth_login_password\<rparr>))
     | MS_auth_login_password \<Rightarrow> tagged (ngx_mail_auth_login_password s)
     | MS_auth_plain \<Rightarrow> tagged (ngx_mail_auth_plain 0 s)
     | MS_auth_cram_md5 \<Rightarrow> tagged (ngx_mail_auth_cram_md5 s)
     | _ \<Rightarrow> (M_OK, True, s))"

text \<open>\<open>if (tag)\<close>: the answer behind the text and the tag; the line for it is allocated anew when it does not fit.\<close>

definition imap_tag_text :: "imap_msession \<Rightarrow> bytes" where
  "imap_tag_text s = (if ms_tag_star s then str ''* '' else take (ms_tag s) (ss_buf s))"

definition imap_tag :: "imap_msession \<Rightarrow> imap_msession option" where
  "imap_tag s =
    (let s = (if ms_tag s = 0 then s\<lparr>ms_tag := 2, ms_tag_star := True\<rparr> else s);
         n = ms_tag s + length (ss_text s) + length (ss_out s)
     in map_option (\<lambda>s. s\<lparr>ss_out := ss_text s @ imap_tag_text s @ ss_out s\<rparr>)
          (if ss_tagged_line s < n then mail_alloc (s\<lparr>ss_tagged_line := n\<rparr>) else Some s))"

definition imap_reset :: "imap_msession \<Rightarrow> imap_msession" where
  "imap_reset s =
    (let s = s\<lparr>ms_args := []\<rparr> in
     if ms_state s \<noteq> IS_start
     then s\<lparr>ms_arg_start := Some (ms_tag s), ss_pos := ms_tag s, ss_buf := take (ms_tag s) (ss_buf s), ms_lpos := 0\<rparr>
     else s\<lparr>ss_pos := 0, ss_buf := [], ms_tag := 0, ms_lpos := 0\<rparr>)"

definition imap_answer :: "mail_conf \<Rightarrow> mail_sent \<Rightarrow> mail_rc \<times> bool \<times> imap_msession \<Rightarrow> imap_msession" where
  "imap_answer c snt = (\<lambda>(rc, tag, s).
    case rc of
      M_DONE \<Rightarrow> ngx_mail_auth IS_start s
    | M_ERROR \<Rightarrow> ngx_mail_session_internal_server_error c snt s
    | M_FAULT \<Rightarrow> s\<lparr>ss_handler := H_fault\<rparr>
    | _ \<Rightarrow>
        (let s = (if rc = M_INVALID_COMMAND
           then s\<lparr>ms_state := IS_start, ss_out := str ''BAD invalid command'' @ crlf, ss_mail_state := MS_start\<rparr> else s) in
         case (if tag then imap_tag s else Some s) of
           None \<Rightarrow> ngx_mail_close_connection s
         | Some s \<Rightarrow> ngx_mail_send snt (if rc \<noteq> M_IMAP_NEXT then imap_reset s else s)))"

definition imap_backslashes :: "imap_msession \<Rightarrow> imap_msession option" where
  "imap_backslashes s =
    (if ms_backslash s
     then map_option (\<lambda>(b, args). s\<lparr>ss_buf := b, ms_args := args, ms_backslash := False\<rparr>) (imap_unescape_args (ss_buf s) (ms_args s))
     else Some s)"

definition ngx_mail_imap_auth_state :: "mail_conf \<Rightarrow> mail_recv \<Rightarrow> mail_sent \<Rightarrow> imap_msession \<Rightarrow> imap_msession" where
  "ngx_mail_imap_auth_state c rcv snt s =
    (if ss_out s \<noteq> [] then s\<lparr>ss_blocked := True\<rparr>
     else
       (case ngx_mail_read_command c ngx_mail_imap_parse_command rcv snt (s\<lparr>ss_blocked := False\<rparr>) of
          (M_AGAIN, s) \<Rightarrow> s
        | (M_ERROR, s) \<Rightarrow> s
        | (rc, s) \<Rightarrow>
            (let s = s\<lparr>ss_text := [], ss_out := str ''OK completed'' @ crlf\<rparr>
             in imap_answer c snt
                  (if rc = M_OK then
                     (case imap_backslashes s of None \<Rightarrow> (M_FAULT, True, s) | Some s \<Rightarrow> imap_dispatch c s)
                   else if rc = M_IMAP_NEXT then (rc, False, s\<lparr>ss_out := str ''+ OK'' @ crlf\<rparr>)
                   else (rc, True, s)))))"

subsection \<open>Events\<close>

text \<open>The buffer and the array of the arguments; POP3 and IMAP create them in place.\<close>

definition ngx_mail_smtp_create_buffer :: "mail_conf \<Rightarrow> mail_sent \<Rightarrow> ('st, 'z) mail_session_scheme \<Rightarrow> bool \<times> ('st, 'z) mail_session_scheme" where
  "ngx_mail_smtp_create_buffer c snt s =
    (let error = (\<lambda>s. (False, ngx_mail_session_internal_server_error c snt s)) in
     case mail_alloc s of
       None \<Rightarrow> error s
     | Some s \<Rightarrow>
         (case mail_alloc s of
            None \<Rightarrow> error (s\<lparr>ms_args := [], ms_nalloc := 2\<rparr>)
          | Some s \<Rightarrow>
              (True, s\<lparr>ms_args := [], ms_nalloc := 2, ss_buffer := Some (mc_buffer_size c), ss_buf := [], ss_pos := 0\<rparr>)))"

definition mail_init_protocol :: "mail_conf \<Rightarrow> mail_sent \<Rightarrow> ('st, 'z) mail_session_scheme \<Rightarrow> bool \<times> ('st, 'z) mail_session_scheme" where
  "mail_init_protocol c snt s =
    (case (if ss_buffer s = None then ngx_mail_smtp_create_buffer c snt s else (True, s)) of
       (False, s) \<Rightarrow> (False, s)
     | (True, s) \<Rightarrow> (True, s\<lparr>ss_mail_state := MS_start, ss_handler := H_auth_state\<rparr>))"

text \<open>The session as \<open>ngx_pcalloc\<close> leaves it, on a connection with or without TLS, and the greetings.\<close>

definition mail_session_init :: "'st \<Rightarrow> nat \<Rightarrow> bool \<Rightarrow> 'st mail_session" where
  "mail_session_init st pool ssl =
    \<lparr>ms_state = st, ms_command = 0, ms_args = [], ms_nalloc = 0, ms_pool = pool, ms_tag = 0, ms_tag_star = False, ms_cmd_start = None,
      ms_arg_start = None, ms_arg_end = None, ms_literal_len = 0, ms_quoted = False, ms_backslash = False, ms_no_sync_literal = False,
      ms_lpos = 0, ss_handler = H_none, ss_mail_state = MS_start, ss_buffer = None, ss_buf = [], ss_pos = 0, ss_out = [], ss_text = [],
      ss_tagged_line = 0, ss_login = Bytes [], ss_passwd = Bytes [], ss_salt = None, ss_auth_method = NGX_MAIL_AUTH_PLAIN,
      ss_login_attempt = 0, ss_quit = False, ss_blocked = False, ss_ssl = ssl, ss_starttls = False, ss_esmtp = False,
      ss_smtp_helo = Bytes [], ss_smtp_from = Bytes [], ss_smtp_to = Bytes []\<rparr>"

text \<open>
  The end of the functions that start a session.  \<open>registered\<close> is the result of \<open>ngx_handle_read_event\<close>: when it fails the connection
  is closed, and \<open>ngx_mail_send\<close> is called on it all the same.  It then takes \<open>c->data\<close> for the session, which is by then a
  link of the list of free connections.
\<close>

definition mail_greet :: "bool \<Rightarrow> mail_sent \<Rightarrow> ('st, 'z) mail_session_scheme \<Rightarrow> ('st, 'z) mail_session_scheme" where
  "mail_greet registered snt s =
    (if registered then ngx_mail_send snt s else (ngx_mail_close_connection s)\<lparr>ss_handler := H_fault\<rparr>)"

text \<open>On an error the read handler is not set: \<open>H_none\<close>.\<close>

definition ngx_mail_pop3_init_session :: "mail_conf \<Rightarrow> bool \<Rightarrow> mail_sent \<Rightarrow> pop3_session \<Rightarrow> pop3_session" where
  "ngx_mail_pop3_init_session c registered snt s =
    (if mc_auth_apop c \<or> mc_auth_cram_md5 c then
       (case ngx_mail_salt c s of
          None \<Rightarrow> ngx_mail_session_internal_server_error c snt s
        | Some s \<Rightarrow>
            (case mail_alloc s of
               None \<Rightarrow> ngx_mail_session_internal_server_error c snt s
             | Some s \<Rightarrow> mail_greet registered snt (s\<lparr>ss_out := str ''+OK POP3 ready '' @ mc_salt c, ss_handler := H_init_protocol\<rparr>)))
     else mail_greet registered snt (s\<lparr>ss_out := str ''+OK POP3 ready'' @ crlf, ss_handler := H_init_protocol\<rparr>))"

definition ngx_mail_imap_init_session :: "bool \<Rightarrow> mail_sent \<Rightarrow> imap_msession \<Rightarrow> imap_msession" where
  "ngx_mail_imap_init_session registered snt s =
    mail_greet registered snt (s\<lparr>ss_out := str ''* OK IMAP4 ready'' @ crlf, ss_handler := H_init_protocol\<rparr>)"

text \<open>
  SMTP greets a client at once, or after a delay in which the client must not send.  With a delay a failed
  \<open>ngx_handle_read_event\<close> only leaves a handler in the event of a connection that is closed.
\<close>

definition ngx_mail_smtp_greeting :: "mail_conf \<Rightarrow> bool \<Rightarrow> mail_sent \<Rightarrow> smtp_session \<Rightarrow> smtp_session" where
  "ngx_mail_smtp_greeting c registered snt s =
    (if mc_greeting_delay c then
       (if registered then s\<lparr>ss_handler := H_invalid_pipelining\<rparr> else ngx_mail_close_connection s)
     else mail_greet registered snt (s\<lparr>ss_out := mc_greeting c, ss_handler := H_init_protocol\<rparr>))"

definition ngx_mail_smtp_discard_command ::
  "mail_conf \<Rightarrow> mail_recv \<Rightarrow> mail_sent \<Rightarrow> ('st, 'z) mail_session_scheme \<Rightarrow> bool \<times> ('st, 'z) mail_session_scheme" where
  "ngx_mail_smtp_discard_command c rcv snt s =
    (case ss_buffer s of
       None \<Rightarrow> (False, s\<lparr>ss_handler := H_fault\<rparr>)
     | Some sz \<Rightarrow>
         (case rcv of
            R_closed \<Rightarrow> (False, ngx_mail_close_connection s)
          | R_again \<Rightarrow> (False, s)
          | R_again_error \<Rightarrow> (False, ngx_mail_session_internal_server_error c snt s)
          | R_data d \<Rightarrow>
              if take (sz - length (ss_buf s)) d = [] then (False, ngx_mail_close_connection s)
              else (True, s\<lparr>ss_pos := 0, ss_buf := []\<rparr>)))"

text \<open>The two branches of \<open>ngx_mail_smtp_invalid_pipelining\<close>: a client that sends before the greeting, and the end of the delay.\<close>

definition smtp_early_talker ::
  "mail_conf \<Rightarrow> mail_recv \<Rightarrow> mail_sent \<Rightarrow> ('st, 'z) mail_session_scheme \<Rightarrow> ('st, 'z) mail_session_scheme" where
  "smtp_early_talker c rcv snt s =
    (case (if ss_buffer s = None then ngx_mail_smtp_create_buffer c snt s else (True, s)) of
       (False, s) \<Rightarrow> s
     | (True, s) \<Rightarrow>
         (case ngx_mail_smtp_discard_command c rcv snt s of
            (False, s) \<Rightarrow> s
          | (True, s) \<Rightarrow> ngx_mail_send snt (s\<lparr>ss_out := str ''503 5.5.0 Improper use of SMTP command pipelining'' @ crlf\<rparr>)))"

definition smtp_delayed_greeting ::
  "mail_conf \<Rightarrow> bool \<Rightarrow> mail_sent \<Rightarrow> ('st, 'z) mail_session_scheme \<Rightarrow> ('st, 'z) mail_session_scheme" where
  "smtp_delayed_greeting c registered snt s =
    (let s = s\<lparr>ss_handler := H_init_protocol\<rparr> in
     if \<not> registered then ngx_mail_close_connection s else ngx_mail_send snt (s\<lparr>ss_out := mc_greeting c\<rparr>))"

text \<open>
  The events of a connection, with what the calls of \<open>recv\<close> and \<open>send\<close> that they lead to return: data or an error on the
  client's side, room for output, the end of a TLS handshake, a timeout, the end of the delay of the SMTP greeting, and the
  refusal of a login by the authentication server after its delay (\<open>ngx_mail_auth_sleep_handler\<close>).
\<close>

datatype mail_event =
    Ev_read mail_recv mail_sent
  | Ev_write mail_sent mail_recv mail_sent
  | Ev_handshake bool mail_recv mail_sent
  | Ev_timeout
  | Ev_delay bool mail_sent
  | Ev_refused bytes mail_sent

definition mail_read ::
  "mail_conf \<Rightarrow> (mail_recv \<Rightarrow> mail_sent \<Rightarrow> ('st, 'z) mail_session_scheme \<Rightarrow> ('st, 'z) mail_session_scheme) \<Rightarrow>
    mail_recv \<Rightarrow> mail_sent \<Rightarrow> ('st, 'z) mail_session_scheme \<Rightarrow> ('st, 'z) mail_session_scheme" where
  "mail_read c auth_state rcv snt s =
    (case ss_handler s of
       H_invalid_pipelining \<Rightarrow> smtp_early_talker c rcv snt s
     | H_init_protocol \<Rightarrow> (let (ok, s) = mail_init_protocol c snt s in if ok then auth_state rcv snt s else s)
     | H_auth_state \<Rightarrow> auth_state rcv snt s
     | _ \<Rightarrow> s)"

text \<open>\<open>if (s->blocked) c->read->handler(c->read)\<close> behind a successful send\<close>

definition mail_unblocked :: "mail_sent \<Rightarrow> ('st, 'z) mail_session_scheme \<Rightarrow> bool" where
  "mail_unblocked snt s =
    (ss_blocked s \<and> ss_out s \<noteq> [] \<and> \<not> ss_quit s \<and> (case snt of S_sent n \<Rightarrow> n > 0 | _ \<Rightarrow> False))"

definition mail_event ::
  "mail_conf \<Rightarrow> (mail_recv \<Rightarrow> mail_sent \<Rightarrow> ('st, 'z) mail_session_scheme \<Rightarrow> ('st, 'z) mail_session_scheme) \<Rightarrow>
    mail_event \<Rightarrow> ('st, 'z) mail_session_scheme \<Rightarrow> ('st, 'z) mail_session_scheme" where
  "mail_event c auth_state ev s =
    (case ev of
       Ev_read rcv snt \<Rightarrow> mail_read c auth_state rcv snt s
     | Ev_write snt rcv snt' \<Rightarrow>
         if ss_handler s = H_closed \<or> ss_handler s = H_fault then s
         else if mail_unblocked snt s then mail_read c auth_state rcv snt' (ngx_mail_send snt s)
         else ngx_mail_send snt s
     | Ev_handshake ok rcv snt \<Rightarrow>
         if ss_handler s = H_starttls then
           (if ok then
              (let (ok, s) = mail_init_protocol c snt (s\<lparr>ss_starttls := True, ss_ssl := True\<rparr>) in if ok then auth_state rcv snt s else s)
            else ngx_mail_close_connection (s\<lparr>ss_starttls := True\<rparr>))
         else s
     | Ev_timeout \<Rightarrow>
         if ss_handler s = H_init_protocol \<or> ss_handler s = H_auth_state then ngx_mail_close_connection s else s
     | Ev_delay registered snt \<Rightarrow>
         if ss_handler s = H_invalid_pipelining then smtp_delayed_greeting c registered snt s else s
     | Ev_refused text snt \<Rightarrow>
         if ss_handler s = H_auth
         then ngx_mail_send snt
           (s\<lparr>ss_handler := H_auth_state, ss_mail_state := MS_start, ss_auth_method := NGX_MAIL_AUTH_PLAIN, ss_out := text\<rparr>)
         else s)"

end
