(* ===== verification/Ngx_Mail_Parse_Correct.thy ===== *)
theory Ngx_Mail_Parse_Correct
  imports Ngx_Mail_Parse
begin

section \<open>Correctness of the mail command parsers\<close>

text \<open>
  The result of a mail parser does not depend on how the input is cut into pieces; the arguments that POP3 and SMTP commands
  get are words of the line that lie inside the buffer; and a POP3 line is read as the command and the arguments that it
  was made of.
\<close>

named_theorems mail_cases \<open>the definitions of the cases of the switches\<close>

declare line_spaces_before_argument_def [mail_cases] line_argument_def [mail_cases] line_almost_done_def [mail_cases]
  mail_after_def [mail_cases] pop3_start_def [mail_cases] pop3_argument_def [mail_cases] smtp_start_def [mail_cases]
  imap_start_def [mail_cases] imap_spaces_before_command_def [mail_cases] imap_command_def [mail_cases]
  imap_spaces_before_argument_def [mail_cases] imap_argument_def [mail_cases] imap_backslash_def [mail_cases]
  imap_literal_def [mail_cases] imap_no_sync_literal_argument_def [mail_cases] imap_start_literal_argument_def [mail_cases]
  imap_literal_argument_def [mail_cases] imap_end_literal_argument_def [mail_cases] imap_almost_done_def [mail_cases]

subsection \<open>Resumption\<close>

text \<open>
  Results that a caller cannot tell apart: the same code, and the same session and position unless the command failed.  After
  an invalid command the callers empty the buffer, and after an error they close the connection.
\<close>

fun same_result :: "mail_rc \<times> nat \<times> 's \<Rightarrow> mail_rc \<times> nat \<times> 's \<Rightarrow> bool" where
  "same_result (rc, p, s) (rc', p', s') =
    (rc = rc' \<and> (rc = M_OK \<or> rc = M_AGAIN \<or> rc = M_IMAP_NEXT \<longrightarrow> p = p' \<and> s = s') \<and> (rc = M_INVALID_COMMAND \<longrightarrow> s = s'))"

lemma same_result_refl [simp]: "same_result r r"
  by (cases r) simp

text \<open>What the parsers share: the loop, and what the labels behind it do.\<close>

locale mail_parser = resumable step ms_state "\<lambda>st s. s\<lparr>ms_state := st\<rparr>"
  for step :: "('st, ('st, 'z) mail_parse_scheme, mail_label, mail_rc) stepper" +
  fixes finish :: "mail_label \<Rightarrow> nat \<Rightarrow> nat \<Rightarrow> ('st, 'z) mail_parse_scheme \<Rightarrow> mail_rc \<times> nat \<times> ('st, 'z) mail_parse_scheme"
    and failed :: "nat \<Rightarrow> ('st, 'z) mail_parse_scheme \<Rightarrow> nat"
    and parse :: "('st, 'z) mail_parse_scheme \<Rightarrow> bytes \<Rightarrow> nat \<Rightarrow> mail_rc \<times> nat \<times> ('st, 'z) mail_parse_scheme"
  assumes parse_eq: "parse s buf pos =
      (case scan step buf pos (ms_state s) s of
         Exhausted p st s' \<Rightarrow> (M_AGAIN, p, s'\<lparr>ms_state := st\<rparr>)
       | Jumped l p s' \<Rightarrow> finish l pos p s'
       | Returned rc s' \<Rightarrow> (rc, failed pos s', s'))"
    and step_rc: "step b p ch st s = Return rc s' \<Longrightarrow> rc = M_ERROR \<or> rc = M_FAULT"
    and finish_rc: "fst (finish l pos p s) \<noteq> M_AGAIN"
    and finish_save: "same_result (finish l pos p (s\<lparr>ms_state := st\<rparr>)) (finish l pos' p s)"
begin

lemma scan_rc: "scan step b p st s = Returned rc s' \<Longrightarrow> rc = M_ERROR \<or> rc = M_FAULT"
  using scan_outcome(3) [where I = "\<lambda>_ _ _. True" and f = step] step_rc by (fastforce simp: scan_keeps_def)

lemma parse_again:
  assumes "parse s b pos = (M_AGAIN, q, s1)"
  shows "\<exists>st s'. scan step b pos (ms_state s) s = Exhausted q st s' \<and> s1 = s'\<lparr>ms_state := st\<rparr>"
proof (cases "scan step b pos (ms_state s) s")
  case (Jumped l p s')
  then show ?thesis using assms finish_rc [of l pos p s'] by (simp add: parse_eq)
next
  case (Returned rc s')
  then show ?thesis using assms scan_rc [OF Returned] by (auto simp: parse_eq)
qed (use assms in \<open>simp add: parse_eq\<close>)

lemma parse_resume:
  assumes "pos \<le> length b" "parse s b pos = (M_AGAIN, q, s1)"
  shows "same_result (parse s1 (b @ rest) q) (parse s (b @ rest) pos)"
proof -
  obtain st s' where run: "scan step b pos (ms_state s) s = Exhausted q st s'" and s1: "s1 = s'\<lparr>ms_state := st\<rparr>"
    using parse_again [OF assms(2)] by blast
  note eq = scan_resume [OF assms(1) run, of rest, folded s1]
  show ?thesis
  proof (cases "scan step (b @ rest) pos (ms_state s) s")
    case (Jumped l p s2)
    then show ?thesis using eq finish_save by (simp add: parse_eq)
  next
    case (Returned rc s2)
    then show ?thesis using eq scan_rc [OF Returned] by (auto simp: parse_eq)
  qed (use eq in \<open>simp add: parse_eq\<close>)
qed

end

lemma mail_arg_states:
  "mail_arg e (s\<lparr>ms_state := st\<rparr>) = map_sum id (\<lambda>s. s\<lparr>ms_state := st\<rparr>) (mail_arg e s)"
  "mail_arg e (s\<lparr>ms_state := st, ms_quoted := q\<rparr>) = map_sum id (\<lambda>s. s\<lparr>ms_state := st\<rparr>) (mail_arg e (s\<lparr>ms_quoted := q\<rparr>))"
  "mail_arg e (s\<lparr>ms_state := st, ms_literal_len := n\<rparr>) = map_sum id (\<lambda>s. s\<lparr>ms_state := st\<rparr>) (mail_arg e (s\<lparr>ms_literal_len := n\<rparr>))"
  by (simp_all add: mail_arg_def mail_push_def split: option.split)

lemma mail_arg_rc: "mail_arg e s = Inl rc \<Longrightarrow> rc = M_ERROR \<or> rc = M_FAULT"
  by (auto simp: mail_arg_def split: option.splits if_splits)

lemma mail_after_state: "mail_after ch a b (s\<lparr>ms_state := st\<rparr>) = map_step id (\<lambda>s. s\<lparr>ms_state := st\<rparr>) id id (mail_after ch a b s)"
  by (simp add: mail_after_def)

lemma mail_after_rc: "mail_after ch a b s \<noteq> Return rc s'"
  by (simp add: mail_after_def)

lemma line_done_save: "same_result (line_done auth p (s\<lparr>ms_state := st\<rparr>)) (line_done auth p s)"
  using mail_arg_rc [of _ s] by (fastforce simp: line_done_def Let_def mail_arg_states split: option.splits sum.splits)

lemma line_done_rc: "fst (line_done auth p s) \<noteq> M_AGAIN"
  using mail_arg_rc [of _ s] by (fastforce simp: line_done_def Let_def split: option.splits sum.splits)

lemma line_argument_state: "line_argument p ch (s\<lparr>ms_state := st\<rparr>) = map_step id (\<lambda>s. s\<lparr>ms_state := st\<rparr>) id id (line_argument p ch s)"
  by (simp add: line_argument_def mail_arg_states mail_after_state split: sum.split)

lemma line_argument_rc: "line_argument p ch s = Return rc s' \<Longrightarrow> rc = M_ERROR \<or> rc = M_FAULT"
  using mail_arg_rc by (fastforce simp: line_argument_def mail_after_rc split: if_splits sum.splits)

lemma pop3_step_state: "pop3_step b p ch st (s\<lparr>ms_state := x\<rparr>) = map_step id (\<lambda>s. s\<lparr>ms_state := x\<rparr>) id id (pop3_step b p ch st s)"
  by (cases st) (simp_all add: mail_cases line_argument_state mail_arg_states split: option.split sum.split)

lemma smtp_step_state: "smtp_step b p ch st (s\<lparr>ms_state := x\<rparr>) = map_step id (\<lambda>s. s\<lparr>ms_state := x\<rparr>) id id (smtp_step b p ch st s)"
  by (cases st) (simp_all add: mail_cases line_argument_state mail_arg_states split: option.split sum.split)

lemma imap_step_state: "imap_step b p ch st (s\<lparr>ms_state := x\<rparr>) = map_step id (\<lambda>s. s\<lparr>ms_state := x\<rparr>) id id (imap_step b p ch st s)"
  by (cases st) (simp_all add: mail_cases Let_def mail_arg_states split: option.split sum.split)

lemma pop3_step_rc: "pop3_step b p ch st s = Return rc s' \<Longrightarrow> rc = M_ERROR \<or> rc = M_FAULT"
  using line_argument_rc [of p ch s rc s'] by (cases st) (auto simp: mail_cases simp del: line_argument_def split: option.splits if_splits)

lemma smtp_step_rc: "smtp_step b p ch st s = Return rc s' \<Longrightarrow> rc = M_ERROR \<or> rc = M_FAULT"
  using line_argument_rc [of p ch s rc s'] by (cases st) (auto simp: mail_cases simp del: line_argument_def split: option.splits if_splits)

lemma imap_step_rc: "imap_step b p ch st s = Return rc s' \<Longrightarrow> rc = M_ERROR \<or> rc = M_FAULT"
  using mail_arg_rc by (cases st) (auto simp: mail_cases Let_def split: option.splits if_splits sum.splits)

lemma line_invalid_save: "same_result (line_invalid pos (s\<lparr>ms_state := st\<rparr>)) (line_invalid pos' s)"
  by (simp add: line_invalid_def)

lemma imap_done_save: "same_result (imap_done p (s\<lparr>ms_state := st\<rparr>)) (imap_done p s)"
  using mail_arg_rc [of _ s] by (fastforce simp: imap_done_def Let_def mail_arg_states split: option.splits sum.splits)

lemma imap_done_rc: "fst (imap_done p s) \<noteq> M_AGAIN"
  using mail_arg_rc [of _ s] by (fastforce simp: imap_done_def Let_def split: option.splits sum.splits)

lemma imap_command_local: "p < length b \<Longrightarrow> imap_command (b @ rest) p ch s = imap_command b p ch s"
  by (simp add: imap_command_def bslice_def split: option.split)

definition line_finish :: "nat \<Rightarrow> mail_label \<Rightarrow> nat \<Rightarrow> nat \<Rightarrow> 'z line_session \<Rightarrow> mail_rc \<times> nat \<times> 'z line_session" where
  "line_finish auth l pos p s = (if l = ML_done then line_done auth p s else line_invalid pos s)"

definition imap_finish :: "mail_label \<Rightarrow> nat \<Rightarrow> nat \<Rightarrow> 'z imap_session \<Rightarrow> mail_rc \<times> nat \<times> 'z imap_session" where
  "imap_finish l pos p s =
    (case l of
       ML_done \<Rightarrow> imap_done p s
     | ML_invalid \<Rightarrow> imap_invalid pos s
     | ML_reject \<Rightarrow> (M_INVALID_COMMAND, max pos (ms_lpos s), s\<lparr>ms_state := IS_start\<rparr>)
     | ML_next \<Rightarrow> (M_IMAP_NEXT, p + 1, s\<lparr>ms_state := IS_literal_argument\<rparr>))"

lemma line_finish_save: "same_result (line_finish auth l pos p (s\<lparr>ms_state := st\<rparr>)) (line_finish auth l pos' p s)"
  by (simp add: line_finish_def line_done_save line_invalid_save)

lemma line_finish_rc: "fst (line_finish auth l pos p s) \<noteq> M_AGAIN"
  by (simp add: line_finish_def line_done_rc) (simp add: line_invalid_def)

lemma pop3_step_local: "p < length b \<Longrightarrow> pop3_step (b @ rest) p ch st s = pop3_step b p ch st s"
  by (cases st) (auto simp: pop3_start_def)

lemma smtp_step_local: "p < length b \<Longrightarrow> smtp_step (b @ rest) p ch st s = smtp_step b p ch st s"
  by (cases st) (auto simp: smtp_start_def)

lemma imap_step_local: "p < length b \<Longrightarrow> imap_step (b @ rest) p ch st s = imap_step b p ch st s"
  by (cases st) (auto simp: imap_command_local)

lemma imap_finish_save: "same_result (imap_finish l pos p (s\<lparr>ms_state := st\<rparr>)) (imap_finish l pos' p s)"
  by (cases l) (simp_all add: imap_finish_def imap_done_save imap_invalid_def)

lemma imap_finish_rc: "fst (imap_finish l pos p s) \<noteq> M_AGAIN"
  by (cases l) (simp_all add: imap_finish_def imap_done_rc imap_invalid_def)

interpretation pop3: mail_parser pop3_step "line_finish NGX_POP3_AUTH" "\<lambda>pos s. pos" ngx_mail_pop3_parse_command
  by unfold_locales
    (simp add: pop3_step_local, simp, rule pop3_step_state,
     simp add: ngx_mail_pop3_parse_command_def line_parse_def line_finish_def split: outcome.split,
     erule pop3_step_rc, rule line_finish_rc, rule line_finish_save)

interpretation smtp: mail_parser smtp_step "line_finish NGX_SMTP_AUTH" "\<lambda>pos s. pos" ngx_mail_smtp_parse_command
  by unfold_locales
    (simp add: smtp_step_local, simp, rule smtp_step_state,
     simp add: ngx_mail_smtp_parse_command_def line_parse_def line_finish_def split: outcome.split,
     erule smtp_step_rc, rule line_finish_rc, rule line_finish_save)

interpretation imap: mail_parser imap_step imap_finish "\<lambda>pos s. max pos (ms_lpos s)" ngx_mail_imap_parse_command
  by unfold_locales
    (simp add: imap_step_local, simp, rule imap_step_state,
     simp add: ngx_mail_imap_parse_command_def imap_finish_def split: outcome.split mail_label.split,
     erule imap_step_rc, rule imap_finish_rc, rule imap_finish_save)

text \<open>
  C13. The result of a mail command parser does not depend on how the input is cut into pieces: if a parser, at a position inside
  the buffer, asks for more input, then calling it again with the session it left and the longer buffer gives the result that
  one call on the longer buffer gives.
\<close>

theorem mail_parse_resume:
  assumes "pos \<le> length b"
  shows "(ngx_mail_pop3_parse_command s b pos = (M_AGAIN, q, s1) \<longrightarrow>
      same_result (ngx_mail_pop3_parse_command s1 (b @ rest) q) (ngx_mail_pop3_parse_command s (b @ rest) pos)) \<and>
    (ngx_mail_smtp_parse_command s b pos = (M_AGAIN, q, s1) \<longrightarrow>
      same_result (ngx_mail_smtp_parse_command s1 (b @ rest) q) (ngx_mail_smtp_parse_command s (b @ rest) pos)) \<and>
    (ngx_mail_imap_parse_command t b pos = (M_AGAIN, q, t1) \<longrightarrow>
      same_result (ngx_mail_imap_parse_command t1 (b @ rest) q) (ngx_mail_imap_parse_command t (b @ rest) pos))"
  using pop3.parse_resume [OF assms] smtp.parse_resume [OF assms] imap.parse_resume [OF assms] by blast

text \<open>A session at its start, as \<open>ngx_pcalloc\<close> and \<open>ngx_array_init\<close> leave it, and a login in two pieces.\<close>

definition mail_init :: "'st \<Rightarrow> nat \<Rightarrow> 'st mail_parse" where
  "mail_init st pool = \<lparr>ms_state = st, ms_command = 0, ms_args = [], ms_nalloc = 2, ms_pool = pool, ms_tag = 0, ms_tag_star = False, ms_cmd_start = None,
    ms_arg_start = None, ms_arg_end = None, ms_literal_len = 0, ms_quoted = False, ms_backslash = False, ms_no_sync_literal = False, ms_lpos = 0\<rparr>"

theorem mail_parse_resume_witness:
  "\<exists>s1. ngx_mail_imap_parse_command (mail_init IS_start 9) (str ''a login {3'') 0 = (M_AGAIN, 10, s1) \<and>
    same_result (ngx_mail_imap_parse_command s1 (str ''a login {3'' @ str ''+}'' @ [CR, LF] @ str ''joe {2}'' @ [CR, LF]) 10)
      (ngx_mail_imap_parse_command (mail_init IS_start 9) (str ''a login {3'' @ str ''+}'' @ [CR, LF] @ str ''joe {2}'' @ [CR, LF]) 0)"
proof -
  obtain s1 where s1: "ngx_mail_imap_parse_command (mail_init IS_start 9) (str ''a login {3'') 0 = (M_AGAIN, 10, s1)"
    by (simp add: ngx_mail_imap_parse_command_def scan_whole mail_init_def str_def mail_cases mail_letter_def imap_command_code_def
      either_case_def bslice_def)
  moreover have "0 \<le> length (str ''a login {3'')" by simp
  ultimately show ?thesis using mail_parse_resume [where pos = 0] by blast
qed

subsection \<open>The arguments of POP3 and SMTP commands\<close>

text \<open>
  The invariant of the loop: every argument so far, and the one that is being read, lies before \<open>p\<close> and has no line end in it;
  an argument is being read exactly in the state \<open>sw_argument\<close>.
\<close>

definition no_eol :: "bytes \<Rightarrow> bool" where
  "no_eol w = list_all (\<lambda>ch. ch \<noteq> CR \<and> ch \<noteq> LF) w"

definition args_ok :: "bytes \<Rightarrow> nat \<Rightarrow> (nat \<times> nat) list \<Rightarrow> bool" where
  "args_ok b p args = list_all (\<lambda>(a, n). a + n \<le> p \<and> no_eol (bslice a (a + n) b)) args"

definition line_inv :: "nat \<Rightarrow> bytes \<Rightarrow> nat \<Rightarrow> line_state \<Rightarrow> 'z line_session \<Rightarrow> bool" where
  "line_inv n b p st s \<longleftrightarrow>
    args_ok b p (ms_args s) \<and>
    (if st = LS_argument
     then length (ms_args s) \<le> n \<and> (\<exists>a \<le> p. ms_arg_start s = Some a \<and> no_eol (bslice a p b))
     else length (ms_args s) \<le> n + 1 \<and> ms_arg_start s = None)"

lemma args_ok_mono: "args_ok b p args \<Longrightarrow> p \<le> q \<Longrightarrow> args_ok b q args"
  by (auto simp: args_ok_def list_all_iff)

lemma args_ok_snoc [simp]: "args_ok b p (args @ [(a, n)]) \<longleftrightarrow> args_ok b p args \<and> a + n \<le> p \<and> no_eol (bslice a (a + n) b)"
  by (simp add: args_ok_def)

lemma no_eol_Nil [simp]: "no_eol []"
  by (simp add: no_eol_def)

lemma no_eol_bslice_Suc:
  "no_eol (bslice a p b) \<Longrightarrow> a \<le> p \<Longrightarrow> p < length b \<Longrightarrow> b ! p \<noteq> CR \<Longrightarrow> b ! p \<noteq> LF \<Longrightarrow> no_eol (bslice a (Suc p) b)"
  by (simp add: no_eol_def bslice_Suc)

lemma mail_push_simps:
  "mail_push arg s = Some s' \<Longrightarrow>
    ms_args s' = ms_args s @ [arg] \<and> ms_arg_start s' = ms_arg_start s \<and> ms_arg_end s' = ms_arg_end s \<and> ms_command s' = ms_command s"
  by (auto simp: mail_push_def split: if_splits)

lemma mail_arg_Inr:
  "mail_arg e s = Inr s' \<Longrightarrow>
    \<exists>a \<le> e. ms_arg_start s = Some a \<and> ms_args s' = ms_args s @ [(a, e - a)] \<and> ms_arg_start s' = None \<and> ms_command s' = ms_command s"
  using mail_push_simps by (fastforce simp: mail_arg_def split: option.splits if_splits)

lemma mail_arg_no_fault: "ms_arg_start s = Some a \<Longrightarrow> a \<le> e \<Longrightarrow> mail_arg e s \<noteq> Inl M_FAULT"
  by (simp add: mail_arg_def split: option.split)

lemma line_argument_inv:
  assumes "line_inv n b p LS_argument s" "p < length b"
  shows "line_argument p (b ! p) s = Next st' s' \<Longrightarrow> line_inv n b (Suc p) st' s'"
    "line_argument p (b ! p) s = Goto l s' \<Longrightarrow> line_inv n b (Suc p) LS_almost_done s'"
    "line_argument p (b ! p) s \<noteq> Return M_FAULT s'"
proof -
  obtain a where a: "a \<le> p" "ms_arg_start s = Some a" "no_eol (bslice a p b)" "args_ok b p (ms_args s)" "length (ms_args s) \<le> n"
    using assms(1) by (auto simp: line_inv_def)
  have arg: "line_inv n b (Suc p) st s''" if "mail_arg p s = Inr s''" "st \<noteq> LS_argument" for s'' st
    using mail_arg_Inr [OF that(1)] a that(2) args_ok_mono [OF a(4), of "Suc p"] by (auto simp: line_inv_def)
  show "line_inv n b (Suc p) st' s'" if "line_argument p (b ! p) s = Next st' s'"
  proof (cases "word_end (b ! p)")
    case True
    then show ?thesis using that arg by (auto simp: line_argument_def mail_after_def split: sum.splits if_splits)
  next
    case False
    then show ?thesis using that a args_ok_mono [OF a(4), of "Suc p"] no_eol_bslice_Suc [OF a(3,1) assms(2)]
      by (auto simp: line_argument_def line_inv_def)
  qed
  show "line_inv n b (Suc p) LS_almost_done s'" if "line_argument p (b ! p) s = Goto l s'"
    using that arg by (auto simp: line_argument_def mail_after_def split: sum.splits if_splits)
  show "line_argument p (b ! p) s \<noteq> Return M_FAULT s'"
    using mail_arg_no_fault [OF a(2,1)] by (auto simp: line_argument_def mail_after_def split: sum.splits if_splits)
qed

lemma line_spaces_inv:
  assumes "line_inv n b p LS_spaces_before_argument s" "p < length b"
  shows "line_spaces_before_argument n p (b ! p) s = Next st' s' \<Longrightarrow> line_inv n b (Suc p) st' s'"
    "line_spaces_before_argument n p (b ! p) s = Goto ML_done s' \<Longrightarrow> line_inv n b (Suc p) LS_almost_done s'"
  using assms args_ok_mono [of b p "ms_args s" "Suc p"] bslice_one [of p b]
  by (auto simp: line_spaces_before_argument_def line_inv_def no_eol_def split: if_splits)

lemma line_inv_other:
  "line_inv n b p st s \<Longrightarrow> st \<noteq> LS_argument \<Longrightarrow> st' \<noteq> LS_argument \<Longrightarrow> line_inv n b (Suc p) st' (s\<lparr>ms_command := c\<rparr>)"
  "line_inv n b p st s \<Longrightarrow> st \<noteq> LS_argument \<Longrightarrow> st' \<noteq> LS_argument \<Longrightarrow> line_inv n b (Suc p) st' s"
  using args_ok_mono [of b p "ms_args s" "Suc p"] by (auto simp: line_inv_def)

text \<open>What a step of a parser owes the invariant.\<close>

definition line_good :: "nat \<Rightarrow> bytes \<Rightarrow> nat \<Rightarrow> 'z line_step \<Rightarrow> bool" where
  "line_good n b q r =
    (case r of
       Next st' s' \<Rightarrow> line_inv n b q st' s'
     | Goto l s' \<Rightarrow> l = ML_done \<longrightarrow> line_inv n b q LS_almost_done s'
     | Return rc s' \<Rightarrow> rc \<noteq> M_FAULT)"

definition line_step_ok :: "nat \<Rightarrow> (line_state, 'z line_session, mail_label, mail_rc) stepper \<Rightarrow> bool" where
  "line_step_ok n step \<longleftrightarrow> (\<forall>b p st s. p < length b \<and> line_inv n b p st s \<longrightarrow> line_good n b (Suc p) (step b p (b ! p) st s))"

lemma line_good_simps [simp]:
  "line_good n b q (Next st s) = line_inv n b q st s"
  "line_good n b q (Goto l s) = (l = ML_done \<longrightarrow> line_inv n b q LS_almost_done s)"
  "line_good n b q (Return rc s) = (rc \<noteq> M_FAULT)"
  by (simp_all add: line_good_def)

lemma line_argument_good: "line_inv n b p LS_argument s \<Longrightarrow> p < length b \<Longrightarrow> line_good n b (Suc p) (line_argument p (b ! p) s)"
  using line_argument_inv [of n b p s] by (cases "line_argument p (b ! p) s") (simp_all, blast)

lemma line_spaces_good:
  "line_inv n b p LS_spaces_before_argument s \<Longrightarrow> p < length b \<Longrightarrow> line_good n b (Suc p) (line_spaces_before_argument n p (b ! p) s)"
  using line_spaces_inv [of n b p s] by (auto simp: line_good_def line_spaces_before_argument_def split: if_splits)

lemma mail_after_good: "(\<And>st. st \<noteq> LS_argument \<Longrightarrow> line_inv n b q st s) \<Longrightarrow> line_good n b q (mail_after ch LS_spaces_before_argument LS_almost_done s)"
  by (simp add: mail_after_def)

lemma line_start_good:
  assumes "line_inv n b p LS_start s" "q = Suc p"
  shows "line_good n b q (pop3_start b p ch s)" "line_good n b q (smtp_start b p ch s)"
proof -
  have "line_inv n b q st (s\<lparr>ms_command := c\<rparr>)" "line_inv n b q st s" if "st \<noteq> LS_argument" for st c
    using line_inv_other [OF assms(1), of st] that assms(2) by simp_all
  then show "line_good n b q (pop3_start b p ch s)" "line_good n b q (smtp_start b p ch s)"
    by (simp_all add: pop3_start_def smtp_start_def mail_after_good split: option.split)
qed

lemma line_almost_done_good: "line_inv n b p LS_almost_done s \<Longrightarrow> line_good n b (Suc p) (line_almost_done ch s)"
  using line_inv_other(2) [of n b p LS_almost_done s LS_almost_done] by (simp add: line_almost_done_def)

lemma pop3_argument_good:
  assumes "line_inv n b p LS_argument s" "p < length b"
  shows "line_good n b (Suc p) (pop3_argument p (b ! p) s)"
proof -
  have "line_inv n b (Suc p) LS_argument s" if "b ! p = ch_space"
    using assms args_ok_mono [of b p "ms_args s" "Suc p"] no_eol_bslice_Suc [OF _ _ assms(2)] that by (fastforce simp: line_inv_def)
  then show ?thesis using line_argument_good [OF assms] by (auto simp: pop3_argument_def)
qed

lemma pop3_step_ok: "line_step_ok 2 pop3_step"
  unfolding line_step_ok_def
proof (intro allI impI, elim conjE)
  fix b p st and s :: "'z line_session"
  assume "p < length b" "line_inv 2 b p st s"
  then show "line_good 2 b (Suc p) (pop3_step b p (b ! p) st s)"
    by (cases st) (simp_all add: line_start_good line_spaces_good pop3_argument_good line_almost_done_good)
qed

lemma smtp_step_ok: "line_step_ok 10 smtp_step"
  unfolding line_step_ok_def
proof (intro allI impI, elim conjE)
  fix b p st and s :: "'z line_session"
  assume "p < length b" "line_inv 10 b p st s"
  then show "line_good 10 b (Suc p) (smtp_step b p (b ! p) st s)"
    by (cases st) (simp_all add: line_start_good line_spaces_good line_argument_good line_almost_done_good)
qed

text \<open>The result of a call: an argument of a complete command is a part of the line, and the invariant holds when input is missing.\<close>

definition line_result_ok :: "nat \<Rightarrow> bytes \<Rightarrow> mail_rc \<times> nat \<times> 'z line_session \<Rightarrow> bool" where
  "line_result_ok n b = (\<lambda>(rc, q, s).
    rc \<noteq> M_FAULT \<and> q \<le> length b \<and>
    (rc = M_OK \<longrightarrow> args_ok b q (ms_args s) \<and> length (ms_args s) \<le> n + 1 \<and> ms_arg_start s = None) \<and>
    (rc = M_AGAIN \<longrightarrow> q = length b \<and> line_inv n b q (ms_state s) s) \<and>
    (rc = M_INVALID_COMMAND \<longrightarrow> ms_state s = LS_start \<and> ms_arg_start s = None))"

lemma line_parse_ok:
  assumes step: "line_step_ok n step" and rc: "\<And>b p ch st s rc s'. step b p ch st s = Return rc s' \<Longrightarrow> rc = M_ERROR \<or> rc = M_FAULT"
    and inv: "line_inv n b pos (ms_state s) s" and pos: "pos \<le> length b"
  shows "line_result_ok n b (line_parse step auth s b pos)"
proof -
  have keeps: "scan_keeps step b (line_inv n b)"
    using step by (intro scan_keepsI) (fastforce simp: line_step_ok_def line_good_def)
  note out = scan_outcome [OF keeps, of pos "ms_state s" s, OF inv]
  show ?thesis
  proof (cases "scan step b pos (ms_state s) s")
    case (Exhausted q st s')
    then show ?thesis using out(1) scan_Exhausted_pos [OF Exhausted pos]
      by (auto simp: line_parse_def line_result_ok_def line_inv_def)
  next
    case (Jumped l q s')
    obtain st0 s0 where s0: "line_inv n b q st0 s0" "q < length b" "step b q (b ! q) st0 s0 = Goto l s'" using out(2) [OF Jumped] by blast
    then have "l = ML_done \<longrightarrow> line_inv n b (Suc q) LS_almost_done s'" using step by (fastforce simp: line_step_ok_def line_good_def)
    then show ?thesis using s0(2) Jumped pos
      by (auto simp: line_parse_def line_result_ok_def line_done_def line_invalid_def line_inv_def Let_def)
  next
    case (Returned c s')
    obtain q st0 s0 where s0: "line_inv n b q st0 s0" "q < length b" "step b q (b ! q) st0 s0 = Return c s'" using out(3) [OF Returned] by blast
    then have "c \<noteq> M_FAULT" using step by (fastforce simp: line_step_ok_def line_good_def)
    then show ?thesis using rc [OF s0(3)] Returned pos by (auto simp: line_parse_def line_result_ok_def)
  qed
qed

lemma pop3_parse_ok: "line_inv 2 b pos (ms_state s) s \<Longrightarrow> pos \<le> length b \<Longrightarrow> line_result_ok 2 b (ngx_mail_pop3_parse_command s b pos)"
  unfolding ngx_mail_pop3_parse_command_def using pop3_step_ok pop3_step_rc by (rule line_parse_ok)

lemma smtp_parse_ok: "line_inv 10 b pos (ms_state s) s \<Longrightarrow> pos \<le> length b \<Longrightarrow> line_result_ok 10 b (ngx_mail_smtp_parse_command s b pos)"
  unfolding ngx_mail_smtp_parse_command_def using smtp_step_ok smtp_step_rc by (rule line_parse_ok)

subsection \<open>Reading back a POP3 command\<close>

definition pop3_line :: "bytes \<Rightarrow> bytes list \<Rightarrow> bytes" where
  "pop3_line cmd args = cmd @ concat (map (\<lambda>a. ch_space # a) args) @ [CR, LF]"

text \<open>The words that can be arguments: a user name or password may have spaces, but not at its start, and is the only one.\<close>

definition pop3_words :: "nat \<Rightarrow> bytes list \<Rightarrow> bool" where
  "pop3_words c args \<longleftrightarrow>
    list_all (\<lambda>a. a \<noteq> [] \<and> no_eol a \<and> hd a \<noteq> ch_space) args \<and>
    (if c = NGX_POP3_USER \<or> c = NGX_POP3_PASS then length args \<le> 1 else length args \<le> 3 \<and> list_all (\<lambda>a. ch_space \<notin> set a) args)"

fun word_spans :: "nat \<Rightarrow> bytes list \<Rightarrow> (nat \<times> nat) list" where
  "word_spans p [] = []"
| "word_spans p (w # ws) = (p, length w) # word_spans (p + length w + 1) ws"

abbreviation arg_text :: "bytes \<Rightarrow> nat \<times> nat \<Rightarrow> bytes" where
  "arg_text b arg \<equiv> bslice (fst arg) (fst arg + snd arg) b"

lemma word_spans_text:
  "map (arg_text (pre @ concat (map (\<lambda>a. ch_space # a) args) @ post)) (word_spans (length pre + 1) args) = args"
proof (induction args arbitrary: pre)
  case (Cons w ws)
  have "length pre + 1 + length w + 1 = length (pre @ ch_space # w) + 1" by simp
  then show ?case using Cons.IH [of "pre @ ch_space # w"] by (simp add: bslice_def)
qed simp

lemma mail_push_pool:
  "0 < ms_pool s \<Longrightarrow> \<exists>s'. mail_push arg s = Some s' \<and> ms_args s' = ms_args s @ [arg] \<and> ms_pool s \<le> Suc (ms_pool s') \<and>
    ms_arg_start s' = ms_arg_start s \<and> ms_command s' = ms_command s"
  by (auto simp: mail_push_def)

lemma mail_arg_pool:
  assumes "0 < ms_pool s" "ms_arg_start s = Some a" "a \<le> e"
  shows "\<exists>s'. mail_arg e s = Inr s' \<and> ms_args s' = ms_args s @ [(a, e - a)] \<and> ms_pool s \<le> Suc (ms_pool s') \<and>
    ms_arg_start s' = None \<and> ms_command s' = ms_command s"
  using mail_push_pool [OF assms(1), of "(a, e - a)"] assms(2,3) by (auto simp: mail_arg_def)

text \<open>One word, from the character that starts it to the one that ends it.\<close>

lemma pop3_word:
  assumes "w \<noteq> []" "no_eol w" "hd w \<noteq> ch_space" "ch_space \<notin> set w \<or> ms_command s = NGX_POP3_USER \<or> ms_command s = NGX_POP3_PASS"
    and "length (ms_args s) \<le> 2" "0 < ms_pool s" "ch = CR \<or> ch = ch_space \<and> ms_command s \<noteq> NGX_POP3_USER \<and> ms_command s \<noteq> NGX_POP3_PASS"
  shows "\<exists>s'. scan_on pop3_step b (w @ ch # rest) p LS_spaces_before_argument s =
      scan_on pop3_step b rest (p + length w + 1) (if ch = CR then LS_almost_done else LS_spaces_before_argument) s' \<and>
    ms_args s' = ms_args s @ [(p, length w)] \<and> ms_pool s \<le> Suc (ms_pool s') \<and> ms_arg_start s' = None \<and> ms_command s' = ms_command s"
proof -
  obtain c cs where w: "w = c # cs" using assms(1) by (cases w) auto
  let ?s = "s\<lparr>ms_arg_start := Some p\<rparr>"
  have "pop3_step b p c LS_spaces_before_argument s = Next LS_argument ?s"
    using assms(2,3,5) w by (simp add: line_spaces_before_argument_def no_eol_def)
  moreover have "scan_on pop3_step b (cs @ ch # rest) (Suc p) LS_argument ?s = scan_on pop3_step b (ch # rest) (Suc p + length cs) LS_argument ?s"
    using assms(2,4) w by (intro scan_on_run) (auto simp: pop3_argument_def line_argument_def no_eol_def list_all_iff)
  moreover obtain s' where "mail_arg (p + length w) ?s = Inr s'" "ms_args s' = ms_args s @ [(p, length w)]" "ms_pool s \<le> Suc (ms_pool s')"
    "ms_arg_start s' = None" "ms_command s' = ms_command s" using mail_arg_pool [of ?s p "p + length w"] assms(6) by auto
  moreover have "pop3_step b (p + length w) ch LS_argument ?s = Next (if ch = CR then LS_almost_done else LS_spaces_before_argument) s'"
    using assms(7) calculation(3) by (auto simp: pop3_argument_def line_argument_def mail_after_def)
  ultimately show ?thesis using w by auto
qed

lemma pop3_words_scan:
  assumes "list_all (\<lambda>a. a \<noteq> [] \<and> no_eol a \<and> hd a \<noteq> ch_space) (w # ws)" "length (ms_args s) + length ws \<le> 2" "length (w # ws) \<le> ms_pool s"
    and "(ms_command s = NGX_POP3_USER \<or> ms_command s = NGX_POP3_PASS) \<and> ws = [] \<or>
      ms_command s \<noteq> NGX_POP3_USER \<and> ms_command s \<noteq> NGX_POP3_PASS \<and> list_all (\<lambda>a. ch_space \<notin> set a) (w # ws)"
  shows "\<exists>s' n. scan_on pop3_step b (w @ concat (map (\<lambda>a. ch_space # a) ws) @ [CR, LF]) p LS_spaces_before_argument s =
      Jumped ML_done (p + length (w @ concat (map (\<lambda>a. ch_space # a) ws)) + 1) s' \<and>
    ms_args s' = ms_args s @ word_spans p (w # ws) \<and> ms_arg_start s' = None \<and> ms_command s' = ms_command s"
  using assms
proof (induction ws arbitrary: w p s)
  case Nil
  then obtain s' where s': "scan_on pop3_step b (w @ CR # [LF]) p LS_spaces_before_argument s =
      scan_on pop3_step b [LF] (p + length w + 1) LS_almost_done s'" "ms_args s' = ms_args s @ [(p, length w)]"
      "ms_arg_start s' = None" "ms_command s' = ms_command s"
    using pop3_word [of w s CR b "[LF]" p] by auto
  then show ?case by (simp add: line_almost_done_def)
next
  case (Cons v ws)
  let ?rest = "v @ concat (map (\<lambda>a. ch_space # a) ws) @ [CR, LF]"
  obtain s' where s': "scan_on pop3_step b (w @ ch_space # ?rest) p LS_spaces_before_argument s =
      scan_on pop3_step b ?rest (p + length w + 1) LS_spaces_before_argument s'" "ms_args s' = ms_args s @ [(p, length w)]"
      "ms_pool s \<le> Suc (ms_pool s')" "ms_command s' = ms_command s"
    using pop3_word [of w s ch_space b ?rest p] Cons.prems by auto
  obtain t where t: "scan_on pop3_step b ?rest (p + length w + 1) LS_spaces_before_argument s' =
      Jumped ML_done (p + length w + 1 + length (v @ concat (map (\<lambda>a. ch_space # a) ws)) + 1) t"
      "ms_args t = ms_args s' @ word_spans (p + length w + 1) (v # ws)" "ms_arg_start t = None" "ms_command t = ms_command s'"
    using Cons.IH [of v s' "p + length w + 1"] Cons.prems s'(2,3,4) by auto
  show ?case using s' t by (auto simp: add.assoc)
qed

lemma mail_letter_word: "mail_letter ch \<Longrightarrow> \<not> word_end ch"
  by (auto simp: mail_letter_def)

lemma pop3_start_run:
  assumes "length cmd = 4" "list_all mail_letter cmd"
  shows "scan_on pop3_step b (cmd @ rest) 0 LS_start s = scan_on pop3_step b rest 4 LS_start s"
  using scan_on_run [of cmd pop3_step b LS_start s rest 0] assms mail_letter_word by (auto simp: pop3_start_def list_all_iff)

text \<open>
  C39. A POP3 command line is read back as what it is made of.  A command word in any case, followed by at most three words (one
  user name or password, which may have spaces inside), each behind a space, and the line end, is accepted by a session
  that is ready for a command and has memory for the words.  The parser ends behind the line, with the code of the command, and
  the arguments that it stored denote exactly the words.
\<close>

theorem pop3_parse_accepts:
  assumes "length cmd = 4" "list_all mail_letter cmd" "pop3_command (map ngx_toupper cmd) = Some c" "pop3_words c args"
    and "ms_state s = LS_start" "ms_args s = []" "ms_arg_start s = None" "length args \<le> ms_pool s"
  shows "\<exists>s'. ngx_mail_pop3_parse_command s (pop3_line cmd args) 0 = (M_OK, length (pop3_line cmd args), s') \<and>
    ms_command s' = c \<and> map (arg_text (pop3_line cmd args)) (ms_args s') = args \<and>
    ms_state s' = (if c = NGX_POP3_AUTH then LS_argument else LS_start)"
proof -
  let ?b = "pop3_line cmd args" and ?s = "s\<lparr>ms_command := c\<rparr>"
  have "take 4 ?b = cmd" using assms(1) by (simp add: pop3_line_def)
  then have start: "pop3_step ?b 4 ch LS_start s = mail_after ch LS_spaces_before_argument LS_almost_done ?s" if "word_end ch" for ch
    using that assms(3) by (simp add: pop3_start_def)
  have "\<exists>t. scan pop3_step ?b 0 LS_start s = Jumped ML_done (length ?b - 1) t \<and> ms_args t = word_spans 5 args \<and>
    ms_arg_start t = None \<and> ms_command t = c"
  proof (cases args)
    case Nil
    then have "scan_on pop3_step ?b ?b 0 LS_start s = scan_on pop3_step ?b [CR, LF] 4 LS_start s"
      using pop3_start_run [OF assms(1,2), of ?b "[CR, LF]" s] by (simp add: pop3_line_def)
    then show ?thesis using start [of CR] assms(1,6,7) Nil by (simp add: scan_whole mail_after_def line_almost_done_def pop3_line_def)
  next
    case (Cons w ws)
    let ?rest = "w @ concat (map (\<lambda>a. ch_space # a) ws) @ [CR, LF]"
    have "?b = cmd @ ch_space # ?rest" using Cons by (simp add: pop3_line_def)
    then have "scan pop3_step ?b 0 LS_start s = scan_on pop3_step ?b (ch_space # ?rest) 4 LS_start s"
      using pop3_start_run [OF assms(1,2), of ?b "ch_space # ?rest" s] by (simp add: scan_whole)
    also have "\<dots> = scan_on pop3_step ?b ?rest 5 LS_spaces_before_argument ?s" using start [of ch_space] by (simp add: mail_after_def)
    finally have run: "scan pop3_step ?b 0 LS_start s = scan_on pop3_step ?b ?rest 5 LS_spaces_before_argument ?s" .
    have "length ?b - 1 = 5 + length (w @ concat (map (\<lambda>a. ch_space # a) ws)) + 1" using assms(1) Cons by (simp add: pop3_line_def)
    then show ?thesis using pop3_words_scan [of w ws ?s ?b 5] run assms(4,6,8) Cons by (auto simp: pop3_words_def split: if_splits)
  qed
  then obtain t where t: "scan pop3_step ?b 0 LS_start s = Jumped ML_done (length ?b - 1) t" "ms_args t = word_spans 5 args"
    "ms_arg_start t = None" "ms_command t = c" by blast
  moreover have "map (arg_text ?b) (word_spans 5 args) = args"
    using word_spans_text [of cmd args "[CR, LF]"] assms(1) by (simp add: pop3_line_def)
  moreover have "0 < length ?b" by (simp add: pop3_line_def)
  ultimately show ?thesis
    by (simp add: ngx_mail_pop3_parse_command_def line_parse_def assms(5) line_done_def Let_def)
qed

theorem pop3_parse_accepts_witness:
  "\<exists>s'. ngx_mail_pop3_parse_command (mail_init LS_start 3) (pop3_line (str ''Apop'') [str ''joe'', str ''c4c9'']) 0 =
      (M_OK, length (pop3_line (str ''Apop'') [str ''joe'', str ''c4c9'']), s') \<and>
    ms_command s' = NGX_POP3_APOP \<and> map (arg_text (pop3_line (str ''Apop'') [str ''joe'', str ''c4c9''])) (ms_args s') = [str ''joe'', str ''c4c9''] \<and>
    ms_state s' = LS_start"
  using pop3_parse_accepts [of "str ''Apop''" NGX_POP3_APOP "[str ''joe'', str ''c4c9'']" "mail_init LS_start 3"]
  by (simp add: str_def mail_letter_def pop3_command_def ngx_toupper_def pop3_words_def no_eol_def mail_init_def pop3_line_def)

text \<open>
  C40. The arguments of a POP3 or SMTP command are parts of its line.  If the invariant holds, the parser reads no \<open>NULL\<close> pointer
  and stays in the buffer; a complete command has at most 3 (SMTP: 11) arguments, each inside the part of the buffer that was
  read and without a line end in it; an incomplete command leaves the invariant for the next call, and an invalid one leaves the
  session ready for a new command.
\<close>

theorem mail_line_safe:
  "(line_inv 2 b pos (ms_state s) s \<and> pos \<le> length b \<longrightarrow> line_result_ok 2 b (ngx_mail_pop3_parse_command s b pos)) \<and>
   (line_inv 10 b pos (ms_state s) s \<and> pos \<le> length b \<longrightarrow> line_result_ok 10 b (ngx_mail_smtp_parse_command s b pos))"
  using pop3_parse_ok [of b pos s] smtp_parse_ok [of b pos s] by blast

theorem mail_line_safe_witness:
  "line_result_ok 2 (str ''USER joe'' @ [CR, LF]) (ngx_mail_pop3_parse_command (mail_init LS_start 3) (str ''USER joe'' @ [CR, LF]) 0) \<and>
   line_result_ok 10 (str ''HELO a'' @ [LF]) (ngx_mail_smtp_parse_command (mail_init LS_start 3) (str ''HELO a'' @ [LF]) 0)"
  using mail_line_safe [of "str ''USER joe'' @ [CR, LF]" 0 "mail_init LS_start 3"] mail_line_safe [of "str ''HELO a'' @ [LF]" 0 "mail_init LS_start 3"]
  by (simp add: line_inv_def mail_init_def args_ok_def)

subsection \<open>Where the IMAP parser goes wrong\<close>

lemmas imap_eval = ngx_mail_imap_parse_command_def scan_whole mail_init_def str_def mail_cases mail_letter_def imap_command_code_def
  either_case_def bslice_def mail_arg_def mail_push_def imap_done_def imap_invalid_def Let_def

text \<open>A literal of length 0 takes one byte, and the byte behind it, which starts the next argument, is skipped.\<close>

lemma imap_empty_literal:
  "\<exists>s. ngx_mail_imap_parse_command (mail_init IS_start 9) (str ''a login {0+}'' @ [CR, LF] @ str '' x'' @ [CR, LF]) 0 = (M_OK, 18, s) \<and>
    ms_args s = [(14, 1)]"
  by (simp add: imap_eval)

text \<open>
  The label \<open>invalid\<close> does not clear \<open>arg_start\<close>: a quoted argument that ends in a backslash and a line end leaves it, and the
  next command without arguments computes \<open>arg_end - arg_start\<close> with \<open>arg_end\<close> still \<open>NULL\<close>.
\<close>

lemma imap_stale_argument:
  "\<exists>s q p s'. ngx_mail_imap_parse_command (mail_init IS_start 9) (str ''a login '' @ [ch_quot, ch_backslash, CR]) 0 = (M_INVALID_COMMAND, q, s) \<and>
    ngx_mail_imap_parse_command s (str ''a noop'' @ [CR, LF]) 0 = (M_FAULT, p, s')"
  by (simp add: imap_eval)

end
