(* ===== verification/Ngx_Mail_Session_Correct.thy ===== *)
theory Ngx_Mail_Session_Correct
  imports Ngx_Mail_Session Ngx_Mail_Parse_Correct
begin

section \<open>Safety of mail sessions\<close>

text \<open>
  Whatever a client sends, and however its data arrives, a POP3 or SMTP session never reads an argument that is not there, and
  when TLS is required no password is accepted without it.
\<close>

subsection \<open>What a parser leaves alone\<close>

lemma mail_arg_more: "mail_arg e s = Inr s' \<Longrightarrow> mail_parse.more s' = mail_parse.more s"
  by (auto simp: mail_arg_def mail_push_def split: option.splits if_splits)

lemma mail_after_more: "mail_after ch a b s = Next st s' \<Longrightarrow> s' = s" "mail_after ch a b s = Goto l s' \<Longrightarrow> s' = s"
  by (auto simp: mail_after_def split: if_splits)

text \<open>The second invariant: while a line of an authentication is read, its first argument is being read or there.\<close>

definition step_more :: "('st, ('st, 'z) mail_parse_scheme, mail_label, mail_rc) step \<Rightarrow> 'z \<Rightarrow> bool" where
  "step_more r m = (case r of Next st s \<Rightarrow> mail_parse.more s = m | Goto l s \<Rightarrow> mail_parse.more s = m | Return rc s \<Rightarrow> mail_parse.more s = m)"

lemma step_more_simps [simp]:
  "step_more (Next st s) m = (mail_parse.more s = m)" "step_more (Goto l s) m = (mail_parse.more s = m)"
  "step_more (Return rc s) m = (mail_parse.more s = m)"
  by (simp_all add: step_more_def)

lemma line_argument_more: "step_more (line_argument p ch s) (mail_parse.more s)"
  using mail_arg_more [of p s] by (auto simp: line_argument_def mail_after_def split: sum.split)

lemma pop3_step_more: "step_more (pop3_step b p ch st s) (mail_parse.more s)"
  using line_argument_more by (cases st) (auto simp: mail_cases simp del: line_argument_def split: option.split)

lemma smtp_step_more: "step_more (smtp_step b p ch st s) (mail_parse.more s)"
  using line_argument_more by (cases st) (auto simp: mail_cases simp del: line_argument_def split: option.split)

lemma imap_step_more: "step_more (imap_step b p ch st s) (mail_parse.more s)"
  using mail_arg_more by (cases st) (fastforce simp: mail_cases Let_def split: option.split sum.split)+

lemma scan_more:
  assumes "\<And>b p ch st s. step_more (step b p ch st s) (mail_parse.more s)"
  shows "case scan step b p st s of Exhausted q st' s' \<Rightarrow> mail_parse.more s' = mail_parse.more s
    | Jumped l q s' \<Rightarrow> mail_parse.more s' = mail_parse.more s | Returned rc s' \<Rightarrow> mail_parse.more s' = mail_parse.more s"
proof -
  have keeps: "scan_keeps step b (\<lambda>p st s'. mail_parse.more s' = mail_parse.more s)"
    using assms by (intro scan_keepsI) (metis step_more_simps(1))
  note out = scan_outcome [OF keeps, where p = p and st = st and r = s, simplified]
  show ?thesis
  proof (cases "scan step b p st s")
    case (Jumped l q s')
    then show ?thesis using out(2) [OF Jumped] assms by (metis (mono_tags, lifting) outcome.simps(11) step_more_simps(2))
  next
    case (Returned rc s')
    then show ?thesis using out(3) [OF Returned] assms by (metis (mono_tags, lifting) outcome.simps(12) step_more_simps(3))
  qed (use out(1) in simp)
qed

lemma line_done_more: "line_done auth p s = (rc, q, s') \<Longrightarrow> mail_parse.more s' = mail_parse.more s"
  using mail_arg_more [of _ s] by (auto simp: line_done_def Let_def split: option.splits sum.splits)

lemma more_session:
  assumes "mail_parse.more s' = mail_parse.more s"
  shows "ss_handler s' = ss_handler s" "ss_mail_state s' = ss_mail_state s" "ss_buffer s' = ss_buffer s" "ss_buf s' = ss_buf s"
    "ss_pos s' = ss_pos s" "ss_out s' = ss_out s" "ss_login s' = ss_login s" "ss_passwd s' = ss_passwd s" "ss_salt s' = ss_salt s"
    "ss_auth_method s' = ss_auth_method s" "ss_quit s' = ss_quit s" "ss_ssl s' = ss_ssl s" "ss_smtp_from s' = ss_smtp_from s"
  using assms by (cases s; cases s'; simp)+

text \<open>While a line of an authentication is read, its first argument is being read or is there.\<close>

definition auth_reading :: "nat \<Rightarrow> line_state \<Rightarrow> 'z line_session \<Rightarrow> bool" where
  "auth_reading a st s \<longleftrightarrow> st \<noteq> LS_start \<and> ms_command s = a \<and> (st = LS_argument \<or> ms_args s \<noteq> [])"

definition auth_good :: "nat \<Rightarrow> 'z line_step \<Rightarrow> bool" where
  "auth_good a r = (case r of Next st s \<Rightarrow> auth_reading a st s | Goto l s \<Rightarrow> l = ML_done \<longrightarrow> ms_command s = a \<and> ms_args s \<noteq> [] | Return rc s \<Rightarrow> True)"

lemma auth_good_simps [simp]:
  "auth_good a (Next st s) = auth_reading a st s" "auth_good a (Goto l s) = (l = ML_done \<longrightarrow> ms_command s = a \<and> ms_args s \<noteq> [])"
  "auth_good a (Return rc s)"
  by (simp_all add: auth_good_def)

lemma line_argument_auth: "ms_command s = a \<Longrightarrow> auth_good a (line_argument p ch s)"
  using mail_arg_Inr [of p s] by (auto simp: line_argument_def mail_after_def auth_reading_def split: sum.split)

lemma pop3_step_auth: "auth_reading a st s \<Longrightarrow> auth_good a (pop3_step b p ch st s)"
  using line_argument_auth [of s a p ch]
  by (cases st) (auto simp: mail_cases auth_reading_def simp del: line_argument_def)

lemma smtp_step_auth: "auth_reading a st s \<Longrightarrow> auth_good a (smtp_step b p ch st s)"
  using line_argument_auth [of s a p ch]
  by (cases st) (auto simp: mail_cases auth_reading_def simp del: line_argument_def)

text \<open>What the sessions rely on in a parser of lines: it keeps both invariants, and the rest of the session.\<close>

locale line_parser =
  fixes step :: "(line_state, 'z line_session, mail_label, mail_rc) stepper" and n auth :: nat
  assumes step_good: "p < length b \<Longrightarrow> line_inv n b p st s \<Longrightarrow> line_good n b (Suc p) (step b p (b ! p) st s)"
    and step_auth: "auth_reading auth st s \<Longrightarrow> auth_good auth (step b p ch st s)"
    and step_rest: "step_more (step b p ch st s) (mail_parse.more s)"
    and step_code: "step b p ch st s = Return rc s' \<Longrightarrow> rc = M_ERROR \<or> rc = M_FAULT"
begin

lemma step_ok: "line_step_ok n step"
  using step_good by (simp add: line_step_ok_def)

lemma parse_ok: "line_inv n b pos (ms_state s) s \<Longrightarrow> pos \<le> length b \<Longrightarrow> line_result_ok n b (line_parse step auth s b pos)"
  using step_ok step_code by (rule line_parse_ok)

lemma parse_rest: "line_parse step auth s b pos = (rc, q, s') \<Longrightarrow> mail_parse.more s' = mail_parse.more s"
  using scan_more [where step = step and b = b and p = pos and st = "ms_state s" and s = s, OF step_rest]
  by (auto simp: line_parse_def line_invalid_def split: outcome.splits if_splits dest!: line_done_more)

lemma parse_auth:
  assumes inv: "auth_reading auth (ms_state s) s" "line_inv n b pos (ms_state s) s" and run: "line_parse step auth s b pos = (rc, q, s')"
  shows "(rc = M_OK \<longrightarrow> ms_command s' = auth \<and> ms_args s' \<noteq> []) \<and> (rc = M_AGAIN \<longrightarrow> auth_reading auth (ms_state s') s')"
proof -
  let ?I = "\<lambda>p st s. line_inv n b p st s \<and> auth_reading auth st s"
  have keeps: "scan_keeps step b ?I"
  proof (rule scan_keepsI)
    fix p st s st' s'
    assume "p < length b" "?I p st s" "step b p (b ! p) st s = Next st' s'"
    then show "?I (Suc p) st' s'" using step_auth [of st s b p "b ! p"] step_good [of p b st s] by simp
  qed
  note out = scan_outcome [OF keeps, of pos "ms_state s" s, OF conjI, OF inv(2,1)]
  show ?thesis
  proof (cases "scan step b pos (ms_state s) s")
    case (Exhausted p st t)
    then show ?thesis using out(1) run by (auto simp: line_parse_def auth_reading_def)
  next
    case (Jumped l p t)
    obtain st0 s0 where s0: "?I p st0 s0" "p < length b" "step b p (b ! p) st0 s0 = Goto l t" using out(2) [OF Jumped] by blast
    then have "l = ML_done \<longrightarrow> ms_command t = auth \<and> ms_args t \<noteq> [] \<and> ms_arg_start t = None"
      using step_auth [of st0 s0 b p "b ! p"] step_good [of p b st0 s0] by (auto simp: line_inv_def)
    then show ?thesis using Jumped run by (auto simp: line_parse_def line_done_def line_invalid_def Let_def split: if_splits)
  next
    case (Returned c t)
    then obtain p st0 s0 where "step b p (b ! p) st0 s0 = Return c t" using out(3) by blast
    then show ?thesis using step_code Returned run by (fastforce simp: line_parse_def)
  qed
qed

lemma parse_code:
  assumes "line_parse step auth s b pos = (rc, q, s')"
  shows "rc = M_OK \<or> rc = M_AGAIN \<or> rc = M_ERROR \<or> rc = M_INVALID_COMMAND \<or> rc = M_FAULT"
proof (cases "scan step b pos (ms_state s) s")
  case (Jumped l p t)
  then show ?thesis using assms mail_arg_rc [of _ t rc]
    by (auto simp: line_parse_def line_done_def line_invalid_def Let_def split: option.splits sum.splits if_splits)
next
  case (Returned c t)
  have "scan_keeps step b (\<lambda>_ _ _. True)" by (simp add: scan_keeps_def)
  then obtain p st0 s0 where "step b p (b ! p) st0 s0 = Return c t" using scan_outcome(3) [OF _ TrueI Returned] by blast
  then show ?thesis using step_code Returned assms by (fastforce simp: line_parse_def)
qed (use assms in \<open>simp add: line_parse_def\<close>)

lemma parse_state:
  assumes "line_parse step auth s b pos = (M_OK, q, s')" "line_inv n b pos (ms_state s) s"
  shows "ms_state s' = (if ms_command s' = auth then LS_argument else LS_start)"
proof (cases "scan step b pos (ms_state s) s")
  case (Jumped l p t)
  then show ?thesis using assms(1) mail_arg_rc [of _ t M_OK]
    by (auto simp: line_parse_def line_done_def line_invalid_def Let_def split: option.splits sum.splits if_splits)
next
  case (Returned c t)
  have "scan_keeps step b (\<lambda>_ _ _. True)" by (simp add: scan_keeps_def)
  then obtain p st0 s0 where "step b p (b ! p) st0 s0 = Return c t" using scan_outcome(3) [OF _ TrueI Returned] by blast
  then show ?thesis using step_code Returned assms(1) by (fastforce simp: line_parse_def)
qed (use assms(1) in \<open>simp add: line_parse_def\<close>)

end

lemma line_stepD: "line_step_ok n step \<Longrightarrow> p < length b \<Longrightarrow> line_inv n b p st s \<Longrightarrow> line_good n b (Suc p) (step b p (b ! p) st s)"
  by (simp add: line_step_ok_def)

interpretation pop3_line: line_parser pop3_step 2 NGX_POP3_AUTH
  by unfold_locales (simp add: line_stepD [OF pop3_step_ok], erule pop3_step_auth, rule pop3_step_more, erule pop3_step_rc)

interpretation smtp_line: line_parser smtp_step 10 NGX_SMTP_AUTH
  by unfold_locales (simp add: line_stepD [OF smtp_step_ok], erule smtp_step_auth, rule smtp_step_more, erule smtp_step_rc)

subsection \<open>The authentication methods\<close>

fun is_bytes :: "mail_str \<Rightarrow> bool" where
  "is_bytes (Bytes b) = True"
| "is_bytes (Undef n) = False"

lemma mail_alloc_Some: "mail_alloc s = Some s' \<Longrightarrow> s' = s\<lparr>ms_pool := ms_pool s - 1\<rparr>"
  by (auto simp: mail_alloc_def split: if_splits)

lemma auth_plain_spec:
  assumes "mail_get n s \<noteq> None"
  shows "\<exists>rc p l w. ngx_mail_auth_plain n s = (rc, s\<lparr>ms_pool := p, ss_login := l, ss_passwd := w\<rparr>) \<and>
    (rc = M_DONE \<and> is_bytes l \<and> is_bytes w \<or> rc = M_ERROR \<or> rc = M_INVALID_COMMAND)"
  using assms by (cases s) (auto simp: ngx_mail_auth_plain_def mail_alloc_def Let_def split: option.splits)

lemma auth_login_username_spec:
  assumes "mail_get n s \<noteq> None"
  shows "\<exists>rc p l. ngx_mail_auth_login_username n s = (rc, s\<lparr>ms_pool := p, ss_login := l\<rparr>) \<and>
    (rc = M_OK \<and> is_bytes l \<or> rc = M_ERROR \<or> rc = M_INVALID_COMMAND)"
  using assms by (cases s) (auto simp: ngx_mail_auth_login_username_def mail_alloc_def split: option.splits)

lemma auth_login_password_spec:
  assumes "mail_get 0 s \<noteq> None"
  shows "\<exists>rc p w. ngx_mail_auth_login_password s = (rc, s\<lparr>ms_pool := p, ss_passwd := w\<rparr>) \<and>
    (rc = M_DONE \<and> is_bytes w \<or> rc = M_ERROR \<or> rc = M_INVALID_COMMAND)"
  using assms by (cases s) (auto simp: ngx_mail_auth_login_password_def mail_alloc_def split: option.splits)

lemma auth_cram_md5_spec:
  assumes "mail_get 0 s \<noteq> None"
  shows "\<exists>rc p l w m. ngx_mail_auth_cram_md5 s = (rc, s\<lparr>ms_pool := p, ss_login := l, ss_passwd := w, ss_auth_method := m\<rparr>) \<and>
    (rc = M_DONE \<and> is_bytes l \<and> m = NGX_MAIL_AUTH_CRAM_MD5 \<and> mail_len w = 32 \<or> rc = M_ERROR \<or> rc = M_INVALID_COMMAND)"
  using assms by (cases s) (auto simp: ngx_mail_auth_cram_md5_def mail_alloc_def Let_def split: option.splits list.splits)

lemma auth_cram_md5_salt_spec:
  assumes "ss_salt s \<noteq> None"
  shows "\<exists>rc p o'. ngx_mail_auth_cram_md5_salt pre s = (rc, s\<lparr>ms_pool := p, ss_out := o'\<rparr>) \<and> (rc = M_OK \<or> rc = M_ERROR)"
  using assms by (cases s) (auto simp: ngx_mail_auth_cram_md5_salt_def mail_alloc_def split: option.splits)

lemma mail_copy_spec:
  assumes "mail_get n s \<noteq> None"
  shows "mail_copy n s = Inl M_ERROR \<or> (\<exists>arg p. mail_copy n s = Inr (arg, s\<lparr>ms_pool := p\<rparr>))"
  using assms by (cases "ms_pool s = 0") (auto simp: mail_copy_def mail_alloc_def)

definition auth_parse_ok :: "('st, 'z) mail_session_scheme \<Rightarrow> auth_rc \<times> ('st, 'z) mail_session_scheme \<Rightarrow> bool" where
  "auth_parse_ok s r \<longleftrightarrow>
    (\<exists>m. r = (Auth m, s) \<and> (m = NGX_MAIL_AUTH_LOGIN_USERNAME \<longrightarrow> length (ms_args s) = 2)) \<or>
    (\<exists>rc p l w. r = (Auth_rc rc, s\<lparr>ms_pool := p, ss_login := l, ss_passwd := w\<rparr>) \<and>
      (rc = M_DONE \<and> is_bytes l \<and> is_bytes w \<or> rc = M_ERROR \<or> rc = M_INVALID_COMMAND))"

lemma auth_parse_ok_invalid: "auth_parse_ok s (Auth_rc M_INVALID_COMMAND, s)"
  unfolding auth_parse_ok_def
  by (intro disjI2 exI [of _ M_INVALID_COMMAND] exI [of _ "ms_pool s"] exI [of _ "ss_login s"] exI [of _ "ss_passwd s"]) simp

lemma auth_parse_ok_plain:
  assumes "mail_get 1 s \<noteq> None"
  shows "auth_parse_ok s (let (rc, s) = ngx_mail_auth_plain 1 s in (Auth_rc rc, s))"
proof -
  obtain rc p l w where r: "ngx_mail_auth_plain 1 s = (rc, s\<lparr>ms_pool := p, ss_login := l, ss_passwd := w\<rparr>)"
    "rc = M_DONE \<and> is_bytes l \<and> is_bytes w \<or> rc = M_ERROR \<or> rc = M_INVALID_COMMAND" using auth_plain_spec [OF assms] by blast
  then have "(let (rc, s) = ngx_mail_auth_plain 1 s in (Auth_rc rc, s)) = (Auth_rc rc, s\<lparr>ms_pool := p, ss_login := l, ss_passwd := w\<rparr>)" by simp
  then show ?thesis using r(2) unfolding auth_parse_ok_def by blast
qed

lemma auth_parse_spec:
  assumes "\<And>n. n < length (ms_args s) \<Longrightarrow> mail_get n s \<noteq> None" "ms_args s \<noteq> []"
  shows "auth_parse_ok s (ngx_mail_auth_parse c s)"
proof -
  obtain arg where "mail_get 0 s = Some arg" using assms(1) [of 0] assms(2) by auto
  moreover have "auth_parse_ok s (Auth m, s)" if "m \<noteq> NGX_MAIL_AUTH_LOGIN_USERNAME \<or> length (ms_args s) = 2" for m
    using that by (auto simp: auth_parse_ok_def)
  moreover have "length (ms_args s) = 2 \<Longrightarrow> auth_parse_ok s (let (rc, s) = ngx_mail_auth_plain 1 s in (Auth_rc rc, s))"
    using assms(1) [of 1] by (intro auth_parse_ok_plain) simp
  ultimately show ?thesis unfolding ngx_mail_auth_parse_def by (simp add: auth_parse_ok_invalid del: Let_def)
qed

subsection \<open>The invariant of a session\<close>

definition tls_ok :: "mail_conf \<Rightarrow> 'st mail_session \<Rightarrow> bool" where
  "tls_ok c s \<longleftrightarrow> ss_ssl s \<or> mc_starttls c \<noteq> NGX_MAIL_STARTTLS_ONLY"

definition in_auth :: "mail_state \<Rightarrow> bool" where
  "in_auth m \<longleftrightarrow> m = MS_auth_login_username \<or> m = MS_auth_login_password \<or> m = MS_auth_plain \<or> m = MS_auth_cram_md5"

text \<open>Only a session that may authenticate leaves the first state, and a user name was read before its password.\<close>

definition cred_ok :: "mail_conf \<Rightarrow> 'st mail_session \<Rightarrow> bool" where
  "cred_ok c s \<longleftrightarrow>
    (ss_mail_state s \<noteq> MS_start \<longrightarrow> tls_ok c s) \<and>
    (ss_mail_state s = MS_user \<or> ss_mail_state s = MS_auth_login_password \<longrightarrow> is_bytes (ss_login s))"

text \<open>
  What the protocols add: a POP3 session that offers CRAM-MD5 has a salt, and an SMTP session has a sender only if no password is
  needed.
\<close>

definition extra :: "bool \<Rightarrow> mail_conf \<Rightarrow> 'st mail_session \<Rightarrow> bool" where
  "extra ns c s \<longleftrightarrow> (ns \<and> mc_auth_cram_md5 c \<longrightarrow> ss_salt s \<noteq> None) \<and> (mail_len (ss_smtp_from s) \<noteq> 0 \<longrightarrow> is_bytes (ss_smtp_from s) \<and> mc_auth_none c)"

lemma extra_upd [simp]:
  "extra ns c (s\<lparr>ss_out := o'\<rparr>) = extra ns c s" "extra ns c (s\<lparr>ss_quit := q\<rparr>) = extra ns c s"
  "extra ns c (s\<lparr>ss_mail_state := m\<rparr>) = extra ns c s" "extra ns c (s\<lparr>ms_pool := p\<rparr>) = extra ns c s"
  "extra ns c (s\<lparr>ss_smtp_helo := w\<rparr>) = extra ns c s" "extra ns c (s\<lparr>ss_smtp_to := w\<rparr>) = extra ns c s"
  "extra ns c (s\<lparr>ss_esmtp := e\<rparr>) = extra ns c s" "extra ns c s \<Longrightarrow> extra ns c (s\<lparr>ss_smtp_from := Bytes []\<rparr>)"
  "extra ns c s \<Longrightarrow> extra ns c (s\<lparr>ss_salt := Some x\<rparr>)" "extra ns c (s\<lparr>ss_handler := h\<rparr>) = extra ns c s"
  "extra ns c (s\<lparr>ms_args := a, ss_pos := q', ss_buf := b\<rparr>) = extra ns c s" "extra ns c (s\<lparr>ms_arg_start := t\<rparr>) = extra ns c s"
  "extra ns c (s\<lparr>ms_state := st\<rparr>) = extra ns c s" "extra ns c (s\<lparr>ss_auth_method := am\<rparr>) = extra ns c s"
  by (simp_all add: extra_def)

text \<open>Between two lines or inside a line; behind a complete line; and behind its answer.\<close>

definition ready :: "nat \<Rightarrow> nat \<Rightarrow> mail_conf \<Rightarrow> pop3_session \<Rightarrow> bool" where
  "ready n auth c s \<longleftrightarrow>
    ss_buffer s \<noteq> None \<and> ss_pos s = length (ss_buf s) \<and> line_inv n (ss_buf s) (ss_pos s) (ms_state s) s \<and>
    (in_auth (ss_mail_state s) \<longrightarrow> auth_reading auth (ms_state s) s) \<and> cred_ok c s"

definition parsed :: "bool \<Rightarrow> nat \<Rightarrow> mail_conf \<Rightarrow> pop3_session \<Rightarrow> bool" where
  "parsed ns auth c s \<longleftrightarrow>
    ss_buffer s \<noteq> None \<and> args_ok (ss_buf s) (length (ss_buf s)) (ms_args s) \<and> ms_arg_start s = None \<and>
    ms_state s = (if ms_command s = auth then LS_argument else LS_start) \<and>
    (in_auth (ss_mail_state s) \<longrightarrow> ms_command s = auth \<and> ms_args s \<noteq> []) \<and> cred_ok c s \<and> extra ns c s \<and> ss_handler s = H_auth_state"

definition answered :: "nat \<Rightarrow> mail_conf \<Rightarrow> pop3_session \<Rightarrow> bool" where
  "answered auth c s \<longleftrightarrow>
    ss_buffer s \<noteq> None \<and> ms_arg_start s = None \<and> (ms_state s = LS_start \<or> ms_state s = LS_argument) \<and>
    (in_auth (ss_mail_state s) \<longrightarrow> ms_command s = auth \<and> ms_state s = LS_argument) \<and> cred_ok c s \<and>
    (ss_handler s = H_auth_state \<or> ss_handler s = H_starttls)"

lemma parsed_get: "parsed ns auth c s \<Longrightarrow> n < length (ms_args s) \<Longrightarrow> mail_get n s \<noteq> None"
  unfolding parsed_def args_ok_def list_all_iff mail_get_def by (cases "ms_args s ! n") (auto dest!: nth_mem)

text \<open>What the commands of a protocol owe the session; \<open>ok\<close> is what holds when a login is handed on.\<close>

fun dispatch_ok :: "bool \<Rightarrow> nat \<Rightarrow> mail_conf \<Rightarrow> (pop3_session \<Rightarrow> bool) \<Rightarrow> mail_rc \<times> pop3_session \<Rightarrow> bool" where
  "dispatch_ok ns auth c ok (M_OK, s) = (answered auth c s \<and> extra ns c s)"
| "dispatch_ok ns auth c ok (M_DONE, s) = (ok s \<and> ss_buffer s \<noteq> None \<and> ms_arg_start s = None \<and> extra ns c s)"
| "dispatch_ok ns auth c ok (M_ERROR, s) = (ss_handler s = H_auth_state)"
| "dispatch_ok ns auth c ok (M_INVALID_COMMAND, s) =
    (ss_handler s = H_auth_state \<and> ms_arg_start s = None \<and> ss_buffer s \<noteq> None \<and> extra ns c s)"
| "dispatch_ok ns auth c ok _ = False"

definition login_ok :: "mail_conf \<Rightarrow> 'st mail_session \<Rightarrow> bool" where
  "login_ok c s \<longleftrightarrow> tls_ok c s \<and> is_bytes (ss_login s) \<and>
    (is_bytes (ss_passwd s) \<or> ss_auth_method s = NGX_MAIL_AUTH_CRAM_MD5 \<and> mail_len (ss_passwd s) = 32)"

lemmas session_defs = parsed_def answered_def cred_ok_def extra_def tls_ok_def in_auth_def login_ok_def

lemma parsed_upd [simp]:
  "parsed ns auth c (s\<lparr>ms_pool := p\<rparr>) = parsed ns auth c s"
  "mail_get n (s\<lparr>ms_pool := p\<rparr>) = mail_get n s"
  by (simp_all add: session_defs mail_get_def split: prod.split)

lemma pop3_user_ok:
  assumes "parsed True NGX_POP3_AUTH c s" "ms_command s \<noteq> NGX_POP3_AUTH"
  shows "dispatch_ok True NGX_POP3_AUTH c (login_ok c) (ngx_mail_pop3_user c s)"
proof (cases "ngx_mail_starttls_only c s \<or> length (ms_args s) \<noteq> 1")
  case False
  then have "mail_get 0 s \<noteq> None" using parsed_get [OF assms(1)] by simp
  then show ?thesis using mail_copy_spec [of 0 s] False assms
    by (auto simp: ngx_mail_pop3_user_def ngx_mail_starttls_only_def session_defs split: if_splits)
qed (use assms in \<open>auto simp: ngx_mail_pop3_user_def session_defs\<close>)

lemma pop3_pass_ok:
  assumes "parsed True NGX_POP3_AUTH c s" "ss_mail_state s = MS_user"
  shows "dispatch_ok True NGX_POP3_AUTH c (login_ok c) (ngx_mail_pop3_pass s)"
proof (cases "length (ms_args s) = 1")
  case True
  then have "mail_get 0 s \<noteq> None" using parsed_get [OF assms(1)] by simp
  then show ?thesis using mail_copy_spec [of 0 s] True assms
    by (auto simp: ngx_mail_pop3_pass_def session_defs split: if_splits)
qed (use assms in \<open>auto simp: ngx_mail_pop3_pass_def session_defs\<close>)

lemma parsed_answered: "parsed ns auth c s \<Longrightarrow> answered auth c s"
  by (auto simp: session_defs)

lemma parsed_extra: "parsed ns auth c s \<Longrightarrow> extra ns c s"
  by (simp add: parsed_def)

lemma answered_upd [simp]:
  "answered auth c (s\<lparr>ss_out := o'\<rparr>) = answered auth c s" "answered auth c (s\<lparr>ss_quit := q\<rparr>) = answered auth c s"
  "answered auth c (s\<lparr>ss_smtp_from := w\<rparr>) = answered auth c s" "answered auth c (s\<lparr>ss_smtp_to := w\<rparr>) = answered auth c s"
  "answered auth c (s\<lparr>ss_smtp_helo := w\<rparr>) = answered auth c s" "answered auth c (s\<lparr>ss_esmtp := e\<rparr>) = answered auth c s"
  "answered auth c (s\<lparr>ms_pool := p\<rparr>) = answered auth c s"
  by (simp_all add: session_defs)

lemma pop3_capa_ok: "parsed True NGX_POP3_AUTH c s \<Longrightarrow> dispatch_ok True NGX_POP3_AUTH c ok (ngx_mail_pop3_capa c stls s)"
  by (simp add: ngx_mail_pop3_capa_def parsed_answered parsed_extra)

lemma pop3_stls_ok: "parsed True NGX_POP3_AUTH c s \<Longrightarrow> dispatch_ok True NGX_POP3_AUTH c ok (ngx_mail_pop3_stls c s)"
  by (auto simp: ngx_mail_pop3_stls_def session_defs)

lemma pop3_apop_ok:
  assumes "parsed True NGX_POP3_AUTH c s"
  shows "dispatch_ok True NGX_POP3_AUTH c (login_ok c) (ngx_mail_pop3_apop c s)"
proof (cases "ngx_mail_starttls_only c s \<or> length (ms_args s) \<noteq> 2 \<or> \<not> mc_auth_apop c")
  case False
  then have get: "mail_get 0 s \<noteq> None" "mail_get 1 s \<noteq> None" using parsed_get [OF assms] by simp_all
  consider (e0) "mail_copy 0 s = Inl M_ERROR"
    | (e1) l p where "mail_copy 0 s = Inr (l, s\<lparr>ms_pool := p\<rparr>)" "mail_copy 1 (s\<lparr>ms_pool := p\<rparr>) = Inl M_ERROR"
    | (ok) l p w q where "mail_copy 0 s = Inr (l, s\<lparr>ms_pool := p\<rparr>)" "mail_copy 1 (s\<lparr>ms_pool := p\<rparr>) = Inr (w, s\<lparr>ms_pool := q\<rparr>)"
    using mail_copy_spec [OF get(1)] mail_copy_spec [of 1 "s\<lparr>ms_pool := p\<rparr>" for p] get(2) by fastforce
  then show ?thesis
    using False assms by cases (simp_all add: ngx_mail_pop3_apop_def ngx_mail_starttls_only_def session_defs)
qed (use assms in \<open>auto simp: ngx_mail_pop3_apop_def session_defs\<close>)

lemma mail_get_cong: "ms_args s' = ms_args s \<Longrightarrow> ss_buf s' = ss_buf s \<Longrightarrow> mail_get n s' = mail_get n s"
  by (simp add: mail_get_def split: prod.split)

text \<open>The first line of an authentication, in the three protocols.\<close>

lemma auth_login_username_1_ok:
  assumes "parsed ns auth c s" "ms_command s = auth" "\<not> ngx_mail_starttls_only c s" "length (ms_args s) = 2"
  shows "dispatch_ok ns auth c ok (ngx_mail_auth_login_username 1 (s\<lparr>ss_out := o', ss_mail_state := MS_auth_login_password\<rparr>))"
proof -
  have "mail_get 1 (s\<lparr>ss_out := o', ss_mail_state := MS_auth_login_password\<rparr>) \<noteq> None"
    using parsed_get [OF assms(1), of 1] assms(4) mail_get_cong [of "s\<lparr>ss_out := o', ss_mail_state := MS_auth_login_password\<rparr>" s 1] by simp
  from auth_login_username_spec [OF this] obtain rc p l where r:
    "ngx_mail_auth_login_username 1 (s\<lparr>ss_out := o', ss_mail_state := MS_auth_login_password\<rparr>) =
      (rc, s\<lparr>ss_out := o', ss_mail_state := MS_auth_login_password, ms_pool := p, ss_login := l\<rparr>)"
    "rc = M_OK \<and> is_bytes l \<or> rc = M_ERROR \<or> rc = M_INVALID_COMMAND" by blast
  show ?thesis using r(2) assms(1-3) unfolding r(1) by (elim disjE conjE) (simp_all add: ngx_mail_starttls_only_def session_defs)
qed

lemma auth_method_ok:
  assumes "parsed ns auth c s" "ms_command s = auth" "\<not> ngx_mail_starttls_only c s" "m \<noteq> MS_user" "m \<noteq> MS_auth_login_password"
  shows "answered auth c (s\<lparr>ss_out := o', ss_mail_state := m\<rparr>)"
  using assms by (auto simp: ngx_mail_starttls_only_def session_defs)

lemma auth_rc_ok:
  assumes "parsed ns auth c s" "\<not> ngx_mail_starttls_only c s" "rc = M_DONE \<and> is_bytes l \<and> is_bytes w \<or> rc = M_ERROR \<or> rc = M_INVALID_COMMAND"
  shows "dispatch_ok ns auth c (login_ok c) (rc, s\<lparr>ms_pool := p, ss_login := l, ss_passwd := w\<rparr>)"
  using assms(3,1,2) by (elim disjE conjE) (simp_all add: ngx_mail_starttls_only_def session_defs)

lemma cram_md5_salt_ok:
  assumes "parsed ns auth c s" "ms_command s = auth" "\<not> ngx_mail_starttls_only c s" "ss_salt s \<noteq> None"
  shows "dispatch_ok ns auth c ok
    (case ngx_mail_auth_cram_md5_salt pre s of
       (M_OK, s) \<Rightarrow> (M_OK, s\<lparr>ss_mail_state := MS_auth_cram_md5\<rparr>)
     | (M_FAULT, s) \<Rightarrow> (M_FAULT, s)
     | (rc, s) \<Rightarrow> (M_ERROR, s))"
proof -
  obtain rc p o' where r: "ngx_mail_auth_cram_md5_salt pre s = (rc, s\<lparr>ms_pool := p, ss_out := o'\<rparr>)" "rc = M_OK \<or> rc = M_ERROR"
    using auth_cram_md5_salt_spec [OF assms(4)] by blast
  show ?thesis using r(2) assms(1-3) unfolding r(1) by (elim disjE) (simp_all add: ngx_mail_starttls_only_def session_defs)
qed

lemma pop3_auth_ok:
  assumes "parsed True NGX_POP3_AUTH c s" "ms_command s = NGX_POP3_AUTH" "ss_mail_state s = MS_start"
  shows "dispatch_ok True NGX_POP3_AUTH c (login_ok c) (ngx_mail_pop3_auth c s)"
proof (cases "ngx_mail_starttls_only c s \<or> ms_args s = []")
  case False
  then have tls: "\<not> ngx_mail_starttls_only c s" by simp
  have "auth_parse_ok s (ngx_mail_auth_parse c s)" using parsed_get [OF assms(1)] False by (intro auth_parse_spec) auto
  then consider (m) m where "ngx_mail_auth_parse c s = (Auth m, s)" "m = NGX_MAIL_AUTH_LOGIN_USERNAME \<longrightarrow> length (ms_args s) = 2"
    | (rc) rc p l w where "ngx_mail_auth_parse c s = (Auth_rc rc, s\<lparr>ms_pool := p, ss_login := l, ss_passwd := w\<rparr>)"
      "rc = M_DONE \<and> is_bytes l \<and> is_bytes w \<or> rc = M_ERROR \<or> rc = M_INVALID_COMMAND"
    unfolding auth_parse_ok_def by blast
  then show ?thesis
  proof cases
    case (m m)
    have inv: "ss_handler s = H_auth_state \<and> ms_arg_start s = None \<and> ss_buffer s \<noteq> None"
      "extra True c s" using assms(1) by (simp_all add: parsed_def)
    moreover have "mc_auth_cram_md5 c \<longrightarrow> ss_salt s \<noteq> None" using inv(2) by (simp add: extra_def)
    ultimately show ?thesis
      using m False inv auth_method_ok [OF assms(1,2) tls] auth_login_username_1_ok [OF assms(1,2) tls] cram_md5_salt_ok [OF assms(1,2) tls]
      by (cases m) (simp_all add: ngx_mail_pop3_auth_def)
  next
    case rc
    then show ?thesis using auth_rc_ok [OF assms(1) tls rc(2)] False by (simp add: ngx_mail_pop3_auth_def)
  qed
qed (use assms in \<open>auto simp: ngx_mail_pop3_auth_def session_defs\<close>)

text \<open>The further lines of an authentication.\<close>

lemma auth_next_ok:
  assumes "parsed ns auth c s" "in_auth (ss_mail_state s)"
  shows "ss_mail_state s = MS_auth_login_username \<Longrightarrow> dispatch_ok ns auth c ok
      (let (rc, s) = ngx_mail_auth_login_username 0 s in (rc, s\<lparr>ss_out := o', ss_mail_state := MS_auth_login_password\<rparr>))"
    "ss_mail_state s = MS_auth_login_password \<Longrightarrow> dispatch_ok ns auth c (login_ok c) (ngx_mail_auth_login_password s)"
    "ss_mail_state s = MS_auth_plain \<Longrightarrow> dispatch_ok ns auth c (login_ok c) (ngx_mail_auth_plain 0 s)"
    "ss_mail_state s = MS_auth_cram_md5 \<Longrightarrow> dispatch_ok ns auth c (login_ok c) (ngx_mail_auth_cram_md5 s)"
proof -
  have args: "ms_command s = auth" "ms_args s \<noteq> []" using assms by (simp_all add: parsed_def)
  then have get: "mail_get 0 s \<noteq> None" using parsed_get [OF assms(1)] by simp
  have start: "ss_mail_state s \<noteq> MS_start" using assms(2) by (auto simp: in_auth_def)
  show "dispatch_ok ns auth c ok
      (let (rc, s) = ngx_mail_auth_login_username 0 s in (rc, s\<lparr>ss_out := o', ss_mail_state := MS_auth_login_password\<rparr>))"
    if "ss_mail_state s = MS_auth_login_username"
  proof -
    obtain rc p l where r: "ngx_mail_auth_login_username 0 s = (rc, s\<lparr>ms_pool := p, ss_login := l\<rparr>)"
      "rc = M_OK \<and> is_bytes l \<or> rc = M_ERROR \<or> rc = M_INVALID_COMMAND" using auth_login_username_spec [OF get] by blast
    show ?thesis using r(2) assms(1) args that unfolding r(1) by (elim disjE conjE) (simp_all add: session_defs)
  qed
  show "dispatch_ok ns auth c (login_ok c) (ngx_mail_auth_login_password s)" if "ss_mail_state s = MS_auth_login_password"
  proof -
    obtain rc p w where r: "ngx_mail_auth_login_password s = (rc, s\<lparr>ms_pool := p, ss_passwd := w\<rparr>)"
      "rc = M_DONE \<and> is_bytes w \<or> rc = M_ERROR \<or> rc = M_INVALID_COMMAND" using auth_login_password_spec [OF get] by blast
    show ?thesis using r(2) assms(1) args that unfolding r(1) by (elim disjE conjE) (simp_all add: session_defs)
  qed
  show "dispatch_ok ns auth c (login_ok c) (ngx_mail_auth_plain 0 s)" if "ss_mail_state s = MS_auth_plain"
  proof -
    obtain rc p l w where r: "ngx_mail_auth_plain 0 s = (rc, s\<lparr>ms_pool := p, ss_login := l, ss_passwd := w\<rparr>)"
      "rc = M_DONE \<and> is_bytes l \<and> is_bytes w \<or> rc = M_ERROR \<or> rc = M_INVALID_COMMAND" using auth_plain_spec [OF get] by blast
    show ?thesis using r(2) assms(1) args that unfolding r(1) by (elim disjE conjE) (simp_all add: session_defs)
  qed
  show "dispatch_ok ns auth c (login_ok c) (ngx_mail_auth_cram_md5 s)" if "ss_mail_state s = MS_auth_cram_md5"
  proof -
    obtain rc p l w m where r: "ngx_mail_auth_cram_md5 s = (rc, s\<lparr>ms_pool := p, ss_login := l, ss_passwd := w, ss_auth_method := m\<rparr>)"
      "rc = M_DONE \<and> is_bytes l \<and> m = NGX_MAIL_AUTH_CRAM_MD5 \<and> mail_len w = 32 \<or> rc = M_ERROR \<or> rc = M_INVALID_COMMAND" using auth_cram_md5_spec [OF get] by blast
    show ?thesis using r(2) assms(1) args that unfolding r(1) by (elim disjE conjE) (simp_all add: session_defs)
  qed
qed

lemma dispatch_simple:
  assumes "parsed ns auth c s"
  shows "dispatch_ok ns auth c ok (M_OK, s)" "dispatch_ok ns auth c ok (M_OK, s\<lparr>ss_quit := q\<rparr>)" "dispatch_ok ns auth c ok (M_INVALID_COMMAND, s)"
  using parsed_answered [OF assms] assms by (simp_all add: parsed_def)

lemma pop3_dispatch_ok:
  assumes "parsed True NGX_POP3_AUTH c s"
  shows "dispatch_ok True NGX_POP3_AUTH c (login_ok c) (pop3_dispatch c s)"
proof (cases "ss_mail_state s")
  case MS_start
  then show ?thesis
    using dispatch_simple [OF assms] pop3_user_ok [OF assms] pop3_capa_ok [OF assms] pop3_apop_ok [OF assms] pop3_stls_ok [OF assms]
      pop3_auth_ok [OF assms] by (simp add: pop3_dispatch_def)
next
  case MS_user
  then show ?thesis using dispatch_simple [OF assms] pop3_pass_ok [OF assms] pop3_capa_ok [OF assms] by (simp add: pop3_dispatch_def)
qed (use dispatch_simple [OF assms] auth_next_ok [OF assms] in \<open>simp_all add: pop3_dispatch_def in_auth_def\<close>)

text \<open>SMTP can also hand on a sender and a recipient without a password, when the configuration allows it.\<close>

definition smtp_ok :: "mail_conf \<Rightarrow> 'st mail_session \<Rightarrow> bool" where
  "smtp_ok c s \<longleftrightarrow> login_ok c s \<or> ss_auth_method s = NGX_MAIL_AUTH_NONE \<and> is_bytes (ss_smtp_from s) \<and> mail_len (ss_smtp_from s) \<noteq> 0 \<and> mc_auth_none c"

lemma dispatch_ok_mono: "dispatch_ok ns auth c ok r \<Longrightarrow> (\<And>s. ok s \<Longrightarrow> ok' s) \<Longrightarrow> dispatch_ok ns auth c ok' r"
  by (cases "(ns, auth, c, ok, r)" rule: dispatch_ok.cases) auto

lemma smtp_helo_ok:
  assumes "parsed False NGX_SMTP_AUTH c s" "ss_mail_state s = MS_start"
  shows "dispatch_ok False NGX_SMTP_AUTH c ok (ngx_mail_smtp_helo c s)"
proof (cases "length (ms_args s) = 1")
  case True
  then have "mail_get 0 s \<noteq> None" using parsed_get [OF assms(1)] by simp
  from mail_copy_spec [OF this] show ?thesis using True parsed_answered [OF assms(1)] assms(1)
    by (auto simp: ngx_mail_smtp_helo_def Let_def parsed_def)
qed (use assms in \<open>simp add: ngx_mail_smtp_helo_def session_defs\<close>)

lemma extra_none: "mc_auth_none c \<Longrightarrow> is_bytes (ss_smtp_from s) \<Longrightarrow> extra False c s"
  by (simp add: extra_def)

lemma smtp_mail_ok: "parsed False NGX_SMTP_AUTH c s \<Longrightarrow> dispatch_ok False NGX_SMTP_AUTH c ok (ngx_mail_smtp_mail c s)"
  using parsed_answered [of False NGX_SMTP_AUTH c s]
  by (auto simp: ngx_mail_smtp_mail_def mail_alloc_def extra_none parsed_def)

lemma smtp_rcpt_ok: "parsed False NGX_SMTP_AUTH c s \<Longrightarrow> dispatch_ok False NGX_SMTP_AUTH c (smtp_ok c) (ngx_mail_smtp_rcpt s)"
  using parsed_answered [of False NGX_SMTP_AUTH c s]
  by (auto simp: ngx_mail_smtp_rcpt_def mail_alloc_def parsed_def smtp_ok_def extra_def)

lemma smtp_rset_ok: "parsed False NGX_SMTP_AUTH c s \<Longrightarrow> dispatch_ok False NGX_SMTP_AUTH c ok (ngx_mail_smtp_rset s)"
  using parsed_answered [of False NGX_SMTP_AUTH c s] by (simp add: ngx_mail_smtp_rset_def parsed_def)

lemma smtp_starttls_ok:
  "parsed False NGX_SMTP_AUTH c s \<Longrightarrow>
    dispatch_ok False NGX_SMTP_AUTH c ok (let (rc, s) = ngx_mail_smtp_starttls c s in (rc, s\<lparr>ss_out := o'\<rparr>))"
  by (auto simp: ngx_mail_smtp_starttls_def session_defs)

lemma mail_cram_md5_ok:
  assumes "parsed ns auth c s" "ms_command s = auth" "\<not> ngx_mail_starttls_only c s"
  shows "dispatch_ok ns auth c ok (mail_cram_md5 c pre s)"
proof -
  let ?f = "\<lambda>s. (case ngx_mail_auth_cram_md5_salt pre s of
       (M_OK, s) \<Rightarrow> (M_OK, s\<lparr>ss_mail_state := MS_auth_cram_md5\<rparr>)
     | (M_FAULT, s) \<Rightarrow> (M_FAULT, s)
     | (rc, s) \<Rightarrow> (M_ERROR, s))"
  have salt: "dispatch_ok ns auth c ok (?f (s\<lparr>ms_pool := p, ss_salt := Some x\<rparr>))" for p x
    using assms by (intro cram_md5_salt_ok) (simp_all add: session_defs ngx_mail_starttls_only_def)
  have "dispatch_ok ns auth c ok (?f s)" if "ss_salt s \<noteq> None" using cram_md5_salt_ok [OF assms that] .
  then show ?thesis using salt assms(1)
    by (auto simp: mail_cram_md5_def ngx_mail_salt_def mail_alloc_def parsed_def)
qed

lemma smtp_auth_ok:
  assumes "parsed False NGX_SMTP_AUTH c s" "ms_command s = NGX_SMTP_AUTH" "ss_mail_state s = MS_start"
  shows "dispatch_ok False NGX_SMTP_AUTH c (login_ok c) (ngx_mail_smtp_auth c s)"
proof (cases "ngx_mail_starttls_only c s \<or> ms_args s = []")
  case False
  then have tls: "\<not> ngx_mail_starttls_only c s" by simp
  have "auth_parse_ok s (ngx_mail_auth_parse c s)" using parsed_get [OF assms(1)] False by (intro auth_parse_spec) auto
  then consider (m) m where "ngx_mail_auth_parse c s = (Auth m, s)" "m = NGX_MAIL_AUTH_LOGIN_USERNAME \<longrightarrow> length (ms_args s) = 2"
    | (rc) rc p l w where "ngx_mail_auth_parse c s = (Auth_rc rc, s\<lparr>ms_pool := p, ss_login := l, ss_passwd := w\<rparr>)"
      "rc = M_DONE \<and> is_bytes l \<and> is_bytes w \<or> rc = M_ERROR \<or> rc = M_INVALID_COMMAND"
    unfolding auth_parse_ok_def by blast
  then show ?thesis
  proof cases
    case (m m)
    have "ss_handler s = H_auth_state \<and> ms_arg_start s = None \<and> ss_buffer s \<noteq> None" "extra False c s"
      using assms(1) by (simp_all add: parsed_def)
    then show ?thesis
      using m False auth_method_ok [OF assms(1,2) tls] auth_login_username_1_ok [OF assms(1,2) tls] mail_cram_md5_ok [OF assms(1,2) tls]
      by (cases m) (simp_all add: ngx_mail_smtp_auth_def)
  next
    case rc
    then show ?thesis using auth_rc_ok [OF assms(1) tls rc(2)] False by (simp add: ngx_mail_smtp_auth_def)
  qed
qed (use assms in \<open>auto simp: ngx_mail_smtp_auth_def session_defs\<close>)

lemma smtp_dispatch_ok:
  assumes "parsed False NGX_SMTP_AUTH c s"
  shows "dispatch_ok False NGX_SMTP_AUTH c (smtp_ok c) (smtp_dispatch c s)"
proof (cases "ss_mail_state s")
  case MS_start
  have "ms_command s = NGX_SMTP_AUTH \<Longrightarrow> dispatch_ok False NGX_SMTP_AUTH c (smtp_ok c) (ngx_mail_smtp_auth c s)"
    using dispatch_ok_mono [OF smtp_auth_ok [OF assms _ MS_start]] by (simp add: smtp_ok_def)
  moreover have "dispatch_ok False NGX_SMTP_AUTH c (smtp_ok c) (M_OK, s\<lparr>ss_quit := True, ss_out := o'\<rparr>)" for o'
    using dispatch_simple(1) [OF assms] by simp
  ultimately show ?thesis
    using MS_start dispatch_simple [OF assms] smtp_helo_ok [OF assms MS_start] smtp_mail_ok [OF assms] smtp_rcpt_ok [OF assms] smtp_rset_ok [OF assms]
      smtp_starttls_ok [OF assms] by (simp add: smtp_dispatch_def del: Let_def dispatch_ok.simps)
next
  case MS_user
  then show ?thesis using dispatch_simple(1) [OF assms] by (simp add: smtp_dispatch_def)
next
  case MS_passwd
  then show ?thesis using dispatch_simple(1) [OF assms] by (simp add: smtp_dispatch_def)
qed (use auth_next_ok [OF assms, THEN dispatch_ok_mono, of "smtp_ok c"] in \<open>simp_all add: smtp_dispatch_def in_auth_def smtp_ok_def\<close>)

subsection \<open>The state machine\<close>

definition dying :: "'st mail_session \<Rightarrow> bool" where
  "dying s \<longleftrightarrow> ss_quit s \<and> ss_out s \<noteq> []"

definition idle :: "pop3_session \<Rightarrow> bool" where
  "idle s \<longleftrightarrow> ss_buffer s \<noteq> None \<and> ms_arg_start s = None \<and> ms_state s = LS_start \<and> ms_args s = [] \<and> ss_buf s = [] \<and> ss_pos s = 0"

text \<open>Before the first command; the buffer is there already when the client talked before the greeting of SMTP.\<close>

definition fresh :: "pop3_session \<Rightarrow> bool" where
  "fresh s \<longleftrightarrow> ms_state s = LS_start \<and> ms_arg_start s = None \<and> (ss_buffer s = None \<or> idle s)"

definition session_inv :: "nat \<Rightarrow> bool \<Rightarrow> nat \<Rightarrow> mail_conf \<Rightarrow> (pop3_session \<Rightarrow> bool) \<Rightarrow> pop3_session \<Rightarrow> bool" where
  "session_inv n ns auth c ok s \<longleftrightarrow>
    (case ss_handler s of
       H_fault \<Rightarrow> False
     | H_closed \<Rightarrow> True
     | H_none \<Rightarrow> True
     | H_invalid_pipelining \<Rightarrow> fresh s \<and> extra ns c s
     | H_init_protocol \<Rightarrow> fresh s \<and> extra ns c s
     | H_auth \<Rightarrow> ok s \<and> idle s \<and> extra ns c s
     | _ \<Rightarrow> ready n auth c s \<and> extra ns c s \<or> dying s)"

lemma ready_upd [simp]:
  "ready n auth c (s\<lparr>ss_out := o'\<rparr>) = ready n auth c s" "ready n auth c (s\<lparr>ss_blocked := bl\<rparr>) = ready n auth c s"
  "ready n auth c (s\<lparr>ss_handler := h\<rparr>) = ready n auth c s" "extra ns c (s\<lparr>ss_blocked := bl\<rparr>) = extra ns c s"
  by (simp_all add: ready_def line_inv_def auth_reading_def cred_ok_def tls_ok_def extra_def)

lemma send_inv:
  assumes "session_inv n ns auth c ok s" "\<And>s o'. ok (s\<lparr>ss_out := o'\<rparr>) = ok s"
  shows "session_inv n ns auth c ok (ngx_mail_send snt s)"
  using assms by (auto simp: ngx_mail_send_def ngx_mail_close_connection_def session_inv_def dying_def fresh_def idle_def Let_def
    split: mail_sent.split mail_handler.splits)

lemma error_inv:
  assumes "mc_internal_server_error c \<noteq> []" "\<And>s o'. ok (s\<lparr>ss_out := o'\<rparr>) = ok s" "ss_handler s = H_auth_state \<or> ss_handler s = H_none"
  shows "session_inv n ns auth c ok (ngx_mail_session_internal_server_error c snt s)"
  unfolding ngx_mail_session_internal_server_error_def
  using assms by (intro send_inv) (auto simp: session_inv_def dying_def)

definition mail_events ::
  "mail_conf \<Rightarrow> (mail_recv \<Rightarrow> mail_sent \<Rightarrow> ('st, 'z) mail_session_scheme \<Rightarrow> ('st, 'z) mail_session_scheme) \<Rightarrow>
    mail_event list \<Rightarrow> ('st, 'z) mail_session_scheme \<Rightarrow> ('st, 'z) mail_session_scheme" where
  "mail_events c auth_state = fold (mail_event c auth_state)"

lemma mail_events_simps [simp]:
  "mail_events c auth_state [] s = s"
  "mail_events c auth_state (ev # evs) s = mail_events c auth_state evs (mail_event c auth_state ev s)"
  by (simp_all add: mail_events_def)

text \<open>The answer to a line resets the buffer.\<close>

lemma ready_reset:
  assumes "ss_buffer s \<noteq> None" "ms_arg_start s = None" "ms_state s = LS_start \<or> ms_state s = LS_argument"
    "in_auth (ss_mail_state s) \<longrightarrow> ms_command s = auth \<and> ms_state s = LS_argument" "cred_ok c s"
  shows "ready n auth c (let s = s\<lparr>ms_args := [], ss_pos := 0, ss_buf := []\<rparr> in if ms_state s \<noteq> LS_start then s\<lparr>ms_arg_start := Some 0\<rparr> else s)"
proof (cases "ms_state s = LS_start")
  case True
  then have "\<not> in_auth (ss_mail_state s)" using assms(4) by auto
  then show ?thesis using assms True by (simp add: ready_def line_inv_def args_ok_def cred_ok_def tls_ok_def)
next
  case False
  then show ?thesis using assms by (simp add: ready_def line_inv_def args_ok_def auth_reading_def cred_ok_def tls_ok_def no_eol_def)
qed

lemma line_answer_inv:
  assumes "dispatch_ok ns auth c ok r" "mc_internal_server_error c \<noteq> []" "\<And>s o'. ok (s\<lparr>ss_out := o'\<rparr>) = ok s"
    "\<And>s. ok (ngx_mail_auth LS_start s) = ok s"
  shows "session_inv n ns auth c ok (line_answer c snt invalid r)"
proof (cases r)
  case (Pair rc s)
  let ?r = "\<lambda>s. let s = s\<lparr>ms_args := [], ss_pos := 0, ss_buf := []\<rparr> in if ms_state s \<noteq> LS_start then s\<lparr>ms_arg_start := Some 0\<rparr> else s"
  have h: "ss_handler (?r s) = ss_handler s" "extra ns c s \<Longrightarrow> extra ns c (?r s)" for s :: pop3_session by (simp_all add: Let_def)
  show ?thesis
  proof (cases rc)
    case M_OK
    then have s: "answered auth c s" "extra ns c s" using assms(1) Pair by simp_all
    then have "ready n auth c (?r s)" by (intro ready_reset) (auto simp: answered_def)
    then have "session_inv n ns auth c ok (?r s)" using s h by (auto simp: session_inv_def answered_def)
    from send_inv [OF this assms(3)] show ?thesis using M_OK Pair by (simp add: line_answer_def)
  next
    case M_INVALID_COMMAND
    let ?s = "s\<lparr>ss_mail_state := MS_start, ms_state := LS_start, ss_out := invalid\<rparr>"
    have s: "ss_handler s = H_auth_state" "ms_arg_start s = None" "ss_buffer s \<noteq> None" "extra ns c s"
      using assms(1) Pair M_INVALID_COMMAND by simp_all
    then have "ready n auth c (?r ?s)" by (intro ready_reset) (auto simp: in_auth_def cred_ok_def)
    then have "session_inv n ns auth c ok (?r ?s)" using s h [of ?s] by (auto simp: session_inv_def)
    from send_inv [OF this assms(3)] show ?thesis using M_INVALID_COMMAND Pair by (simp add: line_answer_def)
  next
    case M_DONE
    then have "ok s" "ss_buffer s \<noteq> None" "ms_arg_start s = None" "extra ns c s" using assms(1) Pair by simp_all
    then show ?thesis using M_DONE Pair assms(4) [of s]
      by (simp add: line_answer_def session_inv_def idle_def ngx_mail_auth_def extra_def)
  next
    case M_ERROR
    then show ?thesis using Pair assms(1) error_inv [OF assms(2,3), of s] by (simp add: line_answer_def)
  qed (use assms(1) Pair in simp_all)
qed

lemma line_inv_upd [simp]:
  "line_inv n b p st (s\<lparr>ss_buf := b'\<rparr>) = line_inv n b p st s" "auth_reading a st (s\<lparr>ss_buf := b'\<rparr>) = auth_reading a st s"
  "line_inv n b p st (s\<lparr>ss_pos := q\<rparr>) = line_inv n b p st s" "auth_reading a st (s\<lparr>ss_pos := q\<rparr>) = auth_reading a st s"
  "line_inv n b p st (s\<lparr>ss_mail_state := m\<rparr>) = line_inv n b p st s"
  "line_inv n b p st (s\<lparr>ss_starttls := t, ss_ssl := l\<rparr>) = line_inv n b p st s"
  "auth_reading a st (s\<lparr>ss_starttls := t, ss_ssl := l\<rparr>) = auth_reading a st s"
  by (simp_all add: line_inv_def auth_reading_def)

lemma ready_start: "ready n auth c s \<Longrightarrow> ready n auth c (s\<lparr>ss_mail_state := MS_start\<rparr>)"
  by (auto simp: ready_def in_auth_def cred_ok_def)

lemma ready_tls: "ready n auth c s \<Longrightarrow> ready n auth c (s\<lparr>ss_starttls := st, ss_ssl := True\<rparr>)"
  by (auto simp: ready_def cred_ok_def tls_ok_def)

lemma line_answer_quit:
  assumes "ss_quit s" "ss_handler s = H_auth_state" "invalid \<noteq> []" "\<And>s o'. ok (s\<lparr>ss_out := o'\<rparr>) = ok s"
  shows "session_inv n ns auth c ok (line_answer c snt invalid (M_INVALID_COMMAND, s))"
proof -
  let ?s = "s\<lparr>ss_mail_state := MS_start, ms_state := LS_start, ss_out := invalid, ms_args := [], ss_pos := 0, ss_buf := []\<rparr>"
  have "session_inv n ns auth c ok ?s" using assms(1-3) by (simp add: session_inv_def dying_def)
  from send_inv [OF this assms(4)] show ?thesis by (simp add: line_answer_def)
qed

lemma bslice_app: "e \<le> length b \<Longrightarrow> bslice a e (b @ d) = bslice a e b"
  by (simp add: bslice_def)

lemma line_inv_append: "line_inv n b p st s \<Longrightarrow> p \<le> length b \<Longrightarrow> line_inv n (b @ d) p st s"
  by (auto simp: line_inv_def args_ok_def list_all_iff bslice_app split: if_splits)

locale mail_protocol = line_parser step n auth
  for step :: "(line_state, pop3_session, mail_label, mail_rc) stepper" and n auth +
  fixes ns :: bool and dispatch :: "mail_conf \<Rightarrow> pop3_session \<Rightarrow> mail_rc \<times> pop3_session"
    and auth_state :: "mail_conf \<Rightarrow> mail_recv \<Rightarrow> mail_sent \<Rightarrow> pop3_session \<Rightarrow> pop3_session"
    and okay invalid :: bytes and ok :: "mail_conf \<Rightarrow> pop3_session \<Rightarrow> bool"
  assumes auth_state_eq: "auth_state c rcv snt s =
      (if ss_out s \<noteq> [] then s\<lparr>ss_blocked := True\<rparr>
       else
         (case ngx_mail_read_command c (line_parse step auth) rcv snt (s\<lparr>ss_blocked := False\<rparr>) of
            (M_AGAIN, s) \<Rightarrow> s
          | (M_ERROR, s) \<Rightarrow> s
          | (rc, s) \<Rightarrow> (let s = s\<lparr>ss_out := okay\<rparr> in line_answer c snt invalid (if rc = M_OK then dispatch c s else (rc, s)))))"
    and dispatch_law: "parsed ns auth c s \<Longrightarrow> dispatch_ok ns auth c (ok c) (dispatch c s)"
    and invalid_law: "invalid \<noteq> []"
    and ok_out: "ok c (s\<lparr>ss_out := w\<rparr>) = ok c s"
    and ok_auth: "ok c (ngx_mail_auth LS_start s) = ok c s"
begin

abbreviation inv :: "mail_conf \<Rightarrow> pop3_session \<Rightarrow> bool" where
  "inv c \<equiv> session_inv n ns auth c (ok c)"

lemma parse_ready:
  assumes "ready n auth c s" "extra ns c s" "ss_handler s = H_auth_state"
    and run: "line_parse step auth (s\<lparr>ss_buf := ss_buf s @ d\<rparr>) (ss_buf s @ d) (ss_pos s) = (rc, q, t)"
  shows "rc \<noteq> M_FAULT" "ss_handler t = H_auth_state" "ss_buffer t = ss_buffer s" "extra ns c t" "ss_buf t = ss_buf s @ d"
    "rc = M_OK \<Longrightarrow> parsed ns auth c (t\<lparr>ss_pos := q\<rparr>)"
    "rc = M_AGAIN \<Longrightarrow> ready n auth c (t\<lparr>ss_pos := q\<rparr>)"
    "rc = M_INVALID_COMMAND \<Longrightarrow> ms_state t = LS_start \<and> ms_arg_start t = None"
proof -
  let ?b = "ss_buf s @ d" and ?s = "s\<lparr>ss_buf := ss_buf s @ d\<rparr>"
  have line: "line_inv n ?b (ss_pos ?s) (ms_state ?s) ?s" "ss_pos s \<le> length ?b"
    using assms(1) by (auto simp: ready_def intro: line_inv_append)
  have cred: "cred_ok c s" and buffer: "ss_buffer s \<noteq> None" using assms(1) by (simp_all add: ready_def)
  have res: "line_result_ok n ?b (rc, q, t)" using parse_ok [of ?b "ss_pos s" ?s] line run by simp
  note rest = more_session [OF parse_rest [OF run]]
  have auth: "in_auth (ss_mail_state s) \<Longrightarrow>
      (rc = M_OK \<longrightarrow> ms_command t = auth \<and> ms_args t \<noteq> []) \<and> (rc = M_AGAIN \<longrightarrow> auth_reading auth (ms_state t) t)"
    using parse_auth [OF _ _ run] line assms(1) by (simp add: ready_def)
  show "rc \<noteq> M_FAULT" "ss_handler t = H_auth_state" "ss_buffer t = ss_buffer s" "extra ns c t" "ss_buf t = ?b"
    "rc = M_INVALID_COMMAND \<Longrightarrow> ms_state t = LS_start \<and> ms_arg_start t = None"
    using res rest assms(2,3) by (simp_all add: line_result_ok_def extra_def)
  have cred': "cred_ok c t" using cred rest by (simp add: cred_ok_def tls_ok_def)
  have extra': "extra ns c t" using assms(2) rest by (simp add: extra_def)
  show "parsed ns auth c (t\<lparr>ss_pos := q\<rparr>)" if "rc = M_OK"
  proof -
    have args: "args_ok ?b (length ?b) (ms_args t)" "ms_arg_start t = None"
      using res that by (auto simp: line_result_ok_def elim: args_ok_mono)
    have "ms_state t = (if ms_command t = auth then LS_argument else LS_start)"
      using parse_state [of ?s ?b "ss_pos s" q t] run line(1) that by simp
    then show ?thesis using args rest auth cred' extra' buffer assms(3) that
      by (simp add: parsed_def extra_def cred_ok_def tls_ok_def)
  qed
  show "ready n auth c (t\<lparr>ss_pos := q\<rparr>)" if "rc = M_AGAIN"
  proof -
    have "q = length ?b" "line_inv n ?b q (ms_state t) t" using res that by (auto simp: line_result_ok_def)
    then show ?thesis using rest auth cred' buffer that by (simp add: ready_def cred_ok_def tls_ok_def)
  qed
qed

lemma read_inv:
  assumes "ready n auth c s" "extra ns c s" "ss_handler s = H_auth_state" "mc_internal_server_error c \<noteq> []"
    and run: "ngx_mail_read_command c (line_parse step auth) rcv snt s = (rc, t)"
  shows "(rc = M_AGAIN \<or> rc = M_ERROR) \<and> inv c t \<or> rc = M_OK \<and> parsed ns auth c t \<or>
    rc = M_INVALID_COMMAND \<and> ss_handler t = H_auth_state \<and> ms_arg_start t = None \<and> ss_buffer t \<noteq> None \<and> extra ns c t \<or>
    rc = M_INVALID_COMMAND \<and> ss_quit t \<and> ss_handler t = H_auth_state"
proof -
  obtain sz where sz: "ss_buffer s = Some sz" using assms(1) by (auto simp: ready_def)
  have closed: "inv c (ngx_mail_close_connection u)" for u by (simp add: ngx_mail_close_connection_def session_inv_def)
  have same: "inv c u" if "ready n auth c u" "extra ns c u" "ss_handler u = H_auth_state" for u
    using that by (simp add: session_inv_def)
  show ?thesis
  proof (cases rcv)
    case (R_data d)
    let ?d = "take (sz - length (ss_buf s)) d"
    obtain rc' q u where p: "line_parse step auth (s\<lparr>ss_buf := ss_buf s @ ?d\<rparr>) (ss_buf s @ ?d) (ss_pos s) = (rc', q, u)"
      by (metis surj_pair)
    note u = parse_ready [OF assms(1-3) p]
    have "extra ns c (u\<lparr>ss_pos := q\<rparr>)" using u(4) by (simp add: extra_def)
    moreover have "ss_handler (u\<lparr>ss_pos := q\<rparr>) = H_auth_state" "ss_buffer (u\<lparr>ss_pos := q\<rparr>) \<noteq> None" using u(2,3) sz by simp_all
    ultimately show ?thesis using run R_data sz p u(1,5-8) closed same [of "u\<lparr>ss_pos := q\<rparr>"] parse_code [OF p]
      by (auto simp: ngx_mail_read_command_def Let_def split: if_splits)
  qed (use run sz assms same closed error_inv [where ok = "ok c", OF assms(4) ok_out, of s] in
    \<open>auto simp: ngx_mail_read_command_def\<close>)
qed

lemma auth_state_inv:
  assumes s: "inv c s" "ss_handler s = H_auth_state" and c: "mc_internal_server_error c \<noteq> []"
  shows "inv c (auth_state c rcv snt s)"
proof (cases "ss_out s = []")
  case True
  let ?s = "s\<lparr>ss_blocked := False\<rparr>"
  have r: "ready n auth c ?s" "extra ns c ?s" "ss_handler ?s = H_auth_state" using s True by (simp_all add: session_inv_def dying_def)
  obtain rc t where run: "ngx_mail_read_command c (line_parse step auth) rcv snt ?s = (rc, t)" by (metis surj_pair)
  let ?t = "t\<lparr>ss_out := okay\<rparr>"
  note answer = line_answer_inv [where ok = "ok c", OF _ c ok_out ok_auth]
  from read_inv [OF r c run] show ?thesis
  proof (elim disjE conjE)
    assume t: "rc = M_OK" "parsed ns auth c t"
    have "dispatch_ok ns auth c (ok c) (dispatch c ?t)" using t(2) by (intro dispatch_law) (simp add: parsed_def cred_ok_def tls_ok_def)
    from answer [OF this] show ?thesis using True run t(1) by (simp add: auth_state_eq)
  next
    assume t: "rc = M_INVALID_COMMAND" "ss_handler t = H_auth_state" "ms_arg_start t = None" "ss_buffer t \<noteq> None" "extra ns c t"
    have "dispatch_ok ns auth c (ok c) (M_INVALID_COMMAND, ?t)" using t(2-5) by simp
    from answer [OF this] show ?thesis using True run t(1) by (simp add: auth_state_eq)
  next
    assume t: "rc = M_INVALID_COMMAND" "ss_quit t" "ss_handler t = H_auth_state"
    have "inv c (line_answer c snt invalid (M_INVALID_COMMAND, ?t))"
      using t(2,3) by (intro line_answer_quit [where ok = "ok c", OF _ _ invalid_law ok_out]) simp_all
    then show ?thesis using True run t(1) by (simp add: auth_state_eq)
  qed (use True run in \<open>simp_all add: auth_state_eq\<close>)
next
  case False
  then show ?thesis using s by (simp add: auth_state_eq session_inv_def dying_def)
qed

lemma server_error_inv:
  assumes "(ss_handler u = H_init_protocol \<or> ss_handler u = H_invalid_pipelining) \<and> inv c u \<or> ss_handler u = H_starttls"
    and "mc_internal_server_error c \<noteq> []"
  shows "inv c (ngx_mail_session_internal_server_error c snt u)"
  unfolding ngx_mail_session_internal_server_error_def
  by (rule send_inv [OF _ ok_out]) (use assms in \<open>auto simp: session_inv_def dying_def fresh_def idle_def\<close>)

lemma create_buffer_inv:
  assumes s: "(ss_handler s = H_init_protocol \<or> ss_handler s = H_invalid_pipelining) \<and> inv c s \<or> ss_handler s = H_starttls \<and> dying s"
    and c: "mc_internal_server_error c \<noteq> []" and run: "ngx_mail_smtp_create_buffer c snt s = (b, t)" "ss_buffer s = None"
  shows "inv c t" "b \<Longrightarrow> ss_handler t = ss_handler s \<and> ss_buffer t \<noteq> None"
proof -
  have "inv c t \<and> (b \<longrightarrow> ss_handler t = ss_handler s \<and> ss_buffer t \<noteq> None)"
  proof (cases "mail_alloc s")
    case (Some u)
    note u = mail_alloc_Some [OF Some]
    show ?thesis
    proof (cases "mail_alloc u")
      case (Some v)
      then show ?thesis using run s u mail_alloc_Some [OF Some] \<open>mail_alloc s = Some u\<close>
        by (auto simp: ngx_mail_smtp_create_buffer_def session_inv_def dying_def fresh_def idle_def extra_def)
    next
      case None
      have "inv c (u\<lparr>ms_args := [], ms_nalloc := 2\<rparr>) \<or> ss_handler s = H_starttls"
        using s u run(2) by (auto simp: session_inv_def fresh_def idle_def extra_def)
      then show ?thesis using run s u Some None server_error_inv [OF _ c, of "u\<lparr>ms_args := [], ms_nalloc := 2\<rparr>" snt]
        by (auto simp: ngx_mail_smtp_create_buffer_def)
    qed
  qed (use run s server_error_inv [OF _ c, of s snt] in \<open>auto simp: ngx_mail_smtp_create_buffer_def\<close>)
  then show "inv c t" "b \<Longrightarrow> ss_handler t = ss_handler s \<and> ss_buffer t \<noteq> None" by simp_all
qed

lemma idle_ready: "idle s \<Longrightarrow> ready n auth c (s\<lparr>ss_mail_state := MS_start, ss_handler := h\<rparr>)"
  by (simp add: idle_def ready_def line_inv_def args_ok_def in_auth_def cred_ok_def)

lemma init_inv:
  assumes s: "ss_handler s = H_init_protocol \<or> ss_handler s = H_starttls" "inv c s"
    and c: "mc_internal_server_error c \<noteq> []" and run: "mail_init_protocol c snt s = (b, t)"
  shows "inv c t \<and> (b \<longrightarrow> ss_handler t = H_auth_state)"
proof -
  obtain b' u where u: "(if ss_buffer s = None then ngx_mail_smtp_create_buffer c snt s else (True, s)) = (b', u)" by (metis surj_pair)
  have "inv c u \<and> (b' \<longrightarrow> ss_handler u = ss_handler s \<and> ss_buffer u \<noteq> None)"
  proof (cases "ss_buffer s = None")
    case True
    then have "ss_handler s = H_starttls \<Longrightarrow> dying s" using s by (auto simp: session_inv_def ready_def)
    then show ?thesis using create_buffer_inv [OF _ c _ True, of snt b' u] u True s by auto
  qed (use u s in auto)
  moreover have "inv c (u\<lparr>ss_mail_state := MS_start, ss_handler := H_auth_state\<rparr>)"
    if "inv c u" "ss_handler u = H_init_protocol \<or> ss_handler u = H_starttls" "ss_buffer u \<noteq> None"
    using that idle_ready [of u] by (auto simp: session_inv_def fresh_def dying_def ready_start)
  ultimately show ?thesis using run u s(1) by (cases b') (auto simp: mail_init_protocol_def)
qed

lemma early_talker_inv:
  assumes s: "inv c s" "ss_handler s = H_invalid_pipelining" and c: "mc_internal_server_error c \<noteq> []"
  shows "inv c (smtp_early_talker c rcv snt s)"
proof -
  obtain b u where u: "(if ss_buffer s = None then ngx_mail_smtp_create_buffer c snt s else (True, s)) = (b, u)" by (metis surj_pair)
  have u': "inv c u" "b \<Longrightarrow> ss_handler u = H_invalid_pipelining \<and> ss_buffer u \<noteq> None"
    using u s create_buffer_inv [OF _ c, of s snt b u] by (auto split: if_splits)
  obtain b' t where t: "ngx_mail_smtp_discard_command c rcv snt u = (b', t)" by (metis surj_pair)
  have "inv c t \<and> (b' \<longrightarrow> ss_handler t = H_invalid_pipelining)" if b
    using t u' that server_error_inv [OF _ c, of u snt]
    by (auto simp: ngx_mail_smtp_discard_command_def ngx_mail_close_connection_def session_inv_def fresh_def idle_def extra_def
        split: mail_recv.splits if_splits)
  moreover have "inv c (ngx_mail_send snt (t\<lparr>ss_out := w\<rparr>))" if "inv c t" "ss_handler t = H_invalid_pipelining" for w
    by (rule send_inv [OF _ ok_out]) (use that in \<open>auto simp: session_inv_def fresh_def idle_def\<close>)
  ultimately show ?thesis using u u'(1) t by (cases b; cases b') (auto simp: smtp_early_talker_def)
qed

lemma delayed_greeting_inv:
  assumes "inv c s" "ss_handler s = H_invalid_pipelining"
  shows "inv c (smtp_delayed_greeting c registered snt s)"
proof -
  have "inv c (ngx_mail_send snt (s\<lparr>ss_handler := H_init_protocol, ss_out := w\<rparr>))" for w
    by (rule send_inv [OF _ ok_out]) (use assms in \<open>auto simp: session_inv_def fresh_def idle_def\<close>)
  then show ?thesis by (simp add: smtp_delayed_greeting_def ngx_mail_close_connection_def session_inv_def Let_def)
qed

lemma event_inv:
  assumes s: "inv c s" and c: "mc_internal_server_error c \<noteq> []"
  shows "inv c (mail_event c (auth_state c) ev s)"
proof -
  have init: "inv c (let (ok, s) = mail_init_protocol c snt u in if ok then auth_state c rcv snt s else s)"
    if "ss_handler u = H_init_protocol \<or> ss_handler u = H_starttls" "inv c u" for u snt rcv
    using init_inv [OF that c] auth_state_inv [OF _ _ c] by (auto split: prod.split)
  have closed: "inv c (ngx_mail_close_connection u)" for u by (simp add: ngx_mail_close_connection_def session_inv_def)
  have read: "inv c (mail_read c (auth_state c) rcv snt u)" if "inv c u" for rcv snt u
    using that c init [of u] auth_state_inv early_talker_inv by (auto simp: mail_read_def split: mail_handler.split)
  show ?thesis
  proof (cases ev)
    case (Ev_read rcv snt)
    then show ?thesis using s read by (simp add: mail_event_def)
  next
    case (Ev_write snt rcv snt')
    then show ?thesis using s read send_inv [OF s ok_out] by (simp add: mail_event_def)
  next
    case (Ev_handshake good rcv snt)
    have "inv c (s\<lparr>ss_starttls := True, ss_ssl := True\<rparr>)" if "ss_handler s = H_starttls"
      using s that by (auto simp: session_inv_def dying_def ready_tls extra_def)
    then show ?thesis using Ev_handshake s closed init [of "s\<lparr>ss_starttls := True, ss_ssl := True\<rparr>"] by (simp add: mail_event_def)
  next
    case Ev_timeout
    then show ?thesis using s closed by (simp add: mail_event_def)
  next
    case (Ev_delay registered snt)
    then show ?thesis using s delayed_greeting_inv by (simp add: mail_event_def)
  next
    case (Ev_refused w snt)
    have "inv c (s\<lparr>ss_handler := H_auth_state, ss_mail_state := MS_start, ss_auth_method := NGX_MAIL_AUTH_PLAIN, ss_out := w\<rparr>)"
      if "ss_handler s = H_auth"
      using s that by (auto simp: session_inv_def idle_def ready_def line_inv_def args_ok_def in_auth_def cred_ok_def extra_def)
    then show ?thesis using Ev_refused s send_inv [where ok = "ok c", OF _ ok_out] by (simp add: mail_event_def)
  qed
qed

lemma events_inv: "inv c s \<Longrightarrow> mc_internal_server_error c \<noteq> [] \<Longrightarrow> inv c (mail_events c (auth_state c) evs s)"
  by (induction evs arbitrary: s) (simp_all add: event_inv)

lemma session_safe:
  assumes "inv c s" "mc_internal_server_error c \<noteq> []"
  shows "let s = mail_events c (auth_state c) evs s in ss_handler s \<noteq> H_fault \<and> (ss_handler s = H_auth \<longrightarrow> ok c s)"
  using events_inv [OF assms, of evs] by (auto simp: session_inv_def Let_def split: mail_handler.splits)

end

interpretation pop3_session: mail_protocol pop3_step 2 NGX_POP3_AUTH True pop3_dispatch ngx_mail_pop3_auth_state
  "str ''+OK'' @ crlf" "str ''-ERR invalid command'' @ crlf" login_ok
proof unfold_locales
  show "ngx_mail_pop3_auth_state c rcv snt s =
      (if ss_out s \<noteq> [] then s\<lparr>ss_blocked := True\<rparr>
       else
         (case ngx_mail_read_command c (line_parse pop3_step NGX_POP3_AUTH) rcv snt (s\<lparr>ss_blocked := False\<rparr>) of
            (M_AGAIN, s) \<Rightarrow> s
          | (M_ERROR, s) \<Rightarrow> s
          | (rc, s) \<Rightarrow> (let s = s\<lparr>ss_out := str ''+OK'' @ crlf\<rparr>
                        in line_answer c snt (str ''-ERR invalid command'' @ crlf) (if rc = M_OK then pop3_dispatch c s else (rc, s)))))" for c rcv snt s
    by (simp only: ngx_mail_pop3_auth_state_def ngx_mail_pop3_parse_command_def)
qed (simp_all add: pop3_dispatch_ok str_def login_ok_def tls_ok_def ngx_mail_auth_def)

interpretation smtp_session: mail_protocol smtp_step 10 NGX_SMTP_AUTH False smtp_dispatch ngx_mail_smtp_auth_state
  "str ''250 2.0.0 OK'' @ crlf" "str ''500 5.5.1 Invalid command'' @ crlf" smtp_ok
proof unfold_locales
  show "ngx_mail_smtp_auth_state c rcv snt s =
      (if ss_out s \<noteq> [] then s\<lparr>ss_blocked := True\<rparr>
       else
         (case ngx_mail_read_command c (line_parse smtp_step NGX_SMTP_AUTH) rcv snt (s\<lparr>ss_blocked := False\<rparr>) of
            (M_AGAIN, s) \<Rightarrow> s
          | (M_ERROR, s) \<Rightarrow> s
          | (rc, s) \<Rightarrow> (let s = s\<lparr>ss_out := str ''250 2.0.0 OK'' @ crlf\<rparr>
                        in line_answer c snt (str ''500 5.5.1 Invalid command'' @ crlf) (if rc = M_OK then smtp_dispatch c s else (rc, s)))))" for c rcv snt s
    by (simp only: ngx_mail_smtp_auth_state_def ngx_mail_smtp_parse_command_def)
qed (simp_all add: smtp_dispatch_ok str_def smtp_ok_def login_ok_def tls_ok_def ngx_mail_auth_def)

lemma pop3_init_inv:
  "session_inv 2 True NGX_POP3_AUTH c (login_ok c) (ngx_mail_pop3_init_session c True snt (mail_session_init LS_start pool ssl))"
proof -
  let ?s = "mail_session_init LS_start pool ssl"
  have init: "session_inv 2 True NGX_POP3_AUTH c (login_ok c) (ngx_mail_send snt (s\<lparr>ss_out := w, ss_handler := H_init_protocol\<rparr>))"
    if "ss_buffer s = None" "ms_state s = LS_start" "ms_arg_start s = None" "extra True c s" for s w
    by (rule send_inv [OF _ pop3_session.ok_out]) (use that in \<open>simp add: session_inv_def fresh_def\<close>)
  have none: "session_inv 2 True NGX_POP3_AUTH c (login_ok c) (ngx_mail_session_internal_server_error c snt s)" if "ss_handler s = H_none" for s
    unfolding ngx_mail_session_internal_server_error_def
    by (rule send_inv [OF _ pop3_session.ok_out]) (use that in \<open>simp add: session_inv_def\<close>)
  have s: "ss_handler ?s = H_none" "ss_buffer ?s = None" "ms_state ?s = LS_start" "ms_arg_start ?s = None" "ss_smtp_from ?s = Bytes []"
    by (simp_all add: mail_session_init_def)
  show ?thesis
  proof (cases "mc_auth_apop c \<or> mc_auth_cram_md5 c")
    case True
    show ?thesis
    proof (cases "mail_alloc ?s")
      case None
      then show ?thesis using True none [of ?s] s by (simp add: ngx_mail_pop3_init_session_def mail_greet_def ngx_mail_salt_def)
    next
      case (Some u)
      let ?u = "u\<lparr>ss_salt := Some (mc_salt c)\<rparr>"
      have u: "ss_handler ?u = H_none" "ss_buffer ?u = None" "ms_state ?u = LS_start" "ms_arg_start ?u = None" "ss_smtp_from ?u = Bytes []"
        using s mail_alloc_Some [OF Some] by simp_all
      show ?thesis
      proof (cases "mail_alloc ?u")
        case None
        then show ?thesis using True Some none [of ?u] u(1) by (simp add: ngx_mail_pop3_init_session_def mail_greet_def ngx_mail_salt_def)
      next
        case v: (Some v)
        have "extra True c v" using mail_alloc_Some [OF v] u(5) by (simp add: extra_def)
        then show ?thesis using True Some v init [of v] u(2-4) mail_alloc_Some [OF v]
          by (simp add: ngx_mail_pop3_init_session_def mail_greet_def ngx_mail_salt_def)
      qed
    qed
  qed (use s init [of ?s] in \<open>simp add: ngx_mail_pop3_init_session_def mail_greet_def extra_def\<close>)
qed

lemma smtp_init_inv:
  "session_inv 10 False NGX_SMTP_AUTH c (smtp_ok c) (ngx_mail_smtp_greeting c True snt (mail_session_init LS_start pool ssl))"
proof -
  have "session_inv 10 False NGX_SMTP_AUTH c (smtp_ok c)
      (ngx_mail_send snt ((mail_session_init LS_start pool ssl)\<lparr>ss_out := w, ss_handler := H_init_protocol\<rparr>))" for w
    by (rule send_inv [OF _ smtp_session.ok_out]) (simp add: session_inv_def fresh_def mail_session_init_def extra_def)
  then show ?thesis
    by (simp add: ngx_mail_smtp_greeting_def mail_greet_def) (simp add: session_inv_def fresh_def mail_session_init_def extra_def)
qed

text \<open>
  The start of a session whose read event cannot be registered goes on with a connection that is closed, in all three protocols.
\<close>

lemma mail_greet_closed:
  "\<not> mc_auth_apop c \<Longrightarrow> \<not> mc_auth_cram_md5 c \<Longrightarrow> ss_handler (ngx_mail_pop3_init_session c False snt s) = H_fault"
  "ss_handler (ngx_mail_imap_init_session False snt t) = H_fault"
  "\<not> mc_greeting_delay c \<Longrightarrow> ss_handler (ngx_mail_smtp_greeting c False snt s) = H_fault"
  by (simp_all add: ngx_mail_pop3_init_session_def ngx_mail_imap_init_session_def ngx_mail_smtp_greeting_def mail_greet_def)

text \<open>
  C5. POP3 sessions.  Let \<open>ngx_mail_pop3_init_session\<close> start a session, its read event being registered.  Whatever the client sends then,
  however its bytes are split over the reads, whichever sends and allocations fail, and whether or not a TLS handshake or a refused login
  comes in between, the session never reads behind the arguments of a command or through a null pointer.  When it hands a login on to the
  authentication server then the connection is encrypted if \<open>starttls only\<close> is configured, and the user name is one the client sent
  completely.  So is the password, with one exception: with CRAM-MD5 only its length, 32, is certain, because an answer without a space
  leaves the password of an earlier attempt in place, even one that was never decoded.
\<close>

theorem pop3_session_safe:
  assumes "mc_internal_server_error c \<noteq> []"
  shows "let s = mail_events c (ngx_mail_pop3_auth_state c) evs (ngx_mail_pop3_init_session c True snt (mail_session_init LS_start pool ssl))
    in ss_handler s \<noteq> H_fault \<and>
       (ss_handler s = H_auth \<longrightarrow> (ss_ssl s \<or> mc_starttls c \<noteq> NGX_MAIL_STARTTLS_ONLY) \<and> is_bytes (ss_login s) \<and>
         (is_bytes (ss_passwd s) \<or> ss_auth_method s = NGX_MAIL_AUTH_CRAM_MD5 \<and> mail_len (ss_passwd s) = 32))"
  using pop3_session.session_safe [OF pop3_init_inv assms] by (simp add: login_ok_def tls_ok_def Let_def)

definition mail_conf_only :: mail_conf where
  "mail_conf_only = \<lparr>mc_starttls = NGX_MAIL_STARTTLS_ONLY, mc_auth_apop = False, mc_auth_cram_md5 = False, mc_auth_none = False,
    mc_greeting = str ''220'' @ crlf, mc_greeting_delay = True, mc_server_name = str ''250 mail'' @ crlf, mc_capability = str ''250 AUTH'' @ crlf,
    mc_starttls_capability = str ''250 STARTTLS'' @ crlf, mc_starttls_only_capability = str ''250 STARTTLS'' @ crlf,
    mc_auth_capability = [], mc_internal_server_error = str ''-ERR internal server error'' @ crlf, mc_salt = [], mc_buffer_size = 64\<rparr>"

definition pop3_events :: "mail_event list" where
  "pop3_events =
    [Ev_read (R_data (str ''USER bo'')) (S_sent 100), Ev_read (R_data (str ''b'' @ crlf)) (S_sent 100),
     Ev_read (R_data (str ''STLS'' @ crlf)) (S_sent 100), Ev_handshake True R_again (S_sent 100),
     Ev_read (R_data (str ''USER bob'' @ crlf)) (S_sent 100), Ev_read (R_data (str ''PASS s p'' @ crlf)) (S_sent 100)]"

theorem pop3_session_safe_witness:
  "mc_internal_server_error mail_conf_only \<noteq> [] \<and>
    (let s = mail_events mail_conf_only (ngx_mail_pop3_auth_state mail_conf_only) pop3_events
       (ngx_mail_pop3_init_session mail_conf_only True (S_sent 100) (mail_session_init LS_start 100 False))
     in ss_handler s = H_auth \<and> ss_login s = Bytes (str ''bob'') \<and> ss_passwd s = Bytes (str ''s p'') \<and> ss_ssl s)"
proof -
  have c: "mc_internal_server_error mail_conf_only \<noteq> []" by code_simp
  have r: "let s = mail_events mail_conf_only (ngx_mail_pop3_auth_state mail_conf_only) pop3_events
       (ngx_mail_pop3_init_session mail_conf_only True (S_sent 100) (mail_session_init LS_start 100 False))
     in ss_handler s = H_auth \<and> ss_login s = Bytes (str ''bob'') \<and> ss_passwd s = Bytes (str ''s p'') " by code_simp
  have n: "mc_starttls mail_conf_only = NGX_MAIL_STARTTLS_ONLY" by code_simp
  show ?thesis using r n pop3_session_safe [OF c, of pop3_events "S_sent 100" 100 False] c by (simp add: Let_def)
qed

text \<open>
  C6. SMTP sessions.  Let \<open>ngx_mail_smtp_greeting\<close> start a session, at once or after the configured delay, its read event being registered.
  Whatever the client sends, before the greeting too, and whichever sends, allocations and registrations fail afterwards, the session never
  reads behind the arguments of a command or through a null pointer.  It is handed on to the authentication server with a login as in POP3
  (encrypted if \<open>starttls only\<close> is configured, a complete user name, a complete password but for the exception of CRAM-MD5), or
  without one when \<open>smtp_auth none\<close> is configured and the client named a sender before.
\<close>

theorem smtp_session_safe:
  assumes "mc_internal_server_error c \<noteq> []"
  shows "let s = mail_events c (ngx_mail_smtp_auth_state c) evs (ngx_mail_smtp_greeting c True snt (mail_session_init LS_start pool ssl))
    in ss_handler s \<noteq> H_fault \<and>
       (ss_handler s = H_auth \<longrightarrow>
         (ss_ssl s \<or> mc_starttls c \<noteq> NGX_MAIL_STARTTLS_ONLY) \<and> is_bytes (ss_login s) \<and>
           (is_bytes (ss_passwd s) \<or> ss_auth_method s = NGX_MAIL_AUTH_CRAM_MD5 \<and> mail_len (ss_passwd s) = 32) \<or>
         ss_auth_method s = NGX_MAIL_AUTH_NONE \<and> is_bytes (ss_smtp_from s) \<and> mail_len (ss_smtp_from s) \<noteq> 0 \<and> mc_auth_none c)"
  using smtp_session.session_safe [OF smtp_init_inv assms] by (auto simp: smtp_ok_def login_ok_def tls_ok_def Let_def)

definition smtp_events :: "mail_event list" where
  "smtp_events =
    [Ev_read (R_data (str ''RSET'' @ crlf)) (S_sent 100), Ev_delay True (S_sent 100), Ev_read (R_data (str ''EHLO a'' @ crlf)) (S_sent 100), Ev_read (R_data (str ''STARTTLS'' @ crlf)) (S_sent 100),
     Ev_handshake True R_again (S_sent 100), Ev_read (R_data (str ''AUTH LOG'')) (S_sent 100),
     Ev_read (R_data (str ''IN Ym9i'' @ crlf)) (S_sent 3), Ev_read R_again (S_sent 1), Ev_write (S_sent 100) R_again (S_sent 1), Ev_read (R_data (str ''cHc='' @ crlf)) (S_sent 100)]"

theorem smtp_session_safe_witness:
  "mc_internal_server_error mail_conf_only \<noteq> [] \<and>
    (let s = mail_events mail_conf_only (ngx_mail_smtp_auth_state mail_conf_only) smtp_events
       (ngx_mail_smtp_greeting mail_conf_only True (S_sent 100) (mail_session_init LS_start 100 False))
     in ss_handler s = H_auth \<and> ss_login s = Bytes (str ''bob'') \<and> ss_passwd s = Bytes (str ''pw'') \<and> ss_ssl s)"
proof -
  have c: "mc_internal_server_error mail_conf_only \<noteq> []" by code_simp
  have r: "let s = mail_events mail_conf_only (ngx_mail_smtp_auth_state mail_conf_only) smtp_events
       (ngx_mail_smtp_greeting mail_conf_only True (S_sent 100) (mail_session_init LS_start 100 False))
     in ss_handler s = H_auth \<and> ss_login s = Bytes (str ''bob'') \<and> ss_passwd s = Bytes (str ''pw'')" by code_simp
  have n: "mc_starttls mail_conf_only = NGX_MAIL_STARTTLS_ONLY" "\<not> mc_auth_none mail_conf_only" by code_simp+
  show ?thesis using r n smtp_session_safe [OF c, of smtp_events "S_sent 100" 100 False] c by (simp add: Let_def)
qed

text \<open>
  The exception of CRAM-MD5 happens: a refused login leaves a password of 32 bytes, a password that is not base64 replaces its
  memory, and an answer without a space is handed on with what that memory holds.
\<close>

definition mail_conf_cram :: mail_conf where
  "mail_conf_cram = mail_conf_only\<lparr>mc_starttls := NGX_MAIL_STARTTLS_OFF, mc_auth_cram_md5 := True, mc_salt := str ''<1.2@mail>'' @ crlf\<rparr>"

definition cram_events :: "mail_event list" where
  "cram_events =
    [Ev_read (R_data (str ''AUTH PLAIN AGIAYWFhYWFhYWFhYWFhYWFhYWFhYWFhYWFhYWFhYWFhYWE='' @ crlf)) (S_sent 100), Ev_refused (str ''-ERR'' @ crlf) (S_sent 100),
     Ev_read (R_data (str ''AUTH LOGIN Ym9i'' @ crlf)) (S_sent 100), Ev_read (R_data (str ''!'' @ crlf)) (S_sent 100),
     Ev_read (R_data (str ''AUTH CRAM-MD5'' @ crlf)) (S_sent 100), Ev_read (R_data (str ''Ym9i'' @ crlf)) (S_sent 100)]"

lemma cram_md5_undefined_password:
  "let s = mail_events mail_conf_cram (ngx_mail_pop3_auth_state mail_conf_cram) cram_events
       (ngx_mail_pop3_init_session mail_conf_cram True (S_sent 100) (mail_session_init LS_start 100 False))
   in ss_handler s = H_auth \<and> ss_login s = Bytes (str ''bob'') \<and> ss_passwd s = Undef 32"
  by code_simp

subsection \<open>IMAP\<close>

definition tls_same :: "'st mail_session \<Rightarrow> 'st mail_session \<Rightarrow> bool" where
  "tls_same s t \<longleftrightarrow> ss_ssl t = ss_ssl s \<and> ss_mail_state t = ss_mail_state s \<and> ss_handler t = ss_handler s"

lemma auth_tls_same:
  "ngx_mail_auth_plain n s = (rc, t) \<Longrightarrow> tls_same s t" "ngx_mail_auth_login_username n s = (rc, t) \<Longrightarrow> tls_same s t"
  "ngx_mail_auth_login_password s = (rc, t) \<Longrightarrow> tls_same s t" "ngx_mail_auth_cram_md5 s = (rc, t) \<Longrightarrow> tls_same s t"
  "ngx_mail_auth_cram_md5_salt pre s = (rc, t) \<Longrightarrow> tls_same s t"
  by (auto simp: ngx_mail_auth_plain_def ngx_mail_auth_login_username_def ngx_mail_auth_login_password_def ngx_mail_auth_cram_md5_def
      ngx_mail_auth_cram_md5_salt_def mail_alloc_def tls_same_def Let_def split: option.splits if_splits list.splits)

lemma auth_parse_tls_same: "ngx_mail_auth_parse c s = (r, t) \<Longrightarrow> tls_same s t"
  using auth_tls_same(1) [of 1 s]
  by (auto simp: ngx_mail_auth_parse_def tls_same_def split: option.splits if_splits prod.splits)

text \<open>Only a session that may authenticate leaves the first state or is handed on.\<close>

definition tls_inv :: "mail_conf \<Rightarrow> 'st mail_session \<Rightarrow> bool" where
  "tls_inv c s \<longleftrightarrow> (ss_mail_state s \<noteq> MS_start \<or> ss_handler s = H_auth \<longrightarrow> tls_ok c s)"

definition tls_answer :: "mail_conf \<Rightarrow> mail_rc \<times> 'st mail_session \<Rightarrow> bool" where
  "tls_answer c = (\<lambda>(rc, t). tls_inv c t \<and> ss_handler t \<noteq> H_auth \<and> (rc = M_DONE \<longrightarrow> tls_ok c t))"

lemma tls_answer_same: "tls_same s t \<Longrightarrow> tls_ok c s \<Longrightarrow> ss_handler s = H_auth_state \<Longrightarrow> tls_answer c (rc, t)"
  by (simp add: tls_answer_def tls_same_def tls_inv_def tls_ok_def)

lemma imap_login_tls:
  assumes "ss_handler s = H_auth_state" "tls_inv c s"
  shows "tls_answer c (ngx_mail_imap_login c s)"
  using assms by (auto simp: ngx_mail_imap_login_def ngx_mail_starttls_only_def mail_copy_def mail_alloc_def tls_answer_def tls_inv_def tls_ok_def
      split: option.splits sum.splits if_splits)

lemma mail_cram_md5_tls:
  assumes "ss_handler s = H_auth_state" "tls_ok c s"
  shows "tls_answer c (mail_cram_md5 c pre s)"
proof (cases "if ss_salt s = None then ngx_mail_salt c s else Some s")
  case (Some t)
  then have t: "tls_same s t" by (auto simp: tls_same_def ngx_mail_salt_def mail_alloc_def split: if_splits)
  obtain rc u where u: "ngx_mail_auth_cram_md5_salt pre t = (rc, u)" by (metis surj_pair)
  from auth_tls_same(5) [OF u] show ?thesis using t assms u Some
    by (auto simp: mail_cram_md5_def tls_answer_def tls_same_def tls_inv_def tls_ok_def split: mail_rc.split)
qed (use assms in \<open>simp add: mail_cram_md5_def tls_answer_def tls_inv_def\<close>)

lemma imap_authenticate_tls:
  assumes "ss_handler s = H_auth_state" "tls_inv c s"
  shows "tls_answer c (ngx_mail_imap_authenticate c s)"
proof (cases "ngx_mail_starttls_only c s")
  case False
  then have ok: "tls_ok c s" by (auto simp: ngx_mail_starttls_only_def tls_ok_def)
  obtain r t where r: "ngx_mail_auth_parse c s = (r, t)" by (metis surj_pair)
  have t: "tls_ok c t" "ss_handler t = H_auth_state" using auth_parse_tls_same [OF r] ok assms(1) by (simp_all add: tls_same_def tls_ok_def)
  let ?t = "t\<lparr>ss_out := str ''+ UGFzc3dvcmQ6'' @ crlf, ss_mail_state := MS_auth_login_password\<rparr>"
  obtain rc u where u: "ngx_mail_auth_login_username 1 ?t = (rc, u)" by (metis surj_pair)
  have "tls_answer c (rc, u)" using auth_tls_same(2) [OF u] by (rule tls_answer_same) (use t in \<open>simp_all add: tls_ok_def\<close>)
  moreover have "tls_answer c (rc, t\<lparr>ss_out := w, ss_mail_state := m\<rparr>)" "tls_answer c (rc, t)" for rc w m
    using t by (simp_all add: tls_answer_def tls_inv_def tls_ok_def)
  ultimately show ?thesis using False r u mail_cram_md5_tls [OF t(2,1)]
    by (simp add: ngx_mail_imap_authenticate_def split: auth_rc.split auth_method.split)
qed (use assms in \<open>simp add: ngx_mail_imap_authenticate_def tls_answer_def\<close>)

lemma imap_dispatch_tls:
  assumes "ss_handler s = H_auth_state" "tls_inv c s" "imap_dispatch c s = (rc, tag, t)"
  shows "tls_answer c (rc, t)"
proof -
  have s: "tls_answer c (M_INVALID_COMMAND, s)" "tls_answer c (M_OK, s)" using assms(1,2) by (simp_all add: tls_answer_def)
  have upd: "tls_answer c (rc, u\<lparr>ss_quit := q\<rparr>) = tls_answer c (rc, u)" "tls_answer c (rc, u\<lparr>ss_text := w\<rparr>) = tls_answer c (rc, u)"
    for rc u w q and c :: mail_conf
    by (simp_all add: tls_answer_def tls_inv_def tls_ok_def)
  show ?thesis
  proof (cases "ss_mail_state s = MS_start")
    case True
    have "tls_answer c (ngx_mail_imap_capability c s)" using s by (simp add: ngx_mail_imap_capability_def upd)
    moreover have "tls_answer c (ngx_mail_imap_starttls c s)"
      using s True by (simp add: ngx_mail_imap_starttls_def tls_answer_def tls_inv_def)
    ultimately show ?thesis using True s assms(3) imap_login_tls [OF assms(1,2)] imap_authenticate_tls [OF assms(1,2)]
      by (auto simp: imap_dispatch_def upd Let_def split: if_splits prod.splits)
  next
    case False
    then have ok: "tls_ok c s" using assms(2) by (simp add: tls_inv_def)
    note same = auth_tls_same [THEN tls_answer_same, OF _ ok assms(1)]
    have "tls_answer c (rc, u\<lparr>ss_out := w, ss_mail_state := m\<rparr>)" if "ngx_mail_auth_login_username 0 s = (rc, u)" for rc u w m
      using auth_tls_same(2) [OF that] ok assms(1) by (simp add: tls_answer_def tls_inv_def tls_ok_def tls_same_def)
    then show ?thesis using False s(2) assms(3) same(1,3,4)
      by (cases "ss_mail_state s") (auto simp: imap_dispatch_def Let_def split: prod.splits)
  qed
qed

lemma send_tls: "tls_inv c s \<Longrightarrow> tls_inv c (ngx_mail_send snt s)"
  by (auto simp: ngx_mail_send_def ngx_mail_close_connection_def tls_inv_def tls_ok_def Let_def split: mail_sent.split)

lemma close_tls: "tls_inv c s \<Longrightarrow> tls_inv c (ngx_mail_close_connection s)"
  by (auto simp: ngx_mail_close_connection_def tls_inv_def tls_ok_def)

lemma error_tls: "tls_inv c s \<Longrightarrow> tls_inv c (ngx_mail_session_internal_server_error c' snt s)"
  unfolding ngx_mail_session_internal_server_error_def by (rule send_tls) (simp add: tls_inv_def tls_ok_def)

lemma imap_tag_tls: "imap_tag s = Some t \<Longrightarrow> tls_same s t"
  by (auto simp: imap_tag_def tls_same_def mail_alloc_def Let_def split: if_splits)

lemma imap_answer_tls:
  assumes "tls_answer c (rc, s)"
  shows "tls_inv c (imap_answer c snt (rc, tag, s))"
proof -
  have s: "tls_inv c s" "ss_handler s \<noteq> H_auth" "rc = M_DONE \<Longrightarrow> tls_ok c s" using assms by (simp_all add: tls_answer_def)
  have reset: "tls_same u (imap_reset u)" for u by (simp add: imap_reset_def tls_same_def Let_def)
  have answer: "tls_inv c (case (if tag then imap_tag u else Some u) of None \<Rightarrow> ngx_mail_close_connection u
      | Some s \<Rightarrow> ngx_mail_send snt (if rc \<noteq> M_IMAP_NEXT then imap_reset s else s))" if u: "tls_inv c u" for u
  proof (cases "if tag then imap_tag u else Some u")
    case (Some v)
    then have "tls_same u v" using imap_tag_tls [of u v] by (auto simp: tls_same_def split: if_splits)
    then have "tls_inv c v" "tls_inv c (imap_reset v)" using u reset [of v] by (simp_all add: tls_same_def tls_inv_def tls_ok_def)
    then show ?thesis using Some by (simp add: send_tls)
  qed (use u in \<open>simp add: ngx_mail_close_connection_def tls_inv_def tls_ok_def\<close>)
  have start: "tls_inv c (s\<lparr>ms_state := st, ss_out := w, ss_mail_state := MS_start\<rparr>)" for st w
    using s(2) by (simp add: tls_inv_def)
  show ?thesis
  proof (cases "rc = M_DONE \<or> rc = M_FAULT \<or> rc = M_ERROR")
    case True
    then show ?thesis using s error_tls [OF s(1)] by (auto simp: imap_answer_def ngx_mail_auth_def tls_inv_def tls_ok_def)
  next
    case False
    then show ?thesis using answer [OF s(1)] answer [OF start, of "str ''BAD invalid command'' @ crlf" IS_start]
      by (cases rc; cases tag; auto simp: imap_answer_def Let_def)
  qed
qed

lemma imap_parse_rest: "ngx_mail_imap_parse_command s b pos = (rc, q, s') \<Longrightarrow> mail_parse.more s' = mail_parse.more s"
  using scan_more [where step = imap_step and b = b and p = pos and st = "ms_state s" and s = s, OF imap_step_more]
  by (auto simp: ngx_mail_imap_parse_command_def imap_done_def imap_invalid_def Let_def
    split: outcome.splits mail_label.splits option.splits sum.splits dest!: mail_arg_more)

lemma imap_read_tls:
  assumes "ngx_mail_read_command c ngx_mail_imap_parse_command rcv snt s = (rc, t)" "tls_inv c s" "ss_handler s = H_auth_state"
  shows "tls_inv c t \<and> (rc \<noteq> M_ERROR \<longrightarrow> ss_handler t = H_auth_state \<and> rc \<noteq> M_DONE)"
proof -
  have more: "tls_inv c (u\<lparr>ss_pos := q\<rparr>) \<and> tls_inv c (u\<lparr>ss_pos := q, ss_quit := True\<rparr>) \<and> ss_handler u = H_auth_state"
    if "ngx_mail_imap_parse_command (s\<lparr>ss_buf := b\<rparr>) b p = (rc', q, u)" for b p rc' q u
    using more_session [OF imap_parse_rest [OF that]] assms(2,3) by (simp add: tls_inv_def tls_ok_def)
  show ?thesis using assms error_tls [OF assms(2)] close_tls [OF assms(2)]
    by (auto simp: ngx_mail_read_command_def Let_def close_tls split: option.splits mail_recv.splits prod.splits if_splits dest!: more)
qed

lemma imap_auth_state_tls:
  assumes "tls_inv c s" "ss_handler s = H_auth_state"
  shows "tls_inv c (ngx_mail_imap_auth_state c rcv snt s)"
proof (cases "ss_out s = []")
  case True
  let ?s = "s\<lparr>ss_blocked := False\<rparr>"
  obtain rc t where run: "ngx_mail_read_command c ngx_mail_imap_parse_command rcv snt ?s = (rc, t)" by (metis surj_pair)
  have t: "tls_inv c t" "rc \<noteq> M_ERROR \<Longrightarrow> ss_handler t = H_auth_state" "rc \<noteq> M_DONE"
    using imap_read_tls [OF run] assms by (auto simp: tls_inv_def tls_ok_def)
  let ?t = "t\<lparr>ss_text := [], ss_out := str ''OK completed'' @ crlf\<rparr>"
  show ?thesis
  proof (cases "rc = M_AGAIN \<or> rc = M_ERROR")
    case False
    let ?d = "if rc = M_OK then (case imap_backslashes ?t of None \<Rightarrow> (M_FAULT, True, ?t) | Some s \<Rightarrow> imap_dispatch c s)
      else if rc = M_IMAP_NEXT then (rc, False, ?t\<lparr>ss_out := str ''+ OK'' @ crlf\<rparr>) else (rc, True, ?t)"
    obtain rc' tag u where d: "?d = (rc', tag, u)" by (metis surj_pair)
    have b: "tls_inv c v \<and> ss_handler v = H_auth_state" if "imap_backslashes ?t = Some v" for v
      using that t False by (auto simp: imap_backslashes_def tls_inv_def tls_ok_def split: if_splits)
    have same: "tls_answer c (r, ?t)" "tls_answer c (r, ?t\<lparr>ss_out := w\<rparr>)" if "r \<noteq> M_DONE" for r w
      using that t False by (simp_all add: tls_answer_def tls_inv_def tls_ok_def)
    have "tls_answer c (rc', u)"
      using d b same t(3) imap_dispatch_tls by (auto split: if_splits option.splits)
    from imap_answer_tls [OF this] show ?thesis using False True run d
      by (cases rc) (simp_all add: ngx_mail_imap_auth_state_def Let_def)
  qed (use run True t in \<open>auto simp: ngx_mail_imap_auth_state_def\<close>)
next
  case False
  then show ?thesis using assms by (simp add: ngx_mail_imap_auth_state_def tls_inv_def tls_ok_def)
qed

lemma create_buffer_tls: "ngx_mail_smtp_create_buffer c' snt u = (ok, t) \<Longrightarrow> tls_inv c u \<Longrightarrow> tls_inv c t"
proof -
  assume u: "ngx_mail_smtp_create_buffer c' snt u = (ok, t)" "tls_inv c u"
  have upd: "tls_inv c (v\<lparr>ms_pool := p, ms_args := [], ms_nalloc := k\<rparr>) = tls_inv c v"
    "tls_inv c (v\<lparr>ms_pool := p, ms_args := [], ms_nalloc := k, ss_buffer := b, ss_buf := [], ss_pos := 0\<rparr>) = tls_inv c v"
    for v :: "'a mail_session" and p k b by (simp_all add: tls_inv_def tls_ok_def)
  show ?thesis using u by (auto simp: ngx_mail_smtp_create_buffer_def mail_alloc_def error_tls upd split: if_splits)
qed

lemma init_tls:
  assumes "mail_init_protocol c snt u = (ok, t)" "tls_inv c u"
  shows "tls_inv c t \<and> (ok \<longrightarrow> ss_handler t = H_auth_state)"
proof -
  obtain b v where v: "(if ss_buffer u = None then ngx_mail_smtp_create_buffer c snt u else (True, u)) = (b, v)" by (metis surj_pair)
  then have "tls_inv c v" using create_buffer_tls [of c snt u b v] assms(2) by (auto split: if_splits)
  then show ?thesis using assms(1) v by (cases b) (auto simp: mail_init_protocol_def tls_inv_def)
qed

lemma early_talker_tls:
  assumes "tls_inv c s" "ss_handler s = H_invalid_pipelining"
  shows "tls_inv c (smtp_early_talker c rcv snt s)"
proof -
  obtain b u where u: "(if ss_buffer s = None then ngx_mail_smtp_create_buffer c snt s else (True, s)) = (b, u)" by (metis surj_pair)
  have u': "tls_inv c u" using u assms create_buffer_tls [of c snt s b u] by (auto split: if_splits)
  obtain b' t where t: "ngx_mail_smtp_discard_command c rcv snt u = (b', t)" by (metis surj_pair)
  have "tls_inv c t" using t u' error_tls [OF u'] close_tls [OF u']
    by (auto simp: ngx_mail_smtp_discard_command_def split: option.splits mail_recv.splits if_splits)
      (simp_all add: tls_inv_def tls_ok_def)
  moreover from this have "tls_inv c (ngx_mail_send snt (t\<lparr>ss_out := w\<rparr>))" for w
    by (intro send_tls) (simp add: tls_inv_def tls_ok_def)
  ultimately show ?thesis using u u' t by (cases b; cases b') (auto simp: smtp_early_talker_def)
qed

lemma delayed_greeting_tls: "tls_inv c s \<Longrightarrow> ss_handler s = H_invalid_pipelining \<Longrightarrow> tls_inv c (smtp_delayed_greeting c r snt s)"
  unfolding smtp_delayed_greeting_def Let_def
  by (auto intro!: send_tls close_tls) (simp_all add: tls_inv_def tls_ok_def)

lemma imap_init_tls:
  assumes "tls_inv c u"
  shows "tls_inv c (let (ok, s) = mail_init_protocol c snt u in if ok then ngx_mail_imap_auth_state c rcv snt s else s)"
proof (cases "mail_init_protocol c snt u")
  case (Pair ok t)
  from init_tls [OF this assms] show ?thesis using Pair by (simp add: imap_auth_state_tls)
qed

lemma imap_mail_read_tls: "tls_inv c s \<Longrightarrow> tls_inv c (mail_read c (ngx_mail_imap_auth_state c) rcv snt s)"
  using imap_init_tls [of c s] imap_auth_state_tls [of c s] early_talker_tls [of c s] by (simp add: mail_read_def split: mail_handler.split)

lemma imap_event_tls:
  assumes "tls_inv c s"
  shows "tls_inv c (mail_event c (ngx_mail_imap_auth_state c) ev s)"
proof (cases ev)
  case (Ev_read rcv snt)
  then show ?thesis using assms by (simp add: mail_event_def imap_mail_read_tls)
next
  case (Ev_handshake ok rcv snt)
  have "tls_inv c (s\<lparr>ss_starttls := True, ss_ssl := True\<rparr>)" by (simp add: tls_inv_def tls_ok_def)
  moreover have "tls_inv c (s\<lparr>ss_starttls := True\<rparr>)" using assms by (simp add: tls_inv_def tls_ok_def)
  ultimately show ?thesis using Ev_handshake assms imap_init_tls by (simp add: mail_event_def close_tls)
next
  case (Ev_refused w snt)
  have "tls_inv c (s\<lparr>ss_handler := H_auth_state, ss_mail_state := MS_start, ss_auth_method := NGX_MAIL_AUTH_PLAIN, ss_out := w\<rparr>)"
    by (simp add: tls_inv_def)
  then show ?thesis using Ev_refused assms by (simp add: mail_event_def send_tls)
qed (use assms in \<open>simp_all add: mail_event_def send_tls close_tls imap_mail_read_tls delayed_greeting_tls\<close>)

text \<open>
  C7. IMAP sessions.  When \<open>starttls only\<close> is configured then no sequence of commands, literals, handshakes, refused logins and failed
  sends brings a login of an IMAP session to the authentication server while the connection is not encrypted.
\<close>

theorem imap_session_tls:
  assumes "mc_starttls c = NGX_MAIL_STARTTLS_ONLY"
    "ss_handler (mail_events c (ngx_mail_imap_auth_state c) evs (ngx_mail_imap_init_session registered snt (mail_session_init IS_start pool ssl))) = H_auth"
  shows "ss_ssl (mail_events c (ngx_mail_imap_auth_state c) evs (ngx_mail_imap_init_session registered snt (mail_session_init IS_start pool ssl)))"
proof -
  have "tls_inv c s \<Longrightarrow> tls_inv c (mail_events c (ngx_mail_imap_auth_state c) evs s)" for s
    by (induction evs arbitrary: s) (simp_all add: imap_event_tls)
  moreover have "tls_inv c (ngx_mail_imap_init_session registered snt (mail_session_init IS_start pool ssl))"
    unfolding ngx_mail_imap_init_session_def mail_greet_def
    using send_tls [of c "(mail_session_init IS_start pool ssl)\<lparr>ss_out := w, ss_handler := H_init_protocol\<rparr>" snt for w]
    by (auto simp: tls_inv_def mail_session_init_def ngx_mail_close_connection_def)
  ultimately show ?thesis using assms by (auto simp: tls_inv_def tls_ok_def)
qed

definition imap_events :: "mail_event list" where
  "imap_events =
    [Ev_read (R_data (str ''a LOGIN bob pw'' @ crlf)) (S_sent 100), Ev_read (R_data (str ''b STARTTLS'' @ crlf)) (S_sent 100),
     Ev_handshake True R_again (S_sent 100), Ev_read (R_data (str ''c LOGIN {3}'' @ crlf)) (S_sent 100),
     Ev_read (R_data (str ''bob'')) (S_sent 100), Ev_read (R_data (str '' \"p w\"'' @ crlf)) (S_sent 100)]"

theorem imap_session_tls_witness:
  "let s = mail_events mail_conf_only (ngx_mail_imap_auth_state mail_conf_only) imap_events
       (ngx_mail_imap_init_session True (S_sent 100) (mail_session_init IS_start 100 False))
     in ss_handler s = H_auth \<and> ss_login s = Bytes (str ''bob'') \<and> ss_passwd s = Bytes (str ''p w'') \<and> ss_ssl s"
proof -
  have r: "let s = mail_events mail_conf_only (ngx_mail_imap_auth_state mail_conf_only) imap_events
       (ngx_mail_imap_init_session True (S_sent 100) (mail_session_init IS_start 100 False))
     in ss_handler s = H_auth \<and> ss_login s = Bytes (str ''bob'') \<and> ss_passwd s = Bytes (str ''p w'')" by code_simp
  have n: "mc_starttls mail_conf_only = NGX_MAIL_STARTTLS_ONLY" by code_simp
  show ?thesis using r imap_session_tls [OF n, of imap_events True "S_sent 100" 100 False] by (simp add: Let_def)
qed

end
