(* ===== verification/Ngx_Rbtree.thy ===== *)
theory Ngx_Rbtree
  imports Ngx_Prelude "HOL-Library.Monad_Syntax"
begin

section \<open>The red-black tree\<close>

text \<open>
  \<open>src/core/ngx_rbtree.c\<close>: the tree behind the timers of the event loop, the caches and the limits per client.  The nodes belong
  to the callers of the tree and are linked by pointers in both directions; all leaves are one sentinel node.  The memory is a
  map from addresses to nodes, and \<open>None\<close> as a result stands for following a pointer to no node or for a loop that does not
  end.  The field \<open>data\<close> of a node is the callers' and not touched.
\<close>

record rb_node =
  rb_key :: u64
  rb_left :: ptr
  rb_right :: ptr
  rb_parent :: ptr
  rb_color :: byte

type_synonym rb_mem = "nat \<rightharpoonup> rb_node"

text \<open>\<open>tree->insert\<close> is an argument of the operations that call it.\<close>

record rb_tree =
  rb_root :: ptr
  rb_sentinel :: ptr

text \<open>Reading and writing the node that a pointer points to.\<close>

definition rb_at :: "rb_mem \<Rightarrow> ptr \<Rightarrow> rb_node option" where
  "rb_at h p = (case p of None \<Rightarrow> None | Some a \<Rightarrow> h a)"

definition rb_set :: "rb_mem \<Rightarrow> ptr \<Rightarrow> (rb_node \<Rightarrow> rb_node) \<Rightarrow> rb_mem option" where
  "rb_set h p f = (case p of None \<Rightarrow> None | Some a \<Rightarrow> (case h a of None \<Rightarrow> None | Some n \<Rightarrow> Some (h(a \<mapsto> f n))))"

definition ngx_rbt_red :: "rb_mem \<Rightarrow> ptr \<Rightarrow> rb_mem option" where
  "ngx_rbt_red h p = rb_set h p (\<lambda>n. n\<lparr>rb_color := 1\<rparr>)"

definition ngx_rbt_black :: "rb_mem \<Rightarrow> ptr \<Rightarrow> rb_mem option" where
  "ngx_rbt_black h p = rb_set h p (\<lambda>n. n\<lparr>rb_color := 0\<rparr>)"

definition ngx_rbt_is_red :: "rb_mem \<Rightarrow> ptr \<Rightarrow> bool option" where
  "ngx_rbt_is_red h p = map_option (\<lambda>n. rb_color n \<noteq> 0) (rb_at h p)"

definition ngx_rbt_copy_color :: "rb_mem \<Rightarrow> ptr \<Rightarrow> ptr \<Rightarrow> rb_mem option" where
  "ngx_rbt_copy_color h p q = do { n \<leftarrow> rb_at h q; rb_set h p (\<lambda>m. m\<lparr>rb_color := rb_color n\<rparr>) }"

text \<open>
  The code has each case of the rebalancing twice, as mirror images of each other.  Here a case is one definition with the side
  as an argument: with \<open>Left\<close> it is the first version in the code, with \<open>Right\<close> the second.
\<close>

datatype side = Left | Right

fun opp :: "side \<Rightarrow> side" where
  "opp Left = Right"
| "opp Right = Left"

fun rb_child :: "side \<Rightarrow> rb_node \<Rightarrow> ptr" where
  "rb_child Left n = rb_left n"
| "rb_child Right n = rb_right n"

fun rb_link :: "side \<Rightarrow> ptr \<Rightarrow> rb_node \<Rightarrow> rb_node" where
  "rb_link Left p n = n\<lparr>rb_left := p\<rparr>"
| "rb_link Right p n = n\<lparr>rb_right := p\<rparr>"

text \<open>\<open>if (old == p->left) p->left = new; else p->right = new\<close>, and its mirror image\<close>

definition rb_replace :: "side \<Rightarrow> rb_mem \<Rightarrow> ptr \<Rightarrow> ptr \<Rightarrow> ptr \<Rightarrow> rb_mem option" where
  "rb_replace s h p old new = do {
    n \<leftarrow> rb_at h p;
    rb_set h p (rb_link (if old = rb_child s n then s else opp s) new)
  }"

subsection \<open>Rotations\<close>

definition rb_rotate :: "side \<Rightarrow> rb_mem \<Rightarrow> ptr \<Rightarrow> ptr \<Rightarrow> ptr \<Rightarrow> (rb_mem \<times> ptr) option" where
  "rb_rotate s h root sentinel node = do {
    n \<leftarrow> rb_at h node;
    let temp = rb_child (opp s) n;
    t \<leftarrow> rb_at h temp;
    let mid = rb_child s t;
    h \<leftarrow> rb_set h node (rb_link (opp s) mid);
    h \<leftarrow> (if mid \<noteq> sentinel then rb_set h mid (\<lambda>m. m\<lparr>rb_parent := node\<rparr>) else Some h);
    n \<leftarrow> rb_at h node;
    h \<leftarrow> rb_set h temp (\<lambda>t. t\<lparr>rb_parent := rb_parent n\<rparr>);
    h \<leftarrow> (if node = root then Some h else rb_replace s h (rb_parent n) node temp);
    let root = (if node = root then temp else root);
    h \<leftarrow> rb_set h temp (rb_link s node);
    h \<leftarrow> rb_set h node (\<lambda>n. n\<lparr>rb_parent := temp\<rparr>);
    Some (h, root)
  }"

definition ngx_rbtree_left_rotate :: "rb_mem \<Rightarrow> ptr \<Rightarrow> ptr \<Rightarrow> ptr \<Rightarrow> (rb_mem \<times> ptr) option" where
  "ngx_rbtree_left_rotate = rb_rotate Left"

definition ngx_rbtree_right_rotate :: "rb_mem \<Rightarrow> ptr \<Rightarrow> ptr \<Rightarrow> ptr \<Rightarrow> (rb_mem \<times> ptr) option" where
  "ngx_rbtree_right_rotate = rb_rotate Right"

subsection \<open>Insertion\<close>

text \<open>The loop of \<open>ngx_rbtree_insert_value\<close>: the node to insert below, and the side of it.\<close>

partial_function (option) rb_descend :: "(u64 \<Rightarrow> u64 \<Rightarrow> bool) \<Rightarrow> rb_mem \<Rightarrow> ptr \<Rightarrow> ptr \<Rightarrow> ptr \<Rightarrow> (ptr \<times> side) option" where
  "rb_descend lt h temp node sentinel = do {
    n \<leftarrow> rb_at h node;
    t \<leftarrow> rb_at h temp;
    let s = (if lt (rb_key n) (rb_key t) then Left else Right);
    if rb_child s t = sentinel then Some (temp, s) else rb_descend lt h (rb_child s t) node sentinel
  }"

definition rb_insert_below :: "(u64 \<Rightarrow> u64 \<Rightarrow> bool) \<Rightarrow> rb_mem \<Rightarrow> ptr \<Rightarrow> ptr \<Rightarrow> ptr \<Rightarrow> rb_mem option" where
  "rb_insert_below lt h temp node sentinel = do {
    (temp, s) \<leftarrow> rb_descend lt h temp node sentinel;
    h \<leftarrow> rb_set h temp (rb_link s node);
    h \<leftarrow> rb_set h node (\<lambda>n. n\<lparr>rb_parent := temp, rb_left := sentinel, rb_right := sentinel\<rparr>);
    ngx_rbt_red h node
  }"

definition ngx_rbtree_insert_value :: "rb_mem \<Rightarrow> ptr \<Rightarrow> ptr \<Rightarrow> ptr \<Rightarrow> rb_mem option" where
  "ngx_rbtree_insert_value = rb_insert_below (<)"

text \<open>
  The keys of timers wrap around: the difference is taken as a signed number.  The code subtracts the keys as signed numbers, for
  which C does not define an overflow; the model is the two's complement result that compilers give it.
\<close>

definition timer_less :: "u64 \<Rightarrow> u64 \<Rightarrow> bool" where
  "timer_less k k' \<longleftrightarrow> sint (k - k') < 0"

definition ngx_rbtree_insert_timer_value :: "rb_mem \<Rightarrow> ptr \<Rightarrow> ptr \<Rightarrow> ptr \<Rightarrow> rb_mem option" where
  "ngx_rbtree_insert_timer_value = rb_insert_below timer_less"

text \<open>The end of the body of the loop of \<open>ngx_rbtree_insert\<close>, and the body.\<close>

definition rb_insert_turn :: "side \<Rightarrow> rb_mem \<Rightarrow> ptr \<Rightarrow> ptr \<Rightarrow> ptr \<Rightarrow> (rb_mem \<times> ptr) option" where
  "rb_insert_turn s h root sentinel node = do {
    n \<leftarrow> rb_at h node;
    h \<leftarrow> ngx_rbt_black h (rb_parent n);
    p \<leftarrow> rb_at h (rb_parent n);
    h \<leftarrow> ngx_rbt_red h (rb_parent p);
    rb_rotate (opp s) h root sentinel (rb_parent p)
  }"

definition rb_insert_case :: "side \<Rightarrow> rb_mem \<Rightarrow> ptr \<Rightarrow> ptr \<Rightarrow> ptr \<Rightarrow> (rb_mem \<times> ptr \<times> ptr) option" where
  "rb_insert_case s h root sentinel node = do {
    n \<leftarrow> rb_at h node;
    p \<leftarrow> rb_at h (rb_parent n);
    g \<leftarrow> rb_at h (rb_parent p);
    let temp = rb_child (opp s) g;
    red \<leftarrow> ngx_rbt_is_red h temp;
    if red then do {
      h \<leftarrow> ngx_rbt_black h (rb_parent n);
      h \<leftarrow> ngx_rbt_black h temp;
      h \<leftarrow> ngx_rbt_red h (rb_parent p);
      Some (h, root, rb_parent p)
    } else do {
      (h, root, node) \<leftarrow>
        (if node = rb_child (opp s) p
         then map_option (\<lambda>(h, root). (h, root, rb_parent n)) (rb_rotate s h root sentinel (rb_parent n))
         else Some (h, root, node));
      (h, root) \<leftarrow> rb_insert_turn s h root sentinel node;
      Some (h, root, node)
    }
  }"

partial_function (option) rb_insert_fix :: "rb_mem \<Rightarrow> ptr \<Rightarrow> ptr \<Rightarrow> ptr \<Rightarrow> (rb_mem \<times> ptr) option" where
  "rb_insert_fix h root sentinel node =
    (if node = root then Some (h, root)
     else do {
       n \<leftarrow> rb_at h node;
       p \<leftarrow> rb_at h (rb_parent n);
       if rb_color p = 0 then Some (h, root)
       else do {
         g \<leftarrow> rb_at h (rb_parent p);
         (h, root, node) \<leftarrow> rb_insert_case (if rb_parent n = rb_left g then Left else Right) h root sentinel node;
         rb_insert_fix h root sentinel node
       }
     })"

definition ngx_rbtree_insert ::
  "(rb_mem \<Rightarrow> ptr \<Rightarrow> ptr \<Rightarrow> ptr \<Rightarrow> rb_mem option) \<Rightarrow> rb_mem \<Rightarrow> rb_tree \<Rightarrow> ptr \<Rightarrow> (rb_mem \<times> rb_tree) option" where
  "ngx_rbtree_insert ins h tree node =
    (let sentinel = rb_sentinel tree in
     if rb_root tree = sentinel then do {
       h \<leftarrow> rb_set h node (\<lambda>n. n\<lparr>rb_parent := None, rb_left := sentinel, rb_right := sentinel\<rparr>);
       h \<leftarrow> ngx_rbt_black h node;
       Some (h, tree\<lparr>rb_root := node\<rparr>)
     } else do {
       h \<leftarrow> ins h (rb_root tree) node sentinel;
       (h, root) \<leftarrow> rb_insert_fix h (rb_root tree) sentinel node;
       h \<leftarrow> ngx_rbt_black h root;
       Some (h, tree\<lparr>rb_root := root\<rparr>)
     })"

subsection \<open>Deletion\<close>

partial_function (option) ngx_rbtree_min :: "rb_mem \<Rightarrow> ptr \<Rightarrow> ptr \<Rightarrow> ptr option" where
  "ngx_rbtree_min h node sentinel = do {
    n \<leftarrow> rb_at h node;
    if rb_left n \<noteq> sentinel then ngx_rbtree_min h (rb_left n) sentinel else Some node
  }"

text \<open>\<open>temp\<close> and \<open>subst\<close>: the subtree that moves up, and the node that leaves its place.\<close>

definition rb_subst :: "rb_mem \<Rightarrow> ptr \<Rightarrow> ptr \<Rightarrow> (ptr \<times> ptr) option" where
  "rb_subst h sentinel node = do {
    n \<leftarrow> rb_at h node;
    if rb_left n = sentinel then Some (rb_right n, node)
    else if rb_right n = sentinel then Some (rb_left n, node)
    else do {
      subst \<leftarrow> ngx_rbtree_min h (rb_right n) sentinel;
      m \<leftarrow> rb_at h subst;
      Some (if rb_left m \<noteq> sentinel then rb_left m else rb_right m, subst)
    }
  }"

text \<open>\<open>if (p != sentinel) p->parent = q\<close>\<close>

definition rb_reparent :: "rb_mem \<Rightarrow> ptr \<Rightarrow> ptr \<Rightarrow> ptr \<Rightarrow> rb_mem option" where
  "rb_reparent h sentinel p q = (if p \<noteq> sentinel then rb_set h p (\<lambda>m. m\<lparr>rb_parent := q\<rparr>) else Some h)"

text \<open>\<open>subst\<close> takes the place of \<open>node\<close>.\<close>

definition rb_move :: "rb_mem \<Rightarrow> ptr \<Rightarrow> ptr \<Rightarrow> ptr \<Rightarrow> ptr \<Rightarrow> (rb_mem \<times> ptr) option" where
  "rb_move h root sentinel node subst = do {
    n \<leftarrow> rb_at h node;
    h \<leftarrow> rb_set h subst (\<lambda>m. m\<lparr>rb_left := rb_left n, rb_right := rb_right n, rb_parent := rb_parent n\<rparr>);
    h \<leftarrow> ngx_rbt_copy_color h subst node;
    h \<leftarrow> (if node = root then Some h else rb_replace Left h (rb_parent n) node subst);
    let root = (if node = root then subst else root);
    m \<leftarrow> rb_at h subst;
    h \<leftarrow> rb_reparent h sentinel (rb_left m) subst;
    h \<leftarrow> rb_reparent h sentinel (rb_right m) subst;
    Some (h, root)
  }"

text \<open>The deletion without the rebalancing.\<close>

definition rb_unlink :: "rb_mem \<Rightarrow> ptr \<Rightarrow> ptr \<Rightarrow> ptr \<Rightarrow> ptr \<Rightarrow> ptr \<Rightarrow> (rb_mem \<times> ptr) option" where
  "rb_unlink h root sentinel node temp subst = do {
    m \<leftarrow> rb_at h subst;
    h \<leftarrow> rb_replace Left h (rb_parent m) subst temp;
    if subst = node then do {
      h \<leftarrow> rb_set h temp (\<lambda>t. t\<lparr>rb_parent := rb_parent m\<rparr>);
      Some (h, root)
    } else do {
      h \<leftarrow> rb_set h temp (\<lambda>t. t\<lparr>rb_parent := if rb_parent m = node then subst else rb_parent m\<rparr>);
      rb_move h root sentinel node subst
    }
  }"

definition rb_clear :: "rb_mem \<Rightarrow> ptr \<Rightarrow> rb_mem option" where
  "rb_clear h node = rb_set h node (\<lambda>n. n\<lparr>rb_left := None, rb_right := None, rb_parent := None, rb_key := 0\<rparr>)"

text \<open>The body of the loop of \<open>ngx_rbtree_delete\<close>, where \<open>w\<close> is the sibling of \<open>temp\<close>: the end of it, the part in which \<open>w\<close> is black, and all.\<close>

definition rb_delete_turn :: "side \<Rightarrow> rb_mem \<Rightarrow> ptr \<Rightarrow> ptr \<Rightarrow> ptr \<Rightarrow> (rb_mem \<times> ptr) option" where
  "rb_delete_turn s h root sentinel temp = do {
    t \<leftarrow> rb_at h temp;
    let parent = rb_parent t;
    p \<leftarrow> rb_at h parent;
    let w = rb_child (opp s) p;
    h \<leftarrow> ngx_rbt_copy_color h w parent;
    h \<leftarrow> ngx_rbt_black h parent;
    n \<leftarrow> rb_at h w;
    h \<leftarrow> ngx_rbt_black h (rb_child (opp s) n);
    rb_rotate s h root sentinel parent
  }"

definition rb_delete_black :: "side \<Rightarrow> rb_mem \<Rightarrow> ptr \<Rightarrow> ptr \<Rightarrow> ptr \<Rightarrow> (rb_mem \<times> ptr \<times> ptr) option" where
  "rb_delete_black s h root sentinel temp = do {
    t \<leftarrow> rb_at h temp;
    p \<leftarrow> rb_at h (rb_parent t);
    let w = rb_child (opp s) p;
    n \<leftarrow> rb_at h w;
    near \<leftarrow> ngx_rbt_is_red h (rb_child s n);
    far \<leftarrow> ngx_rbt_is_red h (rb_child (opp s) n);
    if \<not> near \<and> \<not> far then do {
      h \<leftarrow> ngx_rbt_red h w;
      Some (h, root, rb_parent t)
    } else do {
      (h, root) \<leftarrow>
        (if \<not> far then do {
           h \<leftarrow> ngx_rbt_black h (rb_child s n);
           h \<leftarrow> ngx_rbt_red h w;
           rb_rotate (opp s) h root sentinel w
         } else Some (h, root));
      (h, root) \<leftarrow> rb_delete_turn s h root sentinel temp;
      Some (h, root, root)
    }
  }"

definition rb_delete_case :: "side \<Rightarrow> rb_mem \<Rightarrow> ptr \<Rightarrow> ptr \<Rightarrow> ptr \<Rightarrow> (rb_mem \<times> ptr \<times> ptr) option" where
  "rb_delete_case s h root sentinel temp = do {
    t \<leftarrow> rb_at h temp;
    let parent = rb_parent t;
    p \<leftarrow> rb_at h parent;
    let w = rb_child (opp s) p;
    red \<leftarrow> ngx_rbt_is_red h w;
    (h, root) \<leftarrow>
      (if red then do {
         h \<leftarrow> ngx_rbt_black h w;
         h \<leftarrow> ngx_rbt_red h parent;
         rb_rotate s h root sentinel parent
       } else Some (h, root));
    rb_delete_black s h root sentinel temp
  }"

partial_function (option) rb_delete_fix :: "rb_mem \<Rightarrow> ptr \<Rightarrow> ptr \<Rightarrow> ptr \<Rightarrow> (rb_mem \<times> ptr \<times> ptr) option" where
  "rb_delete_fix h root sentinel temp =
    (if temp = root then Some (h, root, temp)
     else do {
       t \<leftarrow> rb_at h temp;
       if rb_color t \<noteq> 0 then Some (h, root, temp)
       else do {
         p \<leftarrow> rb_at h (rb_parent t);
         (h, root, temp) \<leftarrow> rb_delete_case (if temp = rb_left p then Left else Right) h root sentinel temp;
         rb_delete_fix h root sentinel temp
       }
     })"

text \<open>The end of the deletion, from \<open>/* DEBUG stuff */\<close> on.\<close>

definition rb_finish :: "rb_tree \<Rightarrow> ptr \<Rightarrow> ptr \<Rightarrow> bool \<Rightarrow> rb_mem \<Rightarrow> ptr \<Rightarrow> (rb_mem \<times> rb_tree) option" where
  "rb_finish tree node temp red h root = do {
    h \<leftarrow> rb_clear h node;
    if red then Some (h, tree\<lparr>rb_root := root\<rparr>)
    else do {
      (h, root, temp) \<leftarrow> rb_delete_fix h root (rb_sentinel tree) temp;
      h \<leftarrow> ngx_rbt_black h temp;
      Some (h, tree\<lparr>rb_root := root\<rparr>)
    }
  }"

definition ngx_rbtree_delete :: "rb_mem \<Rightarrow> rb_tree \<Rightarrow> ptr \<Rightarrow> (rb_mem \<times> rb_tree) option" where
  "ngx_rbtree_delete h tree node = do {
    (temp, subst) \<leftarrow> rb_subst h (rb_sentinel tree) node;
    if subst = rb_root tree then do {
      h \<leftarrow> ngx_rbt_black h temp;
      h \<leftarrow> rb_clear h node;
      Some (h, tree\<lparr>rb_root := temp\<rparr>)
    } else do {
      red \<leftarrow> ngx_rbt_is_red h subst;
      (h, root) \<leftarrow> rb_unlink h (rb_root tree) (rb_sentinel tree) node temp subst;
      rb_finish tree node temp red h root
    }
  }"

definition ngx_rbtree_init :: "rb_mem \<Rightarrow> ptr \<Rightarrow> (rb_mem \<times> rb_tree) option" where
  "ngx_rbtree_init h s = do { h \<leftarrow> ngx_rbt_black h s; Some (h, \<lparr>rb_root = s, rb_sentinel = s\<rparr>) }"

end
