(* ===== verification/Ngx_Rbtree_Correct.thy ===== *)
theory Ngx_Rbtree_Correct
  imports Ngx_Rbtree
begin

section \<open>Correctness of the red-black tree\<close>

text \<open>
  The memory of a tree is described by a functional tree with the addresses of the nodes, a position in it by the path to it.
  Rotations and changes of colour are shown to do to the memory what they do to the functional tree, for any path above;
  the loops are then followed on functional trees.
\<close>

subsection \<open>Trees and paths\<close>

datatype rbt = Leaf | Node rbt nat u64 bool rbt

text \<open>The node with a given child on a given side; \<open>True\<close> is red.\<close>

fun join :: "side \<Rightarrow> rbt \<Rightarrow> nat \<Rightarrow> u64 \<Rightarrow> bool \<Rightarrow> rbt \<Rightarrow> rbt" where
  "join Left a x k c b = Node a x k c b"
| "join Right a x k c b = Node b x k c a"

lemma opp_opp [simp]: "opp (opp s) = s" by (cases s) simp_all
lemma opp_neq [simp]: "opp s \<noteq> s" "s \<noteq> opp s" by (cases s; simp)+
lemma join_opp: "join (opp s) a x k c b = join s b x k c a" by (cases s) simp_all
lemma join_neq [simp]: "join s a x k c b \<noteq> Leaf" "Leaf \<noteq> join s a x k c b" by (cases s; simp)+
lemma join_ex: "t \<noteq> Leaf \<Longrightarrow> \<exists>a x k c b. t = join s a x k c b" by (cases t; cases s) (auto intro: exI [of _ "join _ _ _ _ _ _"])

fun addr :: "nat \<Rightarrow> rbt \<Rightarrow> ptr" where
  "addr z Leaf = Some z"
| "addr z (Node l x k c r) = Some x"

fun addrs :: "rbt \<Rightarrow> nat set" where
  "addrs Leaf = {}"
| "addrs (Node l x k c r) = insert x (addrs l \<union> addrs r)"

fun dist :: "rbt \<Rightarrow> bool" where
  "dist Leaf = True"
| "dist (Node l x k c r) = (x \<notin> addrs l \<and> x \<notin> addrs r \<and> addrs l \<inter> addrs r = {} \<and> dist l \<and> dist r)"

fun inorder :: "rbt \<Rightarrow> (nat \<times> u64) list" where
  "inorder Leaf = []"
| "inorder (Node l x k c r) = inorder l @ (x, k) # inorder r"

lemma join_simps [simp]:
  "addr z (join s a x k c b) = Some x"
  "addrs (join s a x k c b) = insert x (addrs a \<union> addrs b)"
  "dist (join s a x k c b) = (x \<notin> addrs a \<and> x \<notin> addrs b \<and> addrs a \<inter> addrs b = {} \<and> dist a \<and> dist b)"
  by (cases s; auto)+

text \<open>The node of the memory for a node of the tree.\<close>

definition rb_make :: "side \<Rightarrow> u64 \<Rightarrow> ptr \<Rightarrow> ptr \<Rightarrow> ptr \<Rightarrow> bool \<Rightarrow> rb_node" where
  "rb_make s k p q r c =
    \<lparr>rb_key = k, rb_left = (if s = Left then p else q), rb_right = (if s = Left then q else p), rb_parent = r, rb_color = of_bool c\<rparr>"

lemma rb_make_simps [simp]:
  "rb_key (rb_make s k p q r c) = k" "rb_parent (rb_make s k p q r c) = r" "rb_color (rb_make s k p q r c) = of_bool c"
  "rb_child s (rb_make s k p q r c) = p" "rb_child (opp s) (rb_make s k p q r c) = q"
  "rb_link s p' (rb_make s k p q r c) = rb_make s k p' q r c" "rb_link (opp s) q' (rb_make s k p q r c) = rb_make s k p q' r c"
  "(rb_make s k p q r c)\<lparr>rb_parent := r'\<rparr> = rb_make s k p q r' c"
  "(rb_make s k p q r c)\<lparr>rb_color := of_bool d\<rparr> = rb_make s k p q r d"
  "(rb_make s k p q r c)\<lparr>rb_color := 0\<rparr> = rb_make s k p q r False"
  "(rb_make s k p q r c)\<lparr>rb_color := 1\<rparr> = rb_make s k p q r True"
  by (cases s; simp add: rb_make_def)+

lemma rb_make_opp: "rb_make (opp s) k p q r c = rb_make s k q p r c"
  by (cases s) (simp_all add: rb_make_def)

fun holds :: "rb_mem \<Rightarrow> nat \<Rightarrow> ptr \<Rightarrow> rbt \<Rightarrow> bool" where
  "holds h z r Leaf = True"
| "holds h z r (Node a x k c b) = (h x = Some (rb_make Left k (addr z a) (addr z b) r c) \<and> holds h z (Some x) a \<and> holds h z (Some x) b)"

lemma holds_join [simp]:
  "holds h z r (join s a x k c b) = (h x = Some (rb_make s k (addr z a) (addr z b) r c) \<and> holds h z (Some x) a \<and> holds h z (Some x) b)"
  using rb_make_opp [of Left] by (cases s) auto

type_synonym frame = "side \<times> nat \<times> u64 \<times> bool \<times> rbt"

fun plug :: "frame list \<Rightarrow> rbt \<Rightarrow> rbt" where
  "plug [] t = t"
| "plug ((s, x, k, c, b) # C) t = plug C (join s t x k c b)"

fun caddrs :: "frame list \<Rightarrow> nat set" where
  "caddrs [] = {}"
| "caddrs ((s, x, k, c, b) # C) = insert x (addrs b \<union> caddrs C)"

fun cdist :: "frame list \<Rightarrow> bool" where
  "cdist [] = True"
| "cdist ((s, x, k, c, b) # C) = (x \<notin> addrs b \<and> x \<notin> caddrs C \<and> addrs b \<inter> caddrs C = {} \<and> dist b \<and> cdist C)"

fun cpar :: "ptr \<Rightarrow> frame list \<Rightarrow> ptr" where
  "cpar r [] = r"
| "cpar r ((s, x, k, c, b) # C) = Some x"

fun croot :: "ptr \<Rightarrow> frame list \<Rightarrow> ptr" where
  "croot a [] = a"
| "croot a ((s, x, k, c, b) # C) = croot (Some x) C"

fun cholds :: "rb_mem \<Rightarrow> nat \<Rightarrow> ptr \<Rightarrow> frame list \<Rightarrow> ptr \<Rightarrow> bool" where
  "cholds h z r [] a = True"
| "cholds h z r ((s, x, k, c, b) # C) a = (h x = Some (rb_make s k a (addr z b) (cpar r C) c) \<and> holds h z (Some x) b \<and> cholds h z r C (Some x))"

lemma holds_plug: "holds h z r (plug C t) \<longleftrightarrow> cholds h z r C (addr z t) \<and> holds h z (cpar r C) t"
  by (induction C t rule: plug.induct) auto

lemma addrs_plug [simp]: "addrs (plug C t) = caddrs C \<union> addrs t"
  by (induction C t rule: plug.induct) auto

lemma dist_plug: "dist (plug C t) \<longleftrightarrow> dist t \<and> cdist C \<and> caddrs C \<inter> addrs t = {}"
  by (induction C t rule: plug.induct) auto

lemma addr_plug: "addr z (plug C t) = croot (addr z t) C"
  by (induction C t rule: plug.induct) auto

lemma plug_append: "plug (C @ D) t = plug D (plug C t)"
  by (induction C t rule: plug.induct) simp_all

lemma holds_cong: "(\<And>a. a \<in> addrs t \<Longrightarrow> h' a = h a) \<Longrightarrow> holds h' z r t = holds h z r t"
  by (induction t arbitrary: r) auto

lemma cholds_cong: "(\<And>a. a \<in> caddrs C \<Longrightarrow> h' a = h a) \<Longrightarrow> cholds h' z r C a = cholds h z r C a"
  by (induction C a rule: cholds.induct) (auto cong: holds_cong)

lemma croot_in: "C \<noteq> [] \<Longrightarrow> \<exists>y \<in> caddrs C. croot a C = Some y"
proof (induction a C rule: croot.induct)
  case (2 a s x k c b C)
  then show ?case by (cases C) auto
qed simp

lemma croot_eq: "x \<notin> caddrs C \<Longrightarrow> (croot (Some x) C = Some x) = (C = [])"
  using croot_in [of C "Some x"] by fastforce

lemma croot_const: "C \<noteq> [] \<Longrightarrow> croot a C = croot b C"
  by (cases C) (auto simp: croot.simps)

subsection \<open>Trees in memory\<close>

definition rep :: "rb_mem \<Rightarrow> nat \<Rightarrow> ptr \<Rightarrow> rbt \<Rightarrow> bool" where
  "rep h z root t \<longleftrightarrow> (\<exists>r. holds h z r t) \<and> dist t \<and> z \<notin> addrs t \<and> root = addr z t \<and> (\<exists>n. h z = Some n \<and> rb_color n = 0)"

lemma rb_at_simps [simp]: "rb_at h (Some a) = h a" "h a = Some n \<Longrightarrow> rb_set h (Some a) f = Some (h(a \<mapsto> f n))"
  by (simp_all add: rb_at_def rb_set_def)

lemma repD:
  assumes "rep h z root (plug C (join s a x k c b))"
  obtains r where "h x = Some (rb_make s k (addr z a) (addr z b) (cpar r C) c)" "cholds h z r C (Some x)"
    "holds h z (Some x) a" "holds h z (Some x) b"
  using assms unfolding rep_def holds_plug by auto

fun red :: "rbt \<Rightarrow> bool" where
  "red Leaf = False"
| "red (Node l x k c r) = c"

lemma red_join [simp]: "red (join s a x k c b) = c"
  by (cases s) simp_all

lemma rep_is_red: "rep h z root (plug C t) \<Longrightarrow> ngx_rbt_is_red h (addr z t) = Some (red t)"
  by (cases t) (auto simp: rep_def holds_plug ngx_rbt_is_red_def)

text \<open>A change of colour.\<close>

lemma rep_color:
  assumes "rep h z root (plug C (join s a x k c b))"
  shows "\<exists>h'. rb_set h (Some x) (\<lambda>n. n\<lparr>rb_color := of_bool d\<rparr>) = Some h' \<and> rep h' z root (plug C (join s a x k d b)) \<and> (\<forall>p. p \<noteq> x \<longrightarrow> h' p = h p)"
proof -
  obtain r where r: "h x = Some (rb_make s k (addr z a) (addr z b) (cpar r C) c)" "cholds h z r C (Some x)"
    "holds h z (Some x) a" "holds h z (Some x) b" using assms by (rule repD)
  let ?h = "h(x \<mapsto> rb_make s k (addr z a) (addr z b) (cpar r C) d)"
  have d: "dist (plug C (join s a x k c b))" "z \<notin> addrs (plug C (join s a x k c b))" using assms by (auto simp: rep_def)
  have "cholds ?h z r C (Some x) = cholds h z r C (Some x)" using d by (intro cholds_cong) (auto simp: dist_plug)
  moreover have "holds ?h z (Some x) a = holds h z (Some x) a" "holds ?h z (Some x) b = holds h z (Some x) b"
    using d by (auto simp: dist_plug intro!: holds_cong)
  ultimately have "holds ?h z r (plug C (join s a x k d b))" using r by (simp add: holds_plug)
  then have "rep ?h z root (plug C (join s a x k d b))" using assms by (auto simp: rep_def dist_plug addr_plug)
  moreover have "rb_set h (Some x) (\<lambda>n. n\<lparr>rb_color := of_bool d\<rparr>) = Some ?h" using r(1) by simp
  ultimately show ?thesis by auto
qed

lemmas rep_black = rep_color [where d = False, simplified, folded ngx_rbt_black_def]
lemmas rep_red = rep_color [where d = True, simplified, folded ngx_rbt_red_def]

text \<open>A new parent for a subtree.\<close>

lemma reparent:
  assumes "holds h z r t" "dist t" "z \<notin> addrs t"
  shows "\<exists>h'. rb_reparent h (Some z) (addr z t) q = Some h' \<and> holds h' z q t \<and> (\<forall>p. p \<notin> addrs t \<longrightarrow> h' p = h p)"
proof (cases t)
  case (Node l x k c b)
  let ?h = "h(x \<mapsto> rb_make Left k (addr z l) (addr z b) q c)"
  have "holds ?h z (Some x) l = holds h z (Some x) l" "holds ?h z (Some x) b = holds h z (Some x) b"
    using assms(2) Node by (auto intro!: holds_cong)
  then show ?thesis using assms Node by (intro exI [of _ ?h]) (auto simp: rb_reparent_def)
qed (simp add: rb_reparent_def)

text \<open>A new subtree below a path.\<close>

lemma relink:
  assumes "cholds h z r C (Some x)" "cdist C" "x \<notin> caddrs C" "x \<noteq> z" "C \<noteq> []"
  shows "\<exists>h'. rb_replace s h (cpar r C) (Some x) new = Some h' \<and> cholds h' z r C new \<and> (\<forall>p. p \<notin> caddrs C \<longrightarrow> h' p = h p)"
proof -
  obtain s' y k c b D where C: "C = (s', y, k, c, b) # D" using assms(5) by (cases C) auto
  let ?h = "h(y \<mapsto> rb_make s' k new (addr z b) (cpar r D) c)"
  have y: "h y = Some (rb_make s' k (Some x) (addr z b) (cpar r D) c)" using assms(1) C by simp
  have "addr z b \<noteq> Some x" using assms(3,4) C by (cases b) auto
  then have link: "rb_link (if Some x = rb_child s (rb_make s' k (Some x) (addr z b) (cpar r D) c) then s else opp s) new
      (rb_make s' k (Some x) (addr z b) (cpar r D) c) = rb_make s' k new (addr z b) (cpar r D) c"
    by (cases s; cases s') (auto simp: rb_make_def)
  have "holds ?h z (Some y) b = holds h z (Some y) b" using assms(2) C by (intro holds_cong) auto
  moreover have "cholds ?h z r D (Some y) = cholds h z r D (Some y)" using assms(2) C by (intro cholds_cong) auto
  ultimately have "cholds ?h z r C new" using assms(1) C by simp
  moreover have "rb_replace s h (cpar r C) (Some x) new = Some ?h" using y link C by (simp add: rb_replace_def)
  ultimately show ?thesis using C by auto
qed

lemma relink_root:
  assumes "cholds h z r C (Some x)" "cdist C" "x \<notin> caddrs C" "x \<noteq> z" "root = croot (Some x) C"
  shows "\<exists>h'. (if Some x = root then Some h else rb_replace s h (cpar r C) (Some x) new) = Some h' \<and> cholds h' z r C new \<and>
    (\<forall>p. p \<notin> caddrs C \<longrightarrow> h' p = h p) \<and> (if Some x = root then new else root) = croot new C"
proof (cases "C = []")
  case False
  then show ?thesis using relink [OF assms(1-4) False] croot_eq [OF assms(3)] assms(5) croot_const [OF False] by metis
qed (use assms in auto)

subsection \<open>Rotations\<close>

lemma rep_rotate:
  assumes "rep h z root (plug C (join s a x k c (join s b y l d e)))"
  shows "\<exists>h' root'. rb_rotate s h root (Some z) (Some x) = Some (h', root') \<and>
    rep h' z root' (plug C (join s (join s a x k c b) y l d e)) \<and> (\<forall>p. p \<notin> addrs (plug C (join s a x k c (join s b y l d e))) \<longrightarrow> h' p = h p)"
proof -
  have d: "dist (plug C (join s a x k c (join s b y l d e)))" "z \<notin> addrs (plug C (join s a x k c (join s b y l d e)))"
    using assms by (auto simp: rep_def)
  obtain r where r: "h x = Some (rb_make s k (addr z a) (Some y) (cpar r C) c)" "cholds h z r C (Some x)" "holds h z (Some x) a"
    "h y = Some (rb_make s l (addr z b) (addr z e) (Some x) d)" "holds h z (Some y) b" "holds h z (Some y) e"
    using assms by (rule repD) simp
  have root: "root = croot (Some x) C" using assms by (simp add: rep_def addr_plug)
  have xy: "x \<noteq> y" using d by (auto simp: dist_plug)
  let ?h1 = "h(x \<mapsto> rb_make s k (addr z a) (addr z b) (cpar r C) c)"
  have "holds ?h1 z (Some y) b = holds h z (Some y) b" using d by (intro holds_cong) (auto simp: dist_plug)
  then obtain h2 where h2: "rb_reparent ?h1 (Some z) (addr z b) (Some x) = Some h2" "holds h2 z (Some x) b" "\<And>p. p \<notin> addrs b \<Longrightarrow> h2 p = ?h1 p"
    using reparent [of ?h1 z "Some y" b "Some x"] r(5) d by (auto simp: dist_plug)
  have h2xy: "h2 x = Some (rb_make s k (addr z a) (addr z b) (cpar r C) c)" "h2 y = Some (rb_make s l (addr z b) (addr z e) (Some x) d)"
    using h2(3) [of x] h2(3) [of y] d r(4) by (auto simp: dist_plug)
  let ?h3 = "h2(y \<mapsto> rb_make s l (addr z b) (addr z e) (cpar r C) d)"
  have c3: "cholds ?h3 z r C (Some x)"
  proof -
    have "cholds ?h3 z r C (Some x) = cholds h z r C (Some x)" using h2(3) d by (intro cholds_cong) (auto simp: dist_plug disjoint_iff)
    then show ?thesis using r(2) by simp
  qed
  obtain h4 where h4: "(if Some x = root then Some ?h3 else rb_replace s ?h3 (cpar r C) (Some x) (Some y)) = Some h4" "cholds h4 z r C (Some y)"
    "\<And>p. p \<notin> caddrs C \<Longrightarrow> h4 p = ?h3 p" "(if Some x = root then Some y else root) = croot (Some y) C"
    using relink_root [OF c3 _ _ _ root, of s "Some y"] d by (auto simp: dist_plug)
  let ?h6 = "h4(y \<mapsto> rb_make s l (Some x) (addr z e) (cpar r C) d, x \<mapsto> rb_make s k (addr z a) (addr z b) (Some y) c)"
  have "h4 y = ?h3 y" "h4 x = ?h3 x" using h4(3) d by (auto simp: dist_plug)
  then have "rb_rotate s h root (Some z) (Some x) = Some (?h6, croot (Some y) C)"
    using r(1,4) h2(1) h2xy h4(1,4) xy by (cases "root = Some x") (auto simp: rb_rotate_def rb_reparent_def [symmetric] dist_plug Let_def fun_upd_twist)
  moreover have frame: "?h6 p = h p" if "p \<notin> addrs b" "p \<notin> caddrs C" "p \<noteq> x" "p \<noteq> y" for p using that h4(3) h2(3) by simp
  have "rep ?h6 z (croot (Some y) C) (plug C (join s (join s a x k c b) y l d e))"
  proof -
    have D: "p \<in> addrs a \<union> addrs e \<Longrightarrow> p \<notin> addrs b \<and> p \<notin> caddrs C \<and> p \<noteq> x \<and> p \<noteq> y"
      "p \<in> addrs b \<Longrightarrow> p \<notin> caddrs C \<and> p \<noteq> x \<and> p \<noteq> y" "p \<in> caddrs C \<Longrightarrow> p \<noteq> x \<and> p \<noteq> y" for p
      using d by (auto simp: dist_plug)
    have p: "p \<in> addrs a \<union> addrs e \<Longrightarrow> ?h6 p = h p" "p \<in> addrs b \<Longrightarrow> ?h6 p = h2 p" "p \<in> caddrs C \<Longrightarrow> ?h6 p = h4 p" for p
      using D [of p] frame [of p] h4(3) [of p] by (simp_all del: Un_iff)
    have "holds ?h6 z (Some x) a = holds h z (Some x) a" "holds ?h6 z (Some y) e = holds h z (Some y) e"
      "holds ?h6 z (Some x) b = holds h2 z (Some x) b" "cholds ?h6 z r C (Some y) = cholds h4 z r C (Some y)"
      using p by (intro holds_cong cholds_cong; blast)+
    then have "holds ?h6 z r (plug C (join s (join s a x k c b) y l d e))"
      using r(3,6) h2(2) h4(2) xy by (simp add: holds_plug)
    moreover have "?h6 z = h z" using d by (intro frame) (auto simp: dist_plug)
    ultimately show ?thesis using assms d by (auto simp: rep_def dist_plug addr_plug)
  qed
  ultimately show ?thesis using frame by (intro exI conjI) (auto simp del: fun_upd_apply)
qed

subsection \<open>Order, heights and colours\<close>

fun bh :: "rbt \<Rightarrow> nat option" where
  "bh Leaf = Some 0"
| "bh (Node l x k c r) = (case bh l of None \<Rightarrow> None | Some n \<Rightarrow> if bh r = Some n then Some (n + of_bool (\<not> c)) else None)"

fun cbh :: "frame list \<Rightarrow> nat \<Rightarrow> nat option" where
  "cbh [] n = Some n"
| "cbh ((s, x, k, c, b) # C) n = (if bh b = Some n then cbh C (n + of_bool (\<not> c)) else None)"

fun cok :: "rbt \<Rightarrow> bool" where
  "cok Leaf = True"
| "cok (Node l x k c r) = ((c \<longrightarrow> \<not> red l \<and> \<not> red r) \<and> cok l \<and> cok r)"

fun ccok :: "frame list \<Rightarrow> bool \<Rightarrow> bool" where
  "ccok [] d = True"
| "ccok ((s, x, k, c, b) # C) d = ((c \<longrightarrow> \<not> d \<and> \<not> red b) \<and> cok b \<and> ccok C c)"

fun cpre :: "frame list \<Rightarrow> (nat \<times> u64) list" where
  "cpre [] = []"
| "cpre ((s, x, k, c, b) # C) = (if s = Left then cpre C else cpre C @ inorder b @ [(x, k)])"

fun cpost :: "frame list \<Rightarrow> (nat \<times> u64) list" where
  "cpost [] = []"
| "cpost ((s, x, k, c, b) # C) = (if s = Left then (x, k) # inorder b @ cpost C else cpost C)"

lemma bh_join [simp]: "bh (join s a x k c b) = (case bh a of None \<Rightarrow> None | Some n \<Rightarrow> if bh b = Some n then Some (n + of_bool (\<not> c)) else None)"
  by (cases s) (auto split: option.splits)

lemma cok_join [simp]: "cok (join s a x k c b) = ((c \<longrightarrow> \<not> red a \<and> \<not> red b) \<and> cok a \<and> cok b)"
  by (cases s) auto

lemma bh_plug: "bh (plug C t) = (case bh t of None \<Rightarrow> None | Some n \<Rightarrow> cbh C n)"
  by (induction C t rule: plug.induct) (auto split: option.splits)

lemma cok_plug: "cok (plug C t) = (cok t \<and> ccok C (red t))"
  by (induction C t rule: plug.induct) auto

lemma inorder_plug: "inorder (plug C t) = cpre C @ inorder t @ cpost C"
proof (induction C t rule: plug.induct)
  case (2 s x k c b C t)
  then show ?case by (cases s) auto
qed simp

lemma ccok_False: "ccok C d \<Longrightarrow> ccok C False"
  by (cases C) auto

lemma inorder_rotate: "inorder (join s (join s a x k c b) y l d e) = inorder (join s a x k c' (join s b y l d' e))"
  by (cases s) simp_all

lemma inorder_color: "inorder (join s a x k c b) = inorder (join s a x k d b)"
  by (cases s) simp_all

subsection \<open>Insertion: the loop\<close>

lemma insert_turn:
  assumes "rep h z root (plug ((s, p, kp, True, b) # (s, g, kg, False, u) # C) t)" "t \<noteq> Leaf"
  shows "\<exists>h' root'. rb_insert_turn s h root (Some z) (addr z t) = Some (h', root') \<and>
    rep h' z root' (plug ((s, p, kp, False, join s b g kg True u) # C) t) \<and>
    (\<forall>q. q \<notin> addrs (plug ((s, p, kp, True, b) # (s, g, kg, False, u) # C) t) \<longrightarrow> h' q = h q)"
proof -
  obtain a x k c b' where t: "t = join s a x k c b'" using join_ex [OF assms(2)] by blast
  obtain h1 where h1: "ngx_rbt_black h (Some p) = Some h1" "rep h1 z root (plug ((s, g, kg, False, u) # C) (join s t p kp False b))"
    "\<And>q. q \<noteq> p \<Longrightarrow> h1 q = h q"
    using rep_black [of h z root "(s, g, kg, False, u) # C" s t p kp True b] assms(1) by auto
  obtain h2 where h2: "ngx_rbt_red h1 (Some g) = Some h2" "rep h2 z root (plug C (join s (join s t p kp False b) g kg True u))"
    "\<And>q. q \<noteq> g \<Longrightarrow> h2 q = h1 q"
    using rep_red [of h1 z root C s "join s t p kp False b" g kg False u] h1(2) by auto
  then have "rep h2 z root (plug C (join (opp s) u g kg True (join (opp s) b p kp False t)))" by (simp add: join_opp)
  from rep_rotate [OF this] obtain h3 root' where h3: "rb_rotate (opp s) h2 root (Some z) (Some g) = Some (h3, root')"
    "rep h3 z root' (plug C (join s t p kp False (join s b g kg True u)))" "\<And>q. q \<notin> addrs (plug C (join s t g kg True (join s u p kp False b))) \<Longrightarrow> h3 q = h2 q"
    by (auto simp: join_opp)
  have "\<exists>r. h x = Some (rb_make s k (addr z a) (addr z b') (Some p) c)" using assms(1) t by (auto simp: rep_def holds_plug)
  moreover have "\<exists>r. h1 p = Some (rb_make s kp (addr z t) (addr z b) (Some g) False)" using h1(2) by (auto simp: rep_def holds_plug)
  ultimately have "rb_insert_turn s h root (Some z) (addr z t) = Some (h3, root')"
    using h1(1) h2(1) h3(1) t by (simp add: rb_insert_turn_def)
  moreover have "h3 q = h q" if "q \<notin> addrs (plug ((s, p, kp, True, b) # (s, g, kg, False, u) # C) t)" for q
    using that h1(3) h2(3) h3(3) by auto
  ultimately show ?thesis using h3(2) by auto
qed

lemma inorder_join: "inorder (join s a x k c b) = (if s = Left then inorder a @ (x, k) # inorder b else inorder b @ (x, k) # inorder a)"
  by (cases s) simp_all

lemma addrs_inorder: "addrs t = fst ` set (inorder t)"
  by (induction t) auto

definition outside :: "rbt \<Rightarrow> rb_mem \<Rightarrow> rb_mem \<Rightarrow> bool" where
  "outside t h h' \<longleftrightarrow> (\<forall>q. q \<notin> addrs t \<longrightarrow> h' q = h q)"

text \<open>What an iteration keeps: the entries in their order and the black height.\<close>

definition same :: "rbt \<Rightarrow> rbt \<Rightarrow> bool" where
  "same t t' \<longleftrightarrow> inorder t' = inorder t \<and> bh t' = bh t"

lemma same_plug: "same t t' \<Longrightarrow> same (plug C t) (plug C t')"
  by (simp add: same_def inorder_plug bh_plug)

lemma same_addrs: "same t t' \<Longrightarrow> addrs t' = addrs t"
  by (simp add: same_def addrs_inorder)

fun ctop :: "frame list \<Rightarrow> bool" where
  "ctop [] = False"
| "ctop ((s, x, k, c, b) # C) = (if C = [] then c else ctop C)"

lemma red_plug: "C \<noteq> [] \<Longrightarrow> red (plug C t) = ctop C"
proof (induction C t rule: plug.induct)
  case (2 s x k c b C t)
  then show ?case by (cases C) auto
qed simp

text \<open>The result of an iteration at \<open>t\<close> below the path \<open>C\<close>.\<close>

definition insert_result :: "nat \<Rightarrow> rb_mem \<Rightarrow> frame list \<Rightarrow> rbt \<Rightarrow> (rb_mem \<times> ptr \<times> ptr) option \<Rightarrow> bool" where
  "insert_result z h C t res \<longleftrightarrow>
    (\<exists>h' root' C' t'. res = Some (h', root', addr z t') \<and> rep h' z root' (plug C' t') \<and> same (plug C t) (plug C' t') \<and>
      t' \<noteq> Leaf \<and> red t' \<and> cok t' \<and> ccok C' False \<and> (\<not> ctop C \<longrightarrow> \<not> ctop C') \<and> length C' < length C \<and> outside (plug C t) h h')"

lemma addr_neq: "t \<noteq> Leaf \<Longrightarrow> addrs t \<inter> addrs b = {} \<Longrightarrow> z \<notin> addrs t \<Longrightarrow> addr z b \<noteq> addr z t"
  by (cases t; cases b) auto

lemma rep_grand:
  assumes "rep h z root (plug ((s1, p, kp, c, b) # (s, g, kg, d, u) # C) t)" "t \<noteq> Leaf"
  obtains n r where "rb_at h (addr z t) = Some n" "rb_parent n = Some p" "h p = Some (rb_make s1 kp (addr z t) (addr z b) (Some g) c)"
    "h g = Some (rb_make s kg (Some p) (addr z u) r d)" "ngx_rbt_is_red h (addr z u) = Some (red u)"
proof -
  have "ngx_rbt_is_red h (addr z u) = Some (red u)"
    using assms(1) rep_is_red [of h z root "(opp s, g, kg, d, join s1 t p kp c b) # C" u] by (simp add: join_opp)
  moreover have "\<exists>n r. rb_at h (addr z t) = Some n \<and> rb_parent n = Some p \<and> h p = Some (rb_make s1 kp (addr z t) (addr z b) (Some g) c) \<and>
      h g = Some (rb_make s kg (Some p) (addr z u) r d)"
    using assms by (cases t) (auto simp: rep_def holds_plug)
  ultimately show ?thesis using that by blast
qed

lemma insert_recolor:
  assumes rep: "rep h z root (plug ((s1, p, kp, True, b) # (s, g, kg, False, u) # C) t)" and t: "t \<noteq> Leaf" "cok t"
    and c: "ccok ((s1, p, kp, True, b) # (s, g, kg, False, u) # C) False" and "red u"
  shows "insert_result z h ((s1, p, kp, True, b) # (s, g, kg, False, u) # C) t (rb_insert_case s h root (Some z) (addr z t))"
proof -
  obtain u1 x k u2 where u: "u = join Left u1 x k True u2" using assms(5) by (cases u) auto
  let ?u = "join Left u1 x k False u2" and ?T = "plug ((s1, p, kp, True, b) # (s, g, kg, False, u) # C) t"
  let ?t = "join s (join s1 t p kp False b) g kg True ?u"
  obtain h1 where h1: "ngx_rbt_black h (Some p) = Some h1" "rep h1 z root (plug ((s, g, kg, False, u) # C) (join s1 t p kp False b))"
    "\<And>q. q \<noteq> p \<Longrightarrow> h1 q = h q"
    using rep_black [of h z root "(s, g, kg, False, u) # C" s1 t p kp True b] rep by auto
  then have "rep h1 z root (plug ((opp s, g, kg, False, join s1 t p kp False b) # C) (join Left u1 x k True u2))" by (simp add: join_opp u)
  from rep_black [OF this] obtain h2 where h2: "ngx_rbt_black h1 (Some x) = Some h2"
    "rep h2 z root (plug C (join s (join s1 t p kp False b) g kg False ?u))" "\<And>q. q \<noteq> x \<Longrightarrow> h2 q = h1 q" by (auto simp: join_opp)
  obtain h3 where h3: "ngx_rbt_red h2 (Some g) = Some h3" "rep h3 z root (plug C ?t)" "\<And>q. q \<noteq> g \<Longrightarrow> h3 q = h2 q"
    using rep_red [OF h2(2)] by auto
  obtain n r where "rb_at h (addr z t) = Some n" "rb_parent n = Some p" "h p = Some (rb_make s1 kp (addr z t) (addr z b) (Some g) True)"
    "h g = Some (rb_make s kg (Some p) (addr z u) r False)" "ngx_rbt_is_red h (addr z u) = Some (red u)" using rep t(1) by (rule rep_grand)
  then have "rb_insert_case s h root (Some z) (addr z t) = Some (h3, root, addr z ?t)"
    using h1(1) h2(1) h3(1) u by (auto simp: rb_insert_case_def Let_def)
  moreover have "same ?T (plug C ?t)"
    unfolding plug.simps using u by (intro same_plug) (auto simp: same_def inorder_join split: option.splits)
  moreover have "cok ?t" "ccok C False" using t(2) c u by auto
  moreover have "outside ?T h h3" using u h1(3) h2(3) h3(3) by (auto simp: outside_def)
  ultimately show ?thesis unfolding insert_result_def using h3(2) by (intro exI [of _ h3] exI [of _ root] exI [of _ C] exI [of _ ?t]) auto
qed

lemma insert_rotate:
  assumes rep: "rep h z root (plug ((s1, p, kp, True, b) # (s, g, kg, False, u) # C) t)" and t: "t \<noteq> Leaf" "red t" "cok t"
    and c: "ccok ((s1, p, kp, True, b) # (s, g, kg, False, u) # C) False" and "\<not> red u"
  shows "insert_result z h ((s1, p, kp, True, b) # (s, g, kg, False, u) # C) t (rb_insert_case s h root (Some z) (addr z t))"
proof -
  obtain n r where n: "rb_at h (addr z t) = Some n" "rb_parent n = Some p" "h p = Some (rb_make s1 kp (addr z t) (addr z b) (Some g) True)"
    "h g = Some (rb_make s kg (Some p) (addr z u) r False)" "ngx_rbt_is_red h (addr z u) = Some (red u)" using rep t(1) by (rule rep_grand)
  have ne: "addr z b \<noteq> addr z t" using rep t(1) by (intro addr_neq) (auto simp: rep_def dist_plug)
  let ?T = "plug ((s1, p, kp, True, b) # (s, g, kg, False, u) # C) t"
  show ?thesis
  proof (cases "s1 = s")
    case True
    let ?C = "(s, p, kp, False, join s b g kg True u) # C"
    obtain h' root' where r': "rb_insert_turn s h root (Some z) (addr z t) = Some (h', root')" "rep h' z root' (plug ?C t)" "outside ?T h h'"
      using insert_turn [of h z root s p kp b g kg u C t] rep t(1) True by (auto simp: outside_def)
    then have "rb_insert_case s h root (Some z) (addr z t) = Some (h', root', addr z t)"
      using n ne True assms(6) by (auto simp: rb_insert_case_def Let_def)
    moreover have "same ?T (plug ?C t)"
      unfolding plug.simps using True by (intro same_plug) (auto simp: same_def inorder_join split: option.splits)
    ultimately show ?thesis unfolding insert_result_def using r' t c assms(6) True
      by (intro exI [of _ h'] exI [of _ root'] exI [of _ ?C] exI [of _ t]) auto
  next
    case False
    then have s1: "s1 = opp s" by (cases s; cases s1) auto
    obtain a x k e where tt: "t = join s a x k True e" using join_ex [OF t(1), of s] t(2) by auto
    let ?t = "join s b p kp True a"
    let ?C = "(s, x, k, False, join s e g kg True u) # C"
    have "rep h z root (plug ((s, g, kg, False, u) # C) (join s b p kp True (join s a x k True e)))" using rep s1 tt by (simp add: join_opp)
    from rep_rotate [OF this] obtain h1 root1 where h1: "rb_rotate s h root (Some z) (Some p) = Some (h1, root1)"
      "rep h1 z root1 (plug ((s, x, k, True, e) # (s, g, kg, False, u) # C) ?t)" "outside ?T h h1"
      using s1 tt by (auto simp: outside_def join_opp)
    obtain h' root' where r': "rb_insert_turn s h1 root1 (Some z) (addr z ?t) = Some (h', root')" "rep h' z root' (plug ?C ?t)"
      "outside (plug ((s, x, k, True, e) # (s, g, kg, False, u) # C) ?t) h1 h'"
      using insert_turn [OF h1(2)] by (auto simp: outside_def)
    then have "rb_insert_case s h root (Some z) (addr z t) = Some (h', root', addr z ?t)"
      using n s1 h1(1) assms(6) by (auto simp: rb_insert_case_def Let_def)
    moreover have "same ?T (plug ?C ?t)"
      unfolding plug.simps using s1 tt by (intro same_plug) (cases s; auto simp: same_def split: option.splits)
    moreover have "outside ?T h h'" using h1(3) r'(3) tt by (auto simp: outside_def)
    moreover have "cok ?t" "ccok ?C False" using t c assms(6) tt by auto
    ultimately show ?thesis unfolding insert_result_def using r'(2)
      by (intro exI [of _ h'] exI [of _ root'] exI [of _ ?C] exI [of _ ?t]) auto
  qed
qed

lemma rep_root:
  assumes "rep h z root (plug C t)"
  shows "addr z t = root \<longleftrightarrow> C = []"
proof -
  obtain x where x: "addr z t = Some x" "x \<notin> caddrs C" using assms by (cases t) (auto simp: rep_def dist_plug)
  have "root = croot (Some x) C" using assms x(1) by (simp add: rep_def addr_plug)
  then show ?thesis using croot_eq [OF x(2)] x(1) by auto
qed

lemma same_trans: "same t t' \<Longrightarrow> same t' t'' \<Longrightarrow> same t t''"
  by (simp add: same_def)

lemma outside_trans: "outside t h h' \<Longrightarrow> outside t' h' h'' \<Longrightarrow> addrs t' = addrs t \<Longrightarrow> outside t h h''"
  by (simp add: outside_def)

lemma rep_side:
  assumes "rep h z root (plug ((s, g, kg, d, u) # C) t)" "t \<noteq> Leaf" "h g = Some (rb_make s kg (addr z t) (addr z u) r d)"
  shows "(if addr z t = rb_left (rb_make s kg (addr z t) (addr z u) r d) then Left else Right) = s"
proof -
  have "addr z u \<noteq> addr z t" using assms(1,2) by (intro addr_neq) (auto simp: rep_def dist_plug)
  then show ?thesis by (cases s) (auto simp: rb_make_def)
qed

text \<open>The loop: the root is black and only \<open>t\<close> may have a red parent.\<close>

lemma insert_fix:
  assumes "rep h z root (plug C t)" "t \<noteq> Leaf" "red t" "cok t" "ccok C False" "\<not> ctop C"
  shows "\<exists>h' root' T. rb_insert_fix h root (Some z) (addr z t) = Some (h', root') \<and> rep h' z root' T \<and> same (plug C t) T \<and>
    cok T \<and> outside (plug C t) h h'"
  using assms
proof (induction "length C" arbitrary: h root C t rule: less_induct)
  case less
  note root = rep_root [OF less.prems(1)]
  show ?case
  proof (cases C)
    case Nil
    then show ?thesis using less.prems root
      by (intro exI [of _ h] exI [of _ root] exI [of _ t]) (simp add: rb_insert_fix.simps same_def outside_def)
  next
    case (Cons f D)
    obtain s1 p kp c b where f: "f = (s1, p, kp, c, b)" by (metis surj_pair)
    obtain n where n: "rb_at h (addr z t) = Some n" "rb_parent n = Some p"
      using less.prems(1,2) Cons f by (cases t) (auto simp: rep_def holds_plug)
    obtain r where p: "h p = Some (rb_make s1 kp (addr z t) (addr z b) (cpar r D) c)" using less.prems(1) Cons f by (auto simp: rep_def holds_plug)
    show ?thesis
    proof (cases c)
      case False
      then have "rb_insert_fix h root (Some z) (addr z t) = Some (h, root)"
        using root Cons n p by (simp add: rb_insert_fix.simps)
      then show ?thesis using less.prems Cons f False
        by (intro exI [of _ h] exI [of _ root] exI [of _ "plug C t"]) (auto simp: same_def outside_def cok_plug)
    next
      case True
      then obtain s g kg u E where D: "D = (s, g, kg, False, u) # E" using less.prems(5,6) Cons f by (cases D) auto
      have g: "\<exists>r'. h g = Some (rb_make s kg (Some p) (addr z u) r' False)" using less.prems(1) Cons f D by (auto simp: rep_def holds_plug)
      have "insert_result z h C t (rb_insert_case s h root (Some z) (addr z t))"
        using insert_recolor insert_rotate less.prems Cons f D True by (cases "red u") auto
      then obtain h' root' C' t' where r': "rb_insert_case s h root (Some z) (addr z t) = Some (h', root', addr z t')" "rep h' z root' (plug C' t')"
        "same (plug C t) (plug C' t')" "t' \<noteq> Leaf" "red t'" "cok t'" "ccok C' False" "\<not> ctop C'" "length C' < length C" "outside (plug C t) h h'"
        using less.prems(6) unfolding insert_result_def by blast
      obtain h'' root'' T where T: "rb_insert_fix h' root' (Some z) (addr z t') = Some (h'', root'')" "rep h'' z root'' T" "same (plug C' t') T" "cok T"
        "outside (plug C' t') h' h''" using less.hyps [OF r'(9,2,4-8)] by blast
      have "(if Some p = rb_left (rb_make s kg (Some p) (addr z u) r' False) then Left else Right) = s"
        if "h g = Some (rb_make s kg (Some p) (addr z u) r' False)" for r'
        using rep_side [of h z root s g kg False u E "join s1 t p kp c b" r'] less.prems(1) Cons f D that by simp
      then have "rb_insert_fix h root (Some z) (addr z t) = Some (h'', root'')"
        using g n p root Cons D True r'(1) T(1) by (subst rb_insert_fix.simps) auto
      moreover have "same (plug C t) T" using r'(3) T(3) by (rule same_trans)
      moreover have "outside (plug C t) h h''" using r'(10) T(5) same_addrs [OF r'(3)] by (rule outside_trans)
      ultimately show ?thesis using T by blast
    qed
  qed
qed

subsection \<open>Insertion\<close>

text \<open>The place of a new entry in a list: behind the entries with keys that are not greater.\<close>

definition place :: "(u64 \<Rightarrow> u64 \<Rightarrow> bool) \<Rightarrow> nat \<times> u64 \<Rightarrow> (nat \<times> u64) list \<Rightarrow> (nat \<times> u64) list" where
  "place lt e xs = takeWhile (\<lambda>y. \<not> lt (snd e) (snd y)) xs @ e # dropWhile (\<lambda>y. \<not> lt (snd e) (snd y)) xs"

definition rb_inv :: "rbt \<Rightarrow> bool" where
  "rb_inv t \<longleftrightarrow> cok t \<and> bh t \<noteq> None \<and> \<not> red t"

text \<open>The new node below a leaf.\<close>

lemma rb_make_new [simp]:
  "n\<lparr>rb_parent := p, rb_left := q, rb_right := q, rb_color := 1\<rparr> = rb_make Left (rb_key n) q q p True"
  "n\<lparr>rb_parent := p, rb_left := q, rb_right := q, rb_color := 0\<rparr> = rb_make Left (rb_key n) q q p False"
  by (cases n; simp add: rb_make_def)+

lemma insert_leaf:
  assumes "rep h z root (plug ((s, y, k, c, b) # D) Leaf)" "x \<notin> addrs (plug ((s, y, k, c, b) # D) Leaf)" "x \<noteq> z" "h x = Some n"
  shows "\<exists>h'. (do {
      h \<leftarrow> rb_set h (Some y) (rb_link s (Some x));
      h \<leftarrow> rb_set h (Some x) (\<lambda>n. n\<lparr>rb_parent := Some y, rb_left := Some z, rb_right := Some z\<rparr>);
      ngx_rbt_red h (Some x)
    }) = Some h' \<and> rep h' z root (plug ((s, y, k, c, b) # D) (Node Leaf x (rb_key n) True Leaf)) \<and>
    (\<forall>q. q \<noteq> x \<and> q \<notin> addrs (plug ((s, y, k, c, b) # D) Leaf) \<longrightarrow> h' q = h q)"
proof -
  obtain r where r: "h y = Some (rb_make s k (Some z) (addr z b) (cpar r D) c)" "cholds h z r D (Some y)" "holds h z (Some y) b"
    using assms(1) by (auto simp: rep_def holds_plug)
  let ?x = "rb_make Left (rb_key n) (Some z) (Some z) (Some y) True"
  let ?h = "h(y \<mapsto> rb_make s k (Some x) (addr z b) (cpar r D) c, x \<mapsto> ?x)"
  have d: "x \<noteq> y" "x \<notin> addrs b" "x \<notin> caddrs D" "y \<notin> addrs b" "y \<notin> caddrs D" using assms(1,2) by (auto simp: rep_def dist_plug)
  have "holds ?h z (Some y) b = holds h z (Some y) b" "cholds ?h z r D (Some y) = cholds h z r D (Some y)"
    using d by (intro holds_cong cholds_cong; auto)+
  then have "holds ?h z r (plug ((s, y, k, c, b) # D) (Node Leaf x (rb_key n) True Leaf))" using r d by (simp add: holds_plug)
  then have "rep ?h z root (plug ((s, y, k, c, b) # D) (Node Leaf x (rb_key n) True Leaf))"
    using assms(1-3) by (auto simp: rep_def dist_plug addr_plug)
  moreover have "ngx_rbt_red (h(y \<mapsto> rb_make s k (Some x) (addr z b) (cpar r D) c, x \<mapsto> n\<lparr>rb_parent := Some y, rb_left := Some z, rb_right := Some z\<rparr>)) (Some x) = Some ?h"
    by (simp add: ngx_rbt_red_def)
  ultimately show ?thesis using r(1) assms(4) d(1) by (intro exI [of _ ?h]) simp
qed

text \<open>A comparison that orders the keys of a set.\<close>

locale key_order =
  fixes lt :: "u64 \<Rightarrow> u64 \<Rightarrow> bool" and S :: "u64 set"
  assumes le_trans: "a \<in> S \<Longrightarrow> b \<in> S \<Longrightarrow> c \<in> S \<Longrightarrow> \<not> lt b a \<Longrightarrow> \<not> lt c b \<Longrightarrow> \<not> lt c a"
    and lt_asym: "a \<in> S \<Longrightarrow> b \<in> S \<Longrightarrow> lt a b \<Longrightarrow> \<not> lt b a"
begin

definition ordered :: "(nat \<times> u64) list \<Rightarrow> bool" where
  "ordered xs \<longleftrightarrow> snd ` set xs \<subseteq> S \<and> sorted_wrt (\<lambda>x y. \<not> lt (snd y) (snd x)) xs"

lemma ordered_append: "ordered (xs @ ys) \<longleftrightarrow> ordered xs \<and> ordered ys \<and> (\<forall>x \<in> set xs. \<forall>y \<in> set ys. \<not> lt (snd y) (snd x))"
  by (auto simp: ordered_def sorted_wrt_append)

lemma place_append_left:
  assumes "ordered (xs @ y # ys)" "snd e \<in> S" "lt (snd e) (snd y)"
  shows "place lt e (xs @ y # ys) = place lt e xs @ y # ys"
proof -
  let ?P = "\<lambda>y. \<not> lt (snd e) (snd y)"
  have "takeWhile ?P (xs @ y # ys) = takeWhile ?P xs" "dropWhile ?P (xs @ y # ys) = dropWhile ?P xs @ y # ys"
    using assms(3) by (simp_all add: takeWhile_tail dropWhile_append) 
  then show ?thesis by (simp add: place_def)
qed

lemma place_append_right:
  assumes "ordered (xs @ y # ys)" "snd e \<in> S" "\<not> lt (snd e) (snd y)"
  shows "place lt e (xs @ y # ys) = xs @ y # place lt e ys"
proof -
  have "\<not> lt (snd e) (snd x)" if "x \<in> set xs" for x
    using assms that le_trans [of "snd x" "snd y" "snd e"] by (auto simp: ordered_def sorted_wrt_append)
  then show ?thesis using assms(3) by (simp add: place_def)
qed

lemma ordered_insert:
  assumes "ordered (xs @ ys)" "snd e \<in> S" "\<And>x. x \<in> set xs \<Longrightarrow> \<not> lt (snd e) (snd x)" "\<And>y. y \<in> set ys \<Longrightarrow> \<not> lt (snd y) (snd e)"
  shows "ordered (xs @ e # ys)"
  using assms by (simp add: ordered_def sorted_wrt_append)

lemma place_ordered:
  assumes "ordered xs" "snd e \<in> S"
  shows "ordered (place lt e xs)"
proof -
  let ?P = "\<lambda>y. \<not> lt (snd e) (snd y)"
  have o: "ordered (takeWhile ?P xs @ dropWhile ?P xs)" using assms(1) by simp
  have "\<not> lt (snd y) (snd e)" if "y \<in> set (dropWhile ?P xs)" for y
  proof (cases "dropWhile ?P xs")
    case (Cons d ds)
    then have d: "lt (snd e) (snd d)" using hd_dropWhile [of ?P xs] by auto
    have "snd d \<in> S" "\<forall>y \<in> set ds. snd y \<in> S \<and> \<not> lt (snd y) (snd d)" using o Cons by (auto simp del: takeWhile_dropWhile_id simp: ordered_def sorted_wrt_append)
    then show ?thesis using that Cons d assms(2) lt_asym [of "snd e" "snd d"] le_trans [of "snd e" "snd d" "snd y"] by auto
  qed (use that in \<open>simp del: dropWhile_eq_Nil_conv\<close>)
  then show ?thesis unfolding place_def using o assms(2) by (intro ordered_insert) (auto dest: set_takeWhileD)
qed

lemma descend:
  assumes "holds h z r t" "t \<noteq> Leaf" "z \<notin> addrs t" "h x = Some n" "rb_key n \<in> S" "ordered (inorder t)"
  shows "\<exists>D s y k c b. rb_descend lt h (addr z t) (Some x) (Some z) = Some (Some y, s) \<and> t = plug D (join s Leaf y k c b) \<and>
    inorder (plug D (join s (Node Leaf x (rb_key n) True Leaf) y k c b)) = place lt (x, rb_key n) (inorder t)"
  using assms
proof (induction t arbitrary: r)
  case (Node l y k c b)
  define s where "s = (if lt (rb_key n) k then Left else Right)"
  define u where "u = (if s = Left then l else b)"
  define v where "v = (if s = Left then b else l)"
  have t: "Node l y k c b = join s u y k c v" by (simp add: s_def u_def v_def)
  have hy: "h y = Some (rb_make s k (addr z u) (addr z v) r c)" using Node.prems(1) unfolding t by simp
  have step: "rb_descend lt h (Some y) (Some x) (Some z) =
      (if addr z u = Some z then Some (Some y, s) else rb_descend lt h (addr z u) (Some x) (Some z))"
    using hy Node.prems(4) by (subst rb_descend.simps) (simp add: Let_def s_def [symmetric])
  have place: "place lt (x, rb_key n) (inorder (join s u y k c v)) =
      (if s = Left then place lt (x, rb_key n) (inorder u) @ (y, k) # inorder v else inorder v @ (y, k) # place lt (x, rb_key n) (inorder u))"
    using Node.prems(5,6) place_append_left [of "inorder l" "(y, k)" "inorder b" "(x, rb_key n)"]
      place_append_right [of "inorder l" "(y, k)" "inorder b" "(x, rb_key n)"]
    by (simp add: s_def u_def v_def)
  show ?case
  proof (cases "u = Leaf")
    case True
    then have "inorder (plug [] (join s (Node Leaf x (rb_key n) True Leaf) y k c v)) = place lt (x, rb_key n) (inorder (join s u y k c v))"
      unfolding place by (simp add: inorder_join place_def)
    then show ?thesis unfolding t using step True by (intro exI [of _ "[]"] exI) auto
  next
    case False
    have ord: "ordered (inorder l)" "ordered (inorder b)" using Node.prems(6) by (auto simp: ordered_def sorted_wrt_append)
    have "\<exists>D s' y' k' c' b'. rb_descend lt h (addr z u) (Some x) (Some z) = Some (Some y', s') \<and> u = plug D (join s' Leaf y' k' c' b') \<and>
        inorder (plug D (join s' (Node Leaf x (rb_key n) True Leaf) y' k' c' b')) = place lt (x, rb_key n) (inorder u)"
    proof (cases "s = Left")
      case True
      then show ?thesis using Node.IH(1) [of "Some y"] Node.prems ord(1) False by (simp add: u_def)
    next
      case False
      then show ?thesis using Node.IH(2) [of "Some y"] Node.prems ord(2) \<open>u \<noteq> Leaf\<close> by (simp add: u_def)
    qed
    then obtain D s' y' k' c' b' where r: "rb_descend lt h (addr z u) (Some x) (Some z) = Some (Some y', s')" "u = plug D (join s' Leaf y' k' c' b')"
        "inorder (plug D (join s' (Node Leaf x (rb_key n) True Leaf) y' k' c' b')) = place lt (x, rb_key n) (inorder u)" by blast
    have "addr z u \<noteq> Some z" using Node.prems(3) False by (cases u) (auto simp: u_def split: if_splits)
    then have "rb_descend lt h (addr z (join s u y k c v)) (Some x) (Some z) = Some (Some y', s')" using step r(1) by simp
    moreover have "join s u y k c v = plug (D @ [(s, y, k, c, v)]) (join s' Leaf y' k' c' b')" using r(2) by (simp add: plug_append)
    moreover have "inorder (plug (D @ [(s, y, k, c, v)]) (join s' (Node Leaf x (rb_key n) True Leaf) y' k' c' b')) =
        place lt (x, rb_key n) (inorder (join s u y k c v))" unfolding place using r(3) by (simp add: plug_append inorder_join)
    ultimately show ?thesis unfolding t by blast
  qed
qed simp

lemma insert_below:
  assumes "rep h z root T" "T \<noteq> Leaf" "ordered (inorder T)" "rb_key n \<in> S" "h x = Some n" "x \<notin> addrs T" "x \<noteq> z"
  shows "\<exists>h' C. rb_insert_below lt h root (Some x) (Some z) = Some h' \<and> C \<noteq> [] \<and> T = plug C Leaf \<and>
    rep h' z root (plug C (Node Leaf x (rb_key n) True Leaf)) \<and>
    inorder (plug C (Node Leaf x (rb_key n) True Leaf)) = place lt (x, rb_key n) (inorder T) \<and>
    (\<forall>q. q \<noteq> x \<and> q \<notin> addrs T \<longrightarrow> h' q = h q)"
proof -
  obtain r where r: "holds h z r T" "z \<notin> addrs T" "root = addr z T" using assms(1) by (auto simp: rep_def)
  obtain D s y k c b where D: "rb_descend lt h root (Some x) (Some z) = Some (Some y, s)" "T = plug D (join s Leaf y k c b)"
    "inorder (plug D (join s (Node Leaf x (rb_key n) True Leaf) y k c b)) = place lt (x, rb_key n) (inorder T)"
    using descend [OF r(1) assms(2) r(2) assms(5,4,3)] r(3) by blast
  let ?C = "(s, y, k, c, b) # D"
  have T: "T = plug ?C Leaf" using D(2) by simp
  obtain h' where "(do {
      h \<leftarrow> rb_set h (Some y) (rb_link s (Some x));
      h \<leftarrow> rb_set h (Some x) (\<lambda>n. n\<lparr>rb_parent := Some y, rb_left := Some z, rb_right := Some z\<rparr>);
      ngx_rbt_red h (Some x)
    }) = Some h'" "rep h' z root (plug ?C (Node Leaf x (rb_key n) True Leaf))" "\<forall>q. q \<noteq> x \<and> q \<notin> addrs T \<longrightarrow> h' q = h q"
    using insert_leaf [OF assms(1,6) [unfolded T] assms(7,5)] T by auto
  then show ?thesis using D T by (intro exI [of _ h'] exI [of _ ?C]) (simp add: rb_insert_below_def)
qed

text \<open>The insertion with rebalancing.\<close>

lemma insert_ok:
  assumes rep: "rep h z (rb_root tr) T" "rb_sentinel tr = Some z" and inv: "rb_inv T" "ordered (inorder T)"
    and x: "h x = Some n" "rb_key n \<in> S" "x \<notin> addrs T" "x \<noteq> z"
  shows "\<exists>h' tr' T'. ngx_rbtree_insert (rb_insert_below lt) h tr (Some x) = Some (h', tr') \<and> rep h' z (rb_root tr') T' \<and> rb_sentinel tr' = Some z \<and>
    rb_inv T' \<and> ordered (inorder T') \<and> inorder T' = place lt (x, rb_key n) (inorder T) \<and> (\<forall>q. q \<noteq> x \<and> q \<notin> addrs T \<longrightarrow> h' q = h q)"
proof (cases "T = Leaf")
  case True
  let ?T = "Node Leaf x (rb_key n) False Leaf"
  let ?h = "h(x \<mapsto> rb_make Left (rb_key n) (Some z) (Some z) None False)"
  have "ngx_rbtree_insert (rb_insert_below lt) h tr (Some x) = Some (?h, tr\<lparr>rb_root := Some x\<rparr>)"
    using rep True x(1) by (simp add: ngx_rbtree_insert_def rep_def Let_def ngx_rbt_black_def)
  moreover have "rep ?h z (Some x) ?T" using rep x by (auto simp: rep_def)
  moreover have "inorder ?T = place lt (x, rb_key n) (inorder T)" using True by (simp add: place_def)
  moreover have "rb_inv ?T" "ordered (inorder ?T)" using x(2) by (simp_all add: rb_inv_def ordered_def)
  ultimately show ?thesis using rep(2) by (intro exI [of _ ?h] exI [of _ "tr\<lparr>rb_root := Some x\<rparr>"] exI [of _ ?T]) simp
next
  case False
  let ?x = "Node Leaf x (rb_key n) True Leaf"
  obtain h1 C where h1: "rb_insert_below lt h (rb_root tr) (Some x) (Some z) = Some h1" "C \<noteq> []" "T = plug C Leaf" "rep h1 z (rb_root tr) (plug C ?x)"
    "inorder (plug C ?x) = place lt (x, rb_key n) (inorder T)" "\<forall>q. q \<noteq> x \<and> q \<notin> addrs T \<longrightarrow> h1 q = h q"
    using insert_below [OF rep(1) False inv(2) x(2,1,3,4)] by blast
  have "ccok C False" "\<not> ctop C" "bh (plug C ?x) = bh T" using inv(1) h1(2,3) red_plug [of C Leaf] by (simp_all add: rb_inv_def cok_plug bh_plug)
  moreover from insert_fix [OF h1(4) _ _ _ this(1,2)] obtain h2 root T2 where T2: "rb_insert_fix h1 (rb_root tr) (Some z) (Some x) = Some (h2, root)"
    "rep h2 z root T2" "same (plug C ?x) T2" "cok T2" "outside (plug C ?x) h1 h2" by auto
  ultimately have T2': "inorder T2 = place lt (x, rb_key n) (inorder T)" "bh T2 \<noteq> None" "T2 \<noteq> Leaf"
    using h1(5) inv(1) by (auto simp: same_def rb_inv_def place_def)
  then obtain l y k c b where T2_eq: "T2 = join Left l y k c b" by (cases T2) auto
  let ?T = "join Left l y k False b"
  have root: "root = Some y" using T2(2) T2_eq by (simp add: rep_def)
  obtain h3 where h3: "ngx_rbt_black h2 root = Some h3" "rep h3 z root ?T" "\<And>q. q \<noteq> y \<Longrightarrow> h3 q = h2 q"
    using rep_black [of h2 z root "[]" Left l y k c b] T2(2) T2_eq root by auto
  have "ngx_rbtree_insert (rb_insert_below lt) h tr (Some x) = Some (h3, tr\<lparr>rb_root := root\<rparr>)"
    using h1(1) T2(1) h3(1) rep False by (cases T) (auto simp: ngx_rbtree_insert_def rep_def Let_def)
  moreover have "rb_inv ?T" "inorder ?T = place lt (x, rb_key n) (inorder T)"
    using T2(4) T2'(1,2) T2_eq by (auto simp: rb_inv_def split: option.splits if_splits)
  moreover have "h3 q = h q" if "q \<noteq> x" "q \<notin> addrs T" for q
  proof -
    have "addrs T2 = addrs (plug C ?x)" using T2(3) by (rule same_addrs)
    then show ?thesis using that h3(3) [of q] h1(3,6) T2(5) T2_eq by (auto simp: outside_def)
  qed
  ultimately show ?thesis using rep(2) h3(2) place_ordered [OF inv(2), of "(x, rb_key n)"] x(2)
    by (intro exI [of _ h3] exI [of _ "tr\<lparr>rb_root := root\<rparr>"] exI [of _ ?T]) simp
qed

end

interpretation value_order: key_order "(<)" UNIV
  by unfold_locales auto

text \<open>Timers are ordered as long as all of them lie in the same half of the range of the clock.\<close>

definition window :: "u64 \<Rightarrow> u64 set" where
  "window base = {k. uint (k - base) < 2 ^ 63}"

lemma sint_word_of_int: "sint (word_of_int i :: u64) = signed_take_bit 63 i"
  by transfer simp

lemma timer_less_window:
  assumes "a \<in> window base" "b \<in> window base"
  shows "timer_less a b \<longleftrightarrow> uint (a - base) < uint (b - base)"
proof -
  let ?u = "uint (a - base)" and ?v = "uint (b - base)"
  have "a - b = word_of_int (?u - ?v)" by simp
  then have "sint (a - b) = signed_take_bit 63 (?u - ?v)" using sint_word_of_int by metis
  also have "\<dots> = ?u - ?v"
  proof (rule signed_take_bit_int_eq_self)
    have "0 \<le> ?u" "0 \<le> ?v" by (rule uint_ge_0)+
    moreover have "?u < 2 ^ 63" "?v < 2 ^ 63" using assms by (simp_all add: window_def)
    ultimately show "- (2 ^ 63) \<le> ?u - ?v" "?u - ?v < 2 ^ 63" by linarith+
  qed
  finally show ?thesis by (simp add: timer_less_def)
qed

interpretation timer_order: key_order timer_less "window base" for base
  by unfold_locales (auto simp: timer_less_window)

subsection \<open>Deletion: the loop\<close>

fun paint :: "rbt \<Rightarrow> rbt" where
  "paint Leaf = Leaf"
| "paint (Node l x k c r) = Node l x k False r"

lemma paint_simps [simp]:
  "paint (join s a x k c b) = join s a x k False b" "inorder (paint t) = inorder t" "addr z (paint t) = addr z t"
  "addrs (paint t) = addrs t" "red (paint t) = False"
  by (cases s, simp_all) (cases t; simp)+

lemma cok_paint: "cok t \<Longrightarrow> cok (paint t)" "\<not> red t \<Longrightarrow> paint t = t"
  by (cases t; simp)+

lemma bh_paint: "bh t = Some n \<Longrightarrow> bh (paint t) = Some (n + of_bool (red t))"
  by (cases t) (auto split: option.splits if_splits)

lemma rep_outside: "rep h z root t \<Longrightarrow> outside t h h' \<Longrightarrow> h' z = h z"
  by (simp add: rep_def outside_def)

text \<open>\<open>ngx_rbt_black\<close> of a subtree, which may be the sentinel.\<close>

lemma rep_paint:
  assumes "rep h z root (plug C t)"
  shows "\<exists>h'. ngx_rbt_black h (addr z t) = Some h' \<and> rep h' z root (plug C (paint t)) \<and> outside (plug C t) h h'"
proof (cases t)
  case Leaf
  obtain n where n: "h z = Some n" "rb_color n = 0" using assms by (auto simp: rep_def)
  then have "n\<lparr>rb_color := 0\<rparr> = n" by (cases n) simp
  then show ?thesis using assms Leaf n by (intro exI [of _ h]) (auto simp: ngx_rbt_black_def outside_def fun_upd_idem)
next
  case (Node l x k c b)
  then show ?thesis using rep_black [of h z root C Left l x k c b] assms by (auto simp: outside_def)
qed

lemma rep_temp:
  assumes "rep h z root (plug ((s, p, kp, cp, w) # C) t)" "t = Leaf \<Longrightarrow> map_option rb_parent (h z) = Some (Some p)"
  obtains n where "rb_at h (addr z t) = Some n" "rb_parent n = Some p" "rb_color n = of_bool (red t)"
proof -
  have "\<exists>n. rb_at h (addr z t) = Some n \<and> rb_parent n = Some p \<and> rb_color n = of_bool (red t)"
    using assms by (cases t) (auto simp: rep_def holds_plug)
  then show ?thesis using that by blast
qed

lemma delete_turn:
  assumes "rep h z root (plug ((s, p, kp, cp, join s b y ky cw e) # C) t)" "red e" "t = Leaf \<Longrightarrow> map_option rb_parent (h z) = Some (Some p)"
  shows "\<exists>h' root'. rb_delete_turn s h root (Some z) (addr z t) = Some (h', root') \<and>
    rep h' z root' (plug C (join s (join s t p kp False b) y ky cp (paint e))) \<and> outside (plug ((s, p, kp, cp, join s b y ky cw e) # C) t) h h'"
proof -
  let ?T = "plug ((s, p, kp, cp, join s b y ky cw e) # C) t"
  have "\<exists>r. h p = Some (rb_make s kp (addr z t) (Some y) r cp)" using assms(1) by (auto simp: rep_def holds_plug)
  then obtain r where p: "h p = Some (rb_make s kp (addr z t) (Some y) r cp)" ..
  obtain nt where nt: "rb_at h (addr z t) = Some nt" "rb_parent nt = Some p" using rep_temp [OF assms(1,3)] by auto
  have "rep h z root (plug ((opp s, p, kp, cp, t) # C) (join s b y ky cw e))" using assms(1) by (simp add: join_opp)
  from rep_color [OF this, of cp] obtain h1 where h1: "ngx_rbt_copy_color h (Some y) (Some p) = Some h1"
    "rep h1 z root (plug C (join s t p kp cp (join s b y ky cp e)))" "\<And>q. q \<noteq> y \<Longrightarrow> h1 q = h q"
    using p by (auto simp: ngx_rbt_copy_color_def join_opp)
  from rep_black [OF h1(2)] obtain h2 where h2: "ngx_rbt_black h1 (Some p) = Some h2"
    "rep h2 z root (plug C (join s t p kp False (join s b y ky cp e)))" "\<And>q. q \<noteq> p \<Longrightarrow> h2 q = h1 q" by auto
  then have "rep h2 z root (plug ((opp s, y, ky, cp, b) # (opp s, p, kp, False, t) # C) e)" by (simp add: join_opp)
  from rep_paint [OF this] obtain h3 where h3: "ngx_rbt_black h2 (addr z e) = Some h3"
    "rep h3 z root (plug C (join s t p kp False (join s b y ky cp (paint e))))" "\<And>q. q \<notin> addrs ?T \<Longrightarrow> h3 q = h2 q"
    by (auto simp: join_opp outside_def)
  from rep_rotate [OF h3(2)] obtain h4 root' where h4: "rb_rotate s h3 root (Some z) (Some p) = Some (h4, root')"
    "rep h4 z root' (plug C (join s (join s t p kp False b) y ky cp (paint e)))" "\<And>q. q \<notin> addrs ?T \<Longrightarrow> h4 q = h3 q" by auto
  have "\<exists>r. h2 y = Some (rb_make s ky (addr z b) (addr z e) r cp)" using h2(2) by (auto simp: rep_def holds_plug)
  then have "rb_delete_turn s h root (Some z) (addr z t) = Some (h4, root')"
    using p nt h1(1) h2(1) h3(1) h4(1) by (auto simp: rb_delete_turn_def Let_def)
  moreover have "outside ?T h h4" using h1(3) h2(3) h3(3) h4(3) by (auto simp: outside_def)
  ultimately show ?thesis using h4(2) by blast
qed

text \<open>The position \<open>t\<close> below \<open>C\<close> lacks one black node.\<close>

definition lacking :: "frame list \<Rightarrow> rbt \<Rightarrow> bool" where
  "lacking C t \<longleftrightarrow> (\<exists>n. bh t = Some n \<and> cbh C (Suc n) \<noteq> None) \<and> ccok C False \<and> cok (paint t) \<and> \<not> ctop C"

definition delete_result :: "nat \<Rightarrow> rb_mem \<Rightarrow> frame list \<Rightarrow> rbt \<Rightarrow> nat \<Rightarrow> (rb_mem \<times> ptr \<times> ptr) option \<Rightarrow> bool" where
  "delete_result z h C t m res \<longleftrightarrow>
    (\<exists>h' root' C' t'. res = Some (h', root', addr z t') \<and> rep h' z root' (plug C' t') \<and> inorder (plug C' t') = inorder (plug C t) \<and>
      t' \<noteq> Leaf \<and> lacking C' t' \<and> (red t' \<or> C' = [] \<or> length C' < m) \<and> outside (plug C t) h h')"

lemma lackingD:
  assumes "lacking ((s, p, kp, cp, join s' b y ky cw e) # C) t" "\<not> red t"
  obtains n where "bh t = Some n" "bh b = Some (n + of_bool cw)" "bh e = Some (n + of_bool cw)" "cbh C (Suc n + of_bool (\<not> cp)) \<noteq> None"
    "cok t" "cok b" "cok e" "ccok C cp" "cw \<longrightarrow> \<not> cp \<and> \<not> red b \<and> \<not> red e" "\<not> ctop ((s, p, kp, cp, join s' b y ky cw e) # C)"
proof -
  obtain n where n: "bh t = Some n" "cbh ((s, p, kp, cp, join s' b y ky cw e) # C) (Suc n) \<noteq> None" using assms(1) by (auto simp: lacking_def)
  then have "bh (join s' b y ky cw e) = Some (Suc n)" by (simp split: if_splits del: bh_join)
  then have "bh b = Some (n + of_bool cw)" "bh e = Some (n + of_bool cw)" by (auto split: option.splits if_splits)
  then show ?thesis using that [of n] n assms by (auto simp: lacking_def cok_paint split: if_splits)
qed

lemma plug_neq: "t \<noteq> Leaf \<Longrightarrow> plug C t \<noteq> Leaf"
  by (induction C t rule: plug.induct) auto

lemma delete_near:
  assumes "rep h z root (plug ((s, p, kp, cp, join s b y ky False e) # C) t)" "b = join s b1 v kv True b2"
  shows "\<exists>h' root'. (do {
      h \<leftarrow> ngx_rbt_black h (addr z b);
      h \<leftarrow> ngx_rbt_red h (Some y);
      rb_rotate (opp s) h root (Some z) (Some y)
    }) = Some (h', root') \<and> rep h' z root' (plug ((s, p, kp, cp, join s b1 v kv False (join s b2 y ky True e)) # C) t) \<and>
    outside (plug ((s, p, kp, cp, join s b y ky False e) # C) t) h h'"
proof -
  let ?T = "plug ((s, p, kp, cp, join s b y ky False e) # C) t" and ?C = "(opp s, p, kp, cp, t) # C"
  have "rep h z root (plug ((s, y, ky, False, e) # ?C) (join s b1 v kv True b2))" using assms by (simp add: join_opp)
  from rep_black [OF this] obtain h1 where h1: "ngx_rbt_black h (Some v) = Some h1" "rep h1 z root (plug ?C (join s (join s b1 v kv False b2) y ky False e))"
    "\<And>q. q \<noteq> v \<Longrightarrow> h1 q = h q" by auto
  from rep_red [OF h1(2)] obtain h2 where h2: "ngx_rbt_red h1 (Some y) = Some h2" "rep h2 z root (plug ?C (join s (join s b1 v kv False b2) y ky True e))"
    "\<And>q. q \<noteq> y \<Longrightarrow> h2 q = h1 q" by auto
  then have "rep h2 z root (plug ?C (join (opp s) e y ky True (join (opp s) b2 v kv False b1)))" by (simp add: join_opp)
  from rep_rotate [OF this] obtain h3 root' where h3: "rb_rotate (opp s) h2 root (Some z) (Some y) = Some (h3, root')"
    "rep h3 z root' (plug ((s, p, kp, cp, join s b1 v kv False (join s b2 y ky True e)) # C) t)" "\<And>q. q \<notin> addrs ?T \<Longrightarrow> h3 q = h2 q"
    using assms(2) by (auto simp: join_opp)
  have "outside ?T h h3" using h1(3) h2(3) h3(3) assms(2) by (auto simp: outside_def)
  then show ?thesis using h1(1) h2(1) h3(1,2) assms(2) by auto
qed

lemma delete_result_turn:
  assumes "rep h z root (plug ((s, p, kp, cp, join s b y ky False e) # C) t)" "red e"
    and "bh t = Some n" "bh b = Some n" "bh e = Some n" "cbh C (Suc n + of_bool (\<not> cp)) \<noteq> None"
    and "cok t" "cok b" "cok e" "ccok C cp" "C = [] \<longrightarrow> \<not> cp"
    and "t = Leaf \<Longrightarrow> map_option rb_parent (h z) = Some (Some p)"
  shows "\<exists>h' root' t'. rb_delete_turn s h root (Some z) (addr z t) = Some (h', root') \<and> root' = addr z t' \<and> rep h' z root' t' \<and>
    inorder t' = inorder (plug ((s, p, kp, cp, join s b y ky False e) # C) t) \<and> t' \<noteq> Leaf \<and> lacking [] t' \<and>
    outside (plug ((s, p, kp, cp, join s b y ky False e) # C) t) h h'"
proof -
  let ?X = "join s (join s t p kp False b) y ky cp (paint e)"
  obtain h' root' where r: "rb_delete_turn s h root (Some z) (addr z t) = Some (h', root')" "rep h' z root' (plug C ?X)"
    "outside (plug ((s, p, kp, cp, join s b y ky False e) # C) t) h h'" using delete_turn [OF assms(1,2,12)] by blast
  have "bh ?X = Some (Suc n + of_bool (\<not> cp))" using assms(2-5) bh_paint [of e n] by simp
  then have "bh (plug C ?X) \<noteq> None" using assms(6) by (simp add: bh_plug)
  moreover have "cok (plug C ?X)" using assms(7-10) by (simp add: cok_plug cok_paint)
  moreover have "inorder (plug C ?X) = inorder (plug ((s, p, kp, cp, join s b y ky False e) # C) t)" by (simp add: inorder_plug inorder_join)
  moreover have "plug C ?X \<noteq> Leaf" using plug_neq by simp
  ultimately show ?thesis using r by (intro exI [of _ h'] exI [of _ root'] exI [of _ "plug C ?X"]) (auto simp: lacking_def cok_paint rep_def)
qed

lemma rep_sibling:
  assumes "rep h z root (plug ((s, p, kp, cp, join s b y ky cw e) # C) t)" "t = Leaf \<Longrightarrow> map_option rb_parent (h z) = Some (Some p)"
  obtains r nt where "h p = Some (rb_make s kp (addr z t) (Some y) r cp)" "h y = Some (rb_make s ky (addr z b) (addr z e) (Some p) cw)"
    "rb_at h (addr z t) = Some nt" "rb_parent nt = Some p"
    "ngx_rbt_is_red h (addr z b) = Some (red b)" "ngx_rbt_is_red h (addr z e) = Some (red e)"
proof -
  obtain nt where nt: "rb_at h (addr z t) = Some nt" "rb_parent nt = Some p" using rep_temp [OF assms] by auto
  have "\<exists>r. h p = Some (rb_make s kp (addr z t) (Some y) r cp)" "h y = Some (rb_make s ky (addr z b) (addr z e) (Some p) cw)"
    using assms(1) by (auto simp: rep_def holds_plug)
  moreover have "ngx_rbt_is_red h (addr z b) = Some (red b)" "ngx_rbt_is_red h (addr z e) = Some (red e)"
    using assms(1) rep_is_red [of h z root "(s, y, ky, cw, e) # (opp s, p, kp, cp, t) # C" b]
      rep_is_red [of h z root "(opp s, y, ky, cw, b) # (opp s, p, kp, cp, t) # C" e] by (simp_all add: join_opp)
  ultimately show ?thesis using that nt by blast
qed

lemma delete_black:
  assumes rep: "rep h z root (plug ((s, p, kp, cp, join s b y ky False e) # C) t)"
    and lack: "lacking ((s, p, kp, cp, join s b y ky False e) # C) t" and "\<not> red t"
    and temp: "t = Leaf \<Longrightarrow> map_option rb_parent (h z) = Some (Some p)"
  shows "delete_result z h ((s, p, kp, cp, join s b y ky False e) # C) t (if cp then 0 else Suc (length C)) (rb_delete_black s h root (Some z) (addr z t))"
proof -
  let ?C = "(s, p, kp, cp, join s b y ky False e) # C"
  obtain n where n: "bh t = Some n" "bh b = Some n" "bh e = Some n" "cbh C (Suc n + of_bool (\<not> cp)) \<noteq> None"
    "cok t" "cok b" "cok e" "ccok C cp" "\<not> ctop ?C" using lackingD [OF lack assms(3)] by auto
  have ctop: "C = [] \<longrightarrow> \<not> cp" "\<not> ctop C" using n(9) by (auto split: if_splits)
  obtain r nt where m: "h p = Some (rb_make s kp (addr z t) (Some y) r cp)" "h y = Some (rb_make s ky (addr z b) (addr z e) (Some p) False)"
    and nt: "rb_at h (addr z t) = Some nt" "rb_parent nt = Some p"
    and col: "ngx_rbt_is_red h (addr z b) = Some (red b)" "ngx_rbt_is_red h (addr z e) = Some (red e)" using rep_sibling [OF rep temp] by blast
  have wrep: "rep h z root (plug ((opp s, p, kp, cp, t) # C) (join s b y ky False e))" using rep by (simp add: join_opp)
  consider "\<not> red b" "\<not> red e" | "red e" | "red b" "\<not> red e" by blast
  then show ?thesis
  proof cases
    case 1
    let ?t = "join s t p kp cp (join s b y ky True e)"
    obtain h' where h': "ngx_rbt_red h (Some y) = Some h'" "rep h' z root (plug C ?t)" "\<And>q. q \<noteq> y \<Longrightarrow> h' q = h q"
      using rep_red [OF wrep] by (auto simp: join_opp)
    have "lacking C ?t" using n 1 assms(3) ctop(2) ccok_False [OF n(8)] by (auto simp: lacking_def)
    moreover have "rb_delete_black s h root (Some z) (addr z t) = Some (h', root, addr z ?t)" using m nt col 1 h'(1) by (simp add: rb_delete_black_def Let_def)
    moreover have "inorder (plug C ?t) = inorder (plug ?C t)" by (simp add: inorder_plug inorder_join)
    ultimately show ?thesis unfolding delete_result_def using h'
      by (intro exI [of _ h'] exI [of _ root] exI [of _ C] exI [of _ ?t]) (auto simp: outside_def)
  next
    case 2
    then obtain h' root' t' where r: "rb_delete_turn s h root (Some z) (addr z t) = Some (h', root')" "root' = addr z t'" "rep h' z root' t'"
      "inorder t' = inorder (plug ?C t)" "t' \<noteq> Leaf" "lacking [] t'" "outside (plug ?C t) h h'"
      using delete_result_turn [OF rep 2 n(1-8) ctop(1) temp] by blast
    then have "rb_delete_black s h root (Some z) (addr z t) = Some (h', root', addr z t')" using m nt col 2 by (simp add: rb_delete_black_def Let_def)
    then show ?thesis unfolding delete_result_def using r by (intro exI [of _ h'] exI [of _ root'] exI [of _ "[]"] exI [of _ t']) auto
  next
    case 3
    then obtain b1 v kv b2 where b: "b = join s b1 v kv True b2" using join_ex [of b s] by (cases "b = Leaf") auto
    let ?D = "(s, p, kp, cp, join s b1 v kv False (join s b2 y ky True e)) # C"
    obtain h1 root1 where h1: "(do {
        h \<leftarrow> ngx_rbt_black h (addr z b);
        h \<leftarrow> ngx_rbt_red h (Some y);
        rb_rotate (opp s) h root (Some z) (Some y)
      }) = Some (h1, root1)" "rep h1 z root1 (plug ?D t)" "outside (plug ?C t) h h1" using delete_near [OF rep b] by blast
    have b': "bh b1 = Some n" "bh (join s b2 y ky True e) = Some n" "cok b1" "cok (join s b2 y ky True e)"
      using n b 3 by (auto split: option.splits if_splits)
    obtain h' root' t' where r: "rb_delete_turn s h1 root1 (Some z) (addr z t) = Some (h', root')" "root' = addr z t'" "rep h' z root' t'"
      "inorder t' = inorder (plug ?D t)" "t' \<noteq> Leaf" "lacking [] t'" "outside (plug ?D t) h1 h'"
      using delete_result_turn [OF h1(2) _ n(1) b'(1,2) n(4,5) b'(3,4) n(8) ctop(1)] temp rep_outside [OF rep h1(3)] by auto
    have "rb_delete_black s h root (Some z) (addr z t) = Some (h', root', addr z t')"
      using m nt col 3 h1(1) r(1,2) by (simp add: rb_delete_black_def Let_def)
    moreover have "inorder t' = inorder (plug ?C t)" using r(4) b by (simp add: inorder_plug inorder_join)
    moreover have "outside (plug ?C t) h h'" using h1(3) r(7) b by (auto simp: outside_def)
    ultimately show ?thesis unfolding delete_result_def using r by (intro exI [of _ h'] exI [of _ root'] exI [of _ "[]"] exI [of _ t']) auto
  qed
qed

lemma delete_red:
  assumes "rep h z root (plug ((s, p, kp, cp, join s b y ky True e) # C) t)"
  shows "\<exists>h' root'. (do {
      h \<leftarrow> ngx_rbt_black h (Some y);
      h \<leftarrow> ngx_rbt_red h (Some p);
      rb_rotate s h root (Some z) (Some p)
    }) = Some (h', root') \<and> rep h' z root' (plug ((s, p, kp, True, b) # (s, y, ky, False, e) # C) t) \<and>
    outside (plug ((s, p, kp, cp, join s b y ky True e) # C) t) h h'"
proof -
  let ?T = "plug ((s, p, kp, cp, join s b y ky True e) # C) t"
  have "rep h z root (plug ((opp s, p, kp, cp, t) # C) (join s b y ky True e))" using assms by (simp add: join_opp)
  from rep_black [OF this] obtain h1 where h1: "ngx_rbt_black h (Some y) = Some h1" "rep h1 z root (plug C (join s t p kp cp (join s b y ky False e)))"
    "\<And>q. q \<noteq> y \<Longrightarrow> h1 q = h q" by (auto simp: join_opp)
  from rep_red [OF h1(2)] obtain h2 where h2: "ngx_rbt_red h1 (Some p) = Some h2" "rep h2 z root (plug C (join s t p kp True (join s b y ky False e)))"
    "\<And>q. q \<noteq> p \<Longrightarrow> h2 q = h1 q" by auto
  from rep_rotate [OF h2(2)] obtain h3 root' where h3: "rb_rotate s h2 root (Some z) (Some p) = Some (h3, root')"
    "rep h3 z root' (plug ((s, p, kp, True, b) # (s, y, ky, False, e) # C) t)" "\<And>q. q \<notin> addrs ?T \<Longrightarrow> h3 q = h2 q" by auto
  have "outside ?T h h3" using h1(3) h2(3) h3(3) by (auto simp: outside_def)
  then show ?thesis using h1(1) h2(1) h3(1,2) by auto
qed

lemma delete_case:
  assumes rep: "rep h z root (plug ((s, p, kp, cp, w) # C) t)" and temp: "t = Leaf \<Longrightarrow> map_option rb_parent (h z) = Some (Some p)"
    and lack: "lacking ((s, p, kp, cp, w) # C) t" and "\<not> red t"
  shows "delete_result z h ((s, p, kp, cp, w) # C) t (Suc (length C)) (rb_delete_case s h root (Some z) (addr z t))"
proof -
  have "w \<noteq> Leaf" using lack by (auto simp: lacking_def split: if_splits)
  then obtain b y ky cw e where w: "w = join s b y ky cw e" using join_ex [of w s] by blast
  obtain n where n: "bh t = Some n" "bh b = Some (n + of_bool cw)" "bh e = Some (n + of_bool cw)" "cbh C (Suc n + of_bool (\<not> cp)) \<noteq> None"
    "cok t" "cok b" "cok e" "ccok C cp" "cw \<longrightarrow> \<not> cp \<and> \<not> red b \<and> \<not> red e" "\<not> ctop ((s, p, kp, cp, w) # C)"
    using lackingD [OF lack [unfolded w] assms(4)] w by auto
  obtain nt where nt: "rb_at h (addr z t) = Some nt" "rb_parent nt = Some p" using rep_temp [OF rep temp] by auto
  have p: "\<exists>r. h p = Some (rb_make s kp (addr z t) (Some y) r cp)" using rep w by (auto simp: rep_def holds_plug)
  have cw: "ngx_rbt_is_red h (Some y) = Some cw"
    using rep rep_is_red [of h z root "(opp s, p, kp, cp, t) # C" w] w by (simp add: join_opp)
  show ?thesis
  proof (cases cw)
    case False
    then have "delete_result z h ((s, p, kp, cp, w) # C) t (if cp then 0 else Suc (length C)) (rb_delete_black s h root (Some z) (addr z t))"
      using delete_black rep lack assms(4) temp w by auto
    moreover have "rb_delete_case s h root (Some z) (addr z t) = rb_delete_black s h root (Some z) (addr z t)"
      using nt p cw False by (auto simp: rb_delete_case_def Let_def)
    ultimately show ?thesis unfolding delete_result_def by (auto split: if_splits)
  next
    case True
    let ?C = "(s, p, kp, True, b) # (s, y, ky, False, e) # C"
    obtain h1 root1 where h1: "(do {
        h \<leftarrow> ngx_rbt_black h (Some y);
        h \<leftarrow> ngx_rbt_red h (Some p);
        rb_rotate s h root (Some z) (Some p)
      }) = Some (h1, root1)" "rep h1 z root1 (plug ?C t)" "outside (plug ((s, p, kp, cp, w) # C) t) h h1"
      using delete_red [of h z root s p kp cp b y ky e C t] rep w True by auto
    have lack1: "lacking ?C t" using n True assms(4) by (auto simp: lacking_def cok_paint split: if_splits)
    have "b \<noteq> Leaf" using n(2) True by auto
    then obtain b1 v kv b2 where b: "b = join s b1 v kv False b2" using join_ex [of b s] n(9) True by auto
    from delete_black [OF h1(2) [unfolded b] lack1 [unfolded b] assms(4)] temp rep_outside [OF rep h1(3)]
    have "delete_result z h1 ?C t 0 (rb_delete_black s h1 root1 (Some z) (addr z t))" unfolding b by auto
    moreover have "rb_delete_case s h root (Some z) (addr z t) = rb_delete_black s h1 root1 (Some z) (addr z t)"
      using nt p cw True h1(1) by (auto simp: rb_delete_case_def Let_def)
    moreover have "inorder (plug ?C t) = inorder (plug ((s, p, kp, cp, w) # C) t)" using w by (simp add: inorder_plug inorder_join)
    moreover have "outside (plug ((s, p, kp, cp, w) # C) t) h h'" if "outside (plug ?C t) h1 h'" for h'
      using outside_trans [OF h1(3) that] w by auto
    ultimately show ?thesis unfolding delete_result_def by fastforce
  qed
qed

lemma lacking_paint:
  assumes "lacking C t" "C = [] \<or> red t"
  shows "rb_inv (plug C (paint t))"
proof -
  obtain n where n: "bh t = Some n" "cbh C (Suc n) \<noteq> None" using assms(1) by (auto simp: lacking_def)
  have "\<not> red (plug C (paint t))" using assms(1) red_plug [of C "paint t"] by (cases "C = []") (auto simp: lacking_def)
  moreover have "bh (plug C (paint t)) \<noteq> None" using bh_paint [OF n(1)] n(2) assms(2) by (auto simp: bh_plug)
  moreover have "cok (plug C (paint t))" using assms(1) by (simp add: lacking_def cok_plug)
  ultimately show ?thesis by (simp add: rb_inv_def)
qed

text \<open>The loop and the change of colour behind it.\<close>

lemma delete_fix:
  assumes "rep h z root (plug C t)" "t = Leaf \<Longrightarrow> C \<noteq> [] \<Longrightarrow> map_option rb_parent (h z) = Some (cpar None C)" "lacking C t"
  shows "\<exists>h' root' h'' temp T. rb_delete_fix h root (Some z) (addr z t) = Some (h', root', temp) \<and> ngx_rbt_black h' temp = Some h'' \<and>
    rep h'' z root' T \<and> inorder T = inorder (plug C t) \<and> rb_inv T \<and> outside (plug C t) h h''"
  using assms
proof (induction "if red t \<or> C = [] then 0 else length C" arbitrary: h root C t rule: less_induct)
  case less
  note root = rep_root [OF less.prems(1)]
  show ?case
  proof (cases "red t \<or> C = []")
    case True
    have "rb_delete_fix h root (Some z) (addr z t) = Some (h, root, addr z t)"
    proof (cases "C = []")
      case False
      then have "red t" using True by simp
      moreover have "\<exists>n. rb_at h (addr z t) = Some n \<and> rb_color n = of_bool (red t)" using less.prems(1) by (cases t) (auto simp: rep_def holds_plug)
      ultimately show ?thesis using root False by (auto simp: rb_delete_fix.simps)
    qed (use root in \<open>simp add: rb_delete_fix.simps\<close>)
    moreover obtain h' where "ngx_rbt_black h (addr z t) = Some h'" "rep h' z root (plug C (paint t))" "outside (plug C t) h h'"
      using rep_paint [OF less.prems(1)] by blast
    moreover have "inorder (plug C (paint t)) = inorder (plug C t)" by (simp add: inorder_plug)
    ultimately show ?thesis using lacking_paint [OF less.prems(3)] True by blast
  next
    case False
    then obtain s p kp cp w D where C: "C = (s, p, kp, cp, w) # D" by (cases C) auto
    have w: "w \<noteq> Leaf" using less.prems(3) C by (auto simp: lacking_def split: if_splits)
    have temp: "t = Leaf \<Longrightarrow> map_option rb_parent (h z) = Some (Some p)" using less.prems(2) C by simp
    obtain n where n: "rb_at h (addr z t) = Some n" "rb_parent n = Some p" "rb_color n = of_bool (red t)"
      using rep_temp [OF less.prems(1) [unfolded C] temp] by blast
    obtain r where p: "h p = Some (rb_make s kp (addr z t) (addr z w) r cp)" using less.prems(1) C by (auto simp: rep_def holds_plug)
    have "addr z t \<noteq> addr z w" using w less.prems(1) C by (intro addr_neq) (auto simp: rep_def dist_plug)
    then have side: "(if addr z t = rb_left (rb_make s kp (addr z t) (addr z w) r cp) then Left else Right) = s"
      by (cases s) (auto simp: rb_make_def)
    have "delete_result z h C t (length C) (rb_delete_case s h root (Some z) (addr z t))"
      using delete_case [OF less.prems(1) [unfolded C] temp less.prems(3) [unfolded C]] False C by simp
    then obtain h1 root1 C1 t1 where r1: "rb_delete_case s h root (Some z) (addr z t) = Some (h1, root1, addr z t1)" "rep h1 z root1 (plug C1 t1)"
      "inorder (plug C1 t1) = inorder (plug C t)" "t1 \<noteq> Leaf" "lacking C1 t1" "red t1 \<or> C1 = [] \<or> length C1 < length C" "outside (plug C t) h h1"
      unfolding delete_result_def by blast
    have "(if red t1 \<or> C1 = [] then 0 else length C1) < (if red t \<or> C = [] then 0 else length C)" using r1(6) False by auto
    from less.hyps [OF this r1(2) _ r1(5)] r1(4) obtain h' root' h'' temp T where r2: "rb_delete_fix h1 root1 (Some z) (addr z t1) = Some (h', root', temp)"
      "ngx_rbt_black h' temp = Some h''" "rep h'' z root' T" "inorder T = inorder (plug C1 t1)" "rb_inv T" "outside (plug C1 t1) h1 h''" by blast
    have "rb_delete_fix h root (Some z) (addr z t) = Some (h', root', temp)"
      using n p False root C r1(1) r2(1) side by (subst rb_delete_fix.simps) auto
    moreover have "outside (plug C t) h h''" using outside_trans [OF r1(7) r2(6)] r1(3) by (simp add: addrs_inorder)
    ultimately show ?thesis using r2 r1(3) by metis
  qed
qed

subsection \<open>Deletion: taking a node out\<close>

lemma cholds_append: "cholds h z r (D @ E) a \<longleftrightarrow> cholds h z (cpar r E) D a \<and> cholds h z r E (croot a D)"
  and cpar_append: "cpar r (D @ E) = cpar (cpar r E) D"
proof -
  show *: "cpar r (D @ E) = cpar (cpar r E) D" for D by (cases D) auto
  show "cholds h z r (D @ E) a \<longleftrightarrow> cholds h z (cpar r E) D a \<and> cholds h z r E (croot a D)"
    by (induction D arbitrary: a) (auto simp: *)
qed

lemma caddrs_append [simp]: "caddrs (D @ E) = caddrs D \<union> caddrs E"
  by (induction D) auto

lemma cdist_append: "cdist (D @ E) \<longleftrightarrow> cdist D \<and> cdist E \<and> caddrs D \<inter> caddrs E = {}"
  by (induction D) auto

text \<open>The labels of a path do not matter for heights and colours.\<close>

lemma relabel: "cbh (D @ (s, x, k, c, l) # C) n = cbh (D @ (s, y, k', c, l) # C) n"
  "ccok (D @ (s, x, k, c, l) # C) d = ccok (D @ (s, y, k', c, l) # C) d" "ctop (D @ (s, x, k, c, l) # C) = ctop (D @ (s, y, k', c, l) # C)"
proof -
  show "cbh (D @ (s, x, k, c, l) # C) n = cbh (D @ (s, y, k', c, l) # C) n" by (induction D arbitrary: n) auto
  show "ccok (D @ (s, x, k, c, l) # C) d = ccok (D @ (s, y, k', c, l) # C) d" by (induction D arbitrary: d) auto
  show "ctop (D @ (s, x, k, c, l) # C) = ctop (D @ (s, y, k', c, l) # C)" by (induction D) auto
qed

lemma removed:
  assumes "rb_inv (plug E (join s b y k c Leaf))" "E \<noteq> []"
  shows "if c then rb_inv (plug E b) else lacking E b"
proof -
  obtain n where n: "bh b = Some 0" "cbh E (of_bool (\<not> c)) \<noteq> None"
    using assms(1) by (auto simp: rb_inv_def bh_plug split: option.splits if_splits)
  have "cok b" "c \<longrightarrow> \<not> red b" "ccok E c" "\<not> ctop E" using assms red_plug [of E] by (auto simp: rb_inv_def cok_plug)
  then show ?thesis using n assms(2) red_plug [of E b] ccok_False [of E c] by (auto simp: rb_inv_def bh_plug cok_plug lacking_def cok_paint)
qed

lemma cpre_append: "cpre (D @ E) = cpre E @ cpre D"
  by (induction D) auto

lemma min_ok:
  assumes "holds h z r t" "t \<noteq> Leaf" "z \<notin> addrs t"
  shows "\<exists>D y k c b. ngx_rbtree_min h (addr z t) (Some z) = Some (Some y) \<and> t = plug D (Node Leaf y k c b) \<and> cpre D = []"
  using assms
proof (induction t arbitrary: r)
  case (Node l y k c b)
  show ?case
  proof (cases "l = Leaf")
    case True
    then have "ngx_rbtree_min h (Some y) (Some z) = Some (Some y)" using Node.prems(1) by (subst ngx_rbtree_min.simps) (simp add: rb_make_def)
    then show ?thesis using True by (intro exI [of _ "[]"]) auto
  next
    case False
    then have "addr z l \<noteq> Some z" using Node.prems(3) by (cases l) auto
    then have step: "ngx_rbtree_min h (Some y) (Some z) = ngx_rbtree_min h (addr z l) (Some z)"
      using Node.prems(1) by (subst ngx_rbtree_min.simps) (simp add: rb_make_def)
    obtain D y' k' c' b' where r: "ngx_rbtree_min h (addr z l) (Some z) = Some (Some y')" "l = plug D (Node Leaf y' k' c' b')" "cpre D = []"
      using Node.IH(1) [of "Some y"] Node.prems False by auto
    have "cpre (D @ [(Left, y, k, c, b)]) = []" using r(3) by (simp add: cpre_append)
    then show ?thesis using step r by (intro exI [of _ "D @ [(Left, y, k, c, b)]"] exI [of _ y'] exI [of _ k'] exI [of _ c'] exI [of _ b']) (auto simp: plug_append)
  qed
qed simp

text \<open>A new parent for a subtree or the sentinel.\<close>

lemma set_parent:
  assumes "holds h z r t" "dist t" "z \<notin> addrs t" "h z = Some n"
  shows "\<exists>h'. rb_set h (addr z t) (\<lambda>m. m\<lparr>rb_parent := q\<rparr>) = Some h' \<and> holds h' z q t \<and> (\<forall>p. p \<notin> addrs t \<longrightarrow> p \<noteq> z \<longrightarrow> h' p = h p) \<and>
    h' z = Some (if t = Leaf then n\<lparr>rb_parent := q\<rparr> else n)"
proof (cases "t = Leaf")
  case False
  then have "addr z t \<noteq> Some z" using assms(3) by (cases t) auto
  then show ?thesis using reparent [OF assms(1-3), of q] assms(3,4) False by (auto simp: rb_reparent_def)
qed (use assms(4) in simp)

lemma croot_append: "croot a (D @ E) = croot (croot a D) E"
  by (induction a D rule: croot.induct) auto

text \<open>
  What is left behind the first part of the deletion: the tree \<open>plug E b\<close>, where the sentinel knows its parent if \<open>b\<close> is a leaf, and a
  memory that has changed in the old tree and the sentinel only.
\<close>

definition unlinked :: "rb_mem \<Rightarrow> nat \<Rightarrow> rbt \<Rightarrow> rb_mem \<Rightarrow> ptr \<Rightarrow> frame list \<Rightarrow> rbt \<Rightarrow> bool" where
  "unlinked h z T h' root' E b \<longleftrightarrow> rep h' z root' (plug E b) \<and> (b = Leaf \<longrightarrow> map_option rb_parent (h' z) = Some (cpar None E)) \<and>
    (\<forall>q. q \<notin> addrs T \<longrightarrow> q \<noteq> z \<longrightarrow> h' q = h q)"

lemma clear_unlinked:
  assumes "unlinked h z T h' root' E b" "x \<notin> addrs (plug E b)" "x \<noteq> z" "x \<in> addrs T" "h' x \<noteq> None"
  shows "\<exists>h''. rb_clear h' (Some x) = Some h'' \<and> unlinked h z T h'' root' E b"
proof -
  obtain n where n: "h' x = Some n" using assms(5) by auto
  let ?h = "h'(x \<mapsto> n\<lparr>rb_left := None, rb_right := None, rb_parent := None, rb_key := 0\<rparr>)"
  have "holds ?h z r (plug E b) = holds h' z r (plug E b)" for r using assms(2) by (intro holds_cong) auto
  then have "unlinked h z T ?h root' E b" using assms(1,3,4) by (auto simp: unlinked_def rep_def)
  then show ?thesis using n by (auto simp: rb_clear_def)
qed

lemma unlink_one:
  assumes "rep h z root (plug C (join s b x k c Leaf))" "C \<noteq> []"
  shows "\<exists>h'. rb_unlink h root (Some z) (Some x) (addr z b) (Some x) = Some (h', root) \<and>
    unlinked h z (plug C (join s b x k c Leaf)) h' root C b \<and> h' x \<noteq> None"
proof -
  let ?T = "plug C (join s b x k c Leaf)"
  obtain r where r: "h x = Some (rb_make s k (addr z b) (Some z) (cpar r C) c)" "cholds h z r C (Some x)" "holds h z (Some x) b"
    using assms(1) by (auto elim!: repD)
  obtain n where n: "h z = Some n" "rb_color n = 0" using assms(1) by (auto simp: rep_def)
  have d: "x \<notin> caddrs C" "cdist C" "dist b" "x \<notin> addrs b" "caddrs C \<inter> addrs b = {}" "x \<noteq> z" "z \<notin> addrs b" "z \<notin> caddrs C"
    using assms(1) by (auto simp: rep_def dist_plug)
  obtain h1 where h1: "rb_replace Left h (cpar r C) (Some x) (addr z b) = Some h1" "cholds h1 z r C (addr z b)" "\<And>p. p \<notin> caddrs C \<Longrightarrow> h1 p = h p"
    using relink [OF r(2) d(2,1,6) assms(2)] by blast
  have "holds h1 z (Some x) b = holds h z (Some x) b" using h1(3) d(5) by (intro holds_cong) blast
  then obtain h2 where h2: "rb_set h1 (addr z b) (\<lambda>t. t\<lparr>rb_parent := cpar r C\<rparr>) = Some h2" "holds h2 z (cpar r C) b"
    "\<And>p. p \<notin> addrs b \<Longrightarrow> p \<noteq> z \<Longrightarrow> h2 p = h1 p" "h2 z = Some (if b = Leaf then n\<lparr>rb_parent := cpar r C\<rparr> else n)"
    using set_parent [of h1 z "Some x" b n "cpar r C"] r(3) d(3,7) h1(3) [OF d(8)] n(1) by auto
  have "cholds h2 z r C (addr z b) = cholds h1 z r C (addr z b)" using h2(3) d(5,8) by (intro cholds_cong) blast
  then have "holds h2 z r (plug C b)" using h1(2) h2(2) by (simp add: holds_plug)
  moreover have "cpar r C = cpar None C" using assms(2) by (cases C) auto
  moreover have "root = croot (addr z b) C" using assms croot_const [OF assms(2)] by (simp add: rep_def addr_plug)
  ultimately have "unlinked h z ?T h2 root C b" using d h1(3) h2(3,4) n(2)
    by (auto simp: unlinked_def rep_def dist_plug addr_plug)
  moreover have "h2 x \<noteq> None" using h2(3) [OF d(4,6)] h1(3) [OF d(1)] r(1) by simp
  moreover have "rb_unlink h root (Some z) (Some x) (addr z b) (Some x) = Some (h2, root)" using r(1) h1(1) h2(1) by (simp add: rb_unlink_def)
  ultimately show ?thesis by blast
qed

lemma rb_make_moved [simp]:
  "n\<lparr>rb_left := p, rb_right := q, rb_parent := r, rb_color := of_bool c\<rparr> = rb_make Left (rb_key n) p q r c"
  by (cases n) (simp add: rb_make_def)

lemma rb_make_left [simp]: "rb_left (rb_make Left k p q r c) = p" "rb_right (rb_make Left k p q r c) = q"
  by (simp_all add: rb_make_def)

text \<open>\<open>subst\<close> takes the place of \<open>node\<close>, whose subtrees are \<open>l\<close> and \<open>R\<close>.\<close>

lemma move_ok:
  assumes x: "h x = Some (rb_make Left k (addr z l) (addr z R) (cpar r C) c)" and c: "cholds h z r C (Some x)" "root = croot (Some x) C"
    and l: "holds h z ql l" and R: "holds h z qr R" and y: "h y = Some n" "rb_key n = k'"
    and d: "dist (plug C (Node l y k' c R))" "x \<notin> addrs (plug C (Node l y k' c R))" "z \<notin> addrs (plug C (Node l y k' c R))" "x \<noteq> z"
  shows "\<exists>h' root'. rb_move h root (Some z) (Some x) (Some y) = Some (h', root') \<and> root' = croot (Some y) C \<and>
    (\<exists>r. holds h' z r (plug C (Node l y k' c R))) \<and> (\<forall>q. q \<notin> addrs (plug C (Node l y k' c R)) \<longrightarrow> h' q = h q)"
proof -
  let ?h1 = "h(y \<mapsto> rb_make Left k' (addr z l) (addr z R) (cpar r C) c)"
  have D: "x \<noteq> y" "y \<noteq> z" "x \<notin> caddrs C" "x \<notin> addrs l" "x \<notin> addrs R" "y \<notin> caddrs C" "y \<notin> addrs l" "y \<notin> addrs R" "cdist C" "dist l" "dist R"
    "caddrs C \<inter> addrs l = {}" "caddrs C \<inter> addrs R = {}" "addrs l \<inter> addrs R = {}" "z \<notin> addrs l" "z \<notin> addrs R" using d by (auto simp: dist_plug)
  have M: "p \<in> addrs l \<Longrightarrow> p \<notin> caddrs C \<and> p \<noteq> y \<and> p \<notin> addrs R" "p \<in> addrs R \<Longrightarrow> p \<notin> caddrs C \<and> p \<noteq> y \<and> p \<notin> addrs l"
    "p \<in> caddrs C \<Longrightarrow> p \<noteq> y \<and> p \<notin> addrs l \<and> p \<notin> addrs R" for p using D by auto
  have c1: "cholds ?h1 z r C (Some x)" using c(1) D(6) cholds_cong [of C ?h1 h z r "Some x"] by fastforce
  obtain h2 root' where h2: "(if Some x = root then Some ?h1 else rb_replace Left ?h1 (cpar r C) (Some x) (Some y)) = Some h2" "cholds h2 z r C (Some y)"
    "\<And>p. p \<notin> caddrs C \<Longrightarrow> h2 p = ?h1 p" "(if Some x = root then Some y else root) = croot (Some y) C"
    using relink_root [OF c1 D(9,3) d(4) c(2)] by blast
  have "holds h2 z ql l = holds h z ql l" using h2(3) M(1) by (intro holds_cong) simp
  then obtain h3 where h3: "rb_reparent h2 (Some z) (addr z l) (Some y) = Some h3" "holds h3 z (Some y) l" "\<And>p. p \<notin> addrs l \<Longrightarrow> h3 p = h2 p"
    using reparent [of h2 z ql l "Some y"] l D(10,15) by auto
  have "holds h3 z qr R = holds h z qr R" using h3(3) h2(3) M(2) by (intro holds_cong) simp
  then obtain h4 where h4: "rb_reparent h3 (Some z) (addr z R) (Some y) = Some h4" "holds h4 z (Some y) R" "\<And>p. p \<notin> addrs R \<Longrightarrow> h4 p = h3 p"
    using reparent [of h3 z qr R "Some y"] R D(11,16) by auto
  have "rb_move h root (Some z) (Some x) (Some y) = Some (h4, croot (Some y) C)"
    using x y D(1) h2(1,4) h2(3) [OF D(6)] h3(1) h4(1) by (cases "root = Some x") (auto simp: rb_move_def ngx_rbt_copy_color_def Let_def)
  moreover have "holds h4 z r (plug C (Node l y k' c R))"
  proof -
    have "holds h4 z (Some y) l = holds h3 z (Some y) l" using h4(3) M(1) by (intro holds_cong) simp
    moreover have "cholds h4 z r C (Some y) = cholds h2 z r C (Some y)" using h4(3) h3(3) M(3) by (intro cholds_cong) simp
    moreover have "h4 y = ?h1 y" using h4(3) [OF D(8)] h3(3) [OF D(7)] h2(3) [OF D(6)] by simp
    ultimately show ?thesis using h2(2) h3(2) h4(2) by (simp add: holds_plug)
  qed
  moreover have "h4 q = h q" if "q \<notin> addrs (plug C (Node l y k' c R))" for q using that h2(3) h3(3) h4(3) by simp
  ultimately show ?thesis by blast
qed

lemma unlink_two:
  assumes "rep h z root (plug (D @ (Right, x, k, c, l) # C) (Node Leaf y k' c' b))"
  shows "\<exists>h' root'. rb_unlink h root (Some z) (Some x) (addr z b) (Some y) = Some (h', root') \<and>
    unlinked h z (plug (D @ (Right, x, k, c, l) # C) (Node Leaf y k' c' b)) h' root' (D @ (Right, y, k', c, l) # C) b \<and> h' x \<noteq> None"
proof -
  let ?E = "D @ (Right, x, k, c, l) # C" and ?R = "plug D b"
  let ?T = "plug ?E (Node Leaf y k' c' b)"
  obtain r where r: "h y = Some (rb_make Left k' (Some z) (addr z b) (cpar r ?E) c')" "cholds h z r ?E (Some y)" "holds h z (Some y) b"
    using assms by (auto simp: rep_def holds_plug)
  obtain n where n: "h z = Some n" "rb_color n = 0" using assms by (auto simp: rep_def)
  have d: "cdist ?E" "y \<notin> caddrs ?E" "y \<notin> addrs b" "dist b" "caddrs ?E \<inter> addrs b = {}" "z \<notin> caddrs ?E" "z \<notin> addrs b" "y \<noteq> z"
    using assms by (auto simp: rep_def dist_plug)
  have dx: "x \<noteq> y" "x \<noteq> z" "x \<notin> addrs b" "x \<notin> caddrs D" "x \<notin> addrs l" "x \<notin> caddrs C" using d by (auto simp: cdist_append)
  have cpar: "cpar r ?E = cpar (Some x) D" by (simp add: cpar_append)
  obtain h1 where h1: "rb_replace Left h (cpar r ?E) (Some y) (addr z b) = Some h1" "cholds h1 z r ?E (addr z b)" "\<And>p. p \<notin> caddrs ?E \<Longrightarrow> h1 p = h p"
    using relink [OF r(2) d(1,2,8)] by blast
  let ?q = "if cpar (Some x) D = Some x then Some y else cpar (Some x) D"
  have q: "?q = cpar (Some y) D" using dx(4) by (cases D) auto
  have "holds h1 z (Some y) b = holds h z (Some y) b" using h1(3) d(5) by (intro holds_cong) blast
  then obtain h2 where h2: "rb_set h1 (addr z b) (\<lambda>t. t\<lparr>rb_parent := ?q\<rparr>) = Some h2" "holds h2 z ?q b"
    "\<And>p. p \<notin> addrs b \<Longrightarrow> p \<noteq> z \<Longrightarrow> h2 p = h1 p" "h2 z = Some (if b = Leaf then n\<lparr>rb_parent := ?q\<rparr> else n)"
    using set_parent [of h1 z "Some y" b n ?q] r(3) d(4,7) h1(3) [OF d(6)] n(1) by auto
  have "cholds h2 z r ?E (addr z b) = cholds h1 z r ?E (addr z b)" using h2(3) d(5,6) by (intro cholds_cong) blast
  then have E: "cholds h2 z (Some x) D (addr z b)" "h2 x = Some (rb_make Left k (addr z l) (addr z ?R) (cpar r C) c)" "holds h2 z (Some x) l" "cholds h2 z r C (Some x)"
    using h1(2) rb_make_opp [of Left] by (auto simp: cholds_append addr_plug)
  obtain qr where R: "holds h2 z qr ?R" using E(1) h2(2) q by (cases D) (auto simp: holds_plug)
  have y: "h2 y = Some (rb_make Left k' (Some z) (addr z b) (cpar r ?E) c')" using h2(3) [OF d(3,8)] h1(3) [OF d(2)] r(1) by simp
  let ?N = "plug C (Node l y k' c ?R)"
  have dN: "dist ?N" "x \<notin> addrs ?N" "z \<notin> addrs ?N" using assms d dx by (auto simp: rep_def dist_plug cdist_append)
  have root: "root = croot (Some x) C" using assms by (simp add: rep_def addr_plug croot_append)
  obtain h3 root' r' where h3: "rb_move h2 root (Some z) (Some x) (Some y) = Some (h3, root')" "root' = croot (Some y) C" "holds h3 z r' ?N"
    "\<And>q. q \<notin> addrs ?N \<Longrightarrow> h3 q = h2 q"
    using move_ok [OF E(2,4) root E(3) R y _ dN dx(2)] by (metis rb_make_simps(1))
  have "rb_unlink h root (Some z) (Some x) (addr z b) (Some y) = Some (h3, root')"
    using r(1) h1(1) h2(1) h3(1) cpar dx(1) by (cases "cpar (Some x) D = Some x") (simp_all add: rb_unlink_def)
  moreover have "unlinked h z ?T h3 root' (D @ (Right, y, k', c, l) # C) b"
  proof -
    have N: "plug (D @ (Right, y, k', c, l) # C) b = ?N" by (simp add: plug_append)
    have z: "h3 z = h2 z" using h3(4) [OF dN(3)] .
    have "rep h3 z root' ?N" using h3(2,3) dN z h2(4) n(2) by (auto simp: rep_def addr_plug)
    moreover have "h3 p = h p" if "p \<notin> addrs ?T" "p \<noteq> z" for p using that h1(3) h2(3) h3(4) by simp
    moreover have "b = Leaf \<longrightarrow> map_option rb_parent (h3 z) = Some (cpar None (D @ (Right, y, k', c, l) # C))"
      using z h2(4) q by (simp add: cpar_append)
    ultimately show ?thesis by (simp add: unlinked_def N)
  qed
  moreover have "h3 x \<noteq> None" using h3(4) [OF dN(2)] E(2) by simp
  ultimately show ?thesis by blast
qed

subsection \<open>Deletion\<close>

lemma addrs_split: "x \<in> addrs T \<Longrightarrow> \<exists>C l k c r. T = plug C (Node l x k c r)"
proof (induction T)
  case (Node l y k c r)
  then consider "x = y" | "x \<in> addrs l" | "x \<in> addrs r" by auto
  then show ?case
  proof cases
    case 1
    then show ?thesis by (intro exI [of _ "[]"]) auto
  next
    case 2
    then obtain C a k' c' b where "l = plug C (Node a x k' c' b)" using Node.IH(1) by blast
    then have "Node l y k c r = plug (C @ [(Left, y, k, c, r)]) (Node a x k' c' b)" by (simp add: plug_append)
    then show ?thesis by blast
  next
    case 3
    then obtain C a k' c' b where "r = plug C (Node a x k' c' b)" using Node.IH(2) by blast
    then have "Node l y k c r = plug (C @ [(Right, y, k, c, l)]) (Node a x k' c' b)" by (simp add: plug_append)
    then show ?thesis by blast
  qed
qed simp

lemma filter_inorder:
  assumes "dist T" "inorder T = xs @ (x, k) # ys"
  shows "filter (\<lambda>e. fst e \<noteq> x) (inorder T) = xs @ ys"
proof -
  have "distinct (map fst (inorder T))" using assms(1)
    by (induction T) (auto simp: addrs_inorder)
  then have "x \<notin> fst ` set xs" "x \<notin> fst ` set ys" using assms(2) by auto
  then have "filter (\<lambda>e. fst e \<noteq> x) xs = xs" "filter (\<lambda>e. fst e \<noteq> x) ys = ys" by (auto simp: filter_id_conv)
  then show ?thesis using assms(2) by simp
qed

definition deleted :: "rb_mem \<Rightarrow> nat \<Rightarrow> rbt \<Rightarrow> nat \<Rightarrow> (rb_mem \<times> rb_tree) option \<Rightarrow> bool" where
  "deleted h z T x res \<longleftrightarrow>
    (\<exists>h' tr' T'. res = Some (h', tr') \<and> rep h' z (rb_root tr') T' \<and> rb_sentinel tr' = Some z \<and> rb_inv T' \<and>
      inorder T' = filter (\<lambda>e. fst e \<noteq> x) (inorder T) \<and> (\<forall>q. q \<notin> addrs T \<longrightarrow> q \<noteq> z \<longrightarrow> h' q = h q))"

lemma finish_ok:
  assumes u: "unlinked h z T h1 root1 E b" "h1 x \<noteq> None" and x: "x \<notin> addrs (plug E b)" "x \<noteq> z" "x \<in> addrs T" and z: "rb_sentinel tr = Some z"
    and inv: "if d then rb_inv (plug E b) else lacking E b" and io: "inorder (plug E b) = filter (\<lambda>e. fst e \<noteq> x) (inorder T)"
  shows "deleted h z T x (rb_finish tr (Some x) (addr z b) d h1 root1)"
proof -
  obtain h2 where h2: "rb_clear h1 (Some x) = Some h2" "unlinked h z T h2 root1 E b" using clear_unlinked [OF u(1) x u(2)] by blast
  have rep: "rep h2 z root1 (plug E b)" "b = Leaf \<Longrightarrow> map_option rb_parent (h2 z) = Some (cpar None E)" "\<And>q. q \<notin> addrs T \<Longrightarrow> q \<noteq> z \<Longrightarrow> h2 q = h q"
    using h2(2) by (auto simp: unlinked_def)
  show ?thesis
  proof (cases d)
    case True
    then show ?thesis unfolding deleted_def using h2(1) rep inv io z
      by (intro exI [of _ h2] exI [of _ "tr\<lparr>rb_root := root1\<rparr>"] exI [of _ "plug E b"]) (simp add: rb_finish_def)
  next
    case False
    then have "lacking E b" using inv by simp
    from delete_fix [OF rep(1,2) this] obtain h3 root' h' temp T' where r: "rb_delete_fix h2 root1 (Some z) (addr z b) = Some (h3, root', temp)"
      "ngx_rbt_black h3 temp = Some h'" "rep h' z root' T'" "inorder T' = inorder (plug E b)" "rb_inv T'" "outside (plug E b) h2 h'" by blast
    have "addrs (plug E b) \<subseteq> addrs T" using io by (auto simp: addrs_inorder)
    then have "h' q = h q" if "q \<notin> addrs T" "q \<noteq> z" for q using that r(6) rep(3) by (auto simp: outside_def)
    then show ?thesis unfolding deleted_def using h2(1) r io z False
      by (intro exI [of _ h'] exI [of _ "tr\<lparr>rb_root := root'\<rparr>"] exI [of _ T']) (simp add: rb_finish_def)
  qed
qed

lemma subst_one:
  assumes "rep h z root (plug C (join s b x k c Leaf))"
  shows "rb_subst h (Some z) (Some x) = Some (addr z b, Some x)"
proof -
  obtain r where "h x = Some (rb_make s k (addr z b) (Some z) (cpar r C) c)" using assms by (auto elim!: repD)
  then show ?thesis using assms by (cases s; cases b) (auto simp: rb_subst_def rb_make_def rep_def)
qed

lemma delete_one:
  assumes rep: "rep h z (rb_root tr) (plug C (join s b x k c Leaf))" "rb_sentinel tr = Some z" and inv: "rb_inv (plug C (join s b x k c Leaf))"
  shows "deleted h z (plug C (join s b x k c Leaf)) x (ngx_rbtree_delete h tr (Some x))"
proof -
  let ?T = "plug C (join s b x k c Leaf)"
  have io: "inorder (plug C b) = filter (\<lambda>e. fst e \<noteq> x) (inorder ?T)"
    using rep(1) filter_inorder [of ?T "cpre C @ (if s = Left then inorder b else [])" x k "(if s = Left then [] else inorder b) @ cpost C"]
    by (cases s) (simp_all add: rep_def inorder_plug)
  have d: "x \<notin> addrs (plug C b)" "x \<noteq> z" using rep(1) by (auto simp: rep_def dist_plug)
  note subst = subst_one [OF rep(1)]
  note root = rep_root [OF rep(1)]
  show ?thesis
  proof (cases "C = []")
    case True
    obtain n where n: "h x = Some n" using rep(1) by (auto elim!: repD)
    have "rep h z (addr z b) (plug [] b)" using rep(1) True by (auto simp: rep_def)
    from rep_paint [OF this] obtain h1 where h1: "ngx_rbt_black h (addr z b) = Some h1" "rep h1 z (addr z b) (paint b)" "outside b h h1" by auto
    let ?h = "h1(x \<mapsto> n\<lparr>rb_left := None, rb_right := None, rb_parent := None, rb_key := 0\<rparr>)"
    have x: "h1 x = Some n" using h1(3) n d True by (simp add: outside_def)
    have "holds ?h z r (paint b) = holds h1 z r (paint b)" for r using d True by (intro holds_cong) auto
    then have "rep ?h z (addr z b) (paint b)" using h1(2) d(2) by (auto simp: rep_def)
    moreover have "rb_inv (paint b)" using inv True bh_paint [of b] by (auto simp: rb_inv_def cok_paint split: option.splits if_splits)
    moreover have "ngx_rbtree_delete h tr (Some x) = Some (?h, tr\<lparr>rb_root := addr z b\<rparr>)"
    proof -
      have "rb_root tr = Some x" using root True by simp
      then show ?thesis using subst rep(2) h1(1) x by (simp add: ngx_rbtree_delete_def rb_clear_def)
    qed
    ultimately show ?thesis unfolding deleted_def using io True rep(2) h1(3)
      by (intro exI [of _ ?h] exI [of _ "tr\<lparr>rb_root := addr z b\<rparr>"] exI [of _ "paint b"]) (auto simp: outside_def)
  next
    case False
    obtain h1 where h1: "rb_unlink h (rb_root tr) (Some z) (Some x) (addr z b) (Some x) = Some (h1, rb_root tr)"
      "unlinked h z ?T h1 (rb_root tr) C b" "h1 x \<noteq> None" using unlink_one [OF rep(1) False] by blast
    have "deleted h z ?T x (rb_finish tr (Some x) (addr z b) c h1 (rb_root tr))"
      using finish_ok [OF h1(2,3) d _ rep(2) removed [OF inv False] io] by simp
    moreover have "ngx_rbt_is_red h (Some x) = Some c" using rep_is_red [OF rep(1)] by simp
    ultimately show ?thesis using subst root False rep(2) h1(1) by (simp add: ngx_rbtree_delete_def)
  qed
qed

lemma delete_two:
  assumes rep: "rep h z (rb_root tr) (plug C (Node l x k c r))" "rb_sentinel tr = Some z" and inv: "rb_inv (plug C (Node l x k c r))" and "l \<noteq> Leaf" "r \<noteq> Leaf"
  shows "deleted h z (plug C (Node l x k c r)) x (ngx_rbtree_delete h tr (Some x))"
proof -
  let ?T = "plug C (Node l x k c r)"
  obtain q where q: "h x = Some (rb_make Left k (addr z l) (addr z r) (cpar q C) c)" "holds h z (Some x) r" using rep(1) by (auto simp: rep_def holds_plug)
  have d: "z \<notin> addrs l" "z \<notin> addrs r" "x \<noteq> z" using rep(1) by (auto simp: rep_def)
  then have ne: "addr z l \<noteq> Some z" "addr z r \<noteq> Some z" using assms(4,5) by (cases l; cases r; auto)+
  obtain D y k' c' b where D: "ngx_rbtree_min h (addr z r) (Some z) = Some (Some y)" "r = plug D (Node Leaf y k' c' b)" "cpre D = []"
    using min_ok [OF q(2) assms(5) d(2)] by blast
  let ?E = "D @ (Right, x, k, c, l) # C" and ?F = "D @ (Right, y, k', c, l) # C"
  have T: "?T = plug ?E (Node Leaf y k' c' b)" using D(2) by (simp add: plug_append)
  note rep' = rep(1) [unfolded T]
  have y: "\<exists>p. h y = Some (rb_make Left k' (Some z) (addr z b) p c')" using rep' by (auto simp: rep_def holds_plug)
  have subst: "rb_subst h (Some z) (Some x) = Some (addr z b, Some y)" using q(1) ne D(1) y by (auto simp: rb_subst_def)
  obtain h1 root1 where h1: "rb_unlink h (rb_root tr) (Some z) (Some x) (addr z b) (Some y) = Some (h1, root1)" "unlinked h z ?T h1 root1 ?F b" "h1 x \<noteq> None"
    using unlink_two [OF rep'] T by auto
  have F: "plug ?F b = plug C (Node l y k' c (plug D b))" by (simp add: plug_append)
  have "x \<notin> addrs (plug ?F b)" using rep(1) D(2) unfolding F by (auto simp: rep_def dist_plug)
  moreover have "if c' then rb_inv (plug ?F b) else lacking ?F b"
  proof -
    have "rb_inv (plug ?E (join Right b y k' c' Leaf))" using inv T by simp
    from removed [OF this] show ?thesis
      by (auto simp: rb_inv_def lacking_def bh_plug cok_plug red_plug relabel [where x = x and k = k and y = y and k' = k']
        split: if_splits option.splits)
  qed
  moreover have "inorder (plug ?F b) = filter (\<lambda>e. fst e \<noteq> x) (inorder ?T)"
    using rep(1) filter_inorder [of ?T "cpre C @ inorder l" x k "inorder r @ cpost C"] D(2,3) unfolding F by (simp add: rep_def inorder_plug)
  ultimately have "deleted h z ?T x (rb_finish tr (Some x) (addr z b) c' h1 root1)" using finish_ok [OF h1(2,3) _ d(3) _ rep(2)] by simp
  moreover have "Some y \<noteq> rb_root tr" using rep_root [OF rep'] by simp
  moreover have "ngx_rbt_is_red h (Some y) = Some c'" using rep_is_red [OF rep'] by simp
  ultimately show ?thesis using subst rep(2) h1(1) by (simp add: ngx_rbtree_delete_def)
qed

lemma delete_ok:
  assumes "rep h z (rb_root tr) T" "rb_sentinel tr = Some z" "rb_inv T" "x \<in> addrs T"
  shows "deleted h z T x (ngx_rbtree_delete h tr (Some x))"
proof -
  obtain C l k c r where T: "T = plug C (Node l x k c r)" using addrs_split [OF assms(4)] by blast
  consider "l = Leaf" | "r = Leaf" | "l \<noteq> Leaf" "r \<noteq> Leaf" by blast
  then show ?thesis
  proof cases
    case 1
    then show ?thesis using delete_one [of h z tr C Right r x k c] assms T by simp
  next
    case 2
    then show ?thesis using delete_one [of h z tr C Left l x k c] assms T by simp
  next
    case 3
    then show ?thesis using delete_two assms T by simp
  qed
qed

subsection \<open>Sequences of operations\<close>

text \<open>A node is filled in by the caller and inserted, or a node of the tree is deleted.\<close>

datatype rb_op = Rb_insert nat rb_node | Rb_delete nat

fun rb_step :: "(rb_mem \<Rightarrow> ptr \<Rightarrow> ptr \<Rightarrow> ptr \<Rightarrow> rb_mem option) \<Rightarrow> rb_op \<Rightarrow> rb_mem \<times> rb_tree \<Rightarrow> (rb_mem \<times> rb_tree) option" where
  "rb_step ins (Rb_insert x n) (h, tree) = ngx_rbtree_insert ins (h(x \<mapsto> n)) tree (Some x)"
| "rb_step ins (Rb_delete x) (h, tree) = ngx_rbtree_delete h tree (Some x)"

fun rb_run :: "(rb_mem \<Rightarrow> ptr \<Rightarrow> ptr \<Rightarrow> ptr \<Rightarrow> rb_mem option) \<Rightarrow> rb_op list \<Rightarrow> rb_mem \<times> rb_tree \<Rightarrow> (rb_mem \<times> rb_tree) option" where
  "rb_run ins [] st = Some st"
| "rb_run ins (op # ops) st = Option.bind (rb_step ins op st) (rb_run ins ops)"

text \<open>The same on the list of the entries, and what the callers owe: a new node, whose key is in the set, or a node of the tree.\<close>

fun list_step :: "(u64 \<Rightarrow> u64 \<Rightarrow> bool) \<Rightarrow> rb_op \<Rightarrow> (nat \<times> u64) list \<Rightarrow> (nat \<times> u64) list" where
  "list_step lt (Rb_insert x n) xs = place lt (x, rb_key n) xs"
| "list_step lt (Rb_delete x) xs = filter (\<lambda>e. fst e \<noteq> x) xs"

fun valid_op :: "u64 set \<Rightarrow> nat \<Rightarrow> rb_op \<Rightarrow> (nat \<times> u64) list \<Rightarrow> bool" where
  "valid_op S z (Rb_insert x n) xs = (x \<noteq> z \<and> x \<notin> fst ` set xs \<and> rb_key n \<in> S)"
| "valid_op S z (Rb_delete x) xs = (x \<in> fst ` set xs)"

fun valid_ops :: "(u64 \<Rightarrow> u64 \<Rightarrow> bool) \<Rightarrow> u64 set \<Rightarrow> nat \<Rightarrow> rb_op list \<Rightarrow> (nat \<times> u64) list \<Rightarrow> bool" where
  "valid_ops lt S z [] xs = True"
| "valid_ops lt S z (op # ops) xs = (valid_op S z op xs \<and> valid_ops lt S z ops (list_step lt op xs))"

definition rb_refines :: "nat \<Rightarrow> (nat \<times> u64) list \<Rightarrow> rb_mem \<times> rb_tree \<Rightarrow> bool" where
  "rb_refines z xs = (\<lambda>(h, tree). \<exists>T. rep h z (rb_root tree) T \<and> rb_sentinel tree = Some z \<and> rb_inv T \<and> inorder T = xs)"

fun height :: "rbt \<Rightarrow> nat" where
  "height Leaf = 0"
| "height (Node l x k c r) = Suc (max (height l) (height r))"

lemma bh_size: "bh t = Some n \<Longrightarrow> 2 ^ n \<le> Suc (length (inorder t))"
proof (induction t arbitrary: n)
  case (Node l x k c r)
  then obtain m where m: "bh l = Some m" "bh r = Some m" "n = m + of_bool (\<not> c)" by (auto split: option.splits if_splits)
  have "2 ^ m \<le> Suc (length (inorder l))" "2 ^ m \<le> Suc (length (inorder r))" using Node.IH m(1,2) by auto
  then show ?case using m(3) by (cases c) auto
qed simp

lemma bh_height: "bh t = Some n \<Longrightarrow> cok t \<Longrightarrow> height t \<le> 2 * n + of_bool (red t)"
proof (induction t arbitrary: n)
  case (Node l x k c r)
  then obtain m where m: "bh l = Some m" "bh r = Some m" "n = m + of_bool (\<not> c)" by (auto split: option.splits if_splits)
  have "height l \<le> 2 * m + of_bool (red l)" "height r \<le> 2 * m + of_bool (red r)" using Node m(1,2) by auto
  moreover have "c \<longrightarrow> \<not> red l \<and> \<not> red r" using Node.prems(2) by simp
  ultimately show ?case using m(3) by (cases c; cases "red l"; cases "red r") auto
qed simp

lemma rb_height:
  assumes "rb_inv T"
  shows "2 ^ (height T div 2) \<le> Suc (length (inorder T))"
proof -
  obtain n where n: "bh T = Some n" "cok T" "\<not> red T" using assms by (auto simp: rb_inv_def)
  have "(2 :: nat) ^ (height T div 2) \<le> 2 ^ n" using bh_height [OF n(1,2)] n(3) by (intro power_increasing) auto
  from order_trans [OF this bh_size [OF n(1)]] show ?thesis .
qed

context key_order
begin

lemma step_ok:
  assumes "rb_refines z xs st" "ordered xs" "valid_op S z op xs"
  shows "\<exists>st'. rb_step (rb_insert_below lt) op st = Some st' \<and> rb_refines z (list_step lt op xs) st' \<and> ordered (list_step lt op xs)"
proof -
  obtain h tr where st: "st = (h, tr)" by fastforce
  obtain T where T: "rep h z (rb_root tr) T" "rb_sentinel tr = Some z" "rb_inv T" "inorder T = xs" using assms(1) st by (auto simp: rb_refines_def)
  show ?thesis
  proof (cases op)
    case (Rb_insert x n)
    then have x: "x \<noteq> z" "x \<notin> addrs T" "rb_key n \<in> S" using assms(3) T(4) by (auto simp: addrs_inorder)
    let ?h = "h(x \<mapsto> n)"
    have "holds ?h z r T = holds h z r T" for r using x(2) by (intro holds_cong) auto
    then have "rep ?h z (rb_root tr) T" using T(1) x(1) by (auto simp: rep_def)
    from insert_ok [OF this T(2,3) _ _ x(3,2,1)] show ?thesis
      using assms(2) T(4) Rb_insert st by (fastforce simp: rb_refines_def)
  next
    case (Rb_delete x)
    then have "x \<in> addrs T" using assms(3) T(4) by (auto simp: addrs_inorder)
    moreover have "ordered (filter (\<lambda>e. fst e \<noteq> x) xs)" using assms(2) by (auto simp: ordered_def intro: sorted_wrt_filter)
    ultimately show ?thesis using delete_ok [OF T(1-3), of x] T(4) Rb_delete st by (auto simp: deleted_def rb_refines_def)
  qed
qed

lemma run_ok:
  assumes "rb_refines z xs st" "ordered xs" "valid_ops lt S z ops xs"
  shows "\<exists>st'. rb_run (rb_insert_below lt) ops st = Some st' \<and> rb_refines z (fold (list_step lt) ops xs) st' \<and> ordered (fold (list_step lt) ops xs)"
  using assms
proof (induction ops arbitrary: xs st)
  case (Cons op ops)
  obtain st1 where "rb_step (rb_insert_below lt) op st = Some st1" "rb_refines z (list_step lt op xs) st1" "ordered (list_step lt op xs)"
    using step_ok [of z xs st op] Cons.prems by auto
  then show ?case using Cons.IH [of "list_step lt op xs" st1] Cons.prems(3) by auto
qed auto

end

lemma init_ok: "h z \<noteq> None \<Longrightarrow> \<exists>st. ngx_rbtree_init h (Some z) = Some st \<and> rb_refines z [] st"
  by (auto simp: ngx_rbtree_init_def ngx_rbt_black_def rb_refines_def rep_def rb_inv_def intro!: exI [of _ Leaf])

lemma min_hd:
  assumes "rep h z root T" "T \<noteq> Leaf"
  shows "\<exists>y. ngx_rbtree_min h root (Some z) = Some (Some y) \<and> fst (hd (inorder T)) = y"
proof -
  obtain r where r: "holds h z r T" "z \<notin> addrs T" "root = addr z T" using assms(1) by (auto simp: rep_def)
  obtain D y k c b where "ngx_rbtree_min h root (Some z) = Some (Some y)" "T = plug D (Node Leaf y k c b)" "cpre D = []"
    using min_ok [OF r(1) assms(2) r(2)] r(3) by blast
  then show ?thesis by (auto simp: inorder_plug)
qed

text \<open>
  C2. The tree implements a sorted list.  From \<open>ngx_rbtree_init\<close> on, every sequence of insertions of new nodes and deletions of nodes
  of the tree returns; the memory then holds a red-black tree with consistent links in both directions, whose nodes in order are
  those of a list into which the same entries were put, each behind the entries with keys up to its own, and from which the same
  entries were taken; and no path is longer than twice the logarithm of the number of nodes.
\<close>

theorem rbtree_refines:
  assumes "h z \<noteq> None" "valid_ops (<) UNIV z ops []"
  shows "\<exists>h' tree T. Option.bind (ngx_rbtree_init h (Some z)) (rb_run ngx_rbtree_insert_value ops) = Some (h', tree) \<and>
    rep h' z (rb_root tree) T \<and> rb_inv T \<and> inorder T = fold (list_step (<)) ops [] \<and> sorted (map snd (inorder T)) \<and>
    2 ^ (height T div 2) \<le> Suc (length (inorder T))"
proof -
  obtain st where st: "ngx_rbtree_init h (Some z) = Some st" "rb_refines z [] st" using init_ok assms(1) by blast
  have "value_order.ordered []" by (simp add: value_order.ordered_def)
  from value_order.run_ok [OF st(2) this assms(2)] obtain h' tree where
    r: "rb_run ngx_rbtree_insert_value ops st = Some (h', tree)" "rb_refines z (fold (list_step (<)) ops []) (h', tree)"
      "value_order.ordered (fold (list_step (<)) ops [])" by (auto simp: ngx_rbtree_insert_value_def)
  then obtain T where T: "rep h' z (rb_root tree) T" "rb_inv T" "inorder T = fold (list_step (<)) ops []" by (auto simp: rb_refines_def)
  moreover have "sorted (map snd (inorder T))" using r(3) T(3) by (simp add: value_order.ordered_def sorted_wrt_map not_less)
  moreover have "Option.bind (ngx_rbtree_init h (Some z)) (rb_run ngx_rbtree_insert_value ops) = Some (h', tree)" using st(1) r(1) by simp
  ultimately show ?thesis using rb_height [OF T(2)] by blast
qed

definition rb_blank :: "u64 \<Rightarrow> rb_node" where
  "rb_blank k = \<lparr>rb_key = k, rb_left = None, rb_right = None, rb_parent = None, rb_color = 0\<rparr>"

definition rb_ops :: "rb_op list" where
  "rb_ops = map (\<lambda>i. Rb_insert i (rb_blank (of_nat (7 * i mod 10)))) [1, 2, 3, 4, 5, 6, 7, 8, 9] @ [Rb_delete 3, Rb_delete 7, Rb_insert 3 (rb_blank 5), Rb_delete 1]"

theorem rbtree_refines_witness:
  "\<exists>h' tree T. Option.bind (ngx_rbtree_init ((\<lambda>_. None)(0 \<mapsto> rb_blank 0)) (Some 0)) (rb_run ngx_rbtree_insert_value rb_ops) = Some (h', tree) \<and>
    rep h' 0 (rb_root tree) T \<and> rb_inv T \<and> inorder T = [(6, 2), (9, 3), (2, 4), (5, 5), (3, 5), (8, 6), (4, 8)]"
proof -
  have h: "((\<lambda>_. None)(0 \<mapsto> rb_blank 0)) 0 \<noteq> None" by simp
  have v: "valid_ops (<) UNIV 0 rb_ops []" by code_simp
  have "fold (list_step (<)) rb_ops [] = [(6, 2), (9, 3), (2, 4), (5, 5), (3, 5), (8, 6), (4, 8)]" by code_simp
  then show ?thesis using rbtree_refines [where h = "(\<lambda>_. None)(0 \<mapsto> rb_blank 0)", OF h v] by auto
qed

text \<open>
  C10. Timers.  In a tree filled with \<open>ngx_rbtree_insert_timer_value\<close>, where the times may wrap around but never spread over more than half
  of the range of the clock, \<open>ngx_rbtree_min\<close> finds after every sequence of insertions and deletions that leaves a timer the one to
  expire first.
\<close>

theorem timer_min_first:
  assumes "h z \<noteq> None" "valid_ops timer_less (window base) z ops []" "fold (list_step timer_less) ops [] \<noteq> []"
  shows "\<exists>h' tree x k. Option.bind (ngx_rbtree_init h (Some z)) (rb_run ngx_rbtree_insert_timer_value ops) = Some (h', tree) \<and>
    ngx_rbtree_min h' (rb_root tree) (Some z) = Some (Some x) \<and> (x, k) \<in> set (fold (list_step timer_less) ops []) \<and>
    (\<forall>(x', k') \<in> set (fold (list_step timer_less) ops []). uint (k - base) \<le> uint (k' - base))"
proof -
  let ?xs = "fold (list_step timer_less) ops []"
  obtain st where st: "ngx_rbtree_init h (Some z) = Some st" "rb_refines z [] st" using init_ok assms(1) by blast
  have "timer_order.ordered base []" by (simp add: timer_order.ordered_def)
  from timer_order.run_ok [OF st(2) this assms(2)] obtain h' tree where
    r: "rb_run ngx_rbtree_insert_timer_value ops st = Some (h', tree)" "rb_refines z ?xs (h', tree)" "timer_order.ordered base ?xs"
    by (auto simp: ngx_rbtree_insert_timer_value_def)
  then obtain T where T: "rep h' z (rb_root tree) T" "inorder T = ?xs" by (auto simp: rb_refines_def)
  then have "T \<noteq> Leaf" using assms(3) by auto
  from min_hd [OF T(1) this] obtain x where x: "ngx_rbtree_min h' (rb_root tree) (Some z) = Some (Some x)" "fst (hd ?xs) = x" using T(2) by auto
  obtain k ys where xs: "?xs = (x, k) # ys" using x(2) assms(3) by (cases ?xs) auto
  have "uint (k - base) \<le> uint (k' - base)" if "(x', k') \<in> set ?xs" for x' k'
  proof -
    have "\<not> timer_less k' k \<or> k' = k" "k \<in> window base" "k' \<in> window base" using r(3) that unfolding xs timer_order.ordered_def by auto
    then show ?thesis using timer_less_window [of k' base k] by auto
  qed
  then show ?thesis using st(1) r(1) x(1) xs by (intro exI [of _ h'] exI [of _ tree] exI [of _ x] exI [of _ k]) auto
qed

definition timer_ops :: "rb_op list" where
  "timer_ops = [Rb_insert 1 (rb_blank 5), Rb_insert 2 (rb_blank (- 3)), Rb_insert 3 (rb_blank 9), Rb_insert 4 (rb_blank (- 20)), Rb_delete 4, Rb_insert 5 (rb_blank 0)]"

theorem timer_min_first_witness:
  "\<exists>h' tree. Option.bind (ngx_rbtree_init ((\<lambda>_. None)(0 \<mapsto> rb_blank 0)) (Some 0)) (rb_run ngx_rbtree_insert_timer_value timer_ops) = Some (h', tree) \<and>
    ngx_rbtree_min h' (rb_root tree) (Some 0) = Some (Some 2)"
proof -
  have h: "((\<lambda>_. None)(0 \<mapsto> rb_blank 0)) 0 \<noteq> None" by simp
  have v: "valid_ops timer_less (window (- 50)) 0 timer_ops []"
    by (simp add: timer_ops_def window_def timer_less_def place_def rb_blank_def)
  have xs: "fold (list_step timer_less) timer_ops [] = [(2, - 3), (5, 0), (1, 5), (3, 9)]"
    by (simp add: timer_ops_def timer_less_def place_def rb_blank_def)
  then have ne: "fold (list_step timer_less) timer_ops [] \<noteq> []" by simp
  obtain h' tree x k where r: "Option.bind (ngx_rbtree_init ((\<lambda>_. None)(0 \<mapsto> rb_blank 0)) (Some 0)) (rb_run ngx_rbtree_insert_timer_value timer_ops) = Some (h', tree)"
    "ngx_rbtree_min h' (rb_root tree) (Some 0) = Some (Some x)" "(x, k :: u64) \<in> set [(2, - 3), (5, 0), (1, 5), (3, 9)]"
    "\<forall>(x', k') \<in> set [(2 :: nat, - 3 :: u64), (5, 0), (1, 5), (3, 9)]. uint (k - (- 50)) \<le> uint (k' - (- 50))"
    using timer_min_first [where h = "(\<lambda>_. None)(0 \<mapsto> rb_blank 0)", OF h v ne] unfolding xs by blast
  have "x = 2" using r(3,4) by auto
  then show ?thesis using r(1,2) by blast
qed

end
