(* ===== verification/Spec2Isabelle.thy ===== *)
theory Spec2Isabelle
  imports Ngx_Request_Line_Accepts Ngx_Header_Line_Correct Ngx_Request_Uri Ngx_Status_Line Ngx_Strings_Correct
    Ngx_Uri_Args Ngx_Parse Ngx_Utf8 Ngx_Escape Ngx_Sort Ngx_Times Ngx_Round_Robin Ngx_Radix_Tree
    Ngx_Mail_Session_Correct Ngx_Rbtree_Correct
begin

text \<open>
  A verification of parts of nginx 1.0.15, whose source is below \<open>src/nginx/1.0.15/src\<close> (all file names here are relative to
  it).  nginx is an HTTP server and proxy: an event loop reads bytes from connections into buffers, the parsers of
  \<open>http/ngx_http_parse.c\<close> turn them into a request, handlers produce a response with the help of the libraries in
  \<open>core\<close>, and, as a proxy, pass the request to one of several upstream servers.  The development models the code that
  computes on these data: parsers, conversions, search structures, the choice of the server, and the
  dialogue of the mail proxy with its clients.

  \<^bold>\<open>Conventions.\<close>  A byte is an \<open>8 word\<close>, a buffer a list of bytes, a pointer into it an index, a pointer to a structure a
  \<open>nat option\<close> with \<open>None\<close> for \<open>NULL\<close>.  Integers that can wrap around are words of their width.  A function that can
  read outside of its memory, or follow \<open>NULL\<close>, returns an \<open>option\<close> with \<open>None\<close> for that; theorems then say when the
  result is a \<open>Some\<close>.  Loops are recursive functions with a termination proof; a loop whose termination depends on the
  shape of the data is a \<open>partial_function\<close>, and its theorems prove that it returns.

  \<^bold>\<open>Theories.\<close>

  \<^item> \<open>Ngx_Prelude\<close>: types, character constants, generic lemmas on lists and words.

  \<^item> \<open>Ngx_Scan\<close>: the shape that the state-machine parsers share.  A parser is a step function on a state and a byte; the
  driver runs it over a buffer until a result or the end of the buffer.  The locale \<open>resumable\<close> proves once that a parser
  that saves its state at the end of a buffer gives the same result when the input arrives in pieces.

  \<^item> \<open>Ngx_Request\<close>, \<open>Ngx_Request_Line\<close>, \<open>Ngx_Request_Line_Correct\<close>, \<open>Ngx_Request_Line_Accepts\<close>:
  \<open>ngx_http_parse_request_line\<close>.  The structure of every accepted line, resumption, bounds; and the acceptance of all request
  lines with a path and a version, with or without scheme, host and port, with every field of the request.  Lines without a
  version (HTTP/0.9), without a path behind the host, and with spaces in the URI are in the model but not in this class.

  \<^item> \<open>Ngx_Header_Line\<close>, \<open>Ngx_Header_Line_Correct\<close>, \<open>Ngx_Hash_Key\<close>: \<open>ngx_http_parse_header_line\<close> with the ring buffer for the
  lower-case name and the hash of the name (\<open>core/ngx_hash.c\<close>).

  \<^item> \<open>Ngx_Complex_Uri\<close>, \<open>Ngx_Complex_Uri_Correct\<close>: \<open>ngx_http_parse_complex_uri\<close>, which decodes percent escapes, merges slashes and
  resolves dot segments in one pass.  It refines a specification on lists of segments; the result has no dot segment
  that another segment follows, so that it does not leave the root there, while a \<open>..\<close> at its very end is kept.

  \<^item> \<open>Ngx_Request_Uri\<close>: the code of \<open>http/ngx_http_request.c\<close> between these two parsers.  The buffer it allocates for the
  normalised URI leaves the query string out; the output fits into it for every accepted request line.

  \<^item> \<open>Ngx_Status_Line\<close>: \<open>ngx_http_parse_status_line\<close> for responses of upstream servers.

  \<^item> \<open>Ngx_Strings\<close>, \<open>Ngx_Strings_Correct\<close>, \<open>Ngx_Uri_Args\<close>: copying, comparing and searching of strings in \<open>core/ngx_string.c\<close>;
  \<open>ngx_http_parse_unsafe_uri\<close>, \<open>ngx_http_parse_multi_header_lines\<close>, \<open>ngx_http_arg\<close>, \<open>ngx_http_split_args\<close>.

  \<^item> \<open>Ngx_Numbers\<close>, \<open>Ngx_Parse\<close>: \<open>ngx_atoi\<close> and its relatives, \<open>core/ngx_parse.c\<close>: values, and what happens on overflow.

  \<^item> \<open>Ngx_Base64\<close>, \<open>Ngx_Utf8\<close>, \<open>Ngx_Escape\<close>: the codecs of \<open>core/ngx_string.c\<close>.  The locale \<open>codec\<close> states what an encoder and a
  decoder owe each other; it is interpreted for Base64, URI and HTML escaping.  Which characters are escaped is specified by
  ranges of codes, apart from the tables of the code.

  \<^item> \<open>Ngx_Sort\<close>: \<open>ngx_sort\<close> with any comparison function that orders the elements of the array (locale \<open>sort_order\<close>), and the
  comparison functions for addresses to listen on, which order them under a condition that is stated there.

  \<^item> \<open>Ngx_Sprintf\<close>, \<open>Ngx_Times\<close>: \<open>ngx_vslprintf\<close>; \<open>ngx_gmtime\<close>, \<open>ngx_http_time\<close> and \<open>ngx_http_parse_time\<close>, which are inverse to each
  other.

  \<^item> \<open>Ngx_Round_Robin\<close>: \<open>http/ngx_http_upstream_round_robin.c\<close> and the choice by client address.  Requests are interleaved
  steps on the shared state of the peers; an invariant holds in all reachable states, and the choice is fair.  Both need a
  server that is not a backup and a number of backup addresses that is not a multiple of 64: without these the code leaves its
  arrays (lemmas \<open>only_backups\<close> and \<open>tried_overflow\<close>).

  \<^item> \<open>Ngx_Radix_Tree\<close>: \<open>core/ngx_radix_tree.c\<close>.  The nodes are in a memory and linked by pointers; the operations refine those
  of a map from prefixes to values, but for the deletion of the empty prefix from a bare root, which follows \<open>NULL\<close>.

  \<^item> \<open>Ngx_Mail_Parse\<close>, \<open>Ngx_Mail_Parse_Correct\<close>: the command parsers of \<open>mail/ngx_mail_parse.c\<close> for POP3, SMTP and IMAP, as step
  functions for \<open>Ngx_Scan\<close>.  The locale \<open>mail_parser\<close> gives resumption for all three; the arguments of POP3 and SMTP
  commands lie in the bytes read.

  \<^item> \<open>Ngx_Mail_Session\<close>, \<open>Ngx_Mail_Session_Correct\<close>: the sessions of the mail proxy before the login (\<open>mail/ngx_mail_handler.c\<close> and
  the handlers of the three protocols).  A session is a record with the read handler of its connection as a field; an event
  carries what the connection answers to the calls it leads to, so that a list of events is any run of a session.  The locale
  \<open>mail_protocol\<close> proves the invariant of a session for every protocol whose parser and command dispatch keep their part of
  it; it is interpreted for POP3 and SMTP.  It starts when the read event of the connection is registered: if that fails the code
  uses a closed connection (lemma \<open>mail_greet_closed\<close>).  SMTP starts with \<open>ngx_mail_smtp_greeting\<close>, the delay before it and clients that
  do not wait for it included.  For IMAP, where the parser leaves stale pointers, only the rule that a login
  needs TLS is proved.

  \<^item> \<open>Ngx_Rbtree\<close>, \<open>Ngx_Rbtree_Correct\<close>: \<open>core/ngx_rbtree.c\<close>.  The memory is a map from addresses to nodes with pointers in both
  directions, and the loops are partial functions.  The correctness theory describes the memory by a functional tree and the
  position of a loop by the path above it, shows what a rotation and a change of colour do there, and follows the rebalancing
  loops to their end.  The locale \<open>key_order\<close> holds what an order of the keys must satisfy for the insertion; it is interpreted for
  the plain comparison and, for keys within half of the range of the clock, for that of timers.  Every sequence of operations
  returns and refines that on a sorted list.

  \<^bold>\<open>Not modelled.\<close>  Everything whose effect is a system call or a callback of the event loop: sockets, files, processes,
  shared memory, the expiry of timers, the phases of a request and the filters over chains of buffers, and the modules that call
  libraries (OpenSSL, PCRE, zlib).  The pool that the modelled code allocates from appears as the number of pages or the
  success of an allocation.  The stand-alone programs of the repository are beside nginx and not modelled.
\<close>

end
